(* ===== verification/Relay_Prelude.thy ===== *)
theory Relay_Prelude
  imports Main "HOL-Library.AList" "HOL-Library.Word" "HOL-Library.Char_ord"
    "HOL-Library.List_Lexorder" "HOL-Library.Sublist"
begin

text \<open>
  Shared vocabulary of the development: what the relay uses of the Go language and its
  standard library (byte strings, \<^verbatim>\<open>strings\<close>, \<^verbatim>\<open>strconv\<close>, \<^verbatim>\<open>time\<close>, maps), with
  the generic lemmas the component theories share.

  A Go string or byte slice is a \<^typ>\<open>string\<close>, that is a list of bytes; an unsigned 64-bit
  counter is a \<^typ>\<open>64 word\<close>; a \<^verbatim>\<open>time.Time\<close> is an \<^typ>\<open>int\<close>, nanoseconds since the Unix epoch,
  and a \<^verbatim>\<open>time.Duration\<close> is an \<^typ>\<open>int\<close> number of nanoseconds. A Go map whose iteration
  matters is an association list with distinct keys (\<^verbatim>\<open>HOL-Library.AList\<close>); the order of the
  list is one of the iteration orders Go may choose.
\<close>

named_theorems go_string \<open>unfolding rules for the string library of the model\<close>
named_theorems route_simps \<open>facts about routes and routing keys\<close>

type_synonym bytes = string
type_synonym u64 = "64 word"
type_synonym time = int
type_synonym duration = int
type_synonym ('k, 'v) gomap = "('k \<times> 'v) list"

section \<open>Definitions\<close>

subsection \<open>Durations and instants\<close>

definition Millisecond :: duration where "Millisecond = 1000000"
definition Second :: duration where "Second = 1000000000"
definition Minute :: duration where "Minute = 60 * Second"
definition Hour :: duration where "Hour = 60 * Minute"

lemmas duration_defs = Millisecond_def Second_def Minute_def Hour_def

text \<open>The zero \<^verbatim>\<open>time.Time\<close> is the first instant of year 1.\<close>

definition zero_time :: time where "zero_time = - 62135596800 * 1000000000"

definition IsZero :: "time \<Rightarrow> bool" where "IsZero t \<longleftrightarrow> t = zero_time"

text \<open>Two's complement wrap-around of 64-bit signed arithmetic.\<close>

definition wrap64 :: "int \<Rightarrow> int" where
  "wrap64 x = (x + 2 ^ 63) mod 2 ^ 64 - 2 ^ 63"

text \<open>
  \<^verbatim>\<open>Time.Sub\<close> saturates at the ends of the 64-bit duration range; \<^verbatim>\<open>time.Unix\<close> rebases its
  seconds on year 1 with 64-bit wrap-around.
\<close>

definition time_sub :: "time \<Rightarrow> time \<Rightarrow> duration" where
  "time_sub t u = max (- (2 ^ 63)) (min (2 ^ 63 - 1) (t - u))"

definition time_Unix :: "int \<Rightarrow> time" where
  "time_Unix sec = (wrap64 (sec + 62135596800) - 62135596800) * 1000000000"

definition unix_seconds :: "time \<Rightarrow> int" where
  "unix_seconds t = t div 1000000000"

subsection \<open>The strings package\<close>

definition has_prefix :: "string \<Rightarrow> string \<Rightarrow> bool" where
  "has_prefix s p \<longleftrightarrow> take (length p) s = p"

definition has_suffix :: "string \<Rightarrow> string \<Rightarrow> bool" where
  "has_suffix s p \<longleftrightarrow> has_prefix (rev s) (rev p)"

definition trim_prefix :: "string \<Rightarrow> string \<Rightarrow> string" where
  "trim_prefix s p = (if has_prefix s p then drop (length p) s else s)"

definition trim_suffix :: "string \<Rightarrow> string \<Rightarrow> string" where
  "trim_suffix s p = (if has_suffix s p then take (length s - length p) s else s)"

definition contains_any :: "string \<Rightarrow> string \<Rightarrow> bool" where
  "contains_any s cs \<longleftrightarrow> list_ex (\<lambda>c. c \<in> set cs) s"

fun contains_str :: "string \<Rightarrow> string \<Rightarrow> bool" where
  "contains_str [] p \<longleftrightarrow> p = []"
| "contains_str (c # s) p \<longleftrightarrow> has_prefix (c # s) p \<or> contains_str s p"

text \<open>\<^verbatim>\<open>strings.Split\<close> with a one-byte separator: never empty, and the separators are dropped.\<close>

fun split_on :: "char \<Rightarrow> string \<Rightarrow> string list" where
  "split_on c [] = [[]]"
| "split_on c (x # xs) =
     (if x = c then [] # split_on c xs
      else (case split_on c xs of [] \<Rightarrow> [[x]] | w # ws \<Rightarrow> (x # w) # ws))"

text \<open>
  \<^verbatim>\<open>strings.TrimSpace\<close> removes the UTF-8 encodings of the code points for which
  \<^verbatim>\<open>unicode.IsSpace\<close> holds, from both ends.
\<close>

definition byte :: "nat \<Rightarrow> char" where "byte n = char_of n"

definition space_runes :: "string list" where
  "space_runes =
     [[CHR 0x09], [CHR 0x0A], [CHR 0x0B], [CHR 0x0C],
      [CHR 0x0D], [CHR 0x20], [CHR 0xC2, CHR 0x85], [CHR 0xC2, CHR 0xA0],
      [CHR 0xE1, CHR 0x9A, CHR 0x80], [CHR 0xE2, CHR 0x80, CHR 0xA8], [CHR 0xE2, CHR 0x80, CHR 0xA9], [CHR 0xE2, CHR 0x80, CHR 0xAF],
      [CHR 0xE2, CHR 0x81, CHR 0x9F], [CHR 0xE3, CHR 0x80, CHR 0x80], [CHR 0xE2, CHR 0x80, CHR 0x80], [CHR 0xE2, CHR 0x80, CHR 0x81],
      [CHR 0xE2, CHR 0x80, CHR 0x82], [CHR 0xE2, CHR 0x80, CHR 0x83], [CHR 0xE2, CHR 0x80, CHR 0x84], [CHR 0xE2, CHR 0x80, CHR 0x85],
      [CHR 0xE2, CHR 0x80, CHR 0x86], [CHR 0xE2, CHR 0x80, CHR 0x87], [CHR 0xE2, CHR 0x80, CHR 0x88], [CHR 0xE2, CHR 0x80, CHR 0x89],
      [CHR 0xE2, CHR 0x80, CHR 0x8A]]"

fun trim_runes :: "nat \<Rightarrow> string list \<Rightarrow> string \<Rightarrow> string" where
  "trim_runes 0 rs s = s"
| "trim_runes (Suc n) rs s =
     (case find (\<lambda>r. has_prefix s r) rs of
        None \<Rightarrow> s
      | Some r \<Rightarrow> trim_runes n rs (drop (length r) s))"

definition trim_left :: "string \<Rightarrow> string" where
  "trim_left s = trim_runes (length s) space_runes s"

definition trim_right :: "string \<Rightarrow> string" where
  "trim_right s = rev (trim_runes (length s) (map rev space_runes) (rev s))"

definition TrimSpace :: "string \<Rightarrow> string" where
  "TrimSpace s = trim_right (trim_left s)"

definition lower_byte :: "char \<Rightarrow> char" where
  "lower_byte c = (if CHR ''A'' \<le> c \<and> c \<le> CHR ''Z'' then byte (of_char c + 32) else c)"

definition ToLower :: "string \<Rightarrow> string" where
  "ToLower s = map lower_byte s"

subsection \<open>The strconv package\<close>

definition digit_char :: "nat \<Rightarrow> char" where
  "digit_char d = (if d < 10 then byte (48 + d) else byte (87 + d))"

text \<open>\<^verbatim>\<open>hex.EncodeToString\<close>.\<close>

definition hex_encode :: "bytes \<Rightarrow> string" where
  "hex_encode bs = concat (map (\<lambda>c. [digit_char (of_char c div 16), digit_char (of_char c mod 16)]) bs)"

fun show_base :: "nat \<Rightarrow> nat \<Rightarrow> string" where
  "show_base b n =
     (if n < b \<or> b < 2 then [digit_char n] else show_base b (n div b) @ [digit_char (n mod b)])"

declare show_base.simps [simp del]

definition show_nat :: "nat \<Rightarrow> string" where "show_nat n = show_base 10 n"

definition FormatInt :: "nat \<Rightarrow> int \<Rightarrow> string" where
  "FormatInt b i = (if i < 0 then CHR ''-'' # show_base b (nat (- i)) else show_base b (nat i))"

definition is_digit :: "char \<Rightarrow> bool" where
  "is_digit c \<longleftrightarrow> CHR ''0'' \<le> c \<and> c \<le> CHR ''9''"

definition digit_val :: "char \<Rightarrow> nat" where "digit_val c = of_char c - 48"

definition digits_val :: "string \<Rightarrow> nat" where
  "digits_val s = foldl (\<lambda>n c. 10 * n + digit_val c) 0 s"

text \<open>\<^verbatim>\<open>strconv.ParseUint(s, 10, 64)\<close>: a syntax error and a range error are both \<^const>\<open>None\<close>.\<close>

definition ParseUint :: "string \<Rightarrow> u64 option" where
  "ParseUint s =
     (if s \<noteq> [] \<and> list_all is_digit s \<and> digits_val s < 2 ^ 64
      then Some (of_nat (digits_val s)) else None)"

text \<open>\<^verbatim>\<open>fmt.Sprintf("%020d", n)\<close>.\<close>

definition pad_left :: "nat \<Rightarrow> string \<Rightarrow> string" where
  "pad_left w s = replicate (w - length s) (CHR ''0'') @ s"

subsection \<open>Loops that stop at the first error\<close>

fun fold_sum :: "('s \<Rightarrow> 'a \<Rightarrow> 'e + 's) \<Rightarrow> 's \<Rightarrow> 'a list \<Rightarrow> 'e + 's" where
  "fold_sum f s [] = Inr s"
| "fold_sum f s (x # xs) = (case f s x of Inl e \<Rightarrow> Inl e | Inr s' \<Rightarrow> fold_sum f s' xs)"

subsection \<open>Maps\<close>

definition lookup_or :: "'v \<Rightarrow> ('k, 'v) gomap \<Rightarrow> 'k \<Rightarrow> 'v" where
  "lookup_or d m k = (case map_of m k of None \<Rightarrow> d | Some v \<Rightarrow> v)"

abbreviation mkeys :: "('k, 'v) gomap \<Rightarrow> 'k list" where
  "mkeys m \<equiv> map fst m"

section \<open>Lemmas\<close>

subsection \<open>Lists\<close>

lemma filter_all_or_some: "filter P xs = xs \<or> length (filter P xs) < length xs"
  by (metis filter_id_conv length_filter_less)

lemma dropWhile_suffix_filter:
  "(\<And>x y i j. i < j \<Longrightarrow> j < length xs \<Longrightarrow> P (xs ! j) \<Longrightarrow> P (xs ! i)) \<Longrightarrow>
   dropWhile P xs = filter (\<lambda>x. \<not> P x) xs"
proof (induction xs)
  case Nil
  then show ?case by simp
next
  case (Cons a xs)
  show ?case
  proof (cases "P a")
    case True
    have "dropWhile P xs = filter (\<lambda>x. \<not> P x) xs"
      using Cons.prems by (intro Cons.IH) (metis Suc_mono length_Cons nth_Cons_Suc)
    with True show ?thesis by simp
  next
    case False
    have "\<not> P x" if x: "x \<in> set xs" for x
    proof
      assume "P x"
      from x obtain j where "j < length xs" "xs ! j = x" by (auto simp: in_set_conv_nth)
      with \<open>P x\<close> Cons.prems [of 0 "Suc j"] have "P a" by simp
      with False show False ..
    qed
    with False show ?thesis by (simp add: filter_id_conv)
  qed
qed

lemma fold_sum_snoc:
  "fold_sum f s (xs @ [x]) = (case fold_sum f s xs of Inl e \<Rightarrow> Inl e | Inr s' \<Rightarrow> f s' x)"
  by (induction xs arbitrary: s) (auto split: sum.splits)

text \<open>An invariant relating the loop's state to the inputs already processed.\<close>

lemma fold_sum_invariant [consumes 1, case_names init step]:
  assumes "fold_sum f s xs = Inr s'"
    and "P [] s"
    and "\<And>ys y t t'. fold_sum f s ys = Inr t \<Longrightarrow> P ys t \<Longrightarrow> y \<in> set xs \<Longrightarrow> set ys \<subseteq> set xs \<Longrightarrow>
      f t y = Inr t' \<Longrightarrow> P (ys @ [y]) t'"
  shows "P xs s'"
  using assms
proof (induction xs arbitrary: s' rule: rev_induct)
  case Nil
  then show ?case by simp
next
  case (snoc x xs)
  then obtain t where t: "fold_sum f s xs = Inr t" "f t x = Inr s'"
    by (auto simp: fold_sum_snoc split: sum.splits)
  have "P xs t"
  proof (rule snoc.IH [OF t(1) snoc.prems(2)])
    fix ys y u u'
    assume "fold_sum f s ys = Inr u" "P ys u" "y \<in> set xs" "set ys \<subseteq> set xs" "f u y = Inr u'"
    then show "P (ys @ [y]) u'" by (intro snoc.prems(3)) auto
  qed
  with t show ?case by (intro snoc.prems(3)) auto
qed

subsection \<open>Maps\<close>

lemma lookup_or_update [simp]:
  "lookup_or d (AList.update k v m) k' = (if k' = k then v else lookup_or d m k')"
  by (simp add: lookup_or_def update_conv)

lemma lookup_or_delete [simp]:
  "lookup_or d (AList.delete k m) k' = (if k' = k then d else lookup_or d m k')"
  by (simp add: lookup_or_def delete_conv)

lemma lookup_or_Nil [simp]: "lookup_or d [] k = d"
  by (simp add: lookup_or_def)

lemma lookup_or_in:
  assumes "lookup_or d m k \<noteq> d"
  shows "(k, lookup_or d m k) \<in> set m"
  using assms by (auto simp: lookup_or_def split: option.splits dest: map_of_SomeD)

lemma lookup_or_mem:
  "distinct (mkeys m) \<Longrightarrow> (k, v) \<in> set m \<Longrightarrow> lookup_or d m k = v"
  by (simp add: lookup_or_def)

subsection \<open>Decimal numerals\<close>

lemma of_char_digit: "d < 10 \<Longrightarrow> of_char (digit_char d) = (48 + d :: nat)"
  by (simp add: digit_char_def byte_def)

lemma is_digit_iff: "is_digit c \<longleftrightarrow> 48 \<le> (of_char c :: nat) \<and> of_char c \<le> (57 :: nat)"
  by (simp add: is_digit_def less_eq_char_def)

lemma is_digit_digit_char [simp]: "d < 10 \<Longrightarrow> is_digit (digit_char d)"
  by (simp add: is_digit_iff of_char_digit)

lemma digit_val_digit_char [simp]: "d < 10 \<Longrightarrow> digit_val (digit_char d) = d"
  by (simp add: digit_val_def of_char_digit)

lemma digit_val_less: "is_digit c \<Longrightarrow> digit_val c < 10"
  by (auto simp: is_digit_iff digit_val_def)

lemma digit_val_inj:
  assumes "is_digit c" "is_digit d" "digit_val c = digit_val d"
  shows "c = d"
proof -
  have "of_char c = (of_char d :: nat)"
    using assms unfolding is_digit_iff digit_val_def by linarith
  then show ?thesis by (simp only: of_char_eq_iff)
qed

lemma show_nat_rec:
  "show_nat n = (if n < 10 then [digit_char n] else show_nat (n div 10) @ [digit_char (n mod 10)])"
  by (simp add: show_nat_def show_base.simps [of 10 n])

lemma show_nat_nonempty [simp]: "show_nat n \<noteq> []"
  by (subst show_nat_rec) simp

lemma digits_val_snoc [simp]: "digits_val (s @ [c]) = 10 * digits_val s + digit_val c"
  by (simp add: digits_val_def)

lemma digits_val_Nil [simp]: "digits_val [] = 0"
  by (simp add: digits_val_def)

lemma digits_val_show_nat [simp]: "digits_val (show_nat n) = n"
proof (induction n rule: less_induct)
  case (less n)
  show ?case
  proof (cases "n < 10")
    case True
    then have "digits_val ([] @ [digit_char n]) = n" by (simp only: digits_val_snoc) simp
    with True show ?thesis by (subst show_nat_rec) simp
  next
    case False
    with less.IH [of "n div 10"] show ?thesis by (subst show_nat_rec) simp
  qed
qed

lemma show_nat_digits [simp]: "list_all is_digit (show_nat n)"
proof (induction n rule: less_induct)
  case (less n)
  then show ?case by (subst show_nat_rec) simp
qed

lemma show_nat_inj [simp]: "show_nat m = show_nat n \<longleftrightarrow> m = n"
  by (metis digits_val_show_nat)

lemma show_nat_no_char: "\<not> is_digit c \<Longrightarrow> c \<notin> set (show_nat n)"
  using show_nat_digits [of n] by (auto simp: list_all_iff)

lemma ParseUint_show_nat: "ParseUint (show_nat (unat (w :: u64))) = Some w"
  using unsigned_less [of w, where ?'a = nat] by (simp add: ParseUint_def)

lemma show_nat_length: "n < 10 ^ k \<Longrightarrow> 0 < k \<Longrightarrow> length (show_nat n) \<le> k"
proof (induction k arbitrary: n)
  case 0
  then show ?case by simp
next
  case (Suc k)
  show ?case
  proof (cases "n < 10")
    case True
    then show ?thesis by (subst show_nat_rec) simp
  next
    case False
    with Suc.prems have "n div 10 < 10 ^ k" "0 < k"
      by (auto intro: Nat.gr0I)
    with Suc.IH False show ?thesis by (subst show_nat_rec) simp
  qed
qed

lemma digits_val_Cons: "digits_val (c # s) = digit_val c * 10 ^ length s + digits_val s"
proof (induction s rule: rev_induct)
  case Nil
  show ?case using digits_val_snoc [of "[]" c] by simp
next
  case (snoc x s)
  then show ?case using digits_val_snoc [of "c # s" x] by simp
qed

lemma digits_val_bound: "list_all is_digit s \<Longrightarrow> digits_val s < 10 ^ length s"
proof (induction s rule: rev_induct)
  case Nil
  then show ?case by simp
next
  case (snoc c s)
  then show ?case using digit_val_less [of c] by simp
qed

text \<open>Fixed-width decimal strings sort, byte by byte, in numeric order.\<close>

lemma digits_lex:
  assumes "length xs = length ys" "list_all is_digit xs" "list_all is_digit ys"
    and "digits_val xs < digits_val ys"
  shows "xs < ys"
  using assms
proof (induction xs ys rule: list_induct2)
  case Nil
  then show ?case by simp
next
  case (Cons x xs y ys)
  have b: "digits_val xs < 10 ^ length xs" "digits_val ys < 10 ^ length xs"
    using Cons digits_val_bound [of xs] digits_val_bound [of ys] by auto
  have xy: "digit_val x \<le> digit_val y"
  proof (rule ccontr)
    assume "\<not> ?thesis"
    then have "digit_val y * 10 ^ length xs + 10 ^ length xs \<le> digit_val x * 10 ^ length xs"
      by (metis Suc_leI mult_Suc mult_le_mono1 not_le add.commute)
    with b Cons.prems(3) Cons.hyps show False by (simp add: digits_val_Cons)
  qed
  show ?case
  proof (cases "digit_val x = digit_val y")
    case True
    with Cons.prems have "x = y" by (auto intro: digit_val_inj)
    with True Cons show ?thesis by (simp add: digits_val_Cons)
  next
    case False
    with xy Cons.prems have "x < y"
      by (auto simp: is_digit_iff digit_val_def less_char_def)
    then show ?thesis by simp
  qed
qed

lemma digits_val_pad [simp]: "digits_val (pad_left w s) = digits_val s"
proof -
  have "digits_val (replicate k (CHR ''0'') @ s) = digits_val s" for k
    by (induction k) (auto simp: digits_val_Cons digit_val_def)
  then show ?thesis by (simp add: pad_left_def)
qed

lemma pad_left_length: "length s \<le> w \<Longrightarrow> length (pad_left w s) = w"
  by (simp add: pad_left_def)

lemma pad_left_digits: "list_all is_digit s \<Longrightarrow> list_all is_digit (pad_left w s)"
  by (auto simp: pad_left_def list_all_iff is_digit_def)

lemma pad20_strict_mono:
  assumes "m < n" "n < 2 ^ 64"
  shows "pad_left 20 (show_nat m) < pad_left 20 (show_nat n)"
proof -
  have "length (show_nat k) \<le> 20" if "k < 2 ^ 64" for k
    using that by (intro show_nat_length) auto
  with assms show ?thesis
    by (intro digits_lex) (auto simp: pad_left_length intro: pad_left_digits)
qed

subsection \<open>Prefixes\<close>

lemma has_prefix_append [simp]: "has_prefix (p @ s) p"
  by (simp add: has_prefix_def)

lemma has_prefix_iff: "has_prefix s p \<longleftrightarrow> (\<exists>r. s = p @ r)"
  unfolding has_prefix_def by (metis append_eq_conv_conj append_take_drop_id)

lemma has_suffix_iff: "has_suffix s p \<longleftrightarrow> (\<exists>r. s = r @ p)"
  unfolding has_suffix_def has_prefix_iff by (metis rev_append rev_rev_ident)

lemma has_suffix_append [simp]: "has_suffix (s @ p) p"
  by (auto simp: has_suffix_iff)

lemma trim_runes_keeps:
  assumes "c \<in> set s" "\<forall>r \<in> set rs. c \<notin> set r"
  shows "c \<in> set (trim_runes n rs s)"
  using assms
proof (induction n arbitrary: s)
  case (Suc n)
  show ?case
  proof (cases "find (\<lambda>r. has_prefix s r) rs")
    case (Some r)
    then have "has_prefix s r" "r \<in> set rs" by (auto simp: find_Some_iff)
    then obtain t where "s = r @ t" by (auto simp: has_prefix_iff)
    with Suc \<open>r \<in> set rs\<close> Some show ?thesis by simp
  qed (use Suc in simp)
qed simp

text \<open>\<^verbatim>\<open>strings.TrimSpace\<close> keeps every byte that is not part of a space.\<close>

lemma TrimSpace_keeps: "c \<in> set s \<Longrightarrow> c \<notin> set (concat space_runes) \<Longrightarrow> c \<in> set (TrimSpace s)"
  unfolding TrimSpace_def trim_left_def trim_right_def
  by (auto intro!: trim_runes_keeps)

lemma trim_runes_id:
  assumes "\<forall>r \<in> set rs. r \<noteq> [] \<and> (\<forall>c \<in> set r. c \<notin> set s)"
  shows "trim_runes n rs s = s"
proof (cases n)
  case (Suc k)
  have "\<not> has_prefix s r" if "r \<in> set rs" for r
    using assms that by (cases r) (auto simp: has_prefix_iff)
  then have "find (\<lambda>r. has_prefix s r) rs = None" by (auto simp: find_None_iff)
  with Suc show ?thesis by simp
qed simp

lemma TrimSpace_id:
  assumes "\<forall>c \<in> set s. c \<notin> set (concat space_runes)"
  shows "TrimSpace s = s"
proof -
  have ne: "\<forall>r \<in> set space_runes. r \<noteq> []" by (simp add: space_runes_def)
  have "trim_left s = s" unfolding trim_left_def using assms ne by (intro trim_runes_id) auto
  moreover have "trim_runes (length s) (map rev space_runes) (rev s) = rev s"
    using assms ne by (intro trim_runes_id) auto
  ultimately show ?thesis by (simp add: TrimSpace_def trim_right_def)
qed

lemma wrap64_id: "- (2 ^ 63) \<le> i \<Longrightarrow> i < 2 ^ 63 \<Longrightarrow> wrap64 i = i"
  by (simp add: wrap64_def)

end
