(* ===== verification/Relay_Types.thy ===== *)
theory Relay_Types
  imports Relay_Prelude
begin

text \<open>
  The vocabulary every component of the relay shares: routes and their keys
  (\<^verbatim>\<open>src/relay.go\<close>), the authorisation seam's request, reason, grant, scope, outcome and
  settlement (\<^verbatim>\<open>src/auth.go\<close>, \<^verbatim>\<open>src/scope.go\<close>), and the sentences of the errors.
  A \<^verbatim>\<open>Reason\<close>, an \<^verbatim>\<open>Op\<close> and an \<^verbatim>\<open>Outcome\<close> are Go strings, and stay strings here: an authoriser
  may answer a reason this server has never heard of.
\<close>

section \<open>Routes\<close>

abbreviation c2s :: string where "c2s \<equiv> ''c2s''"
abbreviation s2c :: string where "s2c \<equiv> ''s2c''"

definition key :: "string \<Rightarrow> string \<Rightarrow> string \<Rightarrow> string" where
  "key estate station dir = estate @ ''/'' @ station @ ''/'' @ dir"

definition validRoute :: "string \<Rightarrow> string \<Rightarrow> string \<Rightarrow> bool" where
  "validRoute estate station dir \<longleftrightarrow>
     (if estate = '''' \<or> station = '''' then False else dir = c2s \<or> dir = s2c)"

definition validDir :: "string \<Rightarrow> bool" where
  "validDir d \<longleftrightarrow> d = c2s \<or> d = s2c"

section \<open>The sentences of the errors\<close>

abbreviation ErrTooLarge :: string where
  "ErrTooLarge \<equiv> ''message is larger than the relay will carry''"
abbreviation ErrQueueFull :: string where
  "ErrQueueFull \<equiv> ''this queue is full: the recipient is not collecting''"
abbreviation ErrBadRoute :: string where
  "ErrBadRoute \<equiv> ''a message must name an estate, a station and a direction''"
abbreviation ErrNotDurable :: string where
  "ErrNotDurable \<equiv> ''the relay could not store this message durably, so it has not been accepted''"
abbreviation ErrNoSuchLease :: string where
  "ErrNoSuchLease \<equiv> ''the relay is not holding that lease, so the messages may already have been returned to the queue''"
abbreviation ErrBadLease :: string where
  "ErrBadLease \<equiv> ''a lease must be a duration, like 30s''"
abbreviation ErrLeaseTooLong :: string where
  "ErrLeaseTooLong \<equiv> ''a lease may not be longer than 5m0s''"

section \<open>Operations, reasons and outcomes\<close>

abbreviation OpRead :: string where "OpRead \<equiv> ''read''"
abbreviation OpWrite :: string where "OpWrite \<equiv> ''write''"

abbreviation (input) ReasonAllowed :: string where "ReasonAllowed \<equiv> ''''"
abbreviation ReasonNoCredential :: string where "ReasonNoCredential \<equiv> ''no-credential''"
abbreviation ReasonBadCredential :: string where "ReasonBadCredential \<equiv> ''bad-credential''"
abbreviation ReasonWrongDirection :: string where "ReasonWrongDirection \<equiv> ''wrong-direction''"
abbreviation ReasonOutOfScope :: string where "ReasonOutOfScope \<equiv> ''out-of-scope''"
abbreviation ReasonEstateWide :: string where "ReasonEstateWide \<equiv> ''estate-wide-credential''"
abbreviation ReasonAuthorityExpired :: string where
  "ReasonAuthorityExpired \<equiv> ''authority-expired''"
abbreviation ReasonAuthorityUnverifiable :: string where
  "ReasonAuthorityUnverifiable \<equiv> ''authority-unverifiable''"
abbreviation ReasonAuthoriserUnavailable :: string where
  "ReasonAuthoriserUnavailable \<equiv> ''authoriser-unavailable''"
abbreviation ReasonNotDurable :: string where "ReasonNotDurable \<equiv> ''not-durable''"
abbreviation ReasonRevoked :: string where "ReasonRevoked \<equiv> ''authority-revoked''"
abbreviation ReasonBadLease :: string where "ReasonBadLease \<equiv> ''bad-lease''"
abbreviation ReasonNoSuchLease :: string where "ReasonNoSuchLease \<equiv> ''no-such-lease''"
abbreviation ReasonBadRoute :: string where "ReasonBadRoute \<equiv> ''bad-route''"
abbreviation ReasonUnreadable :: string where "ReasonUnreadable \<equiv> ''unreadable-request''"
abbreviation ReasonTooLarge :: string where "ReasonTooLarge \<equiv> ''too-large''"
abbreviation ReasonQueueFull :: string where "ReasonQueueFull \<equiv> ''queue-full''"
abbreviation ReasonInternal :: string where "ReasonInternal \<equiv> ''internal''"

abbreviation OutcomeAccepted :: string where "OutcomeAccepted \<equiv> ''accepted''"
abbreviation OutcomeDelivered :: string where "OutcomeDelivered \<equiv> ''delivered''"
abbreviation OutcomeEmpty :: string where "OutcomeEmpty \<equiv> ''empty''"
abbreviation OutcomeRefused :: string where "OutcomeRefused \<equiv> ''refused''"
abbreviation OutcomeRevoked :: string where "OutcomeRevoked \<equiv> ''revoked''"
abbreviation OutcomeAcknowledged :: string where "OutcomeAcknowledged \<equiv> ''acknowledged''"

definition reason_status :: "string \<Rightarrow> nat" where
  "reason_status r =
     (if r = ReasonAllowed then 200
      else if r = ReasonAuthoriserUnavailable \<or> r = ReasonNotDurable then 503
      else if r = ReasonQueueFull then 429
      else if r = ReasonTooLarge then 413
      else if r = ReasonBadRoute \<or> r = ReasonUnreadable \<or> r = ReasonBadLease then 400
      else if r = ReasonNoSuchLease then 410
      else if r = ReasonInternal then 500
      else 401)"

definition reason_detail :: "string \<Rightarrow> string" where
  "reason_detail r =
     (if r = ReasonWrongDirection then ''not authorised to write that direction for this estate''
      else if r = ReasonOutOfScope then ''this credential is not scoped to that station and direction''
      else if r = ReasonEstateWide then ''this tenant refuses estate-wide credentials''
      else if r = ReasonAuthorityExpired then ''this authorisation lease is outside the window it was minted for''
      else if r = ReasonAuthorityUnverifiable then ''this authorisation lease could not be verified''
      else if r = ReasonRevoked then ''the authority for this request was withdrawn while it was open''
      else if r = ReasonAuthoriserUnavailable then ''the authoriser could not be reached, so this request was neither allowed nor refused''
      else if r = ReasonNotDurable then ErrNotDurable
      else if r = ReasonBadRoute then ''a message must name an estate, a station and a direction of c2s or s2c''
      else if r = ReasonBadLease then ErrBadLease
      else if r = ReasonNoSuchLease then ErrNoSuchLease
      else if r = ReasonUnreadable then ''could not read the message''
      else if r = ReasonTooLarge then ErrTooLarge
      else if r = ReasonQueueFull then ErrQueueFull
      else if r = ReasonInternal then ''could not accept the message''
      else ''not authorised for this estate'')"

section \<open>Requests, scopes, grants and settlements\<close>

record request =
  r_Credential :: string
  r_Estate :: string
  r_Station :: string
  r_Dir :: string
  r_Op :: string
  r_Bytes :: int
  r_At :: time

record scope =
  sc_Estate :: string
  sc_Stations :: "string list"
  sc_AllStations :: bool
  sc_Read :: "string list"
  sc_Write :: "string list"

record grant =
  g_Allow :: bool
  g_Reason :: string
  g_Detail :: string
  g_MaxBytes :: int
  g_Ref :: string
  g_Scope :: scope

record settlement =
  st_Ref :: string
  st_Estate :: string
  st_Station :: string
  st_Dir :: string
  st_Op :: string
  st_Bytes :: int
  st_Messages :: nat
  st_Outcome :: string
  st_At :: time
  st_Started :: time

text \<open>
  A stored message: the routing the server needs, the opaque body, and the server's own
  book-keeping, which is never sent to a client (the spool file and the collection lease).
\<close>

record message =
  m_ID :: string
  m_Estate :: string
  m_Station :: string
  m_Dir :: string
  m_Seq :: u64
  m_Body :: bytes
  m_At :: time
  m_file :: string
  m_lease :: string
  m_leaseUntil :: time

text \<open>The zero values: a composite literal that names some fields leaves the others at these.\<close>

definition zero_scope :: scope where
  "zero_scope = \<lparr>sc_Estate = '''', sc_Stations = [], sc_AllStations = False, sc_Read = [], sc_Write = []\<rparr>"

definition zero_grant :: grant where
  "zero_grant = \<lparr>g_Allow = False, g_Reason = '''', g_Detail = '''', g_MaxBytes = 0, g_Ref = '''',
     g_Scope = zero_scope\<rparr>"

definition refusal :: "string \<Rightarrow> grant" where
  "refusal r = zero_grant\<lparr>g_Reason := r\<rparr>"

definition allowing :: "scope \<Rightarrow> grant" where
  "allowing sc = zero_grant\<lparr>g_Allow := True, g_Scope := sc\<rparr>"

lemmas grant_defs = zero_grant_def refusal_def allowing_def

section \<open>Lemmas\<close>

lemma validRoute_iff [route_simps]:
  "validRoute e s d \<longleftrightarrow> e \<noteq> '''' \<and> s \<noteq> '''' \<and> validDir d"
  by (auto simp: validRoute_def validDir_def)

lemma refusal_sel [simp]:
  "g_Allow (refusal r) = False" "g_Reason (refusal r) = r" "g_Detail (refusal r) = ''''"
  "g_MaxBytes (refusal r) = 0" "g_Ref (refusal r) = ''''" "g_Scope (refusal r) = zero_scope"
  by (simp_all add: grant_defs)

lemma allowing_sel [simp]:
  "g_Allow (allowing sc)" "g_Scope (allowing sc) = sc" "g_Reason (allowing sc) = ''''"
  "g_MaxBytes (allowing sc) = 0" "g_Ref (allowing sc) = ''''"
  by (simp_all add: grant_defs)

lemma reason_status_refuses: "r \<noteq> ReasonAllowed \<Longrightarrow> 400 \<le> reason_status r \<and> reason_status r \<le> 503"
  by (simp add: reason_status_def)

text \<open>
  The routing key keeps routes apart whenever the station contains no slash. That
  is not guaranteed: a path value may carry an escaped slash.
\<close>

lemma split_last_unique:
  assumes "xs @ c # ys = xs' @ c # ys'" "c \<notin> set ys" "c \<notin> set ys'"
  shows "xs = xs' \<and> ys = ys'"
proof -
  have eq: "rev ys @ c # rev xs = rev ys' @ c # rev xs'"
    using assms(1) by (metis append_assoc append_Cons append_Nil rev.simps(2) rev_append)
  have "takeWhile (\<lambda>x. x \<noteq> c) (rev zs @ c # ws) = rev zs" if "c \<notin> set zs" for zs ws
    using that by (subst takeWhile_append2) auto
  with eq assms(2,3) have "rev ys = rev ys'" by metis
  with eq show ?thesis by simp
qed

lemma key_inj:
  assumes "key e s d = key e' s' d'" "validDir d" "validDir d'"
    and "CHR ''/'' \<notin> set s" "CHR ''/'' \<notin> set s'"
  shows "e = e' \<and> s = s' \<and> d = d'"
proof -
  have nd: "CHR ''/'' \<notin> set d" "CHR ''/'' \<notin> set d'"
    using assms(2,3) by (auto simp: validDir_def)
  have "(e @ CHR ''/'' # s) @ CHR ''/'' # d = (e' @ CHR ''/'' # s') @ CHR ''/'' # d'"
    using assms(1) by (simp add: key_def)
  then have "e @ CHR ''/'' # s = e' @ CHR ''/'' # s' \<and> d = d'"
    using nd by (rule split_last_unique)
  then show ?thesis using assms(4,5) split_last_unique by metis
qed

end
