(* ===== verification/Go_Json.thy ===== *)
theory Go_Json
  imports Relay_Prelude
begin

text \<open>
  What the relay uses of \<^verbatim>\<open>encoding/json\<close>: the string escaping of the encoder, and a parser of JSON
  values with the decoder's rules for filling a struct (exact then case-folded field names, the
  last duplicate wins, \<^verbatim>\<open>null\<close> leaves a field alone, a value of the wrong kind is an error).

  Strings are bytes, so UTF-8 is explicit: the encoder replaces a byte that is not part of a
  valid sequence by the escape of U+FFFD, and the decoder replaces it by the encoding of U+FFFD.
  The parser of values takes fuel. A value is at least one byte, and two nested calls spend at
  least one byte of input, so \<open>json_fuel\<close>, twice the length of the input plus one, is enough:
  \<open>json_fuel_enough\<close> shows that any larger amount gives the same answer.
\<close>

section \<open>UTF-8\<close>

definition in_range :: "nat \<Rightarrow> nat \<Rightarrow> char \<Rightarrow> bool" where
  "in_range lo hi c \<longleftrightarrow> lo \<le> of_char c \<and> of_char c \<le> hi"

abbreviation cont :: "char \<Rightarrow> bool" where "cont \<equiv> in_range 128 191"

text \<open>The length of the valid rune a non-empty byte string starts with, 0 when it starts with none.\<close>

fun utf8_len :: "string \<Rightarrow> nat" where
  "utf8_len [] = 0"
| "utf8_len (a # s) =
     (if in_range 0 127 a then 1
      else if in_range 194 223 a then (case s of b # _ \<Rightarrow> if cont b then 2 else 0 | _ \<Rightarrow> 0)
      else if in_range 224 239 a then
        (case s of b # c # _ \<Rightarrow>
           if in_range (if of_char a = (224::nat) then 160 else 128) (if of_char a = (237::nat) then 159 else 191) b
              \<and> cont c then 3 else 0 | _ \<Rightarrow> 0)
      else if in_range 240 244 a then
        (case s of b # c # d # _ \<Rightarrow>
           if in_range (if of_char a = (240::nat) then 144 else 128) (if of_char a = (244::nat) then 143 else 191) b
              \<and> cont c \<and> cont d then 4 else 0 | _ \<Rightarrow> 0)
      else 0)"

declare utf8_len.simps(2) [simp del]

definition encode_rune :: "nat \<Rightarrow> string" where
  "encode_rune r =
     (if r < 128 then [byte r]
      else if r < 2048 then [byte (192 + r div 64), byte (128 + r mod 64)]
      else if r < 65536 then [byte (224 + r div 4096), byte (128 + r div 64 mod 64), byte (128 + r mod 64)]
      else [byte (240 + r div 262144), byte (128 + r div 4096 mod 64), byte (128 + r div 64 mod 64), byte (128 + r mod 64)])"

definition rune_error :: string where "rune_error = [CHR 0xEF, CHR 0xBF, CHR 0xBD]"

section \<open>The encoder's strings\<close>

abbreviation (input) dquote :: char where "dquote \<equiv> CHR 0x22"
abbreviation (input) bslash :: char where "bslash \<equiv> CHR 0x5C"

definition hex4 :: "nat \<Rightarrow> string" where
  "hex4 n = [digit_char (n div 4096 mod 16), digit_char (n div 256 mod 16), digit_char (n div 16 mod 16), digit_char (n mod 16)]"

text \<open>An ASCII byte, with the HTML-unsafe ones escaped.\<close>

definition escape_byte :: "char \<Rightarrow> string" where
  "escape_byte c =
     (if c = dquote \<or> c = bslash then [bslash, c]
      else if c = CHR 0x08 then [bslash, CHR ''b'']
      else if c = CHR 0x0C then [bslash, CHR ''f'']
      else if c = CHR 0x0A then [bslash, CHR ''n'']
      else if c = CHR 0x0D then [bslash, CHR ''r'']
      else if c = CHR 0x09 then [bslash, CHR ''t'']
      else if in_range 0 31 c \<or> c = CHR ''<'' \<or> c = CHR ''>'' \<or> c = CHR ''&''
      then bslash # CHR ''u'' # hex4 (of_char c)
      else [c])"

function quote_body :: "string \<Rightarrow> string" where
  "quote_body s =
     (if s = [] then []
      else if in_range 0 127 (hd s) then escape_byte (hd s) @ quote_body (tl s)
      else if utf8_len s = 0 then bslash # ''ufffd'' @ quote_body (tl s)
      else if take 3 s = [CHR 0xE2, CHR 0x80, CHR 0xA8] then bslash # ''u2028'' @ quote_body (drop 3 s)
      else if take 3 s = [CHR 0xE2, CHR 0x80, CHR 0xA9] then bslash # ''u2029'' @ quote_body (drop 3 s)
      else take (utf8_len s) s @ quote_body (drop (utf8_len s) s))"
  by pat_completeness auto
termination
  by (relation "measure length") auto

declare quote_body.simps [simp del]

definition json_quote :: "string \<Rightarrow> string" where
  "json_quote s = dquote # quote_body s @ [dquote]"

section \<open>The decoder\<close>

datatype json =
    JNull
  | JBool bool
  | JNum string
  | JStr string
  | JArr "json list"
  | JObj "(string \<times> json) list"

definition is_ws :: "char \<Rightarrow> bool" where
  "is_ws c \<longleftrightarrow> c = CHR 0x20 \<or> c = CHR 0x09 \<or> c = CHR 0x0D \<or> c = CHR 0x0A"

definition skip_ws :: "string \<Rightarrow> string" where "skip_ws s = dropWhile is_ws s"

definition is_hex :: "char \<Rightarrow> bool" where
  "is_hex c \<longleftrightarrow> in_range 48 57 c \<or> in_range 65 70 c \<or> in_range 97 102 c"

definition hex_val :: "char \<Rightarrow> nat" where
  "hex_val c = (if in_range 48 57 c then of_char c - 48
                else if in_range 65 70 c then of_char c - 55 else of_char c - 87)"

definition hex_str_val :: "string \<Rightarrow> nat" where
  "hex_str_val s = foldl (\<lambda>n c. 16 * n + hex_val c) 0 s"

text \<open>Four hexadecimal digits at the head of the input.\<close>

definition get_u4 :: "string \<Rightarrow> nat option" where
  "get_u4 s = (if 4 \<le> length s \<and> list_all is_hex (take 4 s) then Some (hex_str_val (take 4 s)) else None)"

definition unescape :: "char \<Rightarrow> char option" where
  "unescape e =
     (if e = dquote \<or> e = bslash \<or> e = CHR ''/'' then Some e
      else if e = CHR ''b'' then Some (CHR 0x08)
      else if e = CHR ''f'' then Some (CHR 0x0C)
      else if e = CHR ''n'' then Some (CHR 0x0A)
      else if e = CHR ''r'' then Some (CHR 0x0D)
      else if e = CHR ''t'' then Some (CHR 0x09)
      else None)"

definition is_surrogate :: "nat \<Rightarrow> bool" where "is_surrogate r \<longleftrightarrow> 55296 \<le> r \<and> r < 57344"

text \<open>
  The rune of a \<^verbatim>\<open>\uXXXX\<close> escape given the input after its digits, and how many further bytes it
  takes: six when it is the high half of a surrogate pair, none otherwise. A half without its
  partner is U+FFFD.
\<close>

definition escaped_rune :: "nat \<Rightarrow> string \<Rightarrow> string \<times> nat" where
  "escaped_rune r s =
     (if is_surrogate r then
        (case (if take 2 s = [bslash, CHR ''u''] then get_u4 (drop 2 s) else None) of
           Some r2 \<Rightarrow>
             if r < 56320 \<and> 56320 \<le> r2 \<and> r2 < 57344
             then (encode_rune (65536 + (r - 55296) * 1024 + (r2 - 56320)), 6)
             else (rune_error, 0)
         | None \<Rightarrow> (rune_error, 0))
      else (encode_rune r, 0))"

definition prepend :: "string \<Rightarrow> (string \<times> string) option \<Rightarrow> (string \<times> string) option" where
  "prepend p r = map_option (\<lambda>(v, rest). (p @ v, rest)) r"

text \<open>A string literal, from after its opening quote: the value and the rest of the input.\<close>

function p_string :: "string \<Rightarrow> (string \<times> string) option" where
  "p_string s =
     (case s of
        [] \<Rightarrow> None
      | c # t \<Rightarrow>
          if c = dquote then Some ([], t)
          else if c = bslash then
            (case t of
               [] \<Rightarrow> None
             | e # u \<Rightarrow>
                 if e = CHR ''u'' then
                   (case get_u4 u of
                      None \<Rightarrow> None
                    | Some r \<Rightarrow> prepend (fst (escaped_rune r (drop 4 u)))
                        (p_string (drop (4 + snd (escaped_rune r (drop 4 u))) u)))
                 else (case unescape e of None \<Rightarrow> None | Some x \<Rightarrow> prepend [x] (p_string u)))
          else if in_range 0 31 c then None
          else if utf8_len s = 0 then prepend rune_error (p_string t)
          else prepend (take (utf8_len s) s) (p_string (drop (utf8_len s) s)))"
  by pat_completeness auto
termination
  by (relation "measure length") auto

declare p_string.simps [simp del]

text \<open>A number literal.\<close>

definition p_digits :: "string \<Rightarrow> (string \<times> string) option" where
  "p_digits s = (let d = takeWhile is_digit s in if d = [] then None else Some (d, dropWhile is_digit s))"

text \<open>The input after one expected byte, and after white space and one expected byte.\<close>

definition eat :: "char \<Rightarrow> string \<Rightarrow> string option" where
  "eat c s = (case s of x # t \<Rightarrow> if x = c then Some t else None | [] \<Rightarrow> None)"

definition expect :: "char \<Rightarrow> string \<Rightarrow> string option" where
  "expect c s = eat c (skip_ws s)"

definition p_int :: "string \<Rightarrow> (string \<times> string) option" where
  "p_int s = (case eat (CHR ''0'') s of Some t \<Rightarrow> Some (''0'', t) | None \<Rightarrow> p_digits s)"

definition p_frac :: "string \<Rightarrow> (string \<times> string) option" where
  "p_frac s = (case eat (CHR ''.'') s of Some t \<Rightarrow> prepend ''.'' (p_digits t) | None \<Rightarrow> Some ([], s))"

definition p_exp :: "string \<Rightarrow> (string \<times> string) option" where
  "p_exp s =
     (case s of
        e # t \<Rightarrow>
          if e = CHR ''e'' \<or> e = CHR ''E'' then
            (case t of
               g # u \<Rightarrow> if g = CHR ''+'' \<or> g = CHR ''-'' then prepend [e, g] (p_digits u)
                         else prepend [e] (p_digits t)
             | [] \<Rightarrow> None)
          else Some ([], s)
      | [] \<Rightarrow> Some ([], s))"

definition p_number :: "string \<Rightarrow> (string \<times> string) option" where
  "p_number s =
     (let (sg, t) = (case eat (CHR ''-'') s of Some t \<Rightarrow> (''-'', t) | None \<Rightarrow> ([], s))
      in prepend sg (Option.bind (p_int t) (\<lambda>(i, u). prepend i
           (Option.bind (p_frac u) (\<lambda>(f, v). prepend f (p_exp v))))))"

definition strip :: "string \<Rightarrow> string \<Rightarrow> string option" where
  "strip p s = (if has_prefix s p then Some (drop (length p) s) else None)"

definition max_depth :: nat where "max_depth = 10000"

text \<open>
  Values, array elements and object members. \<open>p_elems\<close> and \<open>p_members\<close> start where an element
  or a member must start, so they do not accept an empty list.
\<close>

fun p_value :: "nat \<Rightarrow> nat \<Rightarrow> string \<Rightarrow> (json \<times> string) option"
  and p_elems :: "nat \<Rightarrow> nat \<Rightarrow> string \<Rightarrow> (json list \<times> string) option"
  and p_members :: "nat \<Rightarrow> nat \<Rightarrow> string \<Rightarrow> ((string \<times> json) list \<times> string) option"
where
  "p_value 0 d s = None"
| "p_value (Suc f) d s =
     (case skip_ws s of
        [] \<Rightarrow> None
      | c # t \<Rightarrow>
          if c = dquote then map_option (\<lambda>(v, r). (JStr v, r)) (p_string t)
          else if c = CHR ''{'' then
            if d \<ge> max_depth then None
            else (case expect (CHR ''}'') t of
                Some r \<Rightarrow> Some (JObj [], r)
              | None \<Rightarrow> map_option (\<lambda>(ms, r). (JObj ms, r)) (p_members f (Suc d) t))
          else if c = CHR ''['' then
            if d \<ge> max_depth then None
            else (case expect (CHR '']'') t of
                Some r \<Rightarrow> Some (JArr [], r)
              | None \<Rightarrow> map_option (\<lambda>(es, r). (JArr es, r)) (p_elems f (Suc d) t))
          else if c = CHR ''t'' then map_option (\<lambda>r. (JBool True, r)) (strip ''rue'' t)
          else if c = CHR ''f'' then map_option (\<lambda>r. (JBool False, r)) (strip ''alse'' t)
          else if c = CHR ''n'' then map_option (\<lambda>r. (JNull, r)) (strip ''ull'' t)
          else map_option (\<lambda>(v, r). (JNum v, r)) (p_number (c # t)))"
| "p_elems 0 d s = None"
| "p_elems (Suc f) d s =
     (case p_value f d s of
        None \<Rightarrow> None
      | Some (v, r) \<Rightarrow>
          (case expect (CHR '','') r of
             Some t \<Rightarrow> map_option (\<lambda>(vs, q). (v # vs, q)) (p_elems f d t)
           | None \<Rightarrow> map_option (\<lambda>t. ([v], t)) (expect (CHR '']'') r)))"
| "p_members 0 d s = None"
| "p_members (Suc f) d s =
     (case Option.bind (expect dquote s) p_string of
        None \<Rightarrow> None
      | Some (k, r) \<Rightarrow>
          (case Option.bind (expect (CHR '':'') r) (p_value f d) of
             None \<Rightarrow> None
           | Some (v, q) \<Rightarrow>
               (case expect (CHR '','') q of
                  Some w \<Rightarrow> map_option (\<lambda>(ms, z). ((k, v) # ms, z)) (p_members f d w)
                | None \<Rightarrow> map_option (\<lambda>w. ([(k, v)], w)) (expect (CHR ''}'') q))))"

definition json_fuel :: "string \<Rightarrow> nat" where "json_fuel s = Suc (2 * length s)"

text \<open>
  \<^verbatim>\<open>json.Decoder.Decode\<close> reads one value and leaves what follows it alone; \<^verbatim>\<open>json.Unmarshal\<close> accepts
  nothing but white space after it.
\<close>

definition json_decode :: "string \<Rightarrow> json option" where
  "json_decode s = map_option fst (p_value (json_fuel s) 0 s)"

definition json_unmarshal :: "string \<Rightarrow> json option" where
  "json_unmarshal s =
     (case p_value (json_fuel s) 0 s of
        Some (v, r) \<Rightarrow> if skip_ws r = [] then Some v else None
      | None \<Rightarrow> None)"

subsection \<open>Filling a struct\<close>

text \<open>
  Field names are compared exactly first and then case-folded, where the long s and the Kelvin
  sign fold to their ASCII letters.
\<close>

function fold_name :: "string \<Rightarrow> string" where
  "fold_name s =
     (if s = [] then []
      else if take 2 s = [CHR 0xC5, CHR 0xBF] then CHR ''S'' # fold_name (drop 2 s)
      else if take 3 s = [CHR 0xE2, CHR 0x84, CHR 0xAA] then CHR ''K'' # fold_name (drop 3 s)
      else (if in_range 97 122 (hd s) then byte (of_char (hd s) - 32) else hd s) # fold_name (tl s))"
  by pat_completeness auto
termination
  by (relation "measure length") auto

declare fold_name.simps [simp del]

definition match_field :: "string list \<Rightarrow> string \<Rightarrow> string option" where
  "match_field fields k =
     (if k \<in> set fields then Some k else find (\<lambda>f. fold_name f = fold_name k) fields)"

fun decode_members :: "string list \<Rightarrow> (string \<Rightarrow> json \<Rightarrow> 'r \<Rightarrow> 'r option) \<Rightarrow> (string \<times> json) list \<Rightarrow> 'r \<Rightarrow> 'r option" where
  "decode_members fields upd [] r = Some r"
| "decode_members fields upd ((k, v) # ms) r =
     (case match_field fields k of
        None \<Rightarrow> decode_members fields upd ms r
      | Some f \<Rightarrow> (case upd f v r of None \<Rightarrow> None | Some r' \<Rightarrow> decode_members fields upd ms r'))"

definition decode_struct :: "string list \<Rightarrow> (string \<Rightarrow> json \<Rightarrow> 'r \<Rightarrow> 'r option) \<Rightarrow> json \<Rightarrow> 'r \<Rightarrow> 'r option" where
  "decode_struct fields upd j r =
     (case j of
        JNull \<Rightarrow> Some r
      | JObj ms \<Rightarrow> decode_members fields upd ms r
      | _ \<Rightarrow> None)"

text \<open>Decoding into one field, given its present value.\<close>

definition dec_string :: "json \<Rightarrow> string \<Rightarrow> string option" where
  "dec_string j old = (case j of JStr s \<Rightarrow> Some s | JNull \<Rightarrow> Some old | _ \<Rightarrow> None)"

definition dec_bool :: "json \<Rightarrow> bool \<Rightarrow> bool option" where
  "dec_bool j old = (case j of JBool b \<Rightarrow> Some b | JNull \<Rightarrow> Some old | _ \<Rightarrow> None)"

definition dec_u64 :: "json \<Rightarrow> u64 \<Rightarrow> u64 option" where
  "dec_u64 j old = (case j of JNum n \<Rightarrow> ParseUint n | JNull \<Rightarrow> Some old | _ \<Rightarrow> None)"

definition ParseInt :: "string \<Rightarrow> int option" where
  "ParseInt s =
     (let (neg, t) = (case eat (CHR ''-'') s of
            Some t \<Rightarrow> (True, t)
          | None \<Rightarrow> (case eat (CHR ''+'') s of Some t \<Rightarrow> (False, t) | None \<Rightarrow> (False, s)));
          v = (if neg then - int (digits_val t) else int (digits_val t))
      in if t \<noteq> [] \<and> list_all is_digit t \<and> - (2 ^ 63) \<le> v \<and> v < 2 ^ 63 then Some v else None)"

definition dec_i64 :: "json \<Rightarrow> int \<Rightarrow> int option" where
  "dec_i64 j old = (case j of JNum n \<Rightarrow> ParseInt n | JNull \<Rightarrow> Some old | _ \<Rightarrow> None)"

fun dec_elems :: "json list \<Rightarrow> string list \<Rightarrow> string list option" where
  "dec_elems [] old = Some []"
| "dec_elems (j # js) old =
     (case dec_string j (case old of [] \<Rightarrow> '''' | o1 # _ \<Rightarrow> o1) of
        None \<Rightarrow> None
      | Some s \<Rightarrow> map_option (Cons s) (dec_elems js (drop 1 old)))"

definition dec_strings :: "json \<Rightarrow> string list \<Rightarrow> string list option" where
  "dec_strings j old = (case j of JArr js \<Rightarrow> dec_elems js old | JNull \<Rightarrow> Some [] | _ \<Rightarrow> None)"

section \<open>Lemmas\<close>

subsection \<open>Every parser consumes input\<close>

lemma skip_ws_length: "length (skip_ws s) \<le> length s"
  by (simp add: skip_ws_def length_dropWhile_le)

lemma eat_length: "eat c s = Some t \<Longrightarrow> length t < length s"
  by (auto simp: eat_def split: list.splits if_splits)

lemma expect_length: "expect c s = Some t \<Longrightarrow> length t < length s"
  using eat_length [of c "skip_ws s" t] skip_ws_length [of s] by (simp add: expect_def)

lemma strip_length: "strip p s = Some t \<Longrightarrow> length t \<le> length s"
  by (auto simp: strip_def split: if_splits)

lemma prepend_Some: "prepend p r = Some (v, t) \<longleftrightarrow> (\<exists>v'. r = Some (v', t) \<and> v = p @ v')"
  by (auto simp: prepend_def)

lemma p_string_inv:
  assumes "p_string s = Some (v, t)"
  obtains (closing) "s = dquote # t" "v = []"
  | (more) k p v' where "0 < k" "s \<noteq> []" "v = p @ v'" "p_string (drop k s) = Some (v', t)"
proof (cases s)
  case Nil
  with assms show ?thesis by (simp add: p_string.simps [of "[]"])
next
  case (Cons c u)
  note eq = assms [unfolded p_string.simps [of s], unfolded Cons list.case]
  have step: ?thesis if "0 < k" "prepend p (p_string (drop k s)) = Some (v, t)" for k p
    using that Cons more by (auto simp: prepend_Some)
  consider "c = dquote" | "c = bslash" | "c \<noteq> dquote" "c \<noteq> bslash" by blast
  then show ?thesis
  proof cases
    case 1
    with eq Cons show ?thesis by (intro closing) auto
  next
    case 2
    with eq obtain e w where u: "u = e # w" by (auto split: list.splits)
    show ?thesis
    proof (cases "e = CHR ''u''")
      case True
      with eq 2 u obtain r where "get_u4 w = Some r"
        and "prepend (fst (escaped_rune r (drop 4 w)))
          (p_string (drop (4 + snd (escaped_rune r (drop 4 w))) w)) = Some (v, t)"
        by (auto split: option.splits)
      moreover have "drop (Suc (Suc n)) s = drop n w" for n by (simp add: Cons u)
      ultimately have "prepend (fst (escaped_rune r (drop 4 w)))
          (p_string (drop (Suc (Suc (4 + snd (escaped_rune r (drop 4 w))))) s)) = Some (v, t)"
        by (simp only:)
      then show ?thesis by (rule step [OF zero_less_Suc])
    next
      case False
      with eq 2 u obtain x where "prepend [x] (p_string w) = Some (v, t)"
        by (auto split: option.splits)
      then show ?thesis using Cons u by (intro step [of "Suc (Suc 0)"]) auto
    qed
  next
    case 3
    show ?thesis
    proof (cases "utf8_len s = 0")
      case True
      with eq 3 Cons have "prepend rune_error (p_string u) = Some (v, t)" by (simp split: if_splits)
      then show ?thesis using Cons by (intro step [of "Suc 0"]) auto
    next
      case False
      with eq 3 Cons have "prepend (take (utf8_len s) s) (p_string (drop (utf8_len s) s)) = Some (v, t)"
        by (simp split: if_splits)
      with False show ?thesis by (intro step [of "utf8_len s"]) auto
    qed
  qed
qed

lemma p_string_length: "p_string s = Some (v, t) \<Longrightarrow> length t < length s"
proof (induction "length s" arbitrary: s v rule: less_induct)
  case less
  from less.prems show ?case
  proof (cases rule: p_string_inv)
    case (more k p v')
    then have "length (drop k s) < length s" by simp
    with less.hyps more(4) have "length t < length (drop k s)" by blast
    then show ?thesis by simp
  qed simp
qed

lemma p_digits_length:
  assumes "p_digits s = Some (d, t)"
  shows "length t < length s"
proof -
  have "d \<noteq> []" "d @ t = s" using assms by (auto simp: p_digits_def Let_def split: if_splits)
  then show ?thesis by auto
qed

lemma p_number_length:
  assumes "p_number s = Some (v, t)"
  shows "length t < length s"
proof -
  have fr: "length w \<le> length u" if "p_frac u = Some (f, w)" for u f w
    using that p_digits_length eat_length
    by (fastforce simp: p_frac_def prepend_def split: option.splits)
  have ex: "length w \<le> length u" if "p_exp u = Some (f, w)" for u f w
    using that p_digits_length
    by (fastforce simp: p_exp_def prepend_def split: list.splits if_splits)
  have it: "length w < length u" if "p_int u = Some (f, w)" for u f w
    using that p_digits_length eat_length by (auto simp: p_int_def split: option.splits)
  from assms obtain sg u i w f x where
    "(case eat (CHR ''-'') s of Some t \<Rightarrow> (''-'', t) | None \<Rightarrow> ([], s)) = (sg, u)"
    and p: "p_int u = Some (i, w)" "p_frac w = Some (f, x)" "\<exists>e. p_exp x = Some (e, t)"
    by (auto simp: p_number_def prepend_def bind_eq_Some_conv split: prod.splits)
  then have "length u \<le> length s" by (auto split: option.splits dest: eat_length)
  with p it fr ex show ?thesis by (meson le_less_trans less_le_trans order.trans)
qed

lemma p_value_length:
  "p_value f d s = Some (v, r) \<Longrightarrow> length r < length s"
  "p_elems f d s = Some (vs, r) \<Longrightarrow> length r < length s"
  "p_members f d s = Some (ms, r) \<Longrightarrow> length r < length s"
proof (induction f d s and f d s and f d s arbitrary: v r and vs r and ms r
    rule: p_value_p_elems_p_members.induct)
  case (2 f d s)
  have w: "length (skip_ws s) \<le> length s" by (rule skip_ws_length)
  from "2.prems" obtain c t where ct: "skip_ws s = c # t" by (auto split: list.splits)
  have t: "length t < length s" using w ct by simp
  have "length r \<le> length t \<or> length r < length (c # t)"
    using "2.prems" ct "2.IH" [OF ct]
    by (auto split: if_splits option.splits
        dest: p_string_length expect_length strip_length p_number_length)
  with w ct t show ?case by auto
next
  case (4 f d s)
  from "4.prems" obtain v q where v: "p_value f d s = Some (v, q)" by (auto split: option.splits)
  with "4.IH"(1) have "length q < length s" by blast
  with "4.prems" v "4.IH"(2) [OF v] show ?case
    by (fastforce split: option.splits dest: expect_length)
next
  case (6 f d s)
  from "6.prems" obtain u k q where u: "expect dquote s = Some u" "p_string u = Some (k, q)"
    by (auto split: option.splits bind_splits)
  then have q: "length q < length s" using expect_length p_string_length less_trans by blast
  have b: "Option.bind (expect dquote s) p_string = Some (k, q)" using u by simp
  from "6.prems" b obtain w v x where w: "expect (CHR '':'') q = Some w" "p_value f d w = Some (v, x)"
    by (auto split: option.splits bind_splits)
  have "length x < length w" using "6.IH"(1) [OF b refl] w by auto
  with q w have x: "length x < length s" by (auto dest!: expect_length)
  have bw: "Option.bind (expect (CHR '':'') q) (p_value f d) = Some (v, x)" using w by simp
  show ?case
  proof (cases "expect (CHR '','') x")
    case None
    with "6.prems" b bw x show ?thesis by (auto dest: expect_length)
  next
    case (Some y)
    with "6.prems" b bw obtain ms' where "p_members f d y = Some (ms', r)" by auto
    with "6.IH"(2) [OF b refl bw refl Some] x Some show ?thesis by (auto dest!: expect_length)
  qed
qed simp_all

lemma p_value_fuel_Suc:
  "2 * length s + 1 \<le> f \<Longrightarrow> p_value (Suc f) d s = p_value f d s"
  "2 * length s + 2 \<le> f \<Longrightarrow> p_elems (Suc f) d s = p_elems f d s"
  "2 * length s + 2 \<le> f \<Longrightarrow> p_members (Suc f) d s = p_members f d s"
proof (induction f arbitrary: s d and s d and s d)
  case 0
  { case 1 then show ?case by simp }
  { case 2 then show ?case by simp }
  { case 3 then show ?case by simp }
next
  case (Suc f)
  { case (1 s d)
    show ?case
    proof (cases "skip_ws s")
      case (Cons c t)
      then have "2 * length t + 2 \<le> f" using 1 skip_ws_length [of s] by simp
      then have "p_elems (Suc f) (Suc d) t = p_elems f (Suc d) t"
        "p_members (Suc f) (Suc d) t = p_members f (Suc d) t"
        using Suc.IH(2,3) by blast+
      with Cons show ?thesis by (simp only: p_value.simps list.case)
    qed simp }
  { case (2 s d)
    have v: "p_value (Suc f) d s = p_value f d s" using 2 by (intro Suc.IH(1)) simp
    have "p_elems (Suc f) d t = p_elems f d t"
      if "p_value f d s = Some (v, r)" "expect c r = Some t" for v r t c
      using that 2 p_value_length(1) [OF that(1)] expect_length [OF that(2)]
      by (intro Suc.IH(2)) simp
    then show ?case
      unfolding p_elems.simps(2) v by (auto split: option.splits) }
  { case (3 s d)
    have v: "p_value (Suc f) d u = p_value f d u"
      if "Option.bind (expect dquote s) p_string = Some (k, r)" "expect c r = Some u" for k r u c
      using that 3 by (intro Suc.IH(1)) (auto simp: bind_eq_Some_conv dest!: expect_length p_string_length)
    have m: "p_members (Suc f) d w = p_members f d w"
      if "Option.bind (expect dquote s) p_string = Some (k, r)"
        "Option.bind (expect c r) (p_value f d) = Some (x, q)" "expect c' q = Some w" for k r x q w c c'
      using that 3 by (intro Suc.IH(3))
        (auto simp: bind_eq_Some_conv dest!: expect_length p_string_length p_value_length(1))
    show ?case
    proof (cases "Option.bind (expect dquote s) p_string")
      case (Some kr)
      obtain k r where kr: "kr = (k, r)" by force
      have "Option.bind (expect (CHR '':'') r) (p_value (Suc f) d) = Option.bind (expect (CHR '':'') r) (p_value f d)"
        using v Some kr by (cases "expect (CHR '':'') r") auto
      with Some kr m show ?thesis unfolding p_members.simps(2) by (auto split: option.splits)
    qed simp }
qed

lemma json_fuel_enough: "json_fuel s \<le> f \<Longrightarrow> p_value f d s = p_value (json_fuel s) d s"
proof (induction f)
  case 0
  then show ?case by (simp add: json_fuel_def)
next
  case (Suc f)
  then show ?case
    by (cases "json_fuel s = Suc f") (simp_all add: p_value_fuel_Suc(1) json_fuel_def del: p_value.simps)
qed

subsection \<open>What the encoder writes, the decoder reads\<close>

function valid_utf8 :: "string \<Rightarrow> bool" where
  "valid_utf8 s \<longleftrightarrow>
     (if s = [] then True else if utf8_len s = 0 then False else valid_utf8 (drop (utf8_len s) s))"
  by pat_completeness auto
termination
proof (relation "measure length", goal_cases)
  case 1
  then show ?case by simp
next
  case (2 s)
  then show ?case by simp
qed

declare valid_utf8.simps [simp del]

lemma of_char_less_256: "of_char c < (256 :: nat)"
  by (metis of_char_mod_256 mod_less_divisor zero_less_numeral)

lemma byte_of_char [simp]: "byte (of_char c) = c"
  by (simp add: byte_def)

lemma of_char_byte: "n < 256 \<Longrightarrow> of_char (byte n) = n"
  by (simp add: byte_def)

lemma char_eq_nat: "(c = d) \<longleftrightarrow> (of_char c :: nat) = of_char d"
  by simp

lemma hex_digit_char:
  assumes "n < 16"
  shows "is_hex (digit_char n)" "hex_val (digit_char n) = n" "\<not> in_range 0 31 (digit_char n)"
  using assms by (auto simp: is_hex_def hex_val_def in_range_def digit_char_def of_char_byte)

lemma hex_assemble:
  "(n :: nat) = 16 * p + d \<Longrightarrow> p = 16 * q + c \<Longrightarrow> q = 16 * a + b \<Longrightarrow> a' = a \<Longrightarrow>
   16 * (16 * (16 * a' + b) + c) + d = n"
  by simp

lemma hex4_get_u4:
  assumes "n < 65536"
  shows "get_u4 (hex4 n @ u) = Some n"
proof -
  have "n = 16 * (n div 16) + n mod 16" "n div 16 = 16 * (n div 256) + n div 16 mod 16"
    "n div 256 = 16 * (n div 4096) + n div 256 mod 16" "n div 4096 mod 16 = n div 4096"
    using assms by (simp_all add: div_mult2_eq [of n 16 16, simplified] div_mult2_eq [of n 256 16, simplified])
  then have "16 * (16 * (16 * (n div 4096 mod 16) + n div 256 mod 16) + n div 16 mod 16) + n mod 16 = n"
    by (rule hex_assemble)
  moreover have "get_u4 (hex4 n @ u) = Some (hex_str_val (hex4 n))"
    by (simp add: get_u4_def hex4_def hex_digit_char)
  moreover have "hex_str_val (hex4 n) =
      16 * (16 * (16 * (n div 4096 mod 16) + n div 256 mod 16) + n div 16 mod 16) + n mod 16"
    by (simp only: hex_str_val_def hex4_def foldl.simps) (simp add: hex_digit_char)
  ultimately show ?thesis by (simp only:)
qed

lemma utf8_len_prefix:
  assumes "utf8_len s = n" "n \<noteq> 0"
  shows "utf8_len (take n s @ u) = n"
  using assms
  by (cases s; cases "tl s"; cases "tl (tl s)"; cases "tl (tl (tl s))")
    (auto simp: utf8_len.simps(2) split: if_splits)

lemma utf8_len_ascii [simp]: "in_range 0 127 c \<Longrightarrow> utf8_len (c # s) = 1"
  by (simp add: utf8_len.simps(2))

lemma utf8_len_le: "utf8_len s \<le> length s"
  by (cases s) (auto simp: utf8_len.simps(2) split: list.splits)

lemma p_string_u_escape:
  assumes "n < 65536" "\<not> is_surrogate n"
  shows "p_string (bslash # CHR ''u'' # hex4 n @ u) = prepend (encode_rune n) (p_string u)"
  using assms hex4_get_u4 [OF assms(1), of u]
  by (subst p_string.simps) (simp add: escaped_rune_def hex4_def)

lemma p_string_escape_byte:
  assumes "in_range 0 127 c"
  shows "p_string (escape_byte c @ u) = prepend [c] (p_string u)"
proof -
  have n: "of_char c < (128 :: nat)" using assms by (simp add: in_range_def)
  then have r: "encode_rune (of_char c) = [c]" by (simp add: encode_rune_def)
  show ?thesis
  proof (cases "\<exists>x. escape_byte c = [bslash, x]")
    case True
    then obtain x where x: "escape_byte c = [bslash, x]" ..
    then have "unescape x = Some c" "x \<noteq> CHR ''u''"
      using n by (auto simp: escape_byte_def unescape_def hex4_def split: if_splits)
    with x show ?thesis by (simp add: p_string.simps [of "bslash # x # u"])
  next
    case False
    then consider "escape_byte c = bslash # CHR ''u'' # hex4 (of_char c)"
      | "escape_byte c = [c]" "c \<noteq> dquote" "c \<noteq> bslash" "\<not> in_range 0 31 c"
      by (auto simp: escape_byte_def split: if_splits)
    then show ?thesis
    proof cases
      case 1
      with n r show ?thesis by (simp add: p_string_u_escape is_surrogate_def)
    next
      case 2
      with assms show ?thesis by (simp add: p_string.simps [of "c # u"])
    qed
  qed
qed

lemma p_string_rune:
  assumes "utf8_len s \<noteq> 0" "\<not> in_range 0 127 (hd s)"
  shows "p_string (take (utf8_len s) s @ u) = prepend (take (utf8_len s) s) (p_string u)"
proof -
  let ?n = "utf8_len s" and ?t = "take (utf8_len s) s @ u"
  obtain c v where s: "s = c # v" using assms(1) by (cases s) auto
  then obtain w where w: "?t = c # w" using assms(1) by (cases "utf8_len s") auto
  have len: "utf8_len ?t = ?n" using assms(1) by (simp add: utf8_len_prefix)
  have "c \<noteq> dquote" "c \<noteq> bslash" "\<not> in_range 0 31 c"
    using assms(2) s by (auto simp: in_range_def)
  then have "p_string ?t = prepend (take ?n ?t) (p_string (drop ?n ?t))"
    using assms(1) len unfolding w by (simp add: p_string.simps [of "c # w"])
  moreover have "take ?n ?t = take ?n s" "drop ?n ?t = u"
    using utf8_len_le [of s] by simp_all
  ultimately show ?thesis by (simp only:)
qed

lemma prepend_comp: "prepend p (Some (v, r)) = Some (p @ v, r)"
  by (simp add: prepend_def)

lemma encode_line_separators:
  "encode_rune 8232 = [CHR 0xE2, CHR 0x80, CHR 0xA8]"
  "encode_rune 8233 = [CHR 0xE2, CHR 0x80, CHR 0xA9]"
  "hex4 8232 = ''2028''" "hex4 8233 = ''2029''"
  by (simp_all add: encode_rune_def hex4_def digit_char_def byte_def char_of_def bit_0)

lemma quote_body_roundtrip:
  "valid_utf8 s \<Longrightarrow> p_string (quote_body s @ dquote # rest) = Some (s, rest)"
proof (induction s rule: valid_utf8.induct)
  case (1 s)
  show ?case
  proof (cases "s = []")
    case True
    then show ?thesis by (simp add: quote_body.simps [of "[]"] p_string.simps [of "dquote # rest"])
  next
    case False
    with "1.prems" have n: "utf8_len s \<noteq> 0" "valid_utf8 (drop (utf8_len s) s)"
      by (simp_all add: valid_utf8.simps [of s] split: if_splits)
    have IH: "p_string (quote_body (drop (utf8_len s) s) @ dquote # rest) = Some (drop (utf8_len s) s, rest)"
      using False n by (intro "1.IH") auto
    consider (ascii) "in_range 0 127 (hd s)"
      | (ls) "\<not> in_range 0 127 (hd s)" "take 3 s = encode_rune 8232"
      | (ps) "\<not> in_range 0 127 (hd s)" "take 3 s = encode_rune 8233"
      | (rune) "\<not> in_range 0 127 (hd s)" "take 3 s \<noteq> encode_rune 8232" "take 3 s \<noteq> encode_rune 8233"
      by blast
    then show ?thesis
    proof cases
      case ascii
      obtain c t where s: "s = c # t" using False by (cases s) auto
      with ascii have "utf8_len s = 1" by simp
      moreover have "quote_body s = escape_byte c @ quote_body t"
        using s ascii by (simp add: quote_body.simps [of "c # t"])
      ultimately show ?thesis using s ascii IH by (simp add: p_string_escape_byte prepend_comp)
    next
      case ls
      then obtain t where s: "s = encode_rune 8232 @ t" by (metis append_take_drop_id)
      then have l: "utf8_len s = 3" by (simp add: encode_line_separators in_range_def utf8_len.simps(2))
      have q: "quote_body s = bslash # CHR ''u'' # hex4 8232 @ quote_body t"
        using ls n unfolding s by (subst quote_body.simps) (simp add: encode_line_separators)
      show ?thesis
        using IH l s unfolding q
        by (simp add: p_string_u_escape is_surrogate_def prepend_comp)
          (simp add: encode_line_separators prepend_comp)
    next
      case ps
      then obtain t where s: "s = encode_rune 8233 @ t" by (metis append_take_drop_id)
      then have l: "utf8_len s = 3" by (simp add: encode_line_separators in_range_def utf8_len.simps(2))
      have q: "quote_body s = bslash # CHR ''u'' # hex4 8233 @ quote_body t"
        using ps n unfolding s by (subst quote_body.simps) (simp add: encode_line_separators)
      show ?thesis
        using IH l s unfolding q
        by (simp add: p_string_u_escape is_surrogate_def prepend_comp)
          (simp add: encode_line_separators prepend_comp)
    next
      case rune
      with n False have "quote_body s = take (utf8_len s) s @ quote_body (drop (utf8_len s) s)"
        by (simp add: quote_body.simps [of s] encode_line_separators)
      with IH p_string_rune [OF n(1) rune(1)] show ?thesis by (simp add: prepend_comp)
    qed
  qed
qed

lemma digit_char_not_zero: "0 < d \<Longrightarrow> d < 10 \<Longrightarrow> digit_char d \<noteq> CHR ''0''"
proof
  assume d: "0 < d" "d < 10" "digit_char d = CHR ''0''"
  then have "digit_val (digit_char d) = 0" by (simp add: digit_val_def)
  with d(1) digit_val_digit_char [OF d(2)] show False by simp
qed

lemma show_nat_hd: "0 < n \<Longrightarrow> hd (show_nat n) \<noteq> CHR ''0''"
proof (induction n rule: less_induct)
  case (less n)
  show ?case
  proof (cases "n < 10")
    case True
    with less.prems show ?thesis by (subst show_nat_rec) (simp add: digit_char_not_zero)
  next
    case False
    then have "hd (show_nat (n div 10)) \<noteq> CHR ''0''" by (intro less.IH) auto
    with False show ?thesis by (subst show_nat_rec) simp
  qed
qed

lemma p_digits_app:
  assumes "d \<noteq> []" "list_all is_digit d" "rest = [] \<or> \<not> is_digit (hd rest)"
  shows "p_digits (d @ rest) = Some (d, rest)"
proof -
  have "takeWhile is_digit (d @ rest) = d" "dropWhile is_digit (d @ rest) = rest"
    using assms by (cases rest; auto simp: list_all_iff takeWhile_append dropWhile_append)+
  with assms show ?thesis by (simp add: p_digits_def)
qed

definition ends_value :: "char \<Rightarrow> bool" where
  "ends_value c \<longleftrightarrow> c = CHR '','' \<or> c = CHR ''}'' \<or> c = CHR '']'' \<or> c = CHR 0x0A"

lemma p_int_show_nat:
  assumes "ends_value c"
  shows "p_int (show_nat n @ c # rest) = Some (show_nat n, c # rest)"
proof (cases "n = 0")
  case True
  have "show_nat 0 = ''0''" by (subst show_nat_rec) (simp add: digit_char_def byte_def char_of_def bit_0)
  with True show ?thesis by (simp add: p_int_def eat_def)
next
  case False
  obtain x xs where x: "show_nat n = x # xs" by (cases "show_nat n") auto
  with show_nat_hd [of n] False have "eat (CHR ''0'') (show_nat n @ c # rest) = None" by (simp add: eat_def)
  moreover have "p_digits (show_nat n @ c # rest) = Some (show_nat n, c # rest)"
    using assms by (intro p_digits_app) (auto simp: ends_value_def is_digit_def)
  ultimately show ?thesis by (simp add: p_int_def)
qed

lemma FormatInt_10: "FormatInt 10 i = (if i < 0 then CHR ''-'' # show_nat (nat (- i)) else show_nat (nat i))"
  by (simp add: FormatInt_def show_nat_def)

lemma p_number_FormatInt:
  assumes "ends_value c"
  shows "p_number (FormatInt 10 i @ c # rest) = Some (FormatInt 10 i, c # rest)"
proof -
  have fe: "p_frac (c # rest) = Some ([], c # rest)" "p_exp (c # rest) = Some ([], c # rest)"
    using assms by (auto simp: p_frac_def p_exp_def eat_def ends_value_def)
  obtain x xs where x: "show_nat (nat i) = x # xs" by (cases "show_nat (nat i)") auto
  have "is_digit x" using show_nat_digits [of "nat i"] x by simp
  then have "eat (CHR ''-'') (show_nat (nat i) @ c # rest) = None"
    using x by (auto simp: eat_def is_digit_def)
  then show ?thesis
    using assms fe p_int_show_nat [OF assms]
    by (simp add: p_number_def FormatInt_10 eat_def prepend_comp)
qed

text \<open>A text that a value parser reads as a given value wherever the value may end, at any depth below a bound.\<close>

definition reads_at :: "nat \<Rightarrow> string \<Rightarrow> json \<Rightarrow> bool" where
  "reads_at D txt v \<longleftrightarrow> (\<forall>f d c rest. 2 * length txt + 1 \<le> f \<longrightarrow> d < D \<longrightarrow> ends_value c \<longrightarrow>
     p_value f d (txt @ c # rest) = Some (v, c # rest))"

abbreviation reads :: "string \<Rightarrow> json \<Rightarrow> bool" where "reads \<equiv> reads_at 2"

lemma readsI:
  assumes "\<And>f d c rest. 2 * length txt \<le> f \<Longrightarrow> d < D \<Longrightarrow> ends_value c \<Longrightarrow> p_value (Suc f) d (txt @ c # rest) = Some (v, c # rest)"
  shows "reads_at D txt v"
  unfolding reads_at_def
proof (intro allI impI)
  fix f d c rest
  assume f: "2 * length txt + 1 \<le> f" and d: "d < D" and c: "ends_value c"
  from f obtain g where "f = Suc g" "2 * length txt \<le> g" by (cases f) auto
  with assms [of g d c rest] d c show "p_value f d (txt @ c # rest) = Some (v, c # rest)" by simp
qed

lemma reads_quote: "valid_utf8 s \<Longrightarrow> reads_at D (json_quote s) (JStr s)"
  by (rule readsI) (simp add: json_quote_def skip_ws_def is_ws_def quote_body_roundtrip)

lemma reads_true: "reads_at D ''true'' (JBool True)"
  by (rule readsI) (simp add: skip_ws_def is_ws_def strip_def has_prefix_def)

lemma reads_false: "reads_at D ''false'' (JBool False)"
  by (rule readsI) (simp add: skip_ws_def is_ws_def strip_def has_prefix_def)

lemma reads_no_strings: "D \<le> max_depth \<Longrightarrow> reads_at D ''[]'' (JArr [])"
  by (rule readsI) (simp add: skip_ws_def is_ws_def expect_def eat_def)

lemma reads_FormatInt: "reads_at D (FormatInt 10 i) (JNum (FormatInt 10 i))"
proof -
  obtain x xs where x: "FormatInt 10 i = x # xs"
    by (cases "FormatInt 10 i") (auto simp: FormatInt_10 split: if_splits)
  have "x = CHR ''-'' \<or> is_digit x"
    using x show_nat_digits [of "nat i"] by (cases "i < 0") (auto simp: FormatInt_10 simp del: show_nat_digits)
  then have ne: "\<not> is_ws x" "x \<noteq> dquote" "x \<noteq> CHR ''{''" "x \<noteq> CHR ''[''" "x \<noteq> CHR ''t''"
    "x \<noteq> CHR ''f''" "x \<noteq> CHR ''n''"
    by (auto simp: is_ws_def is_digit_iff)
  show ?thesis
    using p_number_FormatInt [of _ i] ne unfolding x by (intro readsI) (simp add: skip_ws_def)
qed

lemma reads_show_nat: "reads_at D (show_nat n) (JNum (show_nat n))"
  using reads_FormatInt [of D "int n"] by (simp add: FormatInt_10)

fun members_text :: "(string \<times> string) list \<Rightarrow> string" where
  "members_text [] = []"
| "members_text [(k, t)] = json_quote k @ CHR '':'' # t"
| "members_text ((k, t) # ms) = json_quote k @ CHR '':'' # t @ CHR '','' # members_text ms"

definition object_text :: "(string \<times> string) list \<Rightarrow> string" where
  "object_text ms = CHR ''{'' # members_text ms @ [CHR ''}'']"

lemma expect_here: "\<not> is_ws c \<Longrightarrow> expect c (c # r) = Some r"
  by (simp add: expect_def skip_ws_def eat_def)

lemma expect_other: "\<not> is_ws c \<Longrightarrow> c \<noteq> x \<Longrightarrow> expect x (c # r) = None"
  by (simp add: expect_def skip_ws_def eat_def)

lemma p_members_text:
  assumes "ms \<noteq> []" "\<forall>(k, t, v) \<in> set ms. valid_utf8 k \<and> reads_at D t v" "d < D"
    and "2 * length (members_text (map (\<lambda>(k, t, v). (k, t)) ms)) \<le> f"
  shows "p_members f d (members_text (map (\<lambda>(k, t, v). (k, t)) ms) @ CHR ''}'' # rest) =
    Some (map (\<lambda>(k, t, v). (k, v)) ms, rest)"
  using assms(1,2,4)
proof (induction ms arbitrary: f rule: list_nonempty_induct)
  case (single m)
  obtain k t v where m: "m = (k, t, v)" by (cases m)
  with single obtain g where f: "f = Suc g" "2 * length t + 1 \<le> g" by (cases f) (auto simp: json_quote_def)
  with single m have "p_value g d (t @ CHR ''}'' # rest) = Some (v, CHR ''}'' # rest)"
    using assms(3) by (simp add: reads_at_def ends_value_def)
  with m single f show ?case
    by (simp add: json_quote_def expect_here expect_other is_ws_def quote_body_roundtrip del: p_value.simps)
next
  case (cons m ms)
  obtain k t v where m: "m = (k, t, v)" by (cases m)
  obtain m2 ms2 where ms: "ms = m2 # ms2" using cons.hyps by (cases ms) auto
  let ?mt = "members_text (map (\<lambda>(k, t, v). (k, t)) ms)"
  have mt: "members_text (map (\<lambda>(k, t, v). (k, t)) (m # ms)) = json_quote k @ CHR '':'' # t @ CHR '','' # ?mt"
    using m ms by (cases m2) simp
  have len: "2 * length (json_quote k @ CHR '':'' # t @ CHR '','' # ?mt) \<le> f" using cons.prems(2) unfolding mt .
  then obtain g where f: "f = Suc g" "2 * length t + 1 \<le> g" "2 * length ?mt \<le> g" by (cases f) (auto simp: json_quote_def)
  have "reads_at D t v" "valid_utf8 k" using cons.prems m by auto
  then have v: "p_value g d (t @ CHR '','' # r) = Some (v, CHR '','' # r)" for r
    using f(2) assms(3) by (simp add: reads_at_def ends_value_def)
  have rest: "p_members g d (?mt @ CHR ''}'' # rest) = Some (map (\<lambda>(k, t, v). (k, v)) ms, rest)"
    using cons.IH [OF _ f(3)] cons.prems by simp
  show ?case
    unfolding mt f(1) using m v rest \<open>valid_utf8 k\<close>
    by (simp add: json_quote_def expect_here expect_other is_ws_def quote_body_roundtrip del: p_value.simps)
qed

lemma object_text_value:
  assumes "ms \<noteq> []" "\<forall>(k, t, v) \<in> set ms. valid_utf8 k \<and> reads t v"
  defines "s \<equiv> object_text (map (\<lambda>(k, t, v). (k, t)) ms)"
  shows "p_value (json_fuel s) 0 s = Some (JObj (map (\<lambda>(k, t, v). (k, v)) ms), [])"
proof -
  let ?t = "members_text (map (\<lambda>(k, t, v). (k, t)) ms) @ [CHR ''}'']"
  have "\<exists>y. ?t = dquote # y"
    using assms(1) by (cases ms rule: remdups_adj.cases) (auto simp: json_quote_def)
  then have ex: "expect (CHR ''}'') ?t = None" by (auto simp: expect_other is_ws_def)
  have sk: "skip_ws s = CHR ''{'' # ?t" by (simp add: s_def object_text_def skip_ws_def is_ws_def)
  have "p_members (2 * length s) 1 ?t = Some (map (\<lambda>(k, t, v). (k, v)) ms, [])"
    using p_members_text [OF assms(1,2), of 1 "2 * length s" "[]"] by (simp add: s_def object_text_def)
  then show ?thesis
    using ex unfolding json_fuel_def
    by (subst p_value.simps(2), subst sk) (simp add: max_depth_def del: p_members.simps)
qed

lemma unmarshal_object_text:
  assumes "ms \<noteq> []" "\<forall>(k, t, v) \<in> set ms. valid_utf8 k \<and> reads t v"
  shows "json_unmarshal (object_text (map (\<lambda>(k, t, v). (k, t)) ms)) = Some (JObj (map (\<lambda>(k, t, v). (k, v)) ms))"
  using object_text_value [OF assms] by (simp add: json_unmarshal_def skip_ws_def)

text \<open>An object inside another value.\<close>

lemma reads_object:
  assumes "ms \<noteq> []" "\<forall>(k, t, v) \<in> set ms. valid_utf8 k \<and> reads_at (Suc D) t v" "D \<le> max_depth"
  shows "reads_at D (object_text (map (\<lambda>(k, t, v). (k, t)) ms)) (JObj (map (\<lambda>(k, t, v). (k, v)) ms))"
proof (rule readsI)
  fix f d c rest
  let ?s = "object_text (map (\<lambda>(k, t, v). (k, t)) ms)"
  assume f: "2 * length ?s \<le> f" and d: "d < D"
  let ?t = "members_text (map (\<lambda>(k, t, v). (k, t)) ms) @ CHR ''}'' # c # rest"
  have "\<exists>y. ?t = dquote # y" using assms(1) by (cases ms rule: remdups_adj.cases) (auto simp: json_quote_def)
  then have ex: "expect (CHR ''}'') ?t = None" by (auto simp: expect_other is_ws_def)
  have "p_members f (Suc d) ?t = Some (map (\<lambda>(k, t, v). (k, v)) ms, c # rest)"
    using f d by (intro p_members_text [OF assms(1,2)]) (simp_all add: object_text_def)
  then show "p_value (Suc f) d (?s @ c # rest) = Some (JObj (map (\<lambda>(k, t, v). (k, v)) ms), c # rest)"
    using ex d assms(3) by (simp add: object_text_def skip_ws_def is_ws_def del: p_members.simps)
qed

text \<open>An array of strings.\<close>

fun elems_text :: "string list \<Rightarrow> string" where
  "elems_text [] = []"
| "elems_text [s] = json_quote s"
| "elems_text (s # ss) = json_quote s @ CHR '','' # elems_text ss"

definition strings_text :: "string list \<Rightarrow> string" where
  "strings_text ss = CHR ''['' # elems_text ss @ [CHR '']'']"

lemma p_elems_text:
  assumes "ss \<noteq> []" "\<forall>s \<in> set ss. valid_utf8 s" "2 * length (elems_text ss) \<le> f"
  shows "p_elems f d (elems_text ss @ CHR '']'' # rest) = Some (map JStr ss, rest)"
  using assms
proof (induction ss arbitrary: f rule: list_nonempty_induct)
  case (single s)
  then obtain g where "f = Suc (Suc g)" by (cases f; cases "f - 1") (auto simp: json_quote_def)
  with single show ?case
    by (simp add: json_quote_def skip_ws_def is_ws_def quote_body_roundtrip expect_here expect_other)
next
  case (cons s ss)
  have et: "elems_text (s # ss) = json_quote s @ CHR '','' # elems_text ss" using cons.hyps by (cases ss) simp_all
  have len: "2 * length (json_quote s @ CHR '','' # elems_text ss) \<le> f" using cons.prems(2) unfolding et .
  then obtain g where f: "f = Suc (Suc g)" "2 * length (elems_text ss) \<le> Suc g"
    by (cases f; cases "f - 1") (auto simp: json_quote_def)
  have rest: "p_elems (Suc g) d (elems_text ss @ CHR '']'' # rest) = Some (map JStr ss, rest)"
    using cons.IH [OF _ f(2)] cons.prems by simp
  show ?case
    unfolding et f(1) using rest cons.prems(1)
    by (subst p_elems.simps(2)) (simp add: json_quote_def skip_ws_def is_ws_def quote_body_roundtrip expect_here del: p_elems.simps)
qed

lemma reads_strings_at:
  assumes "ss \<noteq> []" "\<forall>s \<in> set ss. valid_utf8 s" and D: "D \<le> max_depth"
  shows "reads_at D (strings_text ss) (JArr (map JStr ss))"
proof (rule readsI)
  fix f d c rest
  assume f: "2 * length (strings_text ss) \<le> f" and d: "d < D" and c: "ends_value c"
  let ?t = "elems_text ss @ CHR '']'' # c # rest"
  have "\<exists>y. ?t = dquote # y" using assms(1) by (cases ss rule: remdups_adj.cases) (auto simp: json_quote_def)
  then have ex: "expect (CHR '']'') ?t = None" by (auto simp: expect_other is_ws_def)
  have "p_elems f (Suc d) ?t = Some (map JStr ss, c # rest)"
    using f by (intro p_elems_text [OF assms(1,2)]) (simp add: strings_text_def)
  with ex d D show "p_value (Suc f) d (strings_text ss @ c # rest) = Some (JArr (map JStr ss), c # rest)"
    by (simp add: strings_text_def skip_ws_def is_ws_def del: p_elems.simps)
qed

lemma reads_strings: "ss \<noteq> [] \<Longrightarrow> \<forall>s \<in> set ss. valid_utf8 s \<Longrightarrow> reads (strings_text ss) (JArr (map JStr ss))"
  by (rule reads_strings_at) (simp_all add: max_depth_def)

lemma dec_elems_strings: "length old = 0 \<Longrightarrow> dec_elems (map JStr ss) old = Some ss"
  by (induction ss) (simp_all add: dec_string_def)

lemma valid_utf8_ascii: "list_all (in_range 0 127) s \<Longrightarrow> valid_utf8 s"
  by (induction s) (simp_all add: valid_utf8.simps)

lemma ParseInt_FormatInt:
  assumes "- (2 ^ 63) \<le> i" "i < 2 ^ 63"
  shows "ParseInt (FormatInt 10 i) = Some i"
proof (cases "i < 0")
  case True
  with assms show ?thesis by (simp add: ParseInt_def FormatInt_10 eat_def)
next
  case False
  obtain x xs where x: "show_nat (nat i) = x # xs" by (cases "show_nat (nat i)") auto
  have "is_digit x" using show_nat_digits [of "nat i"] x by simp
  then have "eat (CHR ''-'') (show_nat (nat i)) = None" "eat (CHR ''+'') (show_nat (nat i)) = None"
    using x by (auto simp: eat_def is_digit_iff)
  with False assms show ?thesis by (simp add: ParseInt_def FormatInt_10)
qed

end
