(* ===== verification/Relay_Spool.thy ===== *)
theory Relay_Spool
  imports Relay_Types Go_Json
begin

text \<open>
  The durable copy of the queue, \<^verbatim>\<open>src/spool.go\<close>, on a model of the spool directory.

  \<^item> The directory is a \<open>disk\<close>: \<open>vol\<close> is what the running process sees, \<open>dur\<close> what the last flush of
    the directory made durable. A file carries its contents and whether they have been flushed.
    \<open>power_cut\<close> is the loss of everything not flushed, in the worst way: for every name an
    adversary chooses the present entry or the durable one, and unflushed contents become junk.
  \<^item> Every call into the operating system can fail. What it does is an \<open>io\<close> record, a parameter of
    the operations, so the properties hold for every pattern of failures.
  \<^item> \<open>spool_write\<close>, \<open>spool_remove\<close>, \<open>readSpoolFile\<close>, \<open>spool_load\<close> follow the source step by step. A
    message's \<open>m_file\<close> and the names here are entry names inside the spool directory, which
    is fixed for the life of the process.
\<close>

section \<open>The directory and the operating system\<close>

datatype dirent = Directory | File bytes bool

record disk =
  vol :: "(string, dirent) gomap"
  dur :: "(string, dirent) gomap"

definition empty_disk :: disk where "empty_disk = \<lparr>vol = [], dur = []\<rparr>"

text \<open>
  What the operating system answers: the random part of the temporary name or no file at all,
  how many bytes a failing write got down, whether a flush, close, rename or directory flush
  works, and for each name whether it can be removed, read and moved aside.
\<close>

record io =
  io_tmp :: "string option"
  io_head :: "nat option"
  io_body :: "nat option"
  io_sync :: bool
  io_close :: bool
  io_rename :: bool
  io_dirsync :: bool
  io_remove :: "string \<Rightarrow> bool"
  io_read :: "string \<Rightarrow> bool"
  io_aside :: "string \<Rightarrow> bool"
  io_mkdir :: bool
  io_readdir :: bool

definition io_fine :: io where
  "io_fine = \<lparr>io_tmp = Some ''1'', io_head = None, io_body = None, io_sync = True, io_close = True,
     io_rename = True, io_dirsync = True, io_remove = (\<lambda>_. True), io_read = (\<lambda>_. True),
     io_aside = (\<lambda>_. True), io_mkdir = True, io_readdir = True\<rparr>"

definition put_file :: "string \<Rightarrow> dirent \<Rightarrow> disk \<Rightarrow> disk" where
  "put_file n e d = d\<lparr>vol := AList.update n e (vol d)\<rparr>"

definition os_Remove :: "io \<Rightarrow> string \<Rightarrow> disk \<Rightarrow> disk" where
  "os_Remove w n d = (if io_remove w n then d\<lparr>vol := AList.delete n (vol d)\<rparr> else d)"

definition os_Rename :: "string \<Rightarrow> string \<Rightarrow> disk \<Rightarrow> disk" where
  "os_Rename a b d =
     (case map_of (vol d) a of
        None \<Rightarrow> d
      | Some e \<Rightarrow> d\<lparr>vol := AList.update b e (AList.delete a (vol d))\<rparr>)"

definition syncDir :: "disk \<Rightarrow> disk" where
  "syncDir d = d\<lparr>dur := vol d\<rparr>"

definition settle_entry :: "bytes \<Rightarrow> dirent \<Rightarrow> dirent" where
  "settle_entry junk e = (case e of Directory \<Rightarrow> Directory | File b s \<Rightarrow> File (if s then b else junk) True)"

definition power_cut :: "(string \<Rightarrow> bool) \<Rightarrow> (string \<Rightarrow> bytes) \<Rightarrow> disk \<Rightarrow> disk" where
  "power_cut keep junk d =
     (let pick = (\<lambda>n. if keep n then map_of (vol d) n else map_of (dur d) n);
          survivors = List.map_filter (\<lambda>n. map_option (\<lambda>e. (n, settle_entry (junk n) e)) (pick n))
                        (remdups (mkeys (vol d) @ mkeys (dur d)))
      in \<lparr>vol = survivors, dur = survivors\<rparr>)"

section \<open>The spool\<close>

record spool =
  sp_dir :: string
  sp_next :: u64

abbreviation spoolExt :: string where "spoolExt \<equiv> ''.msg''"
abbreviation spoolTmpPre :: string where "spoolTmpPre \<equiv> ''writing-''"
abbreviation spoolCorrupt :: string where "spoolCorrupt \<equiv> ''.corrupt''"

definition spool_name :: "u64 \<Rightarrow> string" where
  "spool_name n = pad_left 20 (show_nat (unat n)) @ spoolExt"

subsection \<open>The file format\<close>

record spoolHead =
  h_ID :: string
  h_Estate :: string
  h_Station :: string
  h_Dir :: string
  h_Seq :: u64
  h_At :: int

definition head_json :: "spoolHead \<Rightarrow> string" where
  "head_json h = object_text
     [(''id'', json_quote (h_ID h)), (''estate'', json_quote (h_Estate h)),
      (''station'', json_quote (h_Station h)), (''dir'', json_quote (h_Dir h)),
      (''seq'', show_nat (unat (h_Seq h))), (''at'', FormatInt 10 (h_At h))]"

definition head_of :: "message \<Rightarrow> spoolHead" where
  "head_of m = \<lparr>h_ID = m_ID m, h_Estate = m_Estate m, h_Station = m_Station m, h_Dir = m_Dir m,
     h_Seq = m_Seq m, h_At = wrap64 (m_At m)\<rparr>"

abbreviation newline :: char where "newline \<equiv> CHR 0x0A"

definition spool_bytes :: "message \<Rightarrow> bytes" where
  "spool_bytes m = head_json (head_of m) @ newline # m_Body m"

definition head_fields :: "string list" where
  "head_fields = [''id'', ''estate'', ''station'', ''dir'', ''seq'', ''at'']"

definition head_update :: "string \<Rightarrow> json \<Rightarrow> spoolHead \<Rightarrow> spoolHead option" where
  "head_update f j h =
     (if f = ''id'' then map_option (\<lambda>x. h\<lparr>h_ID := x\<rparr>) (dec_string j (h_ID h))
      else if f = ''estate'' then map_option (\<lambda>x. h\<lparr>h_Estate := x\<rparr>) (dec_string j (h_Estate h))
      else if f = ''station'' then map_option (\<lambda>x. h\<lparr>h_Station := x\<rparr>) (dec_string j (h_Station h))
      else if f = ''dir'' then map_option (\<lambda>x. h\<lparr>h_Dir := x\<rparr>) (dec_string j (h_Dir h))
      else if f = ''seq'' then map_option (\<lambda>x. h\<lparr>h_Seq := x\<rparr>) (dec_u64 j (h_Seq h))
      else map_option (\<lambda>x. h\<lparr>h_At := x\<rparr>) (dec_i64 j (h_At h)))"

definition zero_head :: spoolHead where
  "zero_head = \<lparr>h_ID = '''', h_Estate = '''', h_Station = '''', h_Dir = '''', h_Seq = 0, h_At = 0\<rparr>"

definition readSpoolFile :: "string \<Rightarrow> bytes \<Rightarrow> message option" where
  "readSpoolFile name raw =
     (let head = takeWhile (\<lambda>c. c \<noteq> newline) raw; rest = dropWhile (\<lambda>c. c \<noteq> newline) raw
      in if rest = [] then None
         else (case Option.bind (json_unmarshal head) (\<lambda>j. decode_struct head_fields head_update j zero_head) of
                 None \<Rightarrow> None
               | Some h \<Rightarrow>
                   if \<not> validRoute (h_Estate h) (h_Station h) (h_Dir h) then None
                   else Some \<lparr>m_ID = h_ID h, m_Estate = h_Estate h, m_Station = h_Station h, m_Dir = h_Dir h,
                     m_Seq = h_Seq h, m_Body = tl rest, m_At = h_At h, m_file = name, m_lease = '''',
                     m_leaseUntil = zero_time\<rparr>))"

subsection \<open>Writing and removing\<close>

definition spool_write :: "io \<Rightarrow> message \<Rightarrow> spool \<Rightarrow> disk \<Rightarrow> string option \<times> spool \<times> disk" where
  "spool_write w m sp d =
     (case io_tmp w of
        None \<Rightarrow> (None, sp, d)
      | Some r \<Rightarrow>
          let tmp = spoolTmpPre @ r; head = head_json (head_of m) @ [newline]
          in if tmp \<in> set (mkeys (vol d)) then (None, sp, d)
             else if io_head w \<noteq> None
             then (None, sp, os_Remove w tmp (put_file tmp (File (take (the (io_head w)) head) False) d))
             else if io_body w \<noteq> None
             then (None, sp, os_Remove w tmp (put_file tmp (File (head @ take (the (io_body w)) (m_Body m)) False) d))
             else if \<not> io_sync w
             then (None, sp, os_Remove w tmp (put_file tmp (File (head @ m_Body m) False) d))
             else let d4 = put_file tmp (File (head @ m_Body m) True) d
             in if \<not> io_close w then (None, sp, os_Remove w tmp d4)
             else let final = spool_name (sp_next sp)
             in if \<not> io_rename w then (None, sp, os_Remove w tmp d4)
             else let d5 = os_Rename tmp final d4; sp' = sp\<lparr>sp_next := sp_next sp + 1\<rparr>
             in if \<not> io_dirsync w then (None, sp', os_Remove w final d5)
             else (Some final, sp', syncDir d5))"

fun spool_remove :: "io \<Rightarrow> message list \<Rightarrow> disk \<Rightarrow> disk" where
  "spool_remove w [] d = d"
| "spool_remove w (m # ms) d =
     (if m_file m = '''' then spool_remove w ms d else spool_remove w ms (os_Remove w (m_file m) d))"

subsection \<open>Loading\<close>

text \<open>\<^verbatim>\<open>fmt.Sscanf(trimmed, "%d", &n)\<close>: leading blanks, then as many digits as there are.\<close>

definition scan_uint :: "string \<Rightarrow> u64 option" where
  "scan_uint s = ParseUint (takeWhile is_digit (dropWhile (\<lambda>c. c = CHR 0x20 \<or> c = CHR 0x09) s))"

definition spoolNumber :: "string \<Rightarrow> u64 option" where
  "spoolNumber name =
     (let trimmed = trim_suffix name spoolExt
      in if trimmed = name then None else scan_uint trimmed)"

record load_state =
  ls_msgs :: "message list"
  ls_quarantined :: "string list"
  ls_highest :: u64
  ls_disk :: disk

definition load_one :: "io \<Rightarrow> string \<Rightarrow> load_state \<Rightarrow> load_state" where
  "load_one w name l =
     (case (case map_of (vol (ls_disk l)) name of
              Some (File raw s) \<Rightarrow> if io_read w name then readSpoolFile name raw else None
            | _ \<Rightarrow> None) of
        None \<Rightarrow>
          let aside = name @ spoolCorrupt
          in if io_aside w name
             then l\<lparr>ls_quarantined := ls_quarantined l @ [aside], ls_disk := os_Rename name aside (ls_disk l)\<rparr>
             else l\<lparr>ls_quarantined := ls_quarantined l @ [name]\<rparr>
      | Some m \<Rightarrow>
          l\<lparr>ls_highest := (case spoolNumber name of Some n \<Rightarrow> (if n > ls_highest l then n else ls_highest l)
                                                  | None \<Rightarrow> ls_highest l),
            ls_msgs := ls_msgs l @ [m]\<rparr>)"

definition is_file :: "dirent \<Rightarrow> bool" where
  "is_file e \<longleftrightarrow> (case e of Directory \<Rightarrow> False | File _ _ \<Rightarrow> True)"

definition spool_names :: "disk \<Rightarrow> string list" where
  "spool_names d = sort (map fst (filter (\<lambda>(n, e). is_file e \<and> \<not> has_prefix n spoolTmpPre \<and> has_suffix n spoolExt) (vol d)))"

definition tmp_names :: "disk \<Rightarrow> string list" where
  "tmp_names d = map fst (filter (\<lambda>(n, e). is_file e \<and> has_prefix n spoolTmpPre) (vol d))"

definition spool_load :: "io \<Rightarrow> disk \<Rightarrow> load_state option" where
  "spool_load w d =
     (if \<not> io_readdir w then None
      else let d' = fold (os_Remove w) (tmp_names d) d
           in Some (fold (load_one w) (spool_names d)
                \<lparr>ls_msgs = [], ls_quarantined = [], ls_highest = 0, ls_disk = d'\<rparr>))"

definition messageNumber :: "string \<Rightarrow> u64 option" where
  "messageNumber ident =
     (case ParseUint (trim_prefix ident ''m'') of
        None \<Rightarrow> None
      | Some n \<Rightarrow> if has_prefix ident ''m'' then Some n else None)"

section \<open>Lemmas\<close>

subsection \<open>The file format round-trips\<close>

lemma digit_char_not_newline [simp]: "n < 16 \<Longrightarrow> digit_char n \<noteq> newline"
  using hex_digit_char(3) [of n] by (auto simp: in_range_def)

lemma is_digit_not_newline: "newline \<notin> set (show_nat n)"
  by (rule show_nat_no_char) (simp add: is_digit_iff)

definition high :: "char \<Rightarrow> bool" where "high c \<longleftrightarrow> 128 \<le> (of_char c :: nat)"

lemma in_range_high: "in_range lo hi b \<Longrightarrow> 128 \<le> lo \<Longrightarrow> high b"
  by (simp add: in_range_def high_def)

lemma in_range_high_if: "in_range (if P then 160 else 128) hi b \<Longrightarrow> high b" "in_range (if P then 144 else 128) hi b \<Longrightarrow> high b"
  by (auto simp: in_range_def high_def split: if_splits)

lemma utf8_rune_high:
  assumes "\<not> in_range 0 127 a" "utf8_len (a # s) \<noteq> 0"
  shows "list_all high (take (utf8_len (a # s)) (a # s))"
proof -
  note low = in_range_high [of 128 191, simplified] in_range_high_if
  have a: "high a" using assms(1) by (simp add: in_range_def high_def)
  consider "in_range 194 223 a" | "\<not> in_range 194 223 a" "in_range 224 239 a"
    | "\<not> in_range 194 223 a" "\<not> in_range 224 239 a" "in_range 240 244 a"
    using assms by (auto simp: utf8_len.simps(2) split: if_splits)
  then show ?thesis
  proof cases
    case 1
    with assms a show ?thesis
      by (cases s) (simp_all add: utf8_len.simps(2) low split: if_splits)
  next
    case 2
    with assms obtain b c r where "s = b # c # r"
      by (cases s; cases "tl s") (simp_all add: utf8_len.simps(2))
    with 2 assms a show ?thesis
      by (simp add: utf8_len.simps(2) numeral_3_eq_3 low del: One_nat_def split: if_split_asm)
  next
    case 3
    with assms obtain b c e r where "s = b # c # e # r"
      by (cases s; cases "tl s"; cases "tl (tl s)") (simp_all add: utf8_len.simps(2))
    with 3 assms a show ?thesis
      by (simp add: utf8_len.simps(2) low del: One_nat_def split: if_split_asm)
  qed
qed

lemma utf8_rune_no_newline:
  assumes "\<not> in_range 0 127 (hd s)" "utf8_len s \<noteq> 0"
  shows "newline \<notin> set (take (utf8_len s) s)"
proof
  assume *: "newline \<in> set (take (utf8_len s) s)"
  then obtain a t where "s = a # t" by (cases s) auto
  with assms have "list_all high (take (utf8_len s) s)" using utf8_rune_high [of a t] by simp
  with * have "high newline" by (auto simp: list_all_iff)
  then show False by (simp add: high_def)
qed

lemma escape_byte_no_newline: "newline \<notin> set (escape_byte c)"
proof -
  have "newline \<noteq> digit_char (k mod 16)" for k using digit_char_not_newline [of "k mod 16"] by (simp add: eq_commute)
  from this this [of 0] show ?thesis by (simp add: escape_byte_def hex4_def)
qed

lemma quote_body_no_newline: "newline \<notin> set (quote_body s)"
proof (induction s rule: quote_body.induct)
  case (1 s)
  show ?case
    using "1.IH" escape_byte_no_newline [of "hd s"] utf8_rune_no_newline [of s]
    by (subst quote_body.simps) (simp del: utf8_len.simps)
qed

lemma json_quote_no_newline: "newline \<notin> set (json_quote s)"
  by (simp add: json_quote_def quote_body_no_newline)

lemma head_json_no_newline: "newline \<notin> set (head_json h)"
  by (simp add: head_json_def object_text_def json_quote_no_newline is_digit_not_newline FormatInt_10)

text \<open>The messages whose stored form can be read back: valid UTF-8 names and an instant in range.\<close>

definition storable :: "message \<Rightarrow> bool" where
  "storable m \<longleftrightarrow> valid_utf8 (m_ID m) \<and> valid_utf8 (m_Estate m) \<and> valid_utf8 (m_Station m) \<and>
     validRoute (m_Estate m) (m_Station m) (m_Dir m) \<and> - (2 ^ 63) \<le> m_At m \<and> m_At m < 2 ^ 63"

lemma head_unmarshal:
  assumes "reads (json_quote (h_ID h)) (JStr i)" "reads (json_quote (h_Estate h)) (JStr e)"
    "reads (json_quote (h_Station h)) (JStr st)" "reads (json_quote (h_Dir h)) (JStr dr)"
  shows "json_unmarshal (head_json h) = Some (JObj
     [(''id'', JStr i), (''estate'', JStr e), (''station'', JStr st), (''dir'', JStr dr),
      (''seq'', JNum (show_nat (unat (h_Seq h)))), (''at'', JNum (FormatInt 10 (h_At h)))])"
proof -
  let ?ms = "[(''id'', json_quote (h_ID h), JStr i), (''estate'', json_quote (h_Estate h), JStr e),
    (''station'', json_quote (h_Station h), JStr st), (''dir'', json_quote (h_Dir h), JStr dr),
    (''seq'', show_nat (unat (h_Seq h)), JNum (show_nat (unat (h_Seq h)))),
    (''at'', FormatInt 10 (h_At h), JNum (FormatInt 10 (h_At h)))]"
  have keys: "valid_utf8 ''id''" "valid_utf8 ''estate''" "valid_utf8 ''station''" "valid_utf8 ''dir''"
    "valid_utf8 ''seq''" "valid_utf8 ''at''"
    by (auto intro!: valid_utf8_ascii simp: in_range_def)
  have "\<forall>(k, t, v) \<in> set ?ms. valid_utf8 k \<and> reads t v"
    using assms keys by (simp add: reads_show_nat reads_FormatInt)
  then show ?thesis
    using unmarshal_object_text [of ?ms] by (simp add: head_json_def)
qed

lemma head_reads:
  assumes "reads (json_quote (h_ID h)) (JStr i)" "reads (json_quote (h_Estate h)) (JStr e)"
    "reads (json_quote (h_Station h)) (JStr st)" "reads (json_quote (h_Dir h)) (JStr dr)"
    and "- (2 ^ 63) \<le> h_At h" "h_At h < 2 ^ 63"
  shows "Option.bind (json_unmarshal (head_json h)) (\<lambda>j. decode_struct head_fields head_update j zero_head) =
    Some (h\<lparr>h_ID := i, h_Estate := e, h_Station := st, h_Dir := dr\<rparr>)"
  using head_unmarshal [OF assms(1-4)] assms(5,6)
  by (simp add: decode_struct_def match_field_def head_fields_def head_update_def dec_string_def dec_u64_def
      dec_i64_def ParseUint_show_nat ParseInt_FormatInt zero_head_def)

lemma readSpoolFile_spool_bytes:
  assumes "reads (json_quote (m_ID m)) (JStr i)" "reads (json_quote (m_Estate m)) (JStr e)"
    "reads (json_quote (m_Station m)) (JStr st)" "reads (json_quote (m_Dir m)) (JStr dr)"
    and "validRoute e st dr" "- (2 ^ 63) \<le> m_At m" "m_At m < 2 ^ 63"
  shows "readSpoolFile name (spool_bytes m) = Some (m\<lparr>m_ID := i, m_Estate := e, m_Station := st, m_Dir := dr,
    m_file := name, m_lease := '''', m_leaseUntil := zero_time\<rparr>)"
proof -
  have nl: "takeWhile (\<lambda>c. c \<noteq> newline) (spool_bytes m) = head_json (head_of m)"
    "dropWhile (\<lambda>c. c \<noteq> newline) (spool_bytes m) = newline # m_Body m"
    using head_json_no_newline [of "head_of m"]
    by (auto simp: spool_bytes_def takeWhile_append dropWhile_append)
  have dec: "Option.bind (json_unmarshal (head_json (head_of m)))
      (\<lambda>j. decode_struct head_fields head_update j zero_head) =
      Some ((head_of m)\<lparr>h_ID := i, h_Estate := e, h_Station := st, h_Dir := dr\<rparr>)"
    using assms by (intro head_reads) (auto simp: head_of_def wrap64_id)
  with nl assms(5-7) show ?thesis by (simp add: readSpoolFile_def head_of_def wrap64_id)
qed

lemma valid_utf8_dir: "validDir d \<Longrightarrow> valid_utf8 d"
  by (auto simp: validDir_def in_range_def intro!: valid_utf8_ascii)

lemma storable_reads:
  assumes "storable m"
  shows "readSpoolFile name (spool_bytes m) =
    Some (m\<lparr>m_file := name, m_lease := '''', m_leaseUntil := zero_time\<rparr>)"
  using assms readSpoolFile_spool_bytes [of m "m_ID m" "m_Estate m" "m_Station m" "m_Dir m" name]
  by (simp add: storable_def reads_quote valid_utf8_dir route_simps)

text \<open>
  Property C27. A spooled message reads back as itself. For every message with a valid route, valid
  UTF-8 names and an instant that fits 64 bits of nanoseconds, reading the bytes that
  were written for it gives back its id, route, sequence number, instant and body unchanged,
  whatever the body contains, newlines included, with no lease on it.
\<close>

theorem spool_file_roundtrip:
  assumes "storable m"
  shows "readSpoolFile name (spool_bytes m) =
    Some (m\<lparr>m_file := name, m_lease := '''', m_leaseUntil := zero_time\<rparr>)"
  using assms by (rule storable_reads)

definition sample_message :: message where
  "sample_message = \<lparr>m_ID = ''m7'', m_Estate = ''e1'', m_Station = ''st'', m_Dir = c2s, m_Seq = 3,
     m_Body = [CHR 0x00, newline, CHR 0xFF], m_At = 5, m_file = '''', m_lease = '''', m_leaseUntil = zero_time\<rparr>"

lemma sample_storable: "storable sample_message"
  by (auto simp: storable_def sample_message_def validRoute_def in_range_def intro!: valid_utf8_ascii)

theorem spool_file_roundtrip_witness:
  "readSpoolFile ''f'' (spool_bytes sample_message) = Some (sample_message\<lparr>m_file := ''f''\<rparr>)"
  using spool_file_roundtrip [OF sample_storable, of "''f''"] by (simp add: sample_message_def)

text \<open>A lone byte that starts no rune is written as the escape of U+FFFD.\<close>

lemma reads_bad_byte: "reads (json_quote [CHR 0xFF]) (JStr rune_error)"
proof -
  have q: "quote_body [CHR 0xFF] = bslash # CHR ''u'' # ''fffd''"
    by (simp add: quote_body.simps in_range_def utf8_len.simps(2))
  have u: "get_u4 (''fffd'' @ r) = Some 65533" for r
    by (simp add: get_u4_def is_hex_def in_range_def hex_str_val_def hex_val_def)
  have "p_string (quote_body [CHR 0xFF] @ dquote # r) = Some (rune_error, r)" for r
    unfolding q using u [of "dquote # r"]
    by (simp add: p_string.simps [of "bslash # CHR ''u'' # _"] p_string.simps [of "dquote # _"] escaped_rune_def
        is_surrogate_def prepend_comp encode_rune_def rune_error_def byte_def char_of_def bit_0)
  then show ?thesis by (intro readsI) (simp add: json_quote_def skip_ws_def is_ws_def)
qed

text \<open>
  Property C40. A route whose name is not valid UTF-8 does not survive the spool: the encoder
  writes the replacement character for the offending byte, so a message accepted for the estate
  named by the single byte FF is read back after a restart as a message of another estate, in
  another queue, with its body unchanged.
\<close>

theorem spool_invalid_utf8_moves_queue:
  "\<exists>m m'. validRoute (m_Estate m) (m_Station m) (m_Dir m) \<and> readSpoolFile ''f'' (spool_bytes m) = Some m' \<and>
     m_Body m' = m_Body m \<and> key (m_Estate m') (m_Station m') (m_Dir m') \<noteq> key (m_Estate m) (m_Station m) (m_Dir m)"
proof -
  let ?m = "sample_message\<lparr>m_Estate := [CHR 0xFF]\<rparr>"
  have "reads (json_quote (m_ID ?m)) (JStr (m_ID ?m))" "reads (json_quote (m_Station ?m)) (JStr (m_Station ?m))"
    "reads (json_quote (m_Dir ?m)) (JStr (m_Dir ?m))"
    using sample_storable by (simp_all add: storable_def reads_quote valid_utf8_dir route_simps)
  from readSpoolFile_spool_bytes [OF this(1) _ this(2,3), of rune_error "''f''"] reads_bad_byte
  have "\<exists>m'. readSpoolFile ''f'' (spool_bytes ?m) = Some m' \<and> m_Body m' = m_Body ?m \<and>
      m_Estate m' = rune_error \<and> m_Station m' = m_Station ?m \<and> m_Dir m' = m_Dir ?m"
    by (simp add: sample_message_def validRoute_def rune_error_def)
  then obtain m' where "readSpoolFile ''f'' (spool_bytes ?m) = Some m'" "m_Body m' = m_Body ?m"
    "m_Estate m' = rune_error" "m_Station m' = m_Station ?m" "m_Dir m' = m_Dir ?m" by blast
  moreover have "validRoute (m_Estate ?m) (m_Station ?m) (m_Dir ?m)"
    "key rune_error (m_Station ?m) (m_Dir ?m) \<noteq> key (m_Estate ?m) (m_Station ?m) (m_Dir ?m)"
    by (simp_all add: sample_message_def validRoute_def key_def rune_error_def)
  ultimately show ?thesis by metis
qed

end
