(* ===== verification/Relay_Store.thy ===== *)
theory Relay_Store
  imports Relay_Spool
begin

text \<open>
  The store of undelivered messages, \<^verbatim>\<open>src/relay.go\<close> and \<^verbatim>\<open>src/lease.go\<close>, and the start-up that loads the
  spool into it (\<^verbatim>\<open>OpenSpool\<close>, \<^verbatim>\<open>src/spool.go\<close>).

  \<^item> A \<open>store\<close> has the fields of the struct. Its clock is a parameter of the operations: \<open>clk i\<close> is the
    answer of the i-th reading an operation makes, so nothing is assumed of two readings.
  \<^item> The methods lock the store for their whole body, so each is one step from a pair of store
    and spool directory to another. An error is the sentence of its sentinel; the underlying cause
    that \<^verbatim>\<open>ErrNotDurable\<close> wraps is not kept.
  \<^item> The slices of a queue are not shared with callers: what an operation hands out is a copy of
    the entries. The bodies are shared, and no operation writes to one.
\<close>

section \<open>The store\<close>

record store =
  s_q :: "(string, message list) gomap"
  s_ttl :: duration
  s_max :: int
  s_spool :: "spool option"
  s_ids :: u64
  s_leases :: u64
  s_epoch :: string

definition DefaultTTL :: duration where "DefaultTTL = 7 * 24 * Hour"
definition DefaultMaxQueue :: int where "DefaultMaxQueue = 256"
definition MaxBodyBytes :: int where "MaxBodyBytes = 8 * 2 ^ 20"
definition MaxLease :: duration where "MaxLease = 5 * Minute"

definition NewStore :: "time \<Rightarrow> store" where
  "NewStore t = \<lparr>s_q = [], s_ttl = DefaultTTL, s_max = DefaultMaxQueue, s_spool = None, s_ids = 0,
     s_leases = 0, s_epoch = FormatInt 36 (wrap64 t)\<rparr>"

definition queue :: "store \<Rightarrow> string \<Rightarrow> message list" where
  "queue s k = lookup_or [] (s_q s) k"

text \<open>Replacing a queue, an empty one leaving the map.\<close>

definition set_queue :: "string \<Rightarrow> message list \<Rightarrow> store \<Rightarrow> store" where
  "set_queue k ms s = s\<lparr>s_q := (if ms = [] then AList.delete k (s_q s) else AList.update k ms (s_q s))\<rparr>"

definition dropDurableLocked :: "io \<Rightarrow> message list \<Rightarrow> store \<Rightarrow> disk \<Rightarrow> disk" where
  "dropDurableLocked w ms s d = (case s_spool s of None \<Rightarrow> d | Some _ \<Rightarrow> spool_remove w ms d)"

definition expireLocked :: "io \<Rightarrow> time \<Rightarrow> string \<Rightarrow> store \<Rightarrow> disk \<Rightarrow> store \<times> disk" where
  "expireLocked w now k s d =
     (let msgs = queue s k
      in if msgs = [] then (s, d)
         else let cut = now - s_ttl s; i = length (takeWhile (\<lambda>m. m_At m < cut) msgs)
              in if i = 0 then (s, d)
                 else (set_queue k (drop i msgs) s, dropDurableLocked w (take i msgs) s d))"

definition release :: "time \<Rightarrow> message \<Rightarrow> message" where
  "release now m = (if m_lease m \<noteq> '''' \<and> \<not> now < m_leaseUntil m
                    then m\<lparr>m_lease := '''', m_leaseUntil := zero_time\<rparr> else m)"

definition expireLeasesLocked :: "time \<Rightarrow> string \<Rightarrow> store \<Rightarrow> store" where
  "expireLeasesLocked now k s = s\<lparr>s_q := AList.map_entry k (map (release now)) (s_q s)\<rparr>"

definition nextLeaseLocked :: "store \<Rightarrow> string \<times> store" where
  "nextLeaseLocked s =
     (let n = s_leases s + 1 in (s_epoch s @ ''-'' @ show_nat (unat n), s\<lparr>s_leases := n\<rparr>))"

definition nextIDLocked :: "store \<Rightarrow> string \<times> store" where
  "nextIDLocked s = (let n = s_ids s + 1 in (''m'' @ show_nat (unat n), s\<lparr>s_ids := n\<rparr>))"

section \<open>The operations\<close>

definition Put :: "io \<Rightarrow> (nat \<Rightarrow> time) \<Rightarrow> message \<Rightarrow> store \<Rightarrow> disk \<Rightarrow> (string + unit) \<times> store \<times> disk" where
  "Put w clk m s d =
     (if \<not> validRoute (m_Estate m) (m_Station m) (m_Dir m) then (Inl ErrBadRoute, s, d)
      else if int (length (m_Body m)) > MaxBodyBytes then (Inl ErrTooLarge, s, d)
      else let k = key (m_Estate m) (m_Station m) (m_Dir m);
               (s1, d1) = expireLocked w (clk 0) k s d
      in if int (length (queue s1 k)) \<ge> s_max s1 then (Inl ErrQueueFull, s1, d1)
      else let (ident, s2) = nextIDLocked s1;
               m1 = m\<lparr>m_At := clk 1, m_ID := ident\<rparr>
      in (case s_spool s2 of
            None \<Rightarrow> (Inr (), set_queue k (queue s2 k @ [m1]) s2, d1)
          | Some sp \<Rightarrow>
              (case spool_write w m1 sp d1 of
                 (None, sp', d2) \<Rightarrow> (Inl ErrNotDurable, s2\<lparr>s_spool := Some sp'\<rparr>, d2)
               | (Some file, sp', d2) \<Rightarrow>
                   (Inr (), set_queue k (queue s2 k @ [m1\<lparr>m_file := file\<rparr>]) (s2\<lparr>s_spool := Some sp'\<rparr>), d2))))"

fun take_loop :: "int \<Rightarrow> message list \<Rightarrow> message list \<Rightarrow> message list \<Rightarrow> message list \<times> message list" where
  "take_loop limit taken kept [] = (taken, kept)"
| "take_loop limit taken kept (m # ms) =
     (if m_lease m \<noteq> '''' \<or> (limit > 0 \<and> int (length taken) \<ge> limit)
      then take_loop limit taken (kept @ [m]) ms
      else take_loop limit (taken @ [m]) kept ms)"

definition Take ::
  "io \<Rightarrow> (nat \<Rightarrow> time) \<Rightarrow> string \<Rightarrow> string \<Rightarrow> string \<Rightarrow> int \<Rightarrow> store \<Rightarrow> disk \<Rightarrow> (string + message list) \<times> store \<times> disk" where
  "Take w clk estate station dir limit s d =
     (if \<not> validRoute estate station dir then (Inl ErrBadRoute, s, d)
      else let k = key estate station dir;
               (s1, d1) = expireLocked w (clk 0) k s d;
               s2 = expireLeasesLocked (clk 1) k s1;
               msgs = queue s2 k
      in if msgs = [] then (Inr [], s2, d1)
      else let (taken, kept) = take_loop limit [] [] msgs
      in if taken = [] then (Inr [], s2, d1)
      else (Inr taken, set_queue k kept s2, dropDurableLocked w taken s2 d1))"

record lease =
  l_ID :: string
  l_Until :: time
  l_Messages :: "message list"

definition empty_lease :: lease where
  "empty_lease = \<lparr>l_ID = '''', l_Until = zero_time, l_Messages = []\<rparr>"

fun lease_loop :: "string \<Rightarrow> time \<Rightarrow> int \<Rightarrow> message list \<Rightarrow> message list \<Rightarrow> message list \<times> message list" where
  "lease_loop ident until limit held [] = (held, [])"
| "lease_loop ident until limit held (m # ms) =
     (if m_lease m \<noteq> ''''
      then (let (h, ms') = lease_loop ident until limit held ms in (h, m # ms'))
      else if limit > 0 \<and> int (length held) \<ge> limit then (held, m # ms)
      else let m' = m\<lparr>m_lease := ident, m_leaseUntil := until\<rparr>;
               (h, ms') = lease_loop ident until limit (held @ [m']) ms
           in (h, m' # ms'))"

definition TakeLeased ::
  "io \<Rightarrow> (nat \<Rightarrow> time) \<Rightarrow> string \<Rightarrow> string \<Rightarrow> string \<Rightarrow> int \<Rightarrow> duration \<Rightarrow> store \<Rightarrow> disk \<Rightarrow> (string + lease) \<times> store \<times> disk" where
  "TakeLeased w clk estate station dir limit dt s d =
     (if \<not> validRoute estate station dir then (Inl ErrBadRoute, s, d)
      else if dt \<le> 0 then (Inl ErrBadLease, s, d)
      else if dt > MaxLease then (Inl ErrLeaseTooLong, s, d)
      else let k = key estate station dir;
               (s1, d1) = expireLocked w (clk 0) k s d;
               s2 = expireLeasesLocked (clk 1) k s1;
               (ident, s3) = nextLeaseLocked s2;
               until = clk 2 + dt;
               (held, msgs) = lease_loop ident until limit [] (queue s3 k);
               s4 = s3\<lparr>s_q := AList.map_entry k (\<lambda>_. msgs) (s_q s3)\<rparr>
      in if held = [] then (Inr empty_lease, s4, d1)
      else (Inr \<lparr>l_ID = ident, l_Until = until, l_Messages = held\<rparr>, s4, d1))"

definition Ack ::
  "io \<Rightarrow> (nat \<Rightarrow> time) \<Rightarrow> string \<Rightarrow> string \<Rightarrow> string \<Rightarrow> string \<Rightarrow> store \<Rightarrow> disk \<Rightarrow> (string + nat) \<times> store \<times> disk" where
  "Ack w clk estate station dir ident s d =
     (if \<not> validRoute estate station dir then (Inl ErrBadRoute, s, d)
      else if TrimSpace ident = '''' then (Inl ErrNoSuchLease, s, d)
      else let k = key estate station dir;
               (s1, d1) = expireLocked w (clk 0) k s d;
               s2 = expireLeasesLocked (clk 1) k s1;
               msgs = queue s2 k;
               acked = filter (\<lambda>m. m_lease m = ident) msgs;
               kept = filter (\<lambda>m. m_lease m \<noteq> ident) msgs
      in if acked = [] then (Inl ErrNoSuchLease, s2, d1)
      else (Inr (length acked), set_queue k kept s2, dropDurableLocked w acked s2 d1))"

definition Durable :: "store \<Rightarrow> bool" where
  "Durable s \<longleftrightarrow> s_spool s \<noteq> None"

definition Depth :: "io \<Rightarrow> time \<Rightarrow> string \<Rightarrow> string \<Rightarrow> string \<Rightarrow> store \<Rightarrow> disk \<Rightarrow> nat \<times> store \<times> disk" where
  "Depth w now estate station dir s d =
     (let k = key estate station dir; (s1, d1) = expireLocked w now k s d in (length (queue s1 k), s1, d1))"

definition total_messages :: "store \<Rightarrow> nat" where
  "total_messages s = sum_list (map (\<lambda>(k, ms). length ms) (s_q s))"

definition Sweep :: "io \<Rightarrow> (string \<Rightarrow> time) \<Rightarrow> store \<Rightarrow> disk \<Rightarrow> int \<times> store \<times> disk" where
  "Sweep w clk s d =
     (let before = total_messages s;
          (s', d') = fold (\<lambda>k (s1, d1). expireLocked w (clk k) k s1 d1) (mkeys (s_q s)) (s, d);
          after = total_messages s'
      in (int before - int after, s', d'))"

section \<open>Start-up\<close>

record SpoolReport =
  rep_Dir :: string
  rep_Messages :: nat
  rep_Bytes :: int
  rep_Quarantined :: "string list"

definition load_message :: "message \<Rightarrow> store \<Rightarrow> store" where
  "load_message m s =
     (let k = key (m_Estate m) (m_Station m) (m_Dir m);
          s1 = set_queue k (queue s k @ [m]) s
      in (case messageNumber (m_ID m) of
            Some n \<Rightarrow> if n > s_ids s1 then s1\<lparr>s_ids := n\<rparr> else s1
          | None \<Rightarrow> s1))"

definition OpenSpool :: "io \<Rightarrow> string \<Rightarrow> store \<Rightarrow> disk \<Rightarrow> (string + SpoolReport) \<times> store \<times> disk" where
  "OpenSpool w dir s d =
     (if TrimSpace dir = '''' then (Inl ''a spool needs a directory'', s, d)
      else if \<not> io_mkdir w then (Inl ''spool directory'', s, d)
      else (case spool_load w d of
              None \<Rightarrow> (Inl ''reading spool'', s, d)
            | Some l \<Rightarrow>
                let sp = \<lparr>sp_dir = dir, sp_next = ls_highest l + 1\<rparr>
                in (Inr \<lparr>rep_Dir = dir, rep_Messages = length (ls_msgs l),
                         rep_Bytes = (\<Sum>m\<leftarrow>ls_msgs l. int (length (m_Body m))),
                         rep_Quarantined = ls_quarantined l\<rparr>,
                    fold load_message (ls_msgs l) (s\<lparr>s_spool := Some sp\<rparr>), ls_disk l)))"

section \<open>Lemmas\<close>

subsection \<open>Queues\<close>

lemma queue_set_queue [simp]: "queue (set_queue k ms s) k' = (if k' = k then ms else queue s k')"
  by (simp add: queue_def set_queue_def)

lemma set_queue_fields [simp]:
  "s_ttl (set_queue k ms s) = s_ttl s" "s_max (set_queue k ms s) = s_max s" "s_spool (set_queue k ms s) = s_spool s"
  "s_ids (set_queue k ms s) = s_ids s" "s_leases (set_queue k ms s) = s_leases s" "s_epoch (set_queue k ms s) = s_epoch s"
  by (simp_all add: set_queue_def)

lemma queue_updates [simp]:
  "queue (s\<lparr>s_spool := sp\<rparr>) k = queue s k" "queue (s\<lparr>s_ids := i\<rparr>) k = queue s k" "queue (s\<lparr>s_leases := l\<rparr>) k = queue s k"
  by (simp_all add: queue_def)

lemma lookup_or_map_entry:
  "lookup_or [] (AList.map_entry k f m) k' =
     (if k' = k \<and> k \<in> set (mkeys m) then f (lookup_or [] m k) else lookup_or [] m k')"
proof (cases "map_of m k")
  case None
  then have "k \<notin> set (mkeys m)" by (simp add: map_of_eq_None_iff)
  with None show ?thesis by (simp add: lookup_or_def map_of_map_entry)
next
  case (Some v)
  then have "k \<in> set (mkeys m)" by (force dest: map_of_SomeD)
  with Some show ?thesis by (simp add: lookup_or_def map_of_map_entry)
qed

lemma queue_map_entry [simp]:
  "queue (t\<lparr>s_q := AList.map_entry k f (s_q s)\<rparr>) k' =
     (if k' = k \<and> k \<in> set (mkeys (s_q s)) then f (queue s k) else queue s k')"
  by (simp add: queue_def lookup_or_map_entry)

lemma queue_not_key: "k \<notin> set (mkeys (s_q s)) \<Longrightarrow> queue s k = []"
  by (force simp: queue_def lookup_or_def split: option.splits dest!: map_of_SomeD)

lemma queue_expireLeases [simp]:
  "queue (expireLeasesLocked now k s) k' = (if k' = k then map (release now) (queue s k) else queue s k')"
  by (auto simp: expireLeasesLocked_def queue_not_key)

lemma expireLeases_fields [simp]:
  "s_ttl (expireLeasesLocked t k s) = s_ttl s" "s_max (expireLeasesLocked t k s) = s_max s"
  "s_spool (expireLeasesLocked t k s) = s_spool s" "s_ids (expireLeasesLocked t k s) = s_ids s"
  "s_leases (expireLeasesLocked t k s) = s_leases s" "s_epoch (expireLeasesLocked t k s) = s_epoch s"
  by (simp_all add: expireLeasesLocked_def)

text \<open>The specification of expiry on one queue: the leading messages older than the limit go.\<close>

definition live :: "duration \<Rightarrow> time \<Rightarrow> message list \<Rightarrow> message list" where
  "live ttl now ms = dropWhile (\<lambda>m. m_At m < now - ttl) ms"

definition stale :: "duration \<Rightarrow> time \<Rightarrow> message list \<Rightarrow> message list" where
  "stale ttl now ms = takeWhile (\<lambda>m. m_At m < now - ttl) ms"

lemma stale_live: "stale ttl now ms @ live ttl now ms = ms"
  by (simp add: live_def stale_def)

lemma expireLocked_eq:
  "expireLocked w now k s d =
     (if stale (s_ttl s) now (queue s k) = [] then (s, d)
      else (set_queue k (live (s_ttl s) now (queue s k)) s,
            dropDurableLocked w (stale (s_ttl s) now (queue s k)) s d))"
proof -
  have t: "take (length (stale ttl now ms)) ms = stale ttl now ms" for ttl now ms
    unfolding stale_def by (metis append_eq_conv_conj takeWhile_dropWhile_id)
  have l: "drop (length (stale ttl now ms)) ms = live ttl now ms" for ttl now ms
    unfolding stale_def live_def by (metis append_eq_conv_conj takeWhile_dropWhile_id)
  have n: "stale ttl now [] = []" for ttl now by (simp add: stale_def)
  show ?thesis
    unfolding expireLocked_def Let_def stale_def [symmetric] by (simp add: t l n)
qed

lemma live_id: "stale ttl now ms = [] \<Longrightarrow> live ttl now ms = ms"
  using stale_live [of ttl now ms] by simp

lemma queue_expireLocked [simp]:
  "queue (fst (expireLocked w now k s d)) k' = (if k' = k then live (s_ttl s) now (queue s k) else queue s k')"
  by (simp add: expireLocked_eq live_id)

lemma expireLocked_fields [simp]:
  "s_ttl (fst (expireLocked w t k s d)) = s_ttl s" "s_max (fst (expireLocked w t k s d)) = s_max s"
  "s_spool (fst (expireLocked w t k s d)) = s_spool s" "s_ids (fst (expireLocked w t k s d)) = s_ids s"
  "s_leases (fst (expireLocked w t k s d)) = s_leases s" "s_epoch (fst (expireLocked w t k s d)) = s_epoch s"
  by (simp_all add: expireLocked_eq)

lemma expireLocked_disk: "snd (expireLocked w t k s d) = dropDurableLocked w (stale (s_ttl s) t (queue s k)) s d"
  by (simp add: expireLocked_eq dropDurableLocked_def split: option.splits)

subsection \<open>What one collection does to one queue\<close>

text \<open>
  The messages nobody holds, at most \<open>limit\<close> of them when the limit is positive, and the same messages
  once a lease is put on them. \<open>plain\<close> is a message without its lease.
\<close>

definition free :: "message \<Rightarrow> bool" where "free m \<longleftrightarrow> m_lease m = ''''"

definition lock :: "string \<Rightarrow> time \<Rightarrow> message \<Rightarrow> message" where
  "lock ident until m = m\<lparr>m_lease := ident, m_leaseUntil := until\<rparr>"

definition plain :: "message \<Rightarrow> message" where
  "plain m = m\<lparr>m_lease := '''', m_leaseUntil := zero_time\<rparr>"

fun kept_from :: "int \<Rightarrow> nat \<Rightarrow> message list \<Rightarrow> message list" where
  "kept_from limit n [] = []"
| "kept_from limit n (m # ms) =
     (if \<not> free m \<or> (limit > 0 \<and> int n \<ge> limit) then m # kept_from limit n ms else kept_from limit (Suc n) ms)"

definition avail_from :: "int \<Rightarrow> nat \<Rightarrow> message list \<Rightarrow> message list" where
  "avail_from limit n ms = (if limit > 0 then take (nat limit - n) (filter free ms) else filter free ms)"

abbreviation kept :: "int \<Rightarrow> message list \<Rightarrow> message list" where "kept limit ms \<equiv> kept_from limit 0 ms"
abbreviation avail :: "int \<Rightarrow> message list \<Rightarrow> message list" where "avail limit ms \<equiv> avail_from limit 0 ms"

lemma lock_sel [simp]:
  "m_lease (lock i u m) = i" "m_leaseUntil (lock i u m) = u" "m_ID (lock i u m) = m_ID m" "m_Body (lock i u m) = m_Body m"
  "m_At (lock i u m) = m_At m" "m_file (lock i u m) = m_file m" "m_Estate (lock i u m) = m_Estate m"
  "m_Station (lock i u m) = m_Station m" "m_Dir (lock i u m) = m_Dir m" "m_Seq (lock i u m) = m_Seq m"
  "plain (lock i u m) = plain m"
  by (simp_all add: lock_def plain_def)

lemma plain_sel [simp]:
  "m_lease (plain m) = ''''" "m_leaseUntil (plain m) = zero_time" "m_ID (plain m) = m_ID m" "m_Body (plain m) = m_Body m"
  "m_At (plain m) = m_At m" "m_file (plain m) = m_file m" "m_Estate (plain m) = m_Estate m"
  "m_Station (plain m) = m_Station m" "m_Dir (plain m) = m_Dir m" "m_Seq (plain m) = m_Seq m"
  "plain (plain m) = plain m"
  by (simp_all add: plain_def)

lemma release_sel [simp]:
  "m_ID (release t m) = m_ID m" "m_Body (release t m) = m_Body m" "m_At (release t m) = m_At m"
  "m_file (release t m) = m_file m" "m_Estate (release t m) = m_Estate m" "m_Station (release t m) = m_Station m"
  "m_Dir (release t m) = m_Dir m" "m_Seq (release t m) = m_Seq m" "plain (release t m) = plain m"
  by (simp_all add: release_def plain_def)

lemma avail_from_Cons:
  "avail_from limit n (m # ms) =
     (if \<not> free m then avail_from limit n ms
      else if limit > 0 \<and> int n \<ge> limit then [] else m # avail_from limit (Suc n) ms)"
proof -
  have "nat limit - n = Suc (nat limit - Suc n)" if "\<not> int n \<ge> limit" using that by simp
  then show ?thesis by (auto simp: avail_from_def)
qed

lemma avail_from_Nil [simp]: "avail_from limit n [] = []"
  by (simp add: avail_from_def)

lemma avail_from_full: "limit > 0 \<Longrightarrow> int n \<ge> limit \<Longrightarrow> avail_from limit n ms = []"
  by (simp add: avail_from_def)

lemma kept_from_full: "limit > 0 \<Longrightarrow> int n \<ge> limit \<Longrightarrow> kept_from limit n ms = ms"
  by (induction ms) simp_all

lemma take_loop_eq:
  "take_loop limit taken kp ms = (taken @ avail_from limit (length taken) ms, kp @ kept_from limit (length taken) ms)"
  by (induction ms arbitrary: taken kp)
    (simp_all add: avail_from_Cons avail_from_full kept_from_full free_def)

lemma avail_kept_shuffles: "ms \<in> shuffles (avail_from limit n ms) (kept_from limit n ms)"
proof (induction ms arbitrary: n)
  case Nil
  show ?case by simp
next
  case (Cons m ms)
  show ?case
    using Cons [of n] Cons [of "Suc n"]
    by (cases "limit > 0 \<and> int n \<ge> limit")
      (auto simp: avail_from_Cons avail_from_full kept_from_full intro: Cons_in_shuffles_leftI Cons_in_shuffles_rightI)
qed

lemma lease_loop_fst:
  "fst (lease_loop i u limit held ms) = held @ map (lock i u) (avail_from limit (length held) ms)"
  by (induction ms arbitrary: held) (simp_all add: avail_from_Cons free_def split_beta Let_def lock_def)

lemma lease_loop_plain: "map plain (snd (lease_loop i u limit held ms)) = map plain ms"
  by (induction ms arbitrary: held) (simp_all add: split_beta Let_def plain_def)

lemma lease_loop_filter:
  assumes "i \<noteq> ''''" "\<forall>m \<in> set ms. m_lease m \<noteq> i"
  shows "filter (\<lambda>m. m_lease m = i) (snd (lease_loop i u limit held ms)) = map (lock i u) (avail_from limit (length held) ms)"
    and "filter (\<lambda>m. m_lease m \<noteq> i) (snd (lease_loop i u limit held ms)) = kept_from limit (length held) ms"
proof -
  have same: "filter (\<lambda>m. m_lease m = i) xs = []" "filter (\<lambda>m. m_lease m \<noteq> i) xs = xs"
    if "\<forall>m \<in> set xs. m_lease m \<noteq> i" for xs
    using that by (auto simp: filter_empty_conv filter_id_conv)
  show "filter (\<lambda>m. m_lease m = i) (snd (lease_loop i u limit held ms)) = map (lock i u) (avail_from limit (length held) ms)"
    using assms
    by (induction ms arbitrary: held)
      (simp_all add: avail_from_Cons free_def split_beta Let_def lock_def same)
  show "filter (\<lambda>m. m_lease m \<noteq> i) (snd (lease_loop i u limit held ms)) = kept_from limit (length held) ms"
    using assms
    by (induction ms arbitrary: held)
      (simp_all add: kept_from_full free_def split_beta Let_def same)
qed

lemma avail_none_kept:
  assumes "avail_from limit n ms = []"
  shows "kept_from limit n ms = ms"
  using avail_kept_shuffles [of ms limit n] assms by simp

subsection \<open>The operations on their own queue and on the others\<close>

declare One_nat_def [simp del]

text \<open>The queue an operation of the route finds once expired messages and expired leases are gone.\<close>

definition refreshed :: "(nat \<Rightarrow> time) \<Rightarrow> store \<Rightarrow> string \<Rightarrow> message list" where
  "refreshed clk s k = map (release (clk 1)) (live (s_ttl s) (clk 0) (queue s k))"

definition after_refresh :: "io \<Rightarrow> (nat \<Rightarrow> time) \<Rightarrow> string \<Rightarrow> store \<Rightarrow> disk \<Rightarrow> store" where
  "after_refresh w clk k s d = expireLeasesLocked (clk 1) k (fst (expireLocked w (clk 0) k s d))"

lemma after_refresh_sel [simp]:
  "queue (after_refresh w clk k s d) k' = (if k' = k then refreshed clk s k else queue s k')"
  "s_ttl (after_refresh w clk k s d) = s_ttl s" "s_max (after_refresh w clk k s d) = s_max s"
  "s_spool (after_refresh w clk k s d) = s_spool s" "s_ids (after_refresh w clk k s d) = s_ids s"
  "s_leases (after_refresh w clk k s d) = s_leases s" "s_epoch (after_refresh w clk k s d) = s_epoch s"
  by (simp_all add: after_refresh_def refreshed_def)

lemma dropDurable_spool: "s_spool s = s_spool s' \<Longrightarrow> dropDurableLocked w ms s d = dropDurableLocked w ms s' d"
  by (simp add: dropDurableLocked_def)

lemma dropDurable_Nil [simp]: "dropDurableLocked w [] s d = d"
  by (simp add: dropDurableLocked_def split: option.splits)

lemma Take_eq:
  assumes "validRoute e st dr"
  defines "k \<equiv> key e st dr"
  shows "Take w clk e st dr limit s d =
    (let s2 = after_refresh w clk k s d; d1 = snd (expireLocked w (clk 0) k s d); q = refreshed clk s k
     in (Inr (avail limit q), if avail limit q = [] then s2 else set_queue k (kept limit q) s2,
         dropDurableLocked w (avail limit q) s d1))"
proof -
  have [simp]: "expireLeasesLocked (clk 1) k (fst (expireLocked w (clk 0) k s d)) = after_refresh w clk k s d"
    by (simp add: after_refresh_def)
  have [simp]: "dropDurableLocked w ms (after_refresh w clk k s d) = dropDurableLocked w ms s" for ms
    by (intro ext dropDurable_spool) simp
  show ?thesis
    using assms(1) by (auto simp: Take_def k_def [symmetric] split_beta Let_def take_loop_eq refreshed_def)
qed

lemma TakeLeased_eq:
  fixes s :: store and clk :: "nat \<Rightarrow> time" and dt :: duration
  assumes "validRoute e st dr" "0 < dt" "dt \<le> MaxLease"
  defines "k \<equiv> key e st dr" and "i \<equiv> fst (nextLeaseLocked s)" and "u \<equiv> clk 2 + dt"
  shows "fst (TakeLeased w clk e st dr limit dt s d) =
      Inr (if avail limit (refreshed clk s k) = [] then empty_lease
           else \<lparr>l_ID = i, l_Until = u, l_Messages = map (lock i u) (avail limit (refreshed clk s k))\<rparr>)"
    and "queue (fst (snd (TakeLeased w clk e st dr limit dt s d))) k' =
      (if k' = k then snd (lease_loop i u limit [] (refreshed clk s k)) else queue s k')"
    and "snd (snd (TakeLeased w clk e st dr limit dt s d)) = snd (expireLocked w (clk 0) k s d)"
proof -
  let ?s2 = "after_refresh w clk k s d"
  have r: "expireLeasesLocked (clk 1) k (fst (expireLocked w (clk 0) k s d)) = ?s2"
    by (simp add: after_refresh_def)
  have nk: "k \<notin> set (mkeys (s_q ?s2)) \<Longrightarrow> refreshed clk s k = []"
    using queue_not_key [of k ?s2] by simp
  show "fst (TakeLeased w clk e st dr limit dt s d) =
      Inr (if avail limit (refreshed clk s k) = [] then empty_lease
           else \<lparr>l_ID = i, l_Until = u, l_Messages = map (lock i u) (avail limit (refreshed clk s k))\<rparr>)"
    using assms(1-3) by (simp add: TakeLeased_def k_def [symmetric] split_beta Let_def nextLeaseLocked_def r
        lease_loop_fst i_def u_def refreshed_def)
  show "queue (fst (snd (TakeLeased w clk e st dr limit dt s d))) k' =
      (if k' = k then snd (lease_loop i u limit [] (refreshed clk s k)) else queue s k')"
    using assms(1-3)
    by (auto simp: nk TakeLeased_def k_def [symmetric] split_beta Let_def nextLeaseLocked_def r i_def u_def)
  show "snd (snd (TakeLeased w clk e st dr limit dt s d)) = snd (expireLocked w (clk 0) k s d)"
    using assms(1-3) by (simp add: TakeLeased_def k_def [symmetric] split_beta Let_def)
qed

lemma Ack_eq:
  assumes "validRoute e st dr" "TrimSpace i \<noteq> ''''"
  defines "k \<equiv> key e st dr"
  shows "Ack w clk e st dr i s d =
    (let s2 = after_refresh w clk k s d; d1 = snd (expireLocked w (clk 0) k s d);
         acked = filter (\<lambda>m. m_lease m = i) (refreshed clk s k)
     in (if acked = [] then Inl ErrNoSuchLease else Inr (length acked),
         if acked = [] then s2 else set_queue k (filter (\<lambda>m. m_lease m \<noteq> i) (refreshed clk s k)) s2,
         dropDurableLocked w acked s d1))"
proof -
  have [simp]: "expireLeasesLocked (clk 1) k (fst (expireLocked w (clk 0) k s d)) = after_refresh w clk k s d"
    by (simp add: after_refresh_def)
  have [simp]: "dropDurableLocked w ms (after_refresh w clk k s d) = dropDurableLocked w ms s" for ms
    by (intro ext dropDurable_spool) simp
  show ?thesis
    using assms(1,2) by (simp add: Ack_def k_def [symmetric] split_beta Let_def refreshed_def)
qed

lemma Put_eq:
  fixes m :: message and s :: store and w :: io and clk :: "nat \<Rightarrow> time" and d :: disk and k :: string
  assumes "validRoute (m_Estate m) (m_Station m) (m_Dir m)" "int (length (m_Body m)) \<le> MaxBodyBytes"
    and k: "k = key (m_Estate m) (m_Station m) (m_Dir m)"
  defines "m1 \<equiv> m\<lparr>m_At := clk 1, m_ID := fst (nextIDLocked s)\<rparr>"
    and "q \<equiv> live (s_ttl s) (clk 0) (queue s k)"
    and "s1 \<equiv> fst (expireLocked w (clk 0) k s d)" and "d1 \<equiv> snd (expireLocked w (clk 0) k s d)"
  shows "Put w clk m s d =
    (if int (length q) \<ge> s_max s then (Inl ErrQueueFull, s1, d1)
     else (case s_spool s of
        None \<Rightarrow> (Inr (), set_queue k (q @ [m1]) (s1\<lparr>s_ids := s_ids s + 1\<rparr>), d1)
      | Some sp \<Rightarrow>
          (case spool_write w m1 sp d1 of
             (None, sp', d2) \<Rightarrow> (Inl ErrNotDurable, s1\<lparr>s_ids := s_ids s + 1, s_spool := Some sp'\<rparr>, d2)
           | (Some file, sp', d2) \<Rightarrow>
               (Inr (), set_queue k (q @ [m1\<lparr>m_file := file\<rparr>]) (s1\<lparr>s_ids := s_ids s + 1, s_spool := Some sp'\<rparr>), d2))))"
proof -
  have upd: "nextIDLocked s1 = (fst (nextIDLocked s), s1\<lparr>s_ids := s_ids s + 1\<rparr>)"
    by (simp add: nextIDLocked_def s1_def Let_def)
  have q: "queue s1 k = q" by (simp add: s1_def q_def)
  have "s_max s1 = s_max s" "s_spool s1 = s_spool s" by (simp_all add: s1_def)
  with assms(1,2) show ?thesis
    unfolding Put_def k [symmetric]
    by (simp add: split_beta Let_def s1_def [symmetric] d1_def [symmetric] upd q m1_def q_def [symmetric]
        split: option.splits prod.splits)
qed

subsection \<open>The invariant of the store\<close>

text \<open>
  Every message sits in the queue of its own route under an id the store has already given out,
  no two messages of a queue share an id, and a lease on a message is one the store has granted.
\<close>

definition msg_key :: "message \<Rightarrow> string" where
  "msg_key m = key (m_Estate m) (m_Station m) (m_Dir m)"

definition id_name :: "nat \<Rightarrow> string" where "id_name n = ''m'' @ show_nat n"

definition lease_name :: "string \<Rightarrow> nat \<Rightarrow> string" where "lease_name epoch n = epoch @ ''-'' @ show_nat n"

definition message_ok :: "nat \<Rightarrow> nat \<Rightarrow> string \<Rightarrow> string \<Rightarrow> message \<Rightarrow> bool" where
  "message_ok ids leases epoch k m \<longleftrightarrow>
     msg_key m = k \<and> validRoute (m_Estate m) (m_Station m) (m_Dir m) \<and>
     (\<exists>n \<le> ids. m_ID m = id_name n) \<and> (m_lease m = '''' \<or> (\<exists>n \<le> leases. m_lease m = lease_name epoch n))"

definition queue_ok :: "nat \<Rightarrow> nat \<Rightarrow> string \<Rightarrow> string \<Rightarrow> message list \<Rightarrow> bool" where
  "queue_ok ids leases epoch k ms \<longleftrightarrow>
     distinct (map m_ID ms) \<and> (\<forall>m \<in> set ms. message_ok ids leases epoch k m)"

definition store_inv :: "store \<Rightarrow> bool" where
  "store_inv s \<longleftrightarrow> distinct (mkeys (s_q s)) \<and>
     (\<forall>k. queue_ok (unat (s_ids s)) (unat (s_leases s)) (s_epoch s) k (queue s k))"

lemma id_name_inj [simp]: "id_name m = id_name n \<longleftrightarrow> m = n"
  by (simp add: id_name_def)

lemma lease_name_inj [simp]: "lease_name e m = lease_name e' n \<longleftrightarrow> e = e' \<and> m = n"
proof
  assume "lease_name e m = lease_name e' n"
  then have "e @ CHR ''-'' # show_nat m = e' @ CHR ''-'' # show_nat n" by (simp add: lease_name_def)
  moreover have "CHR ''-'' \<notin> set (show_nat i)" for i by (rule show_nat_no_char) (simp add: is_digit_iff)
  ultimately have "e = e' \<and> show_nat m = show_nat n" by (intro split_last_unique)
  then show "e = e' \<and> m = n" by simp
qed auto

lemma lease_name_nonempty [simp]: "lease_name e n \<noteq> ''''"
  by (simp add: lease_name_def)

lemma nextLease_name: "fst (nextLeaseLocked s) = lease_name (s_epoch s) (unat (s_leases s + 1))"
  by (simp add: nextLeaseLocked_def lease_name_def Let_def)

lemma nextID_name: "fst (nextIDLocked s) = id_name (unat (s_ids s + 1))"
  by (simp add: nextIDLocked_def id_name_def Let_def)

lemma queue_ok_mono:
  "queue_ok i l e k ms \<Longrightarrow> i \<le> i' \<Longrightarrow> l \<le> l' \<Longrightarrow> queue_ok i' l' e k ms"
  unfolding queue_ok_def message_ok_def by (meson order_trans)

lemma subseq_distinct: "subseq xs ys \<Longrightarrow> distinct ys \<Longrightarrow> distinct xs"
  by (induction rule: list_emb.induct) (auto dest: list_emb_set)

lemma subseq_set: "subseq xs ys \<Longrightarrow> set xs \<subseteq> set ys"
  by (auto dest: list_emb_set)

lemma queue_ok_subseq:
  assumes "queue_ok i l e k ms" "subseq ms' ms"
  shows "queue_ok i l e k ms'"
  using assms(1) subseq_distinct [OF subseq_map [OF assms(2)], of m_ID] subseq_set [OF assms(2)]
  by (auto simp: queue_ok_def)

lemma queue_ok_release: "queue_ok i l e k ms \<Longrightarrow> queue_ok i l e k (map (release t) ms)"
proof -
  have "message_ok i l e k m \<Longrightarrow> message_ok i l e k (release t m)" for m
    by (simp add: message_ok_def msg_key_def release_def)
  then show "queue_ok i l e k ms \<Longrightarrow> ?thesis" by (auto simp: queue_ok_def comp_def)
qed

lemma live_subseq: "subseq (live ttl t ms) ms"
  unfolding live_def by (metis list_emb_append2 subseq_order.order_refl takeWhile_dropWhile_id)

lemma kept_subseq: "subseq (kept_from limit n ms) ms"
  by (induction ms arbitrary: n) auto

lemma queue_ok_refreshed:
  "queue_ok i l e k (queue s k) \<Longrightarrow> queue_ok i l e k (refreshed clk s k)"
  unfolding refreshed_def by (rule queue_ok_release) (rule queue_ok_subseq [OF _ live_subseq])

lemma lease_loop_ids: "map m_ID (snd (lease_loop i u limit held ms)) = map m_ID ms"
  by (induction ms arbitrary: held) (simp_all add: split_beta Let_def)

lemma lease_loop_mem:
  "m \<in> set (snd (lease_loop i u limit held ms)) \<Longrightarrow> m \<in> set ms \<or> (\<exists>m' \<in> set ms. m = lock i u m')"
  by (induction ms arbitrary: held) (auto simp: split_beta Let_def lock_def split: if_splits)

lemma queue_ok_lease:
  assumes "queue_ok n l e k ms" "l \<le> l'" "x \<le> l'"
  shows "queue_ok n l' e k (snd (lease_loop (lease_name e x) u limit held ms))"
  using assms queue_ok_mono [OF assms(1) order_refl assms(2)]
  unfolding queue_ok_def lease_loop_ids
  by (auto simp: message_ok_def msg_key_def dest!: lease_loop_mem)

lemma store_inv_queue:
  "store_inv s \<Longrightarrow> queue_ok (unat (s_ids s)) (unat (s_leases s)) (s_epoch s) k (queue s k)"
  by (simp add: store_inv_def)

lemma distinct_keys_ops [simp]:
  "distinct (mkeys (s_q s)) \<Longrightarrow> distinct (mkeys (s_q (set_queue k ms s)))"
  "distinct (mkeys (s_q s)) \<Longrightarrow> distinct (mkeys (s_q (fst (expireLocked w t k s d))))"
  "distinct (mkeys (s_q s)) \<Longrightarrow> distinct (mkeys (s_q (expireLeasesLocked t k s)))"
  "distinct (mkeys (s_q s)) \<Longrightarrow> distinct (mkeys (s_q (after_refresh w clk k s d)))"
proof -
  show set: "distinct (mkeys (s_q s)) \<Longrightarrow> distinct (mkeys (s_q (set_queue k ms s)))" for k ms s
    by (simp add: set_queue_def distinct_update distinct_delete)
  show ex: "distinct (mkeys (s_q s)) \<Longrightarrow> distinct (mkeys (s_q (fst (expireLocked w t k s d))))" for w t k s d
    by (simp add: expireLocked_eq set)
  show le: "distinct (mkeys (s_q s)) \<Longrightarrow> distinct (mkeys (s_q (expireLeasesLocked t k s)))" for t k s
    by (simp add: expireLeasesLocked_def distinct_map_entry)
  show "distinct (mkeys (s_q s)) \<Longrightarrow> distinct (mkeys (s_q (after_refresh w clk k s d)))"
    by (simp add: after_refresh_def le ex)
qed

lemma store_inv_expire: "store_inv s \<Longrightarrow> store_inv (fst (expireLocked w t k s d))"
  by (auto simp: store_inv_def intro: queue_ok_subseq live_subseq)

lemma store_inv_NewStore: "store_inv (NewStore t)"
  by (simp add: store_inv_def NewStore_def queue_def queue_ok_def)

lemma store_inv_Take:
  assumes "store_inv s"
  shows "store_inv (fst (snd (Take w clk e st dr limit s d)))"
proof (cases "validRoute e st dr")
  case True
  with assms show ?thesis
    by (auto simp: Take_eq Let_def store_inv_def intro: queue_ok_refreshed queue_ok_subseq [OF _ kept_subseq])
next
  case False
  with assms show ?thesis by (simp add: Take_def)
qed

lemma TakeLeased_fields:
  "s_ids (fst (snd (TakeLeased w clk e st dr limit dt s d))) = s_ids s"
  "s_epoch (fst (snd (TakeLeased w clk e st dr limit dt s d))) = s_epoch s"
  "s_ttl (fst (snd (TakeLeased w clk e st dr limit dt s d))) = s_ttl s"
  "s_max (fst (snd (TakeLeased w clk e st dr limit dt s d))) = s_max s"
  "s_spool (fst (snd (TakeLeased w clk e st dr limit dt s d))) = s_spool s"
  "s_leases (fst (snd (TakeLeased w clk e st dr limit dt s d))) =
    (if validRoute e st dr \<and> 0 < dt \<and> dt \<le> MaxLease then s_leases s + 1 else s_leases s)"
  "distinct (mkeys (s_q s)) \<Longrightarrow> distinct (mkeys (s_q (fst (snd (TakeLeased w clk e st dr limit dt s d)))))"
  by (simp_all add: TakeLeased_def split_beta Let_def nextLeaseLocked_def distinct_map_entry)

lemma succ_word:
  fixes n :: u64
  assumes "unat n < 2 ^ 64 - 1"
  shows "unat (n + 1) = unat n + 1"
proof -
  have "unat n + 1 < 2 ^ LENGTH(64)" using assms by simp
  then show ?thesis by (metis unat_add_lem unsigned_1)
qed

lemma store_inv_TakeLeased:
  assumes "store_inv s" "unat (s_leases s) < 2 ^ 64 - 1"
  shows "store_inv (fst (snd (TakeLeased w clk e st dr limit dt s d)))"
proof (cases "validRoute e st dr \<and> 0 < dt \<and> dt \<le> MaxLease")
  case True
  have ok: "queue_ok (unat (s_ids s)) (unat (s_leases s)) (s_epoch s) k (queue s k)" for k
    using assms(1) by (rule store_inv_queue)
  have n: "unat (s_leases s + 1) = unat (s_leases s) + 1" using assms(2) by (rule succ_word)
  show ?thesis
    using True assms(1) n queue_ok_mono [OF ok]
    by (auto simp: store_inv_def TakeLeased_fields TakeLeased_eq(2) nextLease_name
        intro!: queue_ok_lease [OF queue_ok_refreshed [OF ok]])
next
  case False
  with assms show ?thesis by (auto simp: TakeLeased_def)
qed

lemma store_inv_Ack:
  assumes "store_inv s"
  shows "store_inv (fst (snd (Ack w clk e st dr i s d)))"
proof (cases "validRoute e st dr \<and> TrimSpace i \<noteq> ''''")
  case True
  with assms show ?thesis
    by (auto simp: Ack_eq Let_def store_inv_def intro: queue_ok_refreshed queue_ok_subseq [OF _ subseq_filter_left])
next
  case False
  with assms show ?thesis by (auto simp: Ack_def)
qed

lemma store_inv_Depth: "store_inv s \<Longrightarrow> store_inv (fst (snd (Depth w t e st dr s d)))"
  by (simp add: Depth_def Let_def split_beta store_inv_expire)

lemma store_inv_Sweep:
  assumes "store_inv s"
  shows "store_inv (fst (snd (Sweep w clk s d)))"
proof -
  have "store_inv s \<Longrightarrow> store_inv (fst (fold (\<lambda>k (s1, d1). expireLocked w (clk k) k s1 d1) ks (s, d)))" for ks s d
  proof (induction ks arbitrary: s d)
    case (Cons k ks)
    then show ?case using Cons.IH [OF store_inv_expire [OF Cons.prems, of w "clk k" k d], of "snd (expireLocked w (clk k) k s d)"]
      by simp
  qed simp
  with assms show ?thesis by (simp add: Sweep_def Let_def split_beta)
qed

lemma queue_ok_snoc:
  assumes "queue_ok i l e k ms" "i < j" "message_ok j l e k m" "m_ID m = id_name j"
  shows "queue_ok j l e k (ms @ [m])"
proof -
  have "m_ID m \<notin> m_ID ` set ms"
  proof
    assume "m_ID m \<in> m_ID ` set ms"
    then obtain n where "n \<le> i" "id_name j = id_name n"
      using assms(1,4) by (auto simp: queue_ok_def message_ok_def)
    with assms(2) show False by simp
  qed
  with assms queue_ok_mono [OF assms(1), of j l] show ?thesis by (auto simp: queue_ok_def)
qed

text \<open>What a successful \<^verbatim>\<open>Put\<close> appends, and the frame of every \<^verbatim>\<open>Put\<close>.\<close>

lemma Put_cases:
  obtains (same) err where "Put w clk m s d = (Inl err, s, d)" "err = ErrBadRoute \<or> err = ErrTooLarge"
  | (full) "Put w clk m s d = (Inl ErrQueueFull, expireLocked w (clk 0) (msg_key m) s d)"
      "int (length (live (s_ttl s) (clk 0) (queue s (msg_key m)))) \<ge> s_max s"
  | (lost) sp sp' d' where "s_spool s = Some sp"
      "spool_write w (m\<lparr>m_At := clk 1, m_ID := fst (nextIDLocked s)\<rparr>) sp (snd (expireLocked w (clk 0) (msg_key m) s d)) = (None, sp', d')"
      "Put w clk m s d = (Inl ErrNotDurable,
         (fst (expireLocked w (clk 0) (msg_key m) s d))\<lparr>s_ids := s_ids s + 1, s_spool := Some sp'\<rparr>, d')"
  | (accepted) sp' d' fl where "validRoute (m_Estate m) (m_Station m) (m_Dir m)"
      "int (length (live (s_ttl s) (clk 0) (queue s (msg_key m)))) < s_max s"
      "Put w clk m s d = (Inr (),
         set_queue (msg_key m) (live (s_ttl s) (clk 0) (queue s (msg_key m)) @
             [m\<lparr>m_At := clk 1, m_ID := fst (nextIDLocked s), m_file := fl\<rparr>])
           ((fst (expireLocked w (clk 0) (msg_key m) s d))\<lparr>s_ids := s_ids s + 1, s_spool := sp'\<rparr>), d')"
      "case s_spool s of
         None \<Rightarrow> sp' = None \<and> fl = m_file m \<and> d' = snd (expireLocked w (clk 0) (msg_key m) s d)
       | Some sp \<Rightarrow> sp' \<noteq> None \<and>
           spool_write w (m\<lparr>m_At := clk 1, m_ID := fst (nextIDLocked s)\<rparr>) sp
             (snd (expireLocked w (clk 0) (msg_key m) s d)) = (Some fl, the sp', d')"
proof (cases "validRoute (m_Estate m) (m_Station m) (m_Dir m) \<and> int (length (m_Body m)) \<le> MaxBodyBytes")
  case False
  then have "\<exists>err. Put w clk m s d = (Inl err, s, d) \<and> (err = ErrBadRoute \<or> err = ErrTooLarge)"
    by (auto simp: Put_def)
  with same show ?thesis by blast
next
  case True
  let ?x = "expireLocked w (clk 0) (msg_key m) s d" and ?m = "m\<lparr>m_At := clk 1, m_ID := fst (nextIDLocked s)\<rparr>"
  let ?q = "live (s_ttl s) (clk 0) (queue s (msg_key m))"
  note eq = Put_eq [OF conjunct1 [OF True] conjunct2 [OF True] msg_key_def, of w clk s d]
  show ?thesis
  proof (cases "int (length ?q) \<ge> s_max s")
    case True
    then show ?thesis by (intro full) (simp_all add: eq)
  next
    case room: False
    show ?thesis
    proof (cases "s_spool s")
      case None
      have u: "(fst ?x)\<lparr>s_ids := i, s_spool := None\<rparr> = (fst ?x)\<lparr>s_ids := i\<rparr>" for i
        using None expireLocked_fields(3) [of w "clk 0" "msg_key m" s d] by (simp del: expireLocked_fields)
      show ?thesis
        using True room None by (intro accepted [of "m_file m" None "snd ?x"]) (simp_all add: eq u)
    next
      case (Some sp)
      obtain r sp' d' where wr: "spool_write w ?m sp (snd ?x) = (r, sp', d')" by (cases "spool_write w ?m sp (snd ?x)") auto
      show ?thesis
      proof (cases r)
        case None
        with Some wr room show ?thesis by (intro lost [of sp sp' d']) (simp_all add: eq)
      next
        case (Some fl)
        with \<open>s_spool s = Some sp\<close> wr room True show ?thesis
          by (intro accepted [of fl "Some sp'" d']) (simp_all add: eq)
      qed
    qed
  qed
qed

lemma store_inv_Put:
  assumes "store_inv s" "free m" "unat (s_ids s) < 2 ^ 64 - 1"
  shows "store_inv (fst (snd (Put w clk m s d)))"
proof -
  have ok: "queue_ok (unat (s_ids s)) (unat (s_leases s)) (s_epoch s) k (queue s k)" for k
    using assms(1) by (rule store_inv_queue)
  have n: "unat (s_ids s + 1) = unat (s_ids s) + 1" using assms(3) by (rule succ_word)
  have d: "distinct (mkeys (s_q s))" using assms(1) by (simp add: store_inv_def)
  show ?thesis
  proof (cases rule: Put_cases [of w clk m s d])
    case same
    with assms show ?thesis by auto
  next
    case full
    then show ?thesis using store_inv_expire [OF assms(1)] by simp
  next
    case (lost sp sp' d')
    have "queue_ok (unat (s_ids s) + 1) (unat (s_leases s)) (s_epoch s) k (queue (fst (expireLocked w (clk 0) (msg_key m) s d)) k)" for k
      using queue_ok_mono [OF ok, of "unat (s_ids s) + 1"] by (auto intro: queue_ok_subseq live_subseq)
    with lost d n show ?thesis by (simp add: store_inv_def)
  next
    case (accepted sp' d' fl)
    let ?m = "m\<lparr>m_At := clk 1, m_ID := fst (nextIDLocked s), m_file := fl\<rparr>"
    have "message_ok (unat (s_ids s) + 1) (unat (s_leases s)) (s_epoch s) (msg_key m) ?m"
      using accepted(1) assms(2) n by (auto simp: message_ok_def msg_key_def free_def nextID_name)
    then have "queue_ok (unat (s_ids s) + 1) (unat (s_leases s)) (s_epoch s) (msg_key m)
        (live (s_ttl s) (clk 0) (queue s (msg_key m)) @ [?m])"
      using n by (intro queue_ok_snoc [OF queue_ok_subseq [OF ok live_subseq]]) (auto simp: nextID_name)
    with accepted d n queue_ok_mono [OF ok] show ?thesis by (simp add: store_inv_def)
  qed
qed

end
