(* ===== verification/Relay_Lease.thy ===== *)
theory Relay_Lease
  imports Relay_Store
begin

text \<open>
  What the store promises of collection (\<^verbatim>\<open>src/relay.go\<close>, \<^verbatim>\<open>src/lease.go\<close>): its reachable states, what each
  operation does to its queue, and how leased collection relates to destructive collection.

  A run of the store is a sequence of operations, each with its own clock readings and its own pattern
  of disk failures; \<open>relay_run\<close> counts them. The counters of ids and leases are 64 bits wide,
  so the statements about a run bound its length by what the counters have left.
\<close>

section \<open>Runs\<close>

inductive store_step :: "store \<times> disk \<Rightarrow> store \<times> disk \<Rightarrow> bool" where
  step_put: "free m \<Longrightarrow> store_step (s, d) (snd (Put w clk m s d))"
| step_take: "store_step (s, d) (snd (Take w clk e st dr limit s d))"
| step_lease: "store_step (s, d) (snd (TakeLeased w clk e st dr limit dt s d))"
| step_ack: "store_step (s, d) (snd (Ack w clk e st dr i s d))"
| step_depth: "store_step (s, d) (snd (Depth w t e st dr s d))"
| step_sweep: "store_step (s, d) (snd (Sweep w sweep_clk s d))"

inductive store_run :: "store \<times> disk \<Rightarrow> nat \<Rightarrow> store \<times> disk \<Rightarrow> bool" where
  run_start: "store_run x 0 x"
| run_step: "store_run x n y \<Longrightarrow> store_step y z \<Longrightarrow> store_run x (Suc n) z"

inductive_cases store_stepE: "store_step (s, d) y"
inductive_cases store_runE: "store_run x n y"

subsection \<open>Fields no operation changes, and the counters\<close>

definition framed :: "store \<Rightarrow> store \<Rightarrow> bool" where
  "framed s s' \<longleftrightarrow> s_epoch s' = s_epoch s \<and> s_ttl s' = s_ttl s \<and> s_max s' = s_max s \<and>
     s_ids s' \<in> {s_ids s, s_ids s + 1} \<and> s_leases s' \<in> {s_leases s, s_leases s + 1}"

lemma framed_Put: "framed s (fst (snd (Put w clk m s d)))"
  by (cases rule: Put_cases [of w clk m s d]) (auto simp: framed_def)

lemma framed_Take: "framed s (fst (snd (Take w clk e st dr limit s d)))"
  by (simp add: Take_def framed_def Let_def split_beta)

lemma framed_TakeLeased: "framed s (fst (snd (TakeLeased w clk e st dr limit dt s d)))"
  by (simp add: framed_def TakeLeased_fields)

lemma framed_Ack: "framed s (fst (snd (Ack w clk e st dr i s d)))"
  by (simp add: Ack_def framed_def Let_def split_beta)

lemma framed_Depth: "framed s (fst (snd (Depth w t e st dr s d)))"
  by (simp add: Depth_def framed_def Let_def split_beta)

lemma expire_all_fields:
  fixes clk :: "string \<Rightarrow> time"
  defines "f \<equiv> \<lambda>w k (s1, d1). expireLocked w (clk k) k s1 d1"
  shows "s_epoch (fst (fold (f w) ks (s, d))) = s_epoch s \<and> s_ttl (fst (fold (f w) ks (s, d))) = s_ttl s \<and>
    s_max (fst (fold (f w) ks (s, d))) = s_max s \<and> s_ids (fst (fold (f w) ks (s, d))) = s_ids s \<and>
    s_leases (fst (fold (f w) ks (s, d))) = s_leases s \<and> s_spool (fst (fold (f w) ks (s, d))) = s_spool s"
proof (induction ks arbitrary: s d)
  case (Cons k ks)
  show ?case
    using Cons.IH [of "fst (expireLocked w (clk k) k s d)" "snd (expireLocked w (clk k) k s d)"] by (simp add: f_def)
qed simp

lemma framed_Sweep: "framed s (fst (snd (Sweep w sweep_clk s d)))"
  using expire_all_fields [where clk = sweep_clk and w = w and ks = "mkeys (s_q s)" and s = s and d = d] by (simp add: Sweep_def framed_def Let_def split_beta)

lemmas framed_ops = framed_Put framed_Take framed_TakeLeased framed_Ack framed_Depth framed_Sweep

lemma step_framed: "store_step (s, d) (s', d') \<Longrightarrow> framed s s'"
  by (erule store_stepE) (metis fst_conv framed_ops)+

lemma step_inv:
  assumes "store_step (s, d) (s', d')" "store_inv s" "unat (s_ids s) < 2 ^ 64 - 1" "unat (s_leases s) < 2 ^ 64 - 1"
  shows "store_inv s'"
  using assms(1)
  by (rule store_stepE)
    (metis assms(2-4) fst_conv store_inv_Put store_inv_Take store_inv_TakeLeased store_inv_Ack store_inv_Depth
      store_inv_Sweep)+

lemma unat_succ_le: "unat (n + 1 :: u64) \<le> unat n + 1"
  using unat_plus_simple [of n 1] by (simp add: unat_word_ariths)

lemma run_bounds:
  assumes "store_run x n y"
  shows "unat (s_ids (fst y)) \<le> unat (s_ids (fst x)) + n \<and> unat (s_leases (fst y)) \<le> unat (s_leases (fst x)) + n \<and>
    s_epoch (fst y) = s_epoch (fst x) \<and> s_max (fst y) = s_max (fst x) \<and> s_ttl (fst y) = s_ttl (fst x)"
  using assms
proof (induction rule: store_run.induct)
  case (run_step x n y z)
  then have "framed (fst y) (fst z)" using step_framed by (metis prod.collapse)
  with run_step.IH show ?case
    using unat_succ_le [of "s_ids (fst y)"] unat_succ_le [of "s_leases (fst y)"] by (auto simp: framed_def)
qed simp

text \<open>
  Property C12. The store keeps its invariant. From a store in which every message sits in the queue of
  its own route, under an id already given out and unique in that queue, with no lease or one the store
  granted, every sequence of operations leads to such a store again, whatever the
  clock and the disk do, as long as the 64-bit counters do not run out.
\<close>

theorem store_invariant:
  assumes "store_run (s0, d0) n (s, d)" "store_inv s0"
    and "unat (s_ids s0) + n < 2 ^ 64" "unat (s_leases s0) + n < 2 ^ 64"
  shows "store_inv s"
proof -
  have "store_run x n y \<Longrightarrow> store_inv (fst x) \<Longrightarrow> unat (s_ids (fst x)) + n < 2 ^ 64 \<Longrightarrow>
      unat (s_leases (fst x)) + n < 2 ^ 64 \<Longrightarrow> store_inv (fst y)" for x y
  proof (induction rule: store_run.induct)
    case (run_step x n y z)
    then have "unat (s_ids (fst y)) < 2 ^ 64 - 1" "unat (s_leases (fst y)) < 2 ^ 64 - 1" "store_inv (fst y)"
      using run_bounds [OF run_step.hyps(1)] by auto
    with run_step.hyps(2) show ?case using step_inv by (metis prod.collapse)
  qed simp
  from this [OF assms(1)] assms show ?thesis by simp
qed

definition sample_clock :: "nat \<Rightarrow> time" where "sample_clock i = 1700000000 * Second"

theorem store_invariant_witness:
  "store_inv (fst (snd (Put io_fine sample_clock sample_message (NewStore 7) empty_disk)))"
proof -
  let ?x = "snd (Put io_fine sample_clock sample_message (NewStore 7) empty_disk)"
  have "free sample_message" by (simp add: free_def sample_message_def)
  then have "store_run (NewStore 7, empty_disk) 1 (fst ?x, snd ?x)"
    using run_step [OF run_start step_put] by (simp add: One_nat_def)
  then show ?thesis
    using store_invariant [of "NewStore 7" empty_disk 1 "fst ?x" "snd ?x"] store_inv_NewStore [of 7]
    by (simp add: NewStore_def)
qed

section \<open>Collection\<close>

text \<open>
  Property C24. Destructive collection hands out exactly what is available. For a valid route \<^verbatim>\<open>Take\<close>
  returns, in queue order, the messages that are neither expired nor held under a lease in force,
  the first \<open>limit\<close> of them when the limit is positive; what it leaves behind are the other
  unexpired messages in their order (the queue is an interleaving of the two), and no other queue
  changes.
\<close>

theorem Take_exact:
  assumes "validRoute e st dr" "Take w clk e st dr limit s d = (r, s', d')"
  shows "r = Inr (avail limit (refreshed clk s (key e st dr))) \<and>
    queue s' (key e st dr) = kept limit (refreshed clk s (key e st dr)) \<and>
    refreshed clk s (key e st dr) \<in> shuffles (avail limit (refreshed clk s (key e st dr))) (queue s' (key e st dr)) \<and>
    (\<forall>k. k \<noteq> key e st dr \<longrightarrow> queue s' k = queue s k)"
proof -
  let ?q = "refreshed clk s (key e st dr)"
  note T = Take_eq [OF assms(1), of w clk limit s d, unfolded assms(2) Let_def]
  have q: "queue s' (key e st dr) = kept limit ?q"
    using T avail_none_kept [of limit 0 ?q] by auto
  moreover have "?q \<in> shuffles (avail limit ?q) (queue s' (key e st dr))"
    unfolding q by (rule avail_kept_shuffles)
  ultimately show ?thesis using T by auto
qed

text \<open>A store with three messages on one route, the second under a lease.\<close>

definition sample_queue :: "message list" where
  "sample_queue =
     [sample_message\<lparr>m_ID := ''m1'', m_At := sample_clock 0\<rparr>,
      sample_message\<lparr>m_ID := ''m2'', m_At := sample_clock 0, m_lease := ''z-1'', m_leaseUntil := sample_clock 0 + Minute\<rparr>,
      sample_message\<lparr>m_ID := ''m3'', m_At := sample_clock 0\<rparr>]"

definition sample_store :: store where
  "sample_store = \<lparr>s_q = [(key ''e1'' ''st'' c2s, sample_queue)], s_ttl = DefaultTTL, s_max = DefaultMaxQueue,
     s_spool = None, s_ids = 3, s_leases = 1, s_epoch = ''z''\<rparr>"

lemma sample_refreshed: "refreshed sample_clock sample_store (key ''e1'' ''st'' c2s) = sample_queue"
  by (simp add: refreshed_def sample_store_def sample_queue_def queue_def lookup_or_def live_def release_def
      sample_message_def sample_clock_def DefaultTTL_def duration_defs)

lemma sample_inv: "store_inv sample_store"
proof -
  have nm: "id_name 1 = ''m1''" "id_name 2 = ''m2''" "id_name 3 = ''m3''" "lease_name ''z'' 1 = ''z-1''"
    by code_simp+
  have "message_ok 3 1 ''z'' (key ''e1'' ''st'' c2s) m" if "m \<in> set sample_queue" for m
    using that nm by (auto simp: sample_queue_def message_ok_def msg_key_def sample_message_def validRoute_def
        intro: exI [of _ 1] exI [of _ 2] exI [of _ 3])
  then have "queue_ok 3 1 ''z'' k (queue sample_store k)" for k
    by (auto simp: queue_ok_def queue_def sample_store_def lookup_or_def)
      (auto simp: sample_queue_def sample_message_def)
  then show ?thesis by (simp add: store_inv_def) (simp add: sample_store_def)
qed

theorem Take_exact_witness:
  "\<exists>s' d'. Take io_fine sample_clock ''e1'' ''st'' c2s 1 sample_store empty_disk = (Inr [sample_queue ! 0], s', d') \<and>
     queue s' (key ''e1'' ''st'' c2s) = [sample_queue ! 1, sample_queue ! 2]"
proof -
  obtain r s' d' where T: "Take io_fine sample_clock ''e1'' ''st'' c2s 1 sample_store empty_disk = (r, s', d')"
    by (cases "Take io_fine sample_clock ''e1'' ''st'' c2s 1 sample_store empty_disk") auto
  have "validRoute ''e1'' ''st'' c2s" by (simp add: validRoute_def)
  from Take_exact [OF this T] T show ?thesis
    unfolding sample_refreshed
    by (simp add: sample_queue_def avail_from_def free_def sample_message_def)
qed

section \<open>Leased collection\<close>

lemma TrimSpace_lease_name: "TrimSpace (lease_name e n) \<noteq> ''''"
proof
  assume "TrimSpace (lease_name e n) = ''''"
  moreover have "CHR ''-'' \<in> set (TrimSpace (lease_name e n))"
    by (rule TrimSpace_keeps) (simp_all add: lease_name_def space_runes_def)
  ultimately show False by simp
qed

lemma inv_fresh_lease:
  assumes "store_inv s" "unat (s_leases s) < 2 ^ 64 - 1" "m \<in> set (refreshed clk s k)"
  shows "m_lease m \<noteq> lease_name (s_epoch s) (unat (s_leases s + 1))"
proof -
  have "message_ok (unat (s_ids s)) (unat (s_leases s)) (s_epoch s) k m"
    using queue_ok_refreshed [OF store_inv_queue [OF assms(1), of k], of clk] assms(3) by (simp add: queue_ok_def)
  then show ?thesis using succ_word [OF assms(2)] unfolding message_ok_def
    by (metis lease_name_inj lease_name_nonempty not_less_eq_eq order_refl Suc_eq_plus1)
qed

lemma spool_remove_files:
  "map m_file ms = map m_file ms' \<Longrightarrow> spool_remove w ms d = spool_remove w ms' d"
proof (induction ms arbitrary: ms' d)
  case (Cons m ms)
  then obtain m' ms'' where "ms' = m' # ms''" "m_file m = m_file m'" "map m_file ms = map m_file ms''" by (cases ms') auto
  with Cons.IH show ?case by simp
qed simp

lemma dropDurable_files:
  "map m_file ms = map m_file ms' \<Longrightarrow> s_spool s = s_spool s' \<Longrightarrow> dropDurableLocked w ms s d = dropDurableLocked w ms' s' d"
  using spool_remove_files [of ms ms'] by (simp add: dropDurableLocked_def split: option.splits)

lemma live_all: "\<forall>m \<in> set ms. t - ttl \<le> m_At m \<Longrightarrow> live ttl t ms = ms \<and> stale ttl t ms = []"
  by (cases ms) (auto simp: live_def stale_def)

lemma filter_release:
  assumes "i \<noteq> ''''" "\<forall>m \<in> set ms. m_lease m = i \<longrightarrow> t < m_leaseUntil m"
  shows "filter (\<lambda>m. m_lease m = i) (map (release t) ms) = filter (\<lambda>m. m_lease m = i) ms"
    and "filter (\<lambda>m. m_lease m \<noteq> i) (map (release t) ms) = map (release t) (filter (\<lambda>m. m_lease m \<noteq> i) ms)"
  using assms by (induction ms) (auto simp: release_def)

text \<open>
  Property C5. Leasing and acknowledging is collecting. A leased collection of some messages followed by
  its acknowledgement, before the lease runs out and before any of the queue expires, succeeds, hands out the
  messages a destructive collection at the same moment would have handed out, counts them,
  and leaves the same messages in every queue and the same spool directory.
\<close>

theorem lease_then_ack_is_take:
  assumes "store_inv s" "unat (s_leases s) < 2 ^ 64 - 1"
    and leased: "TakeLeased w clk e st dr limit dt s d = (Inr l, s1, d1)" "l_Messages l \<noteq> []"
    and taken: "Take w clk e st dr limit s d = (Inr ms, s2, d2)"
    and in_time: "\<forall>m \<in> set (queue s1 (key e st dr)). clk' 0 - s_ttl s \<le> m_At m" "clk' 1 < l_Until l"
  shows "\<exists>s3. Ack w clk' e st dr (l_ID l) s1 d1 = (Inr (length ms), s3, d2) \<and>
    map plain (l_Messages l) = map plain ms \<and>
    queue s3 (key e st dr) = map (release (clk' 1)) (queue s2 (key e st dr)) \<and>
    (\<forall>k. k \<noteq> key e st dr \<longrightarrow> queue s3 k = queue s2 k)"
proof -
  let ?k = "key e st dr" and ?q = "refreshed clk s (key e st dr)"
  let ?i = "lease_name (s_epoch s) (unat (s_leases s + 1))" and ?u = "clk 2 + dt"
  have v: "validRoute e st dr" "0 < dt" "dt \<le> MaxLease"
    using leased(1) by (auto simp: TakeLeased_def split: if_splits)
  note L = TakeLeased_eq [OF v, of w clk limit s d, unfolded leased(1) nextLease_name]
  note T = Take_eq [OF v(1), of w clk limit s d, unfolded taken Let_def]
  let ?ms' = "snd (lease_loop ?i ?u limit [] ?q)"
  have l: "l = \<lparr>l_ID = ?i, l_Until = ?u, l_Messages = map (lock ?i ?u) ms\<rparr>" "ms \<noteq> []" "ms = avail limit ?q"
    using L(1) leased(2) T by (auto simp: empty_lease_def split: if_splits)
  have q1: "queue s1 ?k = ?ms'" and ttl: "s_ttl s1 = s_ttl s" and sp: "s_spool s1 = s_spool s"
    using L(2) [of ?k] TakeLeased_fields(3,5) [of w clk e st dr limit dt s d] leased(1) by simp_all
  have fresh: "\<forall>m \<in> set ?q. m_lease m \<noteq> ?i" using inv_fresh_lease [OF assms(1,2)] by blast
  note F = lease_loop_filter [OF lease_name_nonempty fresh, where u = ?u and limit = limit and held = "[]", simplified]
  have lv: "live (s_ttl s1) (clk' 0) (queue s1 ?k) = ?ms'" "stale (s_ttl s1) (clk' 0) (queue s1 ?k) = []"
    using live_all [of "queue s1 ?k" "clk' 0" "s_ttl s"] in_time(1) ttl q1 by auto
  have r: "refreshed clk' s1 ?k = map (release (clk' 1)) ?ms'" by (simp add: refreshed_def lv)
  have "m \<in> set (map (lock ?i ?u) (avail limit ?q))" if "m_lease m = ?i" "m \<in> set ?ms'" for m
    unfolding F(1) [symmetric] using that by simp
  then have "\<forall>m \<in> set ?ms'. m_lease m = ?i \<longrightarrow> clk' 1 < m_leaseUntil m" using in_time(2) l(1) by fastforce
  note R = filter_release [OF lease_name_nonempty this]
  have acked: "filter (\<lambda>m. m_lease m = ?i) (refreshed clk' s1 ?k) = map (lock ?i ?u) ms"
    using F(1) R(1) r l(3) by simp
  have rest: "filter (\<lambda>m. m_lease m \<noteq> ?i) (refreshed clk' s1 ?k) = map (release (clk' 1)) (queue s2 ?k)"
    using F(2) R(2) r l(2,3) T by simp
  have d2: "dropDurableLocked w (map (lock ?i ?u) ms) s1 (snd (expireLocked w (clk' 0) ?k s1 d1)) = d2"
    using dropDurable_files [of "map (lock ?i ?u) ms" ms s1 s w d1] sp T L(3) l(3)
    by (simp add: expireLocked_disk lv comp_def)
  have other: "queue s1 k = queue s2 k" if "k \<noteq> ?k" for k
    using that L(2) [of k] T l(2,3) by simp
  show ?thesis
    using l(1,2) other rest d2
    by (simp add: Ack_eq [OF v(1) TrimSpace_lease_name] Let_def acked comp_def)
qed

lemma sample_route [simp]: "validRoute ''e1'' ''st'' c2s"
  by (simp add: validRoute_def)

lemma sample_fields [simp]:
  "s_epoch sample_store = ''z''" "s_leases sample_store = 1" "s_ttl sample_store = DefaultTTL" "s_spool sample_store = None"
  "s_ids sample_store = 3" "s_max sample_store = DefaultMaxQueue"
  by (simp_all add: sample_store_def)

lemma sample_avail: "avail 0 sample_queue = [sample_queue ! 0, sample_queue ! 2]"
  by (simp add: sample_queue_def avail_from_def free_def sample_message_def)

theorem lease_then_ack_is_take_witness:
  "\<exists>l s1 d1 s3 d3. TakeLeased io_fine sample_clock ''e1'' ''st'' c2s 0 Minute sample_store empty_disk = (Inr l, s1, d1) \<and>
     Ack io_fine sample_clock ''e1'' ''st'' c2s (l_ID l) s1 d1 = (Inr 2, s3, d3) \<and>
     map plain (l_Messages l) = [plain (sample_queue ! 0), plain (sample_queue ! 2)]"
proof -
  let ?k = "key ''e1'' ''st'' c2s"
  obtain r s1 d1 where L: "TakeLeased io_fine sample_clock ''e1'' ''st'' c2s 0 Minute sample_store empty_disk = (r, s1, d1)"
    by (cases "TakeLeased io_fine sample_clock ''e1'' ''st'' c2s 0 Minute sample_store empty_disk") auto
  have dt: "0 < Minute" "Minute \<le> MaxLease" by (simp_all add: MaxLease_def duration_defs)
  note E = TakeLeased_eq [OF sample_route dt, of io_fine sample_clock 0 sample_store empty_disk, unfolded L sample_refreshed sample_avail]
  obtain l where l: "r = Inr l" "l_Messages l \<noteq> []" "l_Until l = sample_clock 2 + Minute" using E(1) by simp
  obtain ms s2 d2 where T: "Take io_fine sample_clock ''e1'' ''st'' c2s 0 sample_store empty_disk = (Inr ms, s2, d2)"
    "ms = [sample_queue ! 0, sample_queue ! 2]"
    using Take_eq [OF sample_route, of io_fine sample_clock 0 sample_store empty_disk] by (simp add: Let_def sample_refreshed sample_avail)
  have "m_At m = sample_clock 0" if "m \<in> set (queue s1 ?k)" for m
  proof -
    have "\<exists>m' \<in> set sample_queue. m_At m = m_At m'" using E(2) [of ?k] that lease_loop_mem by fastforce
    then show ?thesis by (auto simp: sample_queue_def)
  qed
  then show ?thesis
    using lease_then_ack_is_take [OF sample_inv _ L [unfolded l(1)] l(2) T(1), of sample_clock] l L T(2)
    by (force simp: DefaultTTL_def duration_defs sample_clock_def)
qed

text \<open>
  Property C13. A message under a lease in force goes to nobody else. While its lease has not run out,
  neither a destructive nor a leased collection of the route, with any limit, returns a message with
  that id.
\<close>

theorem leased_hidden:
  assumes "store_inv s" "m \<in> set (queue s (key e st dr))" "\<not> free m" "clk 1 < m_leaseUntil m"
  shows "(Take w clk e st dr limit s d = (Inr ms, s', d') \<longrightarrow> m_ID m \<notin> m_ID ` set ms) \<and>
    (TakeLeased w clk e st dr limit dt s d = (Inr l, s'', d'') \<longrightarrow> m_ID m \<notin> m_ID ` set (l_Messages l))"
proof -
  let ?k = "key e st dr" and ?q = "refreshed clk s (key e st dr)"
  have dist: "distinct (map m_ID (queue s ?k))" using store_inv_queue [OF assms(1)] by (simp add: queue_ok_def)
  have hid: "m_ID m \<notin> m_ID ` set (avail limit ?q)"
  proof
    assume "m_ID m \<in> m_ID ` set (avail limit ?q)"
    then obtain m' where m': "m' \<in> set ?q" "free m'" "m_ID m' = m_ID m"
      using set_take_subset [of "nat limit" "filter free ?q"] by (force simp: avail_from_def split: if_splits)
    then obtain m'' where "m'' \<in> set (queue s ?k)" "m' = release (clk 1) m''" "m_ID m'' = m_ID m"
      using subseq_set [OF live_subseq] by (fastforce simp: refreshed_def)
    moreover from this have "m'' = m" using dist assms(2) by (metis distinct_map inj_on_def)
    ultimately show False using m' assms(3,4) by (simp add: release_def free_def)
  qed
  have "m_ID m \<notin> m_ID ` set ms" if t: "Take w clk e st dr limit s d = (Inr ms, s', d')"
  proof -
    have v: "validRoute e st dr" using t by (auto simp: Take_def split: if_splits)
    show ?thesis using Take_exact [OF v t] hid by simp
  qed
  moreover have "m_ID m \<notin> m_ID ` set (l_Messages l)" if t: "TakeLeased w clk e st dr limit dt s d = (Inr l, s'', d'')"
  proof -
    have v: "validRoute e st dr" "0 < dt" "dt \<le> MaxLease"
      using t by (auto simp: TakeLeased_def split: if_splits)
    show ?thesis using TakeLeased_eq(1) [OF v, of w clk limit s d] t hid
      by (auto simp: empty_lease_def image_image split: if_splits)
  qed
  ultimately show ?thesis by blast
qed

theorem leased_hidden_witness:
  "\<exists>ms s' d'. Take io_fine sample_clock ''e1'' ''st'' c2s 0 sample_store empty_disk = (Inr ms, s', d') \<and>
     length ms = 2 \<and> m_ID (sample_queue ! 1) \<notin> m_ID ` set ms"
proof -
  let ?m = "sample_queue ! 1"
  have m: "?m \<in> set (queue sample_store (key ''e1'' ''st'' c2s))" "\<not> free ?m" "sample_clock 1 < m_leaseUntil ?m"
    by (simp_all add: sample_queue_def sample_store_def queue_def lookup_or_def free_def sample_clock_def duration_defs)
  obtain ms s' d' where T: "Take io_fine sample_clock ''e1'' ''st'' c2s 0 sample_store empty_disk = (Inr ms, s', d')" "length ms = 2"
    using Take_eq [OF sample_route, of io_fine sample_clock 0 sample_store empty_disk] by (simp add: Let_def sample_refreshed sample_avail)
  show ?thesis
    using leased_hidden [of sample_store ?m "''e1''" "''st''" c2s sample_clock, OF sample_inv m] T by blast
qed

text \<open>A view of a message that forgets which lease it is under but not whether it is free at \<open>t\<close>.\<close>

definition view :: "time \<Rightarrow> message \<Rightarrow> message \<times> bool" where
  "view t m = (plain m, free (release t m))"

lemma lease_loop_view:
  "u \<le> t \<Longrightarrow> map (view t) (snd (lease_loop i u limit held ms)) = map (view t) ms"
  by (induction ms arbitrary: held) (auto simp: split_beta Let_def view_def plain_def free_def release_def)

lemma release_view: "t \<le> t' \<Longrightarrow> view t' (release t m) = view t' m"
  by (simp add: view_def free_def release_def plain_def)

lemma view_At: "view t m = view t m' \<Longrightarrow> m_At m = m_At m'"
  unfolding view_def by (metis plain_sel(5) prod.inject)

lemma live_view:
  "map (view t) xs = map (view t) ys \<Longrightarrow> map (view t) (live ttl now xs) = map (view t) (live ttl now ys)"
proof (induction xs arbitrary: ys)
  case (Cons x xs)
  then obtain y ys' where "ys = y # ys'" "view t x = view t y" "map (view t) xs = map (view t) ys'" by (cases ys) auto
  moreover from this have "m_At x = m_At y" by (auto dest: view_At)
  ultimately show ?case using Cons.IH [of ys'] by (auto simp: live_def)
qed (auto simp: live_def)

lemma live_live: "t \<le> t' \<Longrightarrow> live ttl t' (live ttl t ms) = live ttl t' ms"
  unfolding live_def by (induction ms) auto

lemma collect_view:
  "map (view t) xs = map (view t) ys \<Longrightarrow>
   map plain (avail_from limit n (map (release t) xs)) = map plain (avail_from limit n (map (release t) ys)) \<and>
   map plain (kept_from limit n (map (release t) xs)) = map plain (kept_from limit n (map (release t) ys))"
proof (induction xs arbitrary: ys n)
  case (Cons x xs)
  then obtain y ys' where y: "ys = y # ys'" "view t x = view t y" "map (view t) xs = map (view t) ys'" by (cases ys) auto
  then have "plain x = plain y" "free (release t x) = free (release t y)" by (simp_all add: view_def)
  with y(1) Cons.IH [OF y(3), of n] Cons.IH [OF y(3), of "Suc n"] show ?case
    by (simp add: avail_from_Cons)
qed simp

text \<open>
  Property C18. An abandoned lease leaves no trace. Once a lease has run out without being acknowledged, a
  collection of the route hands out the same messages, in the same order and with the same ids, as it
  would have done had the lease never been granted, and leaves the same messages
  behind: an expired lease returns its messages to their original places.
\<close>

theorem expired_lease_no_trace:
  assumes leased: "TakeLeased w clk e st dr limit dt s d = (Inr l, s1, d1)"
    and later: "clk 0 \<le> clk' 0" "clk 1 \<le> clk' 1" "clk 2 + dt \<le> clk' 1"
    and take: "Take w' clk' e st dr limit' s1 d1 = (Inr ms1, s1', d1')"
    and take': "Take w' clk' e st dr limit' s d = (Inr ms, s', d')"
  shows "map plain ms1 = map plain ms \<and>
    map plain (queue s1' (key e st dr)) = map plain (queue s' (key e st dr))"
proof -
  let ?k = "key e st dr" and ?t = "clk' 1" and ?ttl = "s_ttl s"
  have v: "validRoute e st dr" "0 < dt" "dt \<le> MaxLease"
    using leased by (auto simp: TakeLeased_def split: if_splits)
  have ttl: "s_ttl s1 = s_ttl s" using TakeLeased_fields(3) [of w clk e st dr limit dt s d] leased by simp
  have "map (view ?t) (queue s1 ?k) = map (view ?t) (live ?ttl (clk 0) (queue s ?k))"
    using TakeLeased_eq(2) [OF v, of w clk limit s d ?k] leased later(2,3)
    by (simp add: lease_loop_view refreshed_def release_view)
  from live_view [OF this, of ?ttl "clk' 0"] live_live [OF later(1)]
  have "map (view ?t) (live ?ttl (clk' 0) (queue s1 ?k)) = map (view ?t) (live ?ttl (clk' 0) (queue s ?k))" by simp
  from collect_view [OF this, of limit' 0] show ?thesis
    using Take_exact [OF v(1) take] Take_exact [OF v(1) take'] by (simp add: refreshed_def ttl)
qed

theorem expired_lease_no_trace_witness:
  "\<exists>l s1 d1 ms1 s2 d2. TakeLeased io_fine sample_clock ''e1'' ''st'' c2s 0 Minute sample_store empty_disk = (Inr l, s1, d1) \<and>
     Take io_fine (\<lambda>_. sample_clock 0 + Minute) ''e1'' ''st'' c2s 0 s1 d1 = (Inr ms1, s2, d2) \<and>
     map m_ID ms1 = [''m1'', ''m2'', ''m3'']"
proof -
  let ?late = "\<lambda>_ :: nat. sample_clock 0 + Minute"
  have dt: "0 < Minute" "Minute \<le> MaxLease" by (simp_all add: MaxLease_def duration_defs)
  obtain l s1 d1 where L: "TakeLeased io_fine sample_clock ''e1'' ''st'' c2s 0 Minute sample_store empty_disk = (Inr l, s1, d1)"
    using TakeLeased_eq(1) [OF sample_route dt, of io_fine sample_clock 0 sample_store empty_disk]
    by (cases "TakeLeased io_fine sample_clock ''e1'' ''st'' c2s 0 Minute sample_store empty_disk") simp
  have q: "refreshed ?late sample_store (key ''e1'' ''st'' c2s) = map plain sample_queue"
    by (simp add: refreshed_def sample_queue_def queue_def lookup_or_def live_def release_def plain_def sample_store_def
        sample_message_def sample_clock_def DefaultTTL_def duration_defs)
  have a: "avail 0 (map plain sample_queue) = map plain sample_queue"
    by (simp add: avail_from_def free_def filter_id_conv)
  obtain s2 d2 where T: "Take io_fine ?late ''e1'' ''st'' c2s 0 sample_store empty_disk = (Inr (map plain sample_queue), s2, d2)"
    using Take_eq [OF sample_route, of io_fine ?late 0 sample_store empty_disk] by (simp add: Let_def q a)
  obtain ms1 s1' d1' where T1: "Take io_fine ?late ''e1'' ''st'' c2s 0 s1 d1 = (Inr ms1, s1', d1')"
    using Take_eq [OF sample_route, of io_fine ?late 0 s1 d1] by (simp add: Let_def)
  have "map plain ms1 = map plain (map plain sample_queue)"
    using expired_lease_no_trace [OF L _ _ _ T1 T] by (simp add: sample_clock_def duration_defs)
  from arg_cong [OF this, of "map m_ID"] have "map m_ID ms1 = [''m1'', ''m2'', ''m3'']"
    by (simp add: comp_def sample_queue_def)
  with L T1 show ?thesis by (intro exI conjI)
qed

text \<open>
  An acknowledgement from an earlier run deletes nothing. A lease id carries the epoch of the
  run that granted it; presented to a store of another epoch, whatever its counters, it is refused as no such
  lease, and every message that has not expired is still queued.
\<close>

theorem stale_ack_refused:
  assumes "store_inv s" "epoch \<noteq> s_epoch s" "validRoute e st dr"
  shows "\<exists>s' d'. Ack w clk e st dr (lease_name epoch n) s d = (Inl ErrNoSuchLease, s', d') \<and>
    queue s' (key e st dr) = refreshed clk s (key e st dr) \<and>
    (\<forall>k. k \<noteq> key e st dr \<longrightarrow> queue s' k = queue s k)"
proof -
  let ?q = "refreshed clk s (key e st dr)"
  have ok: "queue_ok (unat (s_ids s)) (unat (s_leases s)) (s_epoch s) (key e st dr) ?q"
    by (rule queue_ok_refreshed [OF store_inv_queue [OF assms(1)]])
  have "m_lease m \<noteq> lease_name epoch n" if "m \<in> set ?q" for m
  proof -
    have "m_lease m = '''' \<or> (\<exists>j. m_lease m = lease_name (s_epoch s) j)"
      using ok that by (auto simp: queue_ok_def message_ok_def)
    then show ?thesis using assms(2) by (metis lease_name_inj lease_name_nonempty)
  qed
  then have "filter (\<lambda>m. m_lease m = lease_name epoch n) ?q = []" by (simp add: filter_empty_conv)
  then show ?thesis by (simp add: Ack_eq [OF assms(3) TrimSpace_lease_name] Let_def)
qed

theorem stale_ack_refused_witness:
  "\<exists>s' d'. Ack io_fine sample_clock ''e1'' ''st'' c2s (lease_name ''y'' 1) sample_store empty_disk = (Inl ErrNoSuchLease, s', d') \<and>
     queue s' (key ''e1'' ''st'' c2s) = sample_queue"
  using stale_ack_refused [OF sample_inv _ sample_route, of "''y''"] sample_refreshed by fastforce

section \<open>Acceptance\<close>

text \<open>
  Property C25. What \<^verbatim>\<open>Put\<close> does, on every branch. It succeeds only for a valid route, a body within the
  limit and a queue with room, and then appends to the queue of the route one message with the
  sender's route, sequence number and body, stamped with the clock and with an id no message of the queue
  has; otherwise it appends nothing and names one of four errors. In either case it drops only
  expired messages, leaves every other queue alone and never takes a queue beyond its limit.
\<close>

theorem Put_exact:
  assumes "store_inv s" "free m" "unat (s_ids s) < 2 ^ 64 - 1" "Put w clk m s d = (r, s', d')"
  shows "(\<forall>k. k \<noteq> msg_key m \<longrightarrow> queue s' k = queue s k) \<and>
    (case r of
       Inl err \<Rightarrow> err \<in> {ErrBadRoute, ErrTooLarge, ErrQueueFull, ErrNotDurable} \<and>
         queue s' (msg_key m) \<in> {queue s (msg_key m), live (s_ttl s) (clk 0) (queue s (msg_key m))}
     | Inr _ \<Rightarrow> validRoute (m_Estate m) (m_Station m) (m_Dir m) \<and> int (length (m_Body m)) \<le> MaxBodyBytes \<and>
         (\<exists>m'. queue s' (msg_key m) = live (s_ttl s) (clk 0) (queue s (msg_key m)) @ [m'] \<and>
            m_Body m' = m_Body m \<and> m_Seq m' = m_Seq m \<and> msg_key m' = msg_key m \<and> m_Estate m' = m_Estate m \<and>
            m_At m' = clk 1 \<and> m_ID m' \<notin> m_ID ` set (queue s (msg_key m))) \<and>
         int (length (queue s' (msg_key m))) \<le> s_max s)"
proof (cases rule: Put_cases [of w clk m s d])
  case (accepted sp' d'' fl)
  let ?k = "msg_key m"
  have "m_ID x \<noteq> fst (nextIDLocked s)" if "x \<in> set (queue s ?k)" for x
    using store_inv_queue [OF assms(1), of ?k] that succ_word [OF assms(3)] unfolding queue_ok_def message_ok_def nextID_name
    by (metis id_name_inj Suc_eq_plus1 not_less_eq_eq order_refl)
  moreover have "int (length (m_Body m)) \<le> MaxBodyBytes"
    using accepted(3) by (auto simp: Put_def split: if_splits)
  moreover have "fst (nextIDLocked s) \<notin> m_ID ` set (queue s ?k)" using calculation(1) by (metis imageE)
  ultimately show ?thesis using accepted assms(4)
    by (simp add: msg_key_def [of "m\<lparr>m_At := clk 1, m_ID := _, m_file := _\<rparr>"] flip: msg_key_def)
next
  case full
  then have "s' = fst (expireLocked w (clk 0) (msg_key m) s d)" "r = Inl ErrQueueFull"
    using assms(4) by (auto simp: prod_eq_iff)
  then show ?thesis by simp
qed (use assms(4) in auto)

theorem Put_exact_witness:
  "\<exists>r s' d' m'. Put io_fine sample_clock sample_message sample_store empty_disk = (r, s', d') \<and>
     queue s' (msg_key sample_message) = sample_queue @ [m'] \<and> m_Body m' = m_Body sample_message"
proof -
  obtain r s' d' where P: "Put io_fine sample_clock sample_message sample_store empty_disk = (r, s', d')"
    by (cases "Put io_fine sample_clock sample_message sample_store empty_disk") auto
  have k: "msg_key sample_message = key ''e1'' ''st'' c2s" by (simp add: msg_key_def sample_message_def)
  have q: "live DefaultTTL (sample_clock 0) (queue sample_store (key ''e1'' ''st'' c2s)) = sample_queue"
    by (simp add: live_def queue_def sample_store_def lookup_or_def sample_queue_def sample_message_def sample_clock_def
        DefaultTTL_def duration_defs)
  have r: "r = Inr ()"
  proof -
    have v: "validRoute (m_Estate sample_message) (m_Station sample_message) (m_Dir sample_message)"
      "int (length (m_Body sample_message)) \<le> MaxBodyBytes"
      by (simp_all add: sample_message_def MaxBodyBytes_def)
    show ?thesis using P Put_eq [OF v k [symmetric, unfolded msg_key_def], of io_fine sample_clock sample_store empty_disk]
      by (simp add: q sample_queue_def DefaultMaxQueue_def)
  qed
  have "free sample_message" by (simp add: free_def sample_message_def)
  from Put_exact [OF sample_inv this _ P] show ?thesis using P r q k by auto
qed

section \<open>Expiry\<close>

text \<open>
  Expiry is exact when the clock does not run backwards. In a queue whose messages
  were stamped in order, the lazy scan that stops at the first message young enough
  drops every message older than the time to live and no other, and \<^verbatim>\<open>Depth\<close> counts the rest.
\<close>

theorem Depth_counts_unexpired:
  assumes "sorted (map m_At (queue s (key e st dr)))" "Depth w now e st dr s d = (n, s', d')"
  shows "queue s' (key e st dr) = filter (\<lambda>m. now - s_ttl s \<le> m_At m) (queue s (key e st dr)) \<and>
    n = length (filter (\<lambda>m. now - s_ttl s \<le> m_At m) (queue s (key e st dr)))"
proof -
  let ?q = "queue s (key e st dr)"
  have "live (s_ttl s) now ?q = filter (\<lambda>m. \<not> m_At m < now - s_ttl s) ?q"
    unfolding live_def
  proof (rule dropWhile_suffix_filter)
    fix i j
    assume "i < j" "j < length ?q" "m_At (?q ! j) < now - s_ttl s"
    moreover from this have "m_At (?q ! i) \<le> m_At (?q ! j)" using assms(1) by (simp add: sorted_iff_nth_mono_less)
    ultimately show "m_At (?q ! i) < now - s_ttl s" by simp
  qed
  moreover have "s' = fst (expireLocked w now (key e st dr) s d)" "n = length (live (s_ttl s) now ?q)"
    using assms(2) by (auto simp: Depth_def Let_def split_beta)
  ultimately show ?thesis by (simp add: not_less)
qed

theorem Depth_counts_unexpired_witness:
  "\<exists>s' d'. Depth io_fine (sample_clock 0 + DefaultTTL + 1) ''e1'' ''st'' c2s sample_store empty_disk = (0, s', d')"
proof -
  obtain n s' d' where D: "Depth io_fine (sample_clock 0 + DefaultTTL + 1) ''e1'' ''st'' c2s sample_store empty_disk = (n, s', d')"
    by (cases "Depth io_fine (sample_clock 0 + DefaultTTL + 1) ''e1'' ''st'' c2s sample_store empty_disk") auto
  have q: "queue sample_store (key ''e1'' ''st'' c2s) = sample_queue"
    by (simp add: queue_def sample_store_def lookup_or_def)
  have "sorted (map m_At (queue sample_store (key ''e1'' ''st'' c2s)))"
    unfolding q by (simp add: sample_queue_def)
  from Depth_counts_unexpired [OF this D] D show ?thesis unfolding q by (simp add: sample_queue_def)
qed

lemma expire_all_queue:
  fixes clk :: "string \<Rightarrow> time"
  defines "f \<equiv> \<lambda>w k (s1, d1). expireLocked w (clk k) k s1 d1"
  assumes "distinct ks"
  shows "queue (fst (fold (f w) ks (s, d))) k =
    (if k \<in> set ks then live (s_ttl s) (clk k) (queue s k) else queue s k)"
  using assms(2)
proof (induction ks arbitrary: s d)
  case (Cons k' ks)
  then show ?case
    using Cons.IH [of "fst (expireLocked w (clk k') k' s d)" "snd (expireLocked w (clk k') k' s d)"] by (auto simp: f_def)
qed simp

text \<open>
  A sweep visits every queue. After \<^verbatim>\<open>Sweep\<close> every queue of the store has lost exactly its
  leading messages older than the time to live at the moment it was visited, so a collection
  after the sweep finds no less than it would have found without it.
\<close>

theorem Sweep_every_queue:
  assumes "store_inv s" "Sweep w sweep_clk s d = (n, s', d')"
  shows "queue s' k = live (s_ttl s) (sweep_clk k) (queue s k)"
proof -
  have "distinct (mkeys (s_q s))" using assms(1) by (simp add: store_inv_def)
  note q = expire_all_queue [OF this, where clk = sweep_clk and w = w and s = s and d = d and k = k]
  show ?thesis
  proof (cases "k \<in> set (mkeys (s_q s))")
    case True
    with q assms(2) show ?thesis by (auto simp: Sweep_def Let_def split_beta)
  next
    case False
    with q assms(2) queue_not_key [OF False] show ?thesis by (auto simp: Sweep_def Let_def split_beta live_def)
  qed
qed

theorem Sweep_every_queue_witness:
  "\<exists>n s' d'. Sweep io_fine (\<lambda>_. sample_clock 0 + DefaultTTL + 1) sample_store empty_disk = (n, s', d') \<and>
     queue s' (key ''e1'' ''st'' c2s) = []"
proof -
  obtain n s' d' where S: "Sweep io_fine (\<lambda>_. sample_clock 0 + DefaultTTL + 1) sample_store empty_disk = (n, s', d')"
    by (cases "Sweep io_fine (\<lambda>_. sample_clock 0 + DefaultTTL + 1) sample_store empty_disk") auto
  have "queue s' (key ''e1'' ''st'' c2s) = []"
    using Sweep_every_queue [OF sample_inv S, of "key ''e1'' ''st'' c2s"]
    by (simp add: live_def queue_def sample_store_def lookup_or_def sample_queue_def)
  with S show ?thesis by (intro exI conjI)
qed

end
