(* ===== verification/Relay_Durable.thy ===== *)
theory Relay_Durable
  imports Relay_Lease
begin

text \<open>
  The durability of the spooled store (\<^verbatim>\<open>src/spool.go\<close> with \<^verbatim>\<open>src/relay.go\<close>): every message the store holds is on the
  disk, flushed, under a name whose order is the order of arrival, so that a power cut at any moment,
  followed by a start-up that can read the directory, brings every held message back to its queue in order.

  \<open>spooled_inv\<close> is the invariant that carries this through every operation, whatever the disk
  refuses to do; \<open>recovery\<close> is the theorem.
\<close>

section \<open>Names and lists\<close>

lemma lex_append: "length xs = length ys \<Longrightarrow> (xs :: string) < ys \<Longrightarrow> xs @ zs < ys @ zs"
  by (induction xs ys rule: list_induct2) auto

lemma show_u64_length: "length (show_nat (unat (i :: u64))) \<le> 20"
proof -
  have "unat i < 2 ^ 64" using unsigned_less [of i, where ?'a = nat] by simp
  then have "unat i < 10 ^ 20" by simp
  then show ?thesis by (rule show_nat_length) simp
qed

lemma spool_name_mono: "i < j \<Longrightarrow> spool_name i < spool_name j"
  unfolding spool_name_def using unsigned_less [of j, where ?'a = nat]
  by (intro lex_append pad20_strict_mono) (simp_all add: pad_left_length show_u64_length word_less_nat_alt)

lemma spool_name_inj: "spool_name i = spool_name j \<Longrightarrow> i = j"
  using spool_name_mono [of i j] spool_name_mono [of j i] by (metis less_irrefl linorder_neqE)

lemma spool_name_digits: "spool_name i = c # cs \<Longrightarrow> is_digit c"
proof -
  have "pad_left 20 (show_nat (unat i)) \<noteq> []" by (simp add: pad_left_def)
  then obtain x xs where x: "pad_left 20 (show_nat (unat i)) = x # xs" by (cases "pad_left 20 (show_nat (unat i))") auto
  have "list_all is_digit (pad_left 20 (show_nat (unat i)))" by (rule pad_left_digits) simp
  with x show "spool_name i = c # cs \<Longrightarrow> is_digit c" by (simp add: spool_name_def)
qed

lemma spool_name_not_tmp: "spool_name i \<noteq> spoolTmpPre @ r" "\<not> has_prefix (spool_name i) spoolTmpPre"
proof -
  have "\<not> is_digit (CHR ''w'')" by (simp add: is_digit_iff)
  then show "spool_name i \<noteq> spoolTmpPre @ r" for r using spool_name_digits [of i "CHR ''w''"] by auto
  then show "\<not> has_prefix (spool_name i) spoolTmpPre" by (auto simp: has_prefix_iff)
qed

lemma spool_name_ext [simp]: "has_suffix (spool_name i) spoolExt"
  by (simp add: spool_name_def)

lemma spool_name_nonempty [simp]: "spool_name i \<noteq> ''''"
  by (simp add: spool_name_def)

lemma spoolNumber_name: "spoolNumber (spool_name i) = Some i"
proof -
  let ?p = "pad_left 20 (show_nat (unat i))"
  have d: "list_all is_digit ?p" by (rule pad_left_digits) simp
  then have tw: "takeWhile is_digit ?p = ?p" by (simp add: takeWhile_eq_all_conv list_all_iff)
  have "\<not> is_digit (CHR 0x20)" "\<not> is_digit (CHR 0x09)" by (simp_all add: is_digit_iff)
  with d have dw: "dropWhile (\<lambda>c. c = CHR 0x20 \<or> c = CHR 0x09) ?p = ?p" by (cases ?p) auto
  have v: "digits_val ?p < 2 ^ 64" using unsigned_less [of i, where ?'a = nat] by simp
  have ne: "?p \<noteq> []" by (simp add: pad_left_def)
  have "trim_suffix (spool_name i) spoolExt = ?p" by (simp add: trim_suffix_def spool_name_def)
  moreover have "scan_uint ?p = Some i" using d v ne by (simp add: scan_uint_def dw tw ParseUint_def)
  moreover have "?p \<noteq> spool_name i" by (simp add: spool_name_def)
  ultimately show ?thesis by (simp add: spoolNumber_def)
qed

lemma map_filter_cong: "(\<And>x. x \<in> set xs \<Longrightarrow> f x = g x) \<Longrightarrow> List.map_filter f xs = List.map_filter g xs"
  by (induction xs) (auto simp: map_filter_simps split: option.splits)

lemma append_in_shuffles: "xs @ ys \<in> shuffles xs ys"
  by (induction xs) (auto intro: Cons_in_shuffles_leftI)

lemma partition_in_shuffles: "xs \<in> shuffles (filter P xs) (filter (\<lambda>x. \<not> P x) xs)"
  by (induction xs) (auto intro: Cons_in_shuffles_leftI Cons_in_shuffles_rightI)

lemma shuffles_facts:
  assumes "zs \<in> shuffles xs ys"
  shows "subseq ys zs" "set zs = set xs \<union> set ys" "map f zs \<in> shuffles (map f xs) (map f ys)"
    and "distinct zs \<Longrightarrow> set xs \<inter> set ys = {}"
proof -
  show "subseq ys zs" using assms
    by (induction xs ys arbitrary: zs rule: shuffles.induct) auto
  show "set zs = set xs \<union> set ys" using set_shuffles [OF assms] .
  show "map f zs \<in> shuffles (map f xs) (map f ys)" using assms
    by (induction xs ys arbitrary: zs rule: shuffles.induct) auto
  show "set xs \<inter> set ys = {}" if "distinct zs"
  proof -
    have "card (set xs \<union> set ys) = length xs + length ys"
      using distinct_card [OF that] set_shuffles [OF assms] length_shuffles [OF assms] by simp
    with card_Un_Int [OF finite_set [of xs] finite_set [of ys]] card_length [of xs] card_length [of ys]
    have "card (set xs \<inter> set ys) = 0" by linarith
    then show ?thesis by simp
  qed
qed

section \<open>What the disk operations leave alone\<close>

lemma os_Remove_vol: "n \<noteq> f \<Longrightarrow> map_of (vol (os_Remove w f d)) n = map_of (vol d) n"
  by (simp add: os_Remove_def delete_conv)

lemma os_Remove_dur [simp]: "dur (os_Remove w f d) = dur d"
  by (simp add: os_Remove_def)

lemma os_Remove_distinct: "distinct (mkeys (vol d)) \<Longrightarrow> distinct (mkeys (vol (os_Remove w f d)))"
  by (simp add: os_Remove_def distinct_delete)

lemma spool_remove_frame:
  "dur (spool_remove w ms d) = dur d"
  "distinct (mkeys (vol d)) \<Longrightarrow> distinct (mkeys (vol (spool_remove w ms d)))"
  "n \<notin> m_file ` set ms \<Longrightarrow> map_of (vol (spool_remove w ms d)) n = map_of (vol d) n"
  by (induction ms arbitrary: d) (auto simp: os_Remove_vol os_Remove_distinct)

lemma dropDurable_frame:
  "dur (dropDurableLocked w ms s d) = dur d"
  "distinct (mkeys (vol d)) \<Longrightarrow> distinct (mkeys (vol (dropDurableLocked w ms s d)))"
  "n \<notin> m_file ` set ms \<Longrightarrow> map_of (vol (dropDurableLocked w ms s d)) n = map_of (vol d) n"
  by (auto simp: dropDurableLocked_def spool_remove_frame split: option.splits)

text \<open>Everything a write can do, success or failure.\<close>

lemma spool_write_frame:
  assumes "spool_write w m sp d = (r, sp', d')"
  shows "distinct (mkeys (vol d)) \<Longrightarrow> distinct (mkeys (vol d'))"
    and "n \<noteq> spool_name (sp_next sp) \<Longrightarrow> \<not> has_prefix n spoolTmpPre \<Longrightarrow> map_of (vol d') n = map_of (vol d) n"
    and "sp_next sp' \<in> {sp_next sp, sp_next sp + 1}"
    and "dur d' = dur d \<or> dur d' = vol d'"
    and "r = Some f \<Longrightarrow> f = spool_name (sp_next sp) \<and> sp' = sp\<lparr>sp_next := sp_next sp + 1\<rparr> \<and> dur d' = vol d' \<and>
      map_of (vol d') f = Some (File (spool_bytes m) True)"
proof -
  note defs = spool_write_def Let_def put_file_def os_Remove_def os_Rename_def syncDir_def
  have tmp: "\<not> has_prefix n spoolTmpPre \<Longrightarrow> n \<noteq> CHR ''w'' # CHR ''r'' # CHR ''i'' # CHR ''t'' # CHR ''i'' # CHR ''n'' # CHR ''g'' # CHR ''-'' # x" for n x
    by (auto simp: has_prefix_def)
  show "distinct (mkeys (vol d)) \<Longrightarrow> distinct (mkeys (vol d'))"
    using assms by (auto simp: defs distinct_update distinct_delete update_conv split: option.splits if_splits)
  show "n \<noteq> spool_name (sp_next sp) \<Longrightarrow> \<not> has_prefix n spoolTmpPre \<Longrightarrow> map_of (vol d') n = map_of (vol d) n"
    using assms tmp [of n] by (auto simp: defs update_conv delete_conv split: option.splits if_splits)
  show "sp_next sp' \<in> {sp_next sp, sp_next sp + 1}"
    using assms by (auto simp: defs split: option.splits if_splits)
  show "dur d' = dur d \<or> dur d' = vol d'"
    using assms by (auto simp: defs split: option.splits if_splits)
  show "r = Some f \<Longrightarrow> f = spool_name (sp_next sp) \<and> sp' = sp\<lparr>sp_next := sp_next sp + 1\<rparr> \<and> dur d' = vol d' \<and>
      map_of (vol d') f = Some (File (spool_bytes m) True)"
    using assms by (auto simp: defs update_conv spool_bytes_def split: option.splits if_splits)
qed

section \<open>The invariant\<close>

text \<open>
  A message is held when the entry it names is flushed, in the present and in the durable directory, and
  reads back as the message.
\<close>

definition held :: "disk \<Rightarrow> message \<Rightarrow> bool" where
  "held d m \<longleftrightarrow> (\<exists>b. map_of (vol d) (m_file m) = Some (File b True) \<and> map_of (dur d) (m_file m) = Some (File b True) \<and>
     readSpoolFile (m_file m) b = Some (plain m))"

definition spooled_queue :: "disk \<Rightarrow> u64 \<Rightarrow> string \<Rightarrow> message list \<Rightarrow> bool" where
  "spooled_queue d next k ms \<longleftrightarrow> sorted_wrt (<) (map m_file ms) \<and>
     (\<forall>m \<in> set ms. msg_key m = k \<and> held d m \<and> (\<exists>i < next. m_file m = spool_name i))"

definition spooled_inv :: "store \<Rightarrow> disk \<Rightarrow> bool" where
  "spooled_inv s d \<longleftrightarrow> distinct (mkeys (vol d)) \<and>
     (\<exists>sp. s_spool s = Some sp \<and> (\<forall>k. spooled_queue d (sp_next sp) k (queue s k)))"

lemma held_plain: "plain m = plain m' \<Longrightarrow> held d m = held d m'"
  unfolding held_def by (metis plain_sel(6))

lemma plain_eqD: "plain m = plain m' \<Longrightarrow> m_file m = m_file m' \<and> msg_key m = msg_key m'"
  unfolding msg_key_def by (metis plain_sel(6,7,8,9))

lemma spooled_queue_plain:
  assumes "map plain ms = map plain ms'" "spooled_queue d nx k ms"
  shows "spooled_queue d nx k ms'"
proof -
  have "map m_file ms = map m_file ms'"
    using assms(1) by (metis (mono_tags, lifting) list.map_comp list.map_cong0 comp_def plain_sel(6))
  moreover have "\<exists>m \<in> set ms. plain m = plain m'" if "m' \<in> set ms'" for m'
    using assms(1) that by (metis (mono_tags, lifting) image_iff list.set_map)
  ultimately show ?thesis
    using assms(2) unfolding spooled_queue_def by (metis held_plain plain_eqD)
qed

lemma spooled_plain:
  assumes "spooled_inv s d" "s_spool s' = s_spool s" "\<And>k. map plain (queue s' k) = map plain (queue s k)"
  shows "spooled_inv s' d"
  using assms spooled_queue_plain [OF assms(3) [symmetric]] by (auto simp: spooled_inv_def)

lemma subseq_sorted_wrt: "subseq xs ys \<Longrightarrow> sorted_wrt P ys \<Longrightarrow> sorted_wrt P xs"
  by (induction rule: list_emb.induct) (auto dest: subseq_set)

lemma spooled_queue_subseq:
  assumes "spooled_queue d nx k ms" "subseq ms' ms" "nx \<le> nx'" "\<And>m. m \<in> set ms' \<Longrightarrow> held d' m"
  shows "spooled_queue d' nx' k ms'"
proof -
  have "sorted_wrt (<) (map m_file ms')"
    using assms(1) by (intro subseq_sorted_wrt [OF subseq_map [OF assms(2)]]) (simp add: spooled_queue_def)
  moreover have "set ms' \<subseteq> set ms" using assms(2) by (rule subseq_set)
  ultimately show ?thesis
    using assms(1,3,4) unfolding spooled_queue_def by (meson order_less_le_trans subsetD)
qed

lemma spooled_queue_snoc:
  assumes "spooled_queue d nx k ms" "\<And>m'. m' \<in> set ms \<Longrightarrow> m_file m' < m_file m" "msg_key m = k" "held d m"
    "m_file m = spool_name i" "i < nx"
  shows "spooled_queue d nx k (ms @ [m])"
proof -
  have "sorted_wrt (<) (map m_file (ms @ [m]))"
    using assms(1,2) by (simp add: spooled_queue_def sorted_wrt_append)
  then show ?thesis using assms unfolding spooled_queue_def by (metis Un_iff empty_set list.simps(15) set_append singletonD)
qed

text \<open>Two held messages with the same file are the same message.\<close>

lemma same_file:
  "held d m \<Longrightarrow> held d m' \<Longrightarrow> m_file m = m_file m' \<Longrightarrow> plain m = plain m'"
  by (auto simp: held_def)

lemma spooled_split:
  assumes inv: "spooled_inv s d" and sh: "queue s k \<in> shuffles A B"
  shows "spooled_inv (set_queue k B s) (dropDurableLocked w A s d)"
proof -
  obtain sp where sp: "s_spool s = Some sp" and q: "\<And>k. spooled_queue d (sp_next sp) k (queue s k)"
    using inv by (auto simp: spooled_inv_def)
  let ?d = "dropDurableLocked w A s d"
  have dist: "distinct (map m_file (queue s k))"
    using q [of k] by (simp add: spooled_queue_def strict_sorted_iff)
  have AB: "set A \<subseteq> set (queue s k)" "set B \<subseteq> set (queue s k)" "subseq B (queue s k)"
    using shuffles_facts [OF sh] by auto
  have disj: "m_file ` set A \<inter> m_file ` set B = {}"
    using shuffles_facts(4) [OF shuffles_facts(3) [OF sh, of m_file] dist] by simp
  have keep: "held ?d m" if "held d m" "m_file m \<notin> m_file ` set A" for m
    using that dropDurable_frame(1,3) by (auto simp: held_def)
  have "held ?d m" if "m \<in> set (queue (set_queue k B s) k')" for m k'
  proof (cases "k' = k")
    case True
    with that AB disj q [of k] show ?thesis by (intro keep) (auto simp: spooled_queue_def)
  next
    case False
    have "m_file m \<noteq> m_file a" if "a \<in> set A" for a
    proof
      assume "m_file m = m_file a"
      moreover have "held d m" "msg_key m = k'" "held d a" "msg_key a = k"
        using q [of k'] q [of k] AB(1) that False \<open>m \<in> set (queue (set_queue k B s) k')\<close> by (auto simp: spooled_queue_def)
      ultimately show False using False same_file plain_eqD by metis
    qed
    with that False q [of k'] show ?thesis by (intro keep) (auto simp: spooled_queue_def)
  qed
  then have "spooled_queue ?d (sp_next sp) k' (queue (set_queue k B s) k')" for k'
    using AB(3) by (intro spooled_queue_subseq [OF q [of k']]) auto
  moreover have "distinct (mkeys (vol ?d))" using inv dropDurable_frame(2) by (auto simp: spooled_inv_def)
  ultimately show ?thesis using sp by (auto simp: spooled_inv_def)
qed

subsection \<open>Every operation keeps it\<close>

lemma spooled_expire:
  assumes "spooled_inv s d"
  shows "spooled_inv (fst (expireLocked w t k s d)) (snd (expireLocked w t k s d))"
proof -
  have "queue s k \<in> shuffles (stale (s_ttl s) t (queue s k)) (live (s_ttl s) t (queue s k))"
    using append_in_shuffles stale_live by metis
  from spooled_split [OF assms this] show ?thesis by (simp add: expireLocked_eq assms)
qed

lemma spooled_refresh:
  assumes "spooled_inv s d"
  shows "spooled_inv (after_refresh w clk k s d) (snd (expireLocked w (clk 0) k s d))"
  unfolding after_refresh_def
  by (rule spooled_plain [OF spooled_expire [OF assms]]) (simp_all add: comp_def)

lemma spooled_collect:
  fixes w :: io and clk :: "nat \<Rightarrow> time" and k :: string and s :: store and d :: disk
  assumes "spooled_inv s d" "refreshed clk s k \<in> shuffles A B"
  defines "s2 \<equiv> after_refresh w clk k s d" and "d1 \<equiv> snd (expireLocked w (clk 0) k s d)"
  shows "spooled_inv (set_queue k B s2) (dropDurableLocked w A s d1)"
proof -
  have "queue s2 k \<in> shuffles A B" using assms(2) by (simp add: s2_def)
  from spooled_split [OF spooled_refresh [OF assms(1), of w clk k, folded s2_def d1_def] this]
  have "spooled_inv (set_queue k B s2) (dropDurableLocked w A s2 d1)" .
  then show ?thesis using dropDurable_spool [of s2 s] by (simp add: s2_def)
qed

lemma spooled_Take:
  assumes "spooled_inv s d"
  shows "spooled_inv (fst (snd (Take w clk e st dr limit s d))) (snd (snd (Take w clk e st dr limit s d)))"
proof (cases "validRoute e st dr")
  case True
  with assms show ?thesis
    using spooled_refresh [OF assms] spooled_collect [OF assms avail_kept_shuffles]
    by (simp add: Take_eq Let_def)
next
  case False
  with assms show ?thesis by (simp add: Take_def)
qed

lemma spooled_Ack:
  assumes "spooled_inv s d"
  shows "spooled_inv (fst (snd (Ack w clk e st dr i s d))) (snd (snd (Ack w clk e st dr i s d)))"
proof (cases "validRoute e st dr \<and> TrimSpace i \<noteq> ''''")
  case True
  with assms show ?thesis
    using spooled_refresh [OF assms] spooled_collect [OF assms partition_in_shuffles [of _ "\<lambda>m. m_lease m = i"]]
    by (simp add: Ack_eq Let_def)
next
  case False
  with assms show ?thesis by (auto simp: Ack_def)
qed

lemma spooled_TakeLeased:
  assumes "spooled_inv s d"
  shows "spooled_inv (fst (snd (TakeLeased w clk e st dr limit dt s d))) (snd (snd (TakeLeased w clk e st dr limit dt s d)))"
proof (cases "validRoute e st dr \<and> 0 < dt \<and> dt \<le> MaxLease")
  case True
  then have v: "validRoute e st dr" "0 < dt" "dt \<le> MaxLease" by auto
  show ?thesis
    unfolding TakeLeased_eq(3) [OF v]
    by (rule spooled_plain [OF spooled_refresh [OF assms, of w clk "key e st dr"]])
      (simp_all add: TakeLeased_fields TakeLeased_eq(2) [OF v] lease_loop_plain)
next
  case False
  with assms show ?thesis by (auto simp: TakeLeased_def)
qed

lemma spooled_Depth:
  "spooled_inv s d \<Longrightarrow> spooled_inv (fst (snd (Depth w t e st dr s d))) (snd (snd (Depth w t e st dr s d)))"
  by (simp add: Depth_def Let_def split_beta spooled_expire)

lemma spooled_Sweep:
  assumes "spooled_inv s d"
  shows "spooled_inv (fst (snd (Sweep w clk s d))) (snd (snd (Sweep w clk s d)))"
proof -
  let ?f = "\<lambda>k (s1, d1). expireLocked w (clk k) k s1 d1"
  have "spooled_inv s d \<Longrightarrow> spooled_inv (fst (fold ?f ks (s, d))) (snd (fold ?f ks (s, d)))" for ks s d
  proof (induction ks arbitrary: s d)
    case (Cons k ks)
    then show ?case using Cons.IH [OF spooled_expire [OF Cons.prems, of w "clk k" k]] by simp
  qed simp
  with assms show ?thesis by (simp add: Sweep_def Let_def split_beta)
qed

text \<open>The message as \<^verbatim>\<open>Put\<close> writes it.\<close>

abbreviation stamped :: "(nat \<Rightarrow> time) \<Rightarrow> store \<Rightarrow> message \<Rightarrow> message" where
  "stamped clk s m \<equiv> m\<lparr>m_At := clk 1, m_ID := fst (nextIDLocked s)\<rparr>"

lemma valid_utf8_id: "valid_utf8 (id_name n)"
proof (rule valid_utf8_ascii)
  have "list_all (in_range 0 127) (show_nat n)"
    using show_nat_digits [of n] by (auto simp: list_all_iff is_digit_iff in_range_def)
  then show "list_all (in_range 0 127) (id_name n)" by (simp add: id_name_def in_range_def)
qed

lemma held_frame:
  assumes "held d m" "map_of (vol d') (m_file m) = map_of (vol d) (m_file m)" "dur d' = dur d \<or> dur d' = vol d'"
  shows "held d' m"
  using assms by (auto simp: held_def)

lemma spooled_Put:
  assumes inv: "spooled_inv s d" and ok: "valid_utf8 (m_Estate m)" "valid_utf8 (m_Station m)"
    "- (2 ^ 63) \<le> clk 1" "clk 1 < 2 ^ 63" "free m" "m_leaseUntil m = zero_time"
    and room: "\<And>sp. s_spool s = Some sp \<Longrightarrow> unat (sp_next sp) < 2 ^ 64 - 1"
  shows "spooled_inv (fst (snd (Put w clk m s d))) (snd (snd (Put w clk m s d)))"
proof -
  let ?x = "expireLocked w (clk 0) (msg_key m) s d"
  obtain sp where sp: "s_spool s = Some sp" using inv by (auto simp: spooled_inv_def)
  have nx: "sp_next sp < sp_next sp + 1" using succ_word [OF room [OF sp]] by (simp add: word_less_nat_alt)
  have x: "distinct (mkeys (vol (snd ?x)))" "\<And>k. spooled_queue (snd ?x) (sp_next sp) k (queue (fst ?x) k)"
    using spooled_expire [OF inv, of w "clk 0" "msg_key m"] sp by (auto simp: spooled_inv_def)
  have step: "distinct (mkeys (vol d')) \<and> sp_next sp \<le> sp_next sp' \<and>
      (\<forall>k. spooled_queue d' (sp_next sp') k (queue (fst ?x) k)) \<and>
      (\<forall>k. \<forall>m' \<in> set (queue (fst ?x) k). m_file m' < spool_name (sp_next sp))"
    if wr: "spool_write w (stamped clk s m) sp (snd ?x) = (r, sp', d')" for r sp' d'
  proof -
    note F = spool_write_frame [OF wr]
    have fl: "\<exists>i < sp_next sp. m_file m' = spool_name i" "held (snd ?x) m'" if "m' \<in> set (queue (fst ?x) k)" for k m'
      using x(2) [of k] that unfolding spooled_queue_def by blast+
    have "held d' m'" if mem: "m' \<in> set (queue (fst ?x) k)" for k m'
    proof -
      obtain i where i: "i < sp_next sp" "m_file m' = spool_name i" using fl(1) [OF mem] by blast
      then have "m_file m' \<noteq> spool_name (sp_next sp)" using spool_name_inj by fastforce
      with i(2) have "map_of (vol d') (m_file m') = map_of (vol (snd ?x)) (m_file m')"
        using F(2) [of "m_file m'"] spool_name_not_tmp(2) by metis
      from held_frame [OF fl(2) [OF mem] this F(4)] show ?thesis .
    qed
    moreover have "sp_next sp \<le> sp_next sp'" using F(3) nx by auto
    ultimately have "spooled_queue d' (sp_next sp') k (queue (fst ?x) k)" for k
      by (intro spooled_queue_subseq [OF x(2)]) auto
    then show ?thesis using F(1) [OF x(1)] \<open>sp_next sp \<le> sp_next sp'\<close> fl(1) spool_name_mono by metis
  qed
  show ?thesis
  proof (cases rule: Put_cases [of w clk m s d])
    case same
    with inv show ?thesis by auto
  next
    case full
    with spooled_expire [OF inv] show ?thesis by simp
  next
    case (lost sp0 sp' d')
    with step sp show ?thesis by (auto simp: spooled_inv_def)
  next
    case (accepted sp' d' fl)
    then have wr: "spool_write w (stamped clk s m) sp (snd ?x) = (Some fl, the sp', d')" "sp' = Some (the sp')" using sp by auto
    let ?m = "m\<lparr>m_At := clk 1, m_ID := fst (nextIDLocked s), m_file := fl\<rparr>"
    note st = step [OF wr(1)] and F = spool_write_frame(5) [OF wr(1) refl]
    have "storable (stamped clk s m)"
      using ok accepted(1) by (simp add: storable_def nextID_name valid_utf8_id)
    then have "readSpoolFile fl (spool_bytes (stamped clk s m)) = Some (plain ?m)"
      using storable_reads by (simp add: plain_def)
    then have "held d' ?m" using F unfolding held_def by (intro exI [of _ "spool_bytes (stamped clk s m)"]) auto
    moreover have "m_file m' < m_file ?m" if "m' \<in> set (queue (fst ?x) (msg_key m))" for m'
    proof -
      have "m_file m' < spool_name (sp_next sp)" using st that by blast
      then show ?thesis using F by simp
    qed
    moreover have "msg_key ?m = msg_key m" by (simp add: msg_key_def)
    moreover have "m_file ?m = spool_name (sp_next sp)" "sp_next sp < sp_next (the sp')" using F nx by auto
    ultimately have "spooled_queue d' (sp_next (the sp')) (msg_key m) (queue (fst ?x) (msg_key m) @ [?m])"
      using st by (intro spooled_queue_snoc) blast+
    moreover have "spooled_queue d' (sp_next (the sp')) k (queue s k)" if "k \<noteq> msg_key m" for k
      using st that by (metis queue_expireLocked)
    ultimately have "spooled_queue d' (sp_next (the sp')) k (queue (fst (snd (Put w clk m s d))) k)" for k
      unfolding accepted(3) by (cases "k = msg_key m") auto
    then show ?thesis using accepted(3) st wr(2) unfolding spooled_inv_def
      by (intro conjI exI [of _ "the sp'"]) auto
  qed
qed

section \<open>Recovery\<close>

subsection \<open>What a start-up loads\<close>

text \<open>The answer of reading one entry, as the loader does it.\<close>

definition read_entry :: "io \<Rightarrow> disk \<Rightarrow> string \<Rightarrow> message option" where
  "read_entry w d name =
     (case map_of (vol d) name of
        Some (File raw s) \<Rightarrow> if io_read w name then readSpoolFile name raw else None
      | _ \<Rightarrow> None)"

lemma read_entry_cong: "map_of (vol d) n = map_of (vol d') n \<Longrightarrow> read_entry w d n = read_entry w d' n"
  by (simp add: read_entry_def)

lemma load_one_eq:
  "ls_msgs (load_one w n l) = ls_msgs l @ (case read_entry w (ls_disk l) n of Some m \<Rightarrow> [m] | None \<Rightarrow> [])"
  "ls_highest (load_one w n l) =
     (case read_entry w (ls_disk l) n of
        Some m \<Rightarrow> (case spoolNumber n of Some i \<Rightarrow> max (ls_highest l) i | None \<Rightarrow> ls_highest l)
      | None \<Rightarrow> ls_highest l)"
  unfolding load_one_def read_entry_def [symmetric]
  by (auto simp: Let_def max_def split: option.splits)

lemma corrupt_not_ext: "\<not> has_suffix (n @ spoolCorrupt) spoolExt"
  by (simp add: has_suffix_def has_prefix_def)

lemma load_one_disk:
  assumes "n' \<noteq> n" "has_suffix n' spoolExt"
  shows "map_of (vol (ls_disk (load_one w n l))) n' = map_of (vol (ls_disk l)) n'"
proof -
  have "n' \<noteq> n @ spoolCorrupt" using assms(2) corrupt_not_ext by metis
  then show ?thesis using assms(1)
    unfolding load_one_def read_entry_def [symmetric]
    by (auto simp: Let_def os_Rename_def update_conv delete_conv split: option.splits)
qed

lemma load_all:
  assumes "distinct ns" "\<forall>n \<in> set ns. has_suffix n spoolExt"
  shows "ls_msgs (fold (load_one w) ns l) = ls_msgs l @ List.map_filter (read_entry w (ls_disk l)) ns \<and>
    (\<forall>n i. n \<in> set ns \<and> read_entry w (ls_disk l) n \<noteq> None \<and> spoolNumber n = Some i \<longrightarrow>
       i \<le> ls_highest (fold (load_one w) ns l)) \<and> ls_highest l \<le> ls_highest (fold (load_one w) ns l)"
  using assms
proof (induction ns arbitrary: l)
  case Nil
  then show ?case by simp
next
  case (Cons n ns)
  let ?l = "load_one w n l"
  have same: "read_entry w (ls_disk ?l) n' = read_entry w (ls_disk l) n'" if "n' \<in> set ns" for n'
  proof -
    have "n' \<noteq> n" "has_suffix n' spoolExt" using Cons.prems that by auto
    then show ?thesis by (intro read_entry_cong load_one_disk)
  qed
  then have mf: "List.map_filter (read_entry w (ls_disk ?l)) ns = List.map_filter (read_entry w (ls_disk l)) ns"
    by (rule map_filter_cong)
  have IH: "ls_msgs (fold (load_one w) ns ?l) = ls_msgs ?l @ List.map_filter (read_entry w (ls_disk ?l)) ns"
    "\<And>n' i. n' \<in> set ns \<Longrightarrow> read_entry w (ls_disk ?l) n' \<noteq> None \<Longrightarrow> spoolNumber n' = Some i \<Longrightarrow>
       i \<le> ls_highest (fold (load_one w) ns ?l)"
    "ls_highest ?l \<le> ls_highest (fold (load_one w) ns ?l)"
    using Cons.IH [of ?l] Cons.prems by auto
  have hd: "i \<le> ls_highest ?l" if "read_entry w (ls_disk l) n \<noteq> None" "spoolNumber n = Some i" for i
    using that by (auto simp: load_one_eq)
  have mono: "ls_highest l \<le> ls_highest ?l" by (simp add: load_one_eq split: option.splits)
  have "i \<le> ls_highest (fold (load_one w) ns ?l)"
    if "n' \<in> set (n # ns)" "read_entry w (ls_disk l) n' \<noteq> None" "spoolNumber n' = Some i" for n' i
    using that IH(2) [of n' i] same [of n'] hd [of i] IH(3) by (cases "n' = n") auto
  moreover have "ls_msgs (fold (load_one w) (n # ns) l) = ls_msgs l @ List.map_filter (read_entry w (ls_disk l)) (n # ns)"
    using IH(1) mf by (simp add: load_one_eq map_filter_simps split: option.splits)
  ultimately show ?case using mono IH(3) by auto
qed

lemma remove_tmp_vol:
  "\<forall>n \<in> set ns. has_prefix n spoolTmpPre \<Longrightarrow> \<not> has_prefix f spoolTmpPre \<Longrightarrow>
   map_of (vol (fold (os_Remove w) ns d)) f = map_of (vol d) f"
proof (induction ns arbitrary: d)
  case (Cons n ns)
  then have "f \<noteq> n" by auto
  with Cons show ?case by (simp add: os_Remove_vol)
qed simp

lemma spool_names_facts:
  assumes "distinct (mkeys (vol d))"
  shows "sorted_wrt (<) (spool_names d)" "\<forall>n \<in> set (spool_names d). has_suffix n spoolExt \<and> \<not> has_prefix n spoolTmpPre"
    and "map_of (vol d) (spool_name i) = Some (File b s) \<Longrightarrow> spool_name i \<in> set (spool_names d)"
proof -
  have "distinct (spool_names d)" using assms by (simp add: spool_names_def distinct_map_filter)
  then show "sorted_wrt (<) (spool_names d)" by (simp add: strict_sorted_iff spool_names_def)
  show "\<forall>n \<in> set (spool_names d). has_suffix n spoolExt \<and> \<not> has_prefix n spoolTmpPre"
    by (auto simp: spool_names_def)
  show "map_of (vol d) (spool_name i) = Some (File b s) \<Longrightarrow> spool_name i \<in> set (spool_names d)"
    using spool_name_not_tmp(2) by (force simp: spool_names_def is_file_def dest: map_of_SomeD)
qed

lemma spool_load_msgs:
  assumes "spool_load w d = Some l" "distinct (mkeys (vol d))"
  shows "ls_msgs l = List.map_filter (read_entry w d) (spool_names d)"
    and "n \<in> set (spool_names d) \<Longrightarrow> read_entry w d n \<noteq> None \<Longrightarrow> spoolNumber n = Some i \<Longrightarrow> i \<le> ls_highest l"
proof -
  let ?d = "fold (os_Remove w) (tmp_names d) d"
  have "\<forall>n \<in> set (tmp_names d). has_prefix n spoolTmpPre" by (auto simp: tmp_names_def)
  then have same: "read_entry w ?d n = read_entry w d n" if "n \<in> set (spool_names d)" for n
    using that spool_names_facts(2) [OF assms(2)] by (intro read_entry_cong remove_tmp_vol) auto
  then have mf: "List.map_filter (read_entry w ?d) (spool_names d) = List.map_filter (read_entry w d) (spool_names d)"
    by (rule map_filter_cong)
  have dist: "distinct (spool_names d)" "\<forall>n \<in> set (spool_names d). has_suffix n spoolExt"
    using spool_names_facts(1,2) [OF assms(2)] by (auto simp: strict_sorted_iff)
  have l: "l = fold (load_one w) (spool_names d) \<lparr>ls_msgs = [], ls_quarantined = [], ls_highest = 0, ls_disk = ?d\<rparr>"
    using assms(1) by (auto simp: spool_load_def Let_def split: if_splits)
  note A = load_all [OF dist, of w "\<lparr>ls_msgs = [], ls_quarantined = [], ls_highest = 0, ls_disk = ?d\<rparr>", folded l]
  show "ls_msgs l = List.map_filter (read_entry w d) (spool_names d)" using A mf by simp
  show "n \<in> set (spool_names d) \<Longrightarrow> read_entry w d n \<noteq> None \<Longrightarrow> spoolNumber n = Some i \<Longrightarrow> i \<le> ls_highest l"
    using A [THEN conjunct2, THEN conjunct1, rule_format, of n i] same [of n] by simp
qed

subsection \<open>What a start-up puts into the queues\<close>

lemma load_message_queue:
  "queue (load_message m s) k = (if k = msg_key m then queue s k @ [m] else queue s k)"
  by (simp add: load_message_def Let_def msg_key_def split: option.splits)

lemma load_messages_queue:
  "queue (fold load_message ms s) k = queue s k @ filter (\<lambda>m. msg_key m = k) ms"
  by (induction ms arbitrary: s) (auto simp: load_message_queue)

lemma load_message_fields: "s_spool (load_message m s) = s_spool s \<and> s_ids s \<le> s_ids (load_message m s)"
  by (auto simp: load_message_def Let_def split: option.splits)

lemma load_messages_spool: "s_spool (fold load_message ms s) = s_spool s"
  by (induction ms arbitrary: s) (simp_all add: load_message_fields)

lemma OpenSpool_queue:
  assumes "OpenSpool w dir (NewStore t) d = (Inr rep, s', d')" "distinct (mkeys (vol d))"
  shows "queue s' k = filter (\<lambda>m. msg_key m = k) (List.map_filter (read_entry w d) (spool_names d))"
proof -
  obtain l where l: "spool_load w d = Some l"
    "s' = fold load_message (ls_msgs l) ((NewStore t)\<lparr>s_spool := Some \<lparr>sp_dir = dir, sp_next = ls_highest l + 1\<rparr>\<rparr>)"
    using assms(1) by (auto simp: OpenSpool_def Let_def split: if_splits option.splits)
  have "queue (NewStore t) k = []" by (simp add: queue_def NewStore_def)
  with l spool_load_msgs(1) [OF l(1) assms(2)] show ?thesis by (simp add: load_messages_queue)
qed

subsection \<open>A power cut\<close>

lemma power_cut_map_of:
  "map_of (vol (power_cut keep junk d)) n =
     map_option (settle_entry (junk n)) (if keep n then map_of (vol d) n else map_of (dur d) n)"
proof -
  let ?pick = "\<lambda>n. if keep n then map_of (vol d) n else map_of (dur d) n"
  let ?g = "\<lambda>n. map_option (\<lambda>e. (n, settle_entry (junk n) e)) (?pick n)"
  have "map_of (List.map_filter ?g ns) n = (if n \<in> set ns then map_option (settle_entry (junk n)) (?pick n) else None)"
    if "distinct ns" for ns
    using that by (induction ns) (auto simp: map_filter_simps split: option.splits)
  note A = this [of "remdups (mkeys (vol d) @ mkeys (dur d))"]
  have "?pick n = None" if "n \<notin> set (mkeys (vol d) @ mkeys (dur d))"
    using that by (auto simp: map_of_eq_None_iff)
  with A show ?thesis by (auto simp: power_cut_def Let_def)
qed

lemma power_cut_distinct: "distinct (mkeys (vol (power_cut keep junk d)))"
proof -
  let ?g = "\<lambda>n. map_option (\<lambda>e. (n, settle_entry (junk n) e)) (if keep n then map_of (vol d) n else map_of (dur d) n)"
  have "set (mkeys (List.map_filter ?g ns)) \<subseteq> set ns \<and> (distinct ns \<longrightarrow> distinct (mkeys (List.map_filter ?g ns)))" for ns
    by (induction ns) (auto simp: map_filter_simps split: option.splits)
  then show ?thesis by (simp add: power_cut_def Let_def)
qed

lemma held_power_cut:
  assumes "held d m"
  shows "\<exists>b. map_of (vol (power_cut keep junk d)) (m_file m) = Some (File b True) \<and>
    readSpoolFile (m_file m) b = Some (plain m)"
  using assms by (auto simp: held_def power_cut_map_of settle_entry_def)

lemma sorted_subset_subseq:
  assumes "sorted_wrt (<) (xs :: string list)" "sorted_wrt (<) ys" "set xs \<subseteq> set ys"
  shows "subseq xs ys"
proof -
  have "xs = filter (\<lambda>y. y \<in> set xs) ys"
    using assms by (intro sorted_distinct_set_unique) (auto simp: strict_sorted_iff sorted_filter [of id, simplified])
  then show ?thesis by (metis subseq_filter_left)
qed

lemma subseq_map_filter: "subseq xs ys \<Longrightarrow> subseq (List.map_filter f xs) (List.map_filter f ys)"
  by (induction rule: list_emb.induct) (auto simp: map_filter_simps split: option.splits)

lemma recovered_from:
  assumes inv: "spooled_inv s d" and dist: "distinct (mkeys (vol dc))"
    and there: "\<And>m. held d m \<Longrightarrow> \<exists>b. map_of (vol dc) (m_file m) = Some (File b True) \<and> readSpoolFile (m_file m) b = Some (plain m)"
    and reads: "\<And>n. io_read w n"
    and open_spool: "OpenSpool w dir (NewStore t) dc = (Inr rep, s', d')"
  shows "subseq (map plain (queue s k)) (queue s' k)"
proof -
  obtain nx where q: "spooled_queue d nx k (queue s k)" using inv by (auto simp: spooled_inv_def)
  have r: "read_entry w dc (m_file m) = Some (plain m)" "m_file m \<in> set (spool_names dc)"
    if mem: "m \<in> set (queue s k)" for m
  proof -
    obtain i where h: "held d m" "m_file m = spool_name i" using q mem by (auto simp: spooled_queue_def)
    obtain b where b: "map_of (vol dc) (m_file m) = Some (File b True)" "readSpoolFile (m_file m) b = Some (plain m)"
      using there [OF h(1)] by blast
    then show "read_entry w dc (m_file m) = Some (plain m)" using reads by (simp add: read_entry_def)
    show "m_file m \<in> set (spool_names dc)" using b(1) h(2) spool_names_facts(3) [OF dist] by metis
  qed
  have "subseq (map m_file (queue s k)) (spool_names dc)"
    using q r(2) spool_names_facts(1) [OF dist] by (intro sorted_subset_subseq) (auto simp: spooled_queue_def)
  from subseq_map_filter [OF this, of "read_entry w dc"]
  have "subseq (List.map_filter (read_entry w dc) (map m_file (queue s k))) (List.map_filter (read_entry w dc) (spool_names dc))" .
  moreover have "List.map_filter (read_entry w dc) (map m_file ms) = map plain ms" if "set ms \<subseteq> set (queue s k)" for ms
    using that r(1) by (induction ms) (auto simp: map_filter_simps)
  ultimately have "subseq (map plain (queue s k)) (List.map_filter (read_entry w dc) (spool_names dc))" by simp
  from subseq_filter [OF this, of "\<lambda>m. msg_key m = k"]
  have "subseq (filter (\<lambda>m. msg_key m = k) (map plain (queue s k))) (queue s' k)"
    using OpenSpool_queue [OF open_spool dist, of k] by simp
  moreover have "filter (\<lambda>m. msg_key m = k) (map plain (queue s k)) = map plain (queue s k)"
    using q by (auto simp: spooled_queue_def filter_id_conv msg_key_def)
  ultimately show ?thesis by simp
qed

lemma recovered:
  assumes "spooled_inv s d" "\<And>n. io_read w n" "OpenSpool w dir (NewStore t) (power_cut keep junk d) = (Inr rep, s', d')"
  shows "subseq (map plain (queue s k)) (queue s' k)"
  using assms(1) power_cut_distinct held_power_cut assms(2,3) by (rule recovered_from)

section \<open>The guarantee\<close>

text \<open>
  A run of a store with a spool. The messages put into it name their route in valid UTF-8, the clock is within
  what 64 bits of nanoseconds can say and the file counter has not run out; nothing is asked of the disk.
\<close>

inductive spooled_step :: "store \<times> disk \<Rightarrow> store \<times> disk \<Rightarrow> bool" where
  sp_put: "\<lbrakk>valid_utf8 (m_Estate m); valid_utf8 (m_Station m); - (2 ^ 63) \<le> clk 1; clk 1 < 2 ^ 63;
      free m; m_leaseUntil m = zero_time; s_spool s = Some sp; unat (sp_next sp) < 2 ^ 64 - 1\<rbrakk>
    \<Longrightarrow> spooled_step (s, d) (snd (Put w clk m s d))"
| sp_take: "spooled_step (s, d) (snd (Take w clk e st dr limit s d))"
| sp_lease: "spooled_step (s, d) (snd (TakeLeased w clk e st dr limit dt s d))"
| sp_ack: "spooled_step (s, d) (snd (Ack w clk e st dr i s d))"
| sp_depth: "spooled_step (s, d) (snd (Depth w t e st dr s d))"
| sp_sweep: "spooled_step (s, d) (snd (Sweep w sweep_clk s d))"

lemma spooled_step_inv: "spooled_step x y \<Longrightarrow> spooled_inv (fst x) (snd x) \<Longrightarrow> spooled_inv (fst y) (snd y)"
proof (induction rule: spooled_step.induct)
  case (sp_put m clk s sp d w)
  then show ?case using spooled_Put [of s d m clk w] by simp
qed (simp_all add: spooled_Take spooled_TakeLeased spooled_Ack spooled_Depth spooled_Sweep)

lemma spooled_run_inv: "spooled_step\<^sup>*\<^sup>* x y \<Longrightarrow> spooled_inv (fst x) (snd x) \<Longrightarrow> spooled_inv (fst y) (snd y)"
  by (induction rule: rtranclp_induct) (auto intro: spooled_step_inv)

lemma spooled_inv_start:
  assumes "OpenSpool w dir (NewStore t) empty_disk = (Inr rep, s, d)"
  shows "spooled_inv s d"
  using assms
  by (auto simp: OpenSpool_def spool_load_def empty_disk_def spool_names_def tmp_names_def spooled_inv_def NewStore_def
      queue_def spooled_queue_def Let_def split: if_splits)

text \<open>
  Nothing the store holds is lost by one power cut. Start with a spooled store, run any sequence of
  operations on it, with any pattern of disk failures, and cut the power at any moment: whatever had not been
  flushed is lost or becomes junk, in any combination. A start-up that can read the directory then has
  in every queue, in the order they arrived, all the messages the store held at that moment
  with their ids, sequence numbers, instants and bodies, and with no lease on them.
\<close>

theorem recovery:
  assumes "spooled_inv s0 d0" "spooled_step\<^sup>*\<^sup>* (s0, d0) (s, d)"
    and "\<And>n. io_read w n" "OpenSpool w dir (NewStore t) (power_cut keep junk d) = (Inr rep, s', d')"
  shows "subseq (map plain (queue s k)) (queue s' k)"
  using recovered [OF _ assms(3,4)] spooled_run_inv [OF assms(2)] assms(1) by simp

lemma spool_write_fine:
  assumes "''writing-1'' \<notin> set (mkeys (vol d))"
  shows "\<exists>fl d'. spool_write io_fine m sp d = (Some fl, sp\<lparr>sp_next := sp_next sp + 1\<rparr>, d')"
  using assms by (simp add: spool_write_def io_fine_def Let_def)

definition sample_open :: "store \<times> disk" where
  "sample_open = snd (OpenSpool io_fine ''spool'' (NewStore 7) empty_disk)"

lemma sample_open_eq:
  "sample_open = ((NewStore 7)\<lparr>s_spool := Some \<lparr>sp_dir = ''spool'', sp_next = 1\<rparr>\<rparr>, empty_disk)"
  "OpenSpool io_fine ''spool'' (NewStore 7) empty_disk =
     (Inr \<lparr>rep_Dir = ''spool'', rep_Messages = 0, rep_Bytes = 0, rep_Quarantined = []\<rparr>, sample_open)"
proof -
  have t: "TrimSpace ''spool'' \<noteq> ''''" using TrimSpace_keeps [of "CHR ''s''" "''spool''"] by (auto simp: space_runes_def)
  show eq: "sample_open = ((NewStore 7)\<lparr>s_spool := Some \<lparr>sp_dir = ''spool'', sp_next = 1\<rparr>\<rparr>, empty_disk)"
    using t by (simp add: sample_open_def OpenSpool_def io_fine_def spool_load_def empty_disk_def spool_names_def tmp_names_def Let_def)
  show "OpenSpool io_fine ''spool'' (NewStore 7) empty_disk =
     (Inr \<lparr>rep_Dir = ''spool'', rep_Messages = 0, rep_Bytes = 0, rep_Quarantined = []\<rparr>, sample_open)"
    using t by (simp add: eq OpenSpool_def io_fine_def spool_load_def empty_disk_def spool_names_def tmp_names_def Let_def)
qed

lemma sample_open_inv: "spooled_inv (fst sample_open) (snd sample_open)"
  using spooled_inv_start [of io_fine "''spool''" 7 _ "fst sample_open" "snd sample_open"] sample_open_eq(2) by simp

definition sample_put :: "store \<times> disk" where
  "sample_put = snd (Put io_fine (\<lambda>_. 5) sample_message (fst sample_open) (snd sample_open))"

lemma sample_put_step: "spooled_step sample_open sample_put"
  unfolding sample_put_def
  using sp_put [of sample_message "\<lambda>_. 5" "fst sample_open" "\<lparr>sp_dir = ''spool'', sp_next = 1\<rparr>" "snd sample_open" io_fine]
    sample_storable
  by (simp add: sample_open_eq storable_def) (simp add: sample_message_def free_def)

lemma sample_put_accepts:
  "fst (Put io_fine (\<lambda>_. 5) sample_message (fst sample_open) (snd sample_open)) = Inr ()"
  "map m_Body (queue (fst sample_put) (msg_key sample_message)) = [m_Body sample_message]"
proof -
  have v: "validRoute (m_Estate sample_message) (m_Station sample_message) (m_Dir sample_message)"
    "int (length (m_Body sample_message)) \<le> MaxBodyBytes"
    by (simp_all add: sample_message_def MaxBodyBytes_def validRoute_def)
  have q: "queue (fst sample_open) k = []" for k by (simp add: sample_open_eq NewStore_def queue_def)
  have sp: "s_spool (fst sample_open) = Some \<lparr>sp_dir = ''spool'', sp_next = 1\<rparr>" "s_max (fst sample_open) = 256"
    by (simp_all add: sample_open_eq NewStore_def DefaultMaxQueue_def)
  have e: "expireLocked io_fine t k (fst sample_open) d = (fst sample_open, d)" for t k d
    by (simp add: expireLocked_def q Let_def)
  have "''writing-1'' \<notin> set (mkeys (vol (snd sample_open)))" by (simp add: sample_open_eq empty_disk_def)
  from spool_write_fine [OF this, of "stamped (\<lambda>_. 5) (fst sample_open) sample_message" "\<lparr>sp_dir = ''spool'', sp_next = 1\<rparr>"]
  obtain fl d' where
    "spool_write io_fine (stamped (\<lambda>_. 5) (fst sample_open) sample_message) \<lparr>sp_dir = ''spool'', sp_next = 1\<rparr> (snd sample_open) =
       (Some fl, \<lparr>sp_dir = ''spool'', sp_next = 2\<rparr>, d')"
    by auto
  then show "fst (Put io_fine (\<lambda>_. 5) sample_message (fst sample_open) (snd sample_open)) = Inr ()"
    "map m_Body (queue (fst sample_put) (msg_key sample_message)) = [m_Body sample_message]"
    unfolding sample_put_def Put_eq [OF v msg_key_def]
    by (simp_all add: q e live_def sp)
qed

lemma OpenSpool_fine:
  "TrimSpace dir \<noteq> '''' \<Longrightarrow> \<exists>rep s' d'. OpenSpool io_fine dir s d = (Inr rep, s', d')"
  by (simp add: OpenSpool_def io_fine_def spool_load_def Let_def)

theorem recovery_witness:
  "\<exists>rep s' d'. OpenSpool io_fine ''spool'' (NewStore 8) (power_cut (\<lambda>_. False) (\<lambda>_. ''junk'') (snd sample_put)) = (Inr rep, s', d') \<and>
     m_Body sample_message \<in> m_Body ` set (queue s' (msg_key sample_message))"
proof -
  have "TrimSpace ''spool'' \<noteq> ''''" using TrimSpace_keeps [of "CHR ''s''" "''spool''"] by (auto simp: space_runes_def)
  from OpenSpool_fine [OF this] obtain rep s' d' where
    o: "OpenSpool io_fine ''spool'' (NewStore 8) (power_cut (\<lambda>_. False) (\<lambda>_. ''junk'') (snd sample_put)) = (Inr rep, s', d')"
    by blast
  have "spooled_step\<^sup>*\<^sup>* (fst sample_open, snd sample_open) (fst sample_put, snd sample_put)" using sample_put_step by simp
  from recovery [OF sample_open_inv this _ o, of "msg_key sample_message"]
  have "subseq (map plain (queue (fst sample_put) (msg_key sample_message))) (queue s' (msg_key sample_message))"
    by (simp add: io_fine_def)
  from subseq_map [OF this, of m_Body] sample_put_accepts(2)
  have "subseq [m_Body sample_message] (map m_Body (queue s' (msg_key sample_message)))" by (simp add: comp_def)
  then have "m_Body sample_message \<in> set (map m_Body (queue s' (msg_key sample_message)))" using subseq_set by fastforce
  then have "m_Body sample_message \<in> m_Body ` set (queue s' (msg_key sample_message))" by simp
  with o show ?thesis by blast
qed

lemma put_survives:
  assumes "spooled_inv s d" "valid_utf8 (m_Estate m)" "valid_utf8 (m_Station m)" "- (2 ^ 63) \<le> clk 1" "clk 1 < 2 ^ 63"
    "free m" "m_leaseUntil m = zero_time" "s_spool s = Some sp" "unat (sp_next sp) < 2 ^ 64 - 1"
    and put: "Put w clk m s d = (Inr (), s1, d1)"
    and "\<And>n. io_read w' n" "OpenSpool w' dir (NewStore t) (power_cut keep junk d1) = (Inr rep, s2, d2)"
  shows "\<exists>m' \<in> set (queue s2 (msg_key m)). m_Body m' = m_Body m \<and> m_Seq m' = m_Seq m \<and> m_Estate m' = m_Estate m \<and>
    m_Station m' = m_Station m \<and> m_Dir m' = m_Dir m \<and> m_ID m' = fst (nextIDLocked s) \<and> m_At m' = clk 1"
proof -
  have "spooled_inv s1 d1" using spooled_Put [of s d m clk w] assms by simp
  then have sub: "subseq (map plain (queue s1 (msg_key m))) (queue s2 (msg_key m))"
    using recovered [OF _ assms(11,12)] by blast
  obtain x where x: "x \<in> set (queue s1 (msg_key m))" "m_Body x = m_Body m" "m_Seq x = m_Seq m" "m_Estate x = m_Estate m"
    "m_Station x = m_Station m" "m_Dir x = m_Dir m" "m_ID x = fst (nextIDLocked s)" "m_At x = clk 1"
  proof (cases rule: Put_cases [of w clk m s d])
    case (accepted sp' d' fl)
    then have "stamped clk s m\<lparr>m_file := fl\<rparr> \<in> set (queue s1 (msg_key m))" using put by auto
    then show ?thesis by (rule that) simp_all
  qed (use put in auto)
  then have "plain x \<in> set (queue s2 (msg_key m))" using subseq_set [OF sub] by auto
  with x show ?thesis by (intro bexI [of _ "plain x"]) simp_all
qed

text \<open>
  Durable before acknowledged. When \<^verbatim>\<open>Put\<close> reports success on a spooled store, the bytes of the
  message are already on the disk, flushed and under a flushed name: a power cut in the
  very next moment, in its worst form, still leaves the message in its queue, with the sender's body, sequence
  number and route and the id it was given.
\<close>

theorem accepted_survives:
  assumes "spooled_inv s d" "valid_utf8 (m_Estate m)" "valid_utf8 (m_Station m)" "- (2 ^ 63) \<le> clk 1" "clk 1 < 2 ^ 63"
    "free m" "m_leaseUntil m = zero_time" "s_spool s = Some sp" "unat (sp_next sp) < 2 ^ 64 - 1"
    and put: "Put w clk m s d = (Inr (), s1, d1)"
    and "\<And>n. io_read w' n" "OpenSpool w' dir (NewStore t) (power_cut keep junk d1) = (Inr rep, s2, d2)"
  shows "\<exists>m' \<in> set (queue s2 (msg_key m)). m_Body m' = m_Body m \<and> m_Seq m' = m_Seq m \<and> m_Estate m' = m_Estate m \<and>
    m_Station m' = m_Station m \<and> m_Dir m' = m_Dir m \<and> m_ID m' = fst (nextIDLocked s) \<and> m_At m' = clk 1"
  using assms by (rule put_survives)

theorem accepted_survives_witness:
  "\<exists>rep s2 d2. OpenSpool io_fine ''spool'' (NewStore 8) (power_cut (\<lambda>_. False) (\<lambda>_. ''junk'') (snd sample_put)) = (Inr rep, s2, d2) \<and>
     (\<exists>m' \<in> set (queue s2 (msg_key sample_message)). m_ID m' = ''m1'' \<and> m_Body m' = m_Body sample_message)"
proof -
  have "TrimSpace ''spool'' \<noteq> ''''" using TrimSpace_keeps [of "CHR ''s''" "''spool''"] by (auto simp: space_runes_def)
  from OpenSpool_fine [OF this] obtain rep s' d' where
    o: "OpenSpool io_fine ''spool'' (NewStore 8) (power_cut (\<lambda>_. False) (\<lambda>_. ''junk'') (snd sample_put)) = (Inr rep, s', d')"
    by blast
  have p: "Put io_fine (\<lambda>_. 5) sample_message (fst sample_open) (snd sample_open) = (Inr (), fst sample_put, snd sample_put)"
    using sample_put_accepts(1) by (simp add: sample_put_def prod_eq_iff)
  have "valid_utf8 (m_Estate sample_message)" "valid_utf8 (m_Station sample_message)" "free sample_message"
    "m_leaseUntil sample_message = zero_time" using sample_storable by (simp_all add: storable_def sample_message_def free_def)
  moreover have "s_spool (fst sample_open) = Some \<lparr>sp_dir = ''spool'', sp_next = 1\<rparr>" by (simp add: sample_open_eq)
  moreover have "fst (nextIDLocked (fst sample_open)) = ''m1''"
    unfolding nextID_name by (simp add: sample_open_eq NewStore_def) code_simp
  ultimately show ?thesis
    using accepted_survives [OF sample_open_inv _ _ _ _ _ _ _ _ p _ o, of "\<lparr>sp_dir = ''spool'', sp_next = 1\<rparr>"] o
    by (fastforce simp: io_fine_def)
qed

section \<open>Held only until collected\<close>

lemma spool_remove_gone:
  assumes "\<And>n. io_remove w n" "m \<in> set ms" "m_file m \<noteq> ''''"
  shows "map_of (vol (spool_remove w ms d)) (m_file m) = None"
  using assms(2)
proof (induction ms arbitrary: d)
  case (Cons x ms)
  show ?case
  proof (cases "m \<in> set ms")
    case True
    with Cons.IH show ?thesis by simp
  next
    case False
    with Cons.prems have x: "x = m" by simp
    let ?d = "os_Remove w (m_file m) d"
    have gone: "map_of (vol ?d) (m_file m) = None" using assms(1) by (simp add: os_Remove_def delete_conv)
    have "map_of (vol d') f = None \<Longrightarrow> map_of (vol (spool_remove w ms d')) f = None" for f d'
    proof (induction ms arbitrary: d')
      case (Cons y ys)
      have "map_of (vol (os_Remove w (m_file y) d')) f = None"
        using Cons.prems by (simp add: os_Remove_def delete_conv)
      with Cons show ?case by simp
    qed simp
    with gone x assms(3) show ?thesis by simp
  qed
qed simp

text \<open>
  Held only until collected. On a spooled store whose disk lets files be removed, the
  durable copy of every message a destructive collection hands out, and of every message an acknowledgement
  covers, is out of the directory when the operation returns.
\<close>

theorem collected_files_gone:
  assumes "s_spool s \<noteq> None" "\<And>n. io_remove w n"
  shows "(Take w clk e st dr limit s d = (Inr ms, s', d') \<and> m \<in> set ms \<and> m_file m \<noteq> '''' \<longrightarrow> map_of (vol d') (m_file m) = None) \<and>
    (Ack w clk e st dr i s d = (Inr n, s', d') \<and> m \<in> set (refreshed clk s (key e st dr)) \<and> m_lease m = i \<and> m_file m \<noteq> '''' \<longrightarrow>
       map_of (vol d') (m_file m) = None)"
proof -
  obtain sp where sp: "s_spool s = Some sp" using assms(1) by auto
  have "map_of (vol d') (m_file m) = None"
    if t: "Take w clk e st dr limit s d = (Inr ms, s', d')" and m: "m \<in> set ms" "m_file m \<noteq> ''''"
  proof -
    have v: "validRoute e st dr" using t by (auto simp: Take_def split: if_splits)
    show ?thesis using Take_eq [OF v, of w clk limit s d] t m sp
      by (auto simp: Let_def dropDurableLocked_def intro: spool_remove_gone [OF assms(2)])
  qed
  moreover have "map_of (vol d') (m_file m) = None"
    if t: "Ack w clk e st dr i s d = (Inr n, s', d')"
      and m: "m \<in> set (refreshed clk s (key e st dr))" "m_lease m = i" "m_file m \<noteq> ''''"
  proof -
    have v: "validRoute e st dr" "TrimSpace i \<noteq> ''''" using t by (auto simp: Ack_def split: if_splits)
    show ?thesis using Ack_eq [OF v, of w clk s d] t m sp
      by (auto simp: Let_def dropDurableLocked_def intro: spool_remove_gone [OF assms(2)] split: if_splits)
  qed
  ultimately show ?thesis by blast
qed

text \<open>The sample store once its message has been collected.\<close>

definition sample_taken :: "(string + message list) \<times> store \<times> disk" where
  "sample_taken = Take io_fine (\<lambda>_. 5) ''e1'' ''st'' c2s 0 (fst sample_put) (snd sample_put)"

lemma sample_put_disk:
  "\<exists>b. snd sample_put = \<lparr>vol = [(spool_name 1, File b True)], dur = [(spool_name 1, File b True)]\<rparr>"
  "\<exists>m. queue (fst sample_put) (key ''e1'' ''st'' c2s) = [m] \<and> m_file m = spool_name 1 \<and> free m \<and> m_At m = 5 \<and> m_ID m = ''m1''"
  "s_spool (fst sample_put) = Some \<lparr>sp_dir = ''spool'', sp_next = 2\<rparr>" "s_ttl (fst sample_put) = DefaultTTL"
proof -
  have v: "validRoute (m_Estate sample_message) (m_Station sample_message) (m_Dir sample_message)"
    "int (length (m_Body sample_message)) \<le> MaxBodyBytes"
    by (simp_all add: sample_message_def MaxBodyBytes_def validRoute_def)
  have k: "key ''e1'' ''st'' c2s = key (m_Estate sample_message) (m_Station sample_message) (m_Dir sample_message)"
    by (simp add: sample_message_def)
  have q: "queue (fst sample_open) k = []" for k by (simp add: sample_open_eq NewStore_def queue_def)
  have sp: "s_spool (fst sample_open) = Some \<lparr>sp_dir = ''spool'', sp_next = 1\<rparr>" "s_max (fst sample_open) = 256"
    "snd sample_open = \<lparr>vol = [], dur = []\<rparr>" "s_ttl (fst sample_open) = DefaultTTL"
    by (simp_all add: sample_open_eq NewStore_def DefaultMaxQueue_def empty_disk_def)
  have e: "expireLocked io_fine t k (fst sample_open) d = (fst sample_open, d)" for t k d
    by (simp add: expireLocked_def q Let_def)
  have w: "\<exists>b. spool_write io_fine m \<lparr>sp_dir = ''spool'', sp_next = 1\<rparr> \<lparr>vol = [], dur = []\<rparr> =
      (Some (spool_name 1), \<lparr>sp_dir = ''spool'', sp_next = 2\<rparr>,
       \<lparr>vol = [(spool_name 1, File b True)], dur = [(spool_name 1, File b True)]\<rparr>)" for m
    by (simp add: spool_write_def io_fine_def Let_def put_file_def os_Rename_def syncDir_def)
  obtain b where b: "spool_write io_fine (stamped (\<lambda>_. 5) (fst sample_open) sample_message) \<lparr>sp_dir = ''spool'', sp_next = 1\<rparr> \<lparr>vol = [], dur = []\<rparr> =
      (Some (spool_name 1), \<lparr>sp_dir = ''spool'', sp_next = 2\<rparr>,
       \<lparr>vol = [(spool_name 1, File b True)], dur = [(spool_name 1, File b True)]\<rparr>)" using w by blast
  note P = Put_eq [OF v k, of io_fine "\<lambda>_. 5" "fst sample_open" "snd sample_open", folded sample_put_def]
  have id: "fst (nextIDLocked (fst sample_open)) = ''m1''"
    unfolding nextID_name by (simp add: sample_open_eq NewStore_def) code_simp
  have sv: "sample_put = (set_queue (key ''e1'' ''st'' c2s) [stamped (\<lambda>_. 5) (fst sample_open) sample_message\<lparr>m_file := spool_name 1\<rparr>]
       ((fst sample_open)\<lparr>s_ids := s_ids (fst sample_open) + 1, s_spool := Some \<lparr>sp_dir = ''spool'', sp_next = 2\<rparr>\<rparr>),
     \<lparr>vol = [(spool_name 1, File b True)], dur = [(spool_name 1, File b True)]\<rparr>)"
    unfolding sample_put_def P using b by (simp add: q e live_def sp)
  show "\<exists>b. snd sample_put = \<lparr>vol = [(spool_name 1, File b True)], dur = [(spool_name 1, File b True)]\<rparr>" using sv by (metis snd_conv)
  show "\<exists>m. queue (fst sample_put) (key ''e1'' ''st'' c2s) = [m] \<and> m_file m = spool_name 1 \<and> free m \<and> m_At m = 5 \<and> m_ID m = ''m1''"
    unfolding sv using id by (simp add: free_def sample_message_def)
  show "s_spool (fst sample_put) = Some \<lparr>sp_dir = ''spool'', sp_next = 2\<rparr>" "s_ttl (fst sample_put) = DefaultTTL"
    unfolding sv using sp(4) by simp_all
qed

lemma sample_taken_eq:
  "\<exists>m s' d'. sample_taken = (Inr [m], s', d') \<and> m_ID m = ''m1'' \<and> m_file m = spool_name 1 \<and> vol d' = [] \<and> s_spool s' \<noteq> None"
proof -
  let ?k = "key ''e1'' ''st'' c2s"
  obtain b m where b: "snd sample_put = \<lparr>vol = [(spool_name 1, File b True)], dur = [(spool_name 1, File b True)]\<rparr>"
    and m: "queue (fst sample_put) ?k = [m]" "m_file m = spool_name 1" "free m" "m_At m = 5" "m_ID m = ''m1''"
    using sample_put_disk(1,2) by blast
  have l: "live DefaultTTL 5 [m] = [m]" "stale DefaultTTL 5 [m] = []"
    using m(4) by (simp_all add: live_def stale_def DefaultTTL_def duration_defs)
  have r: "refreshed (\<lambda>_. 5) (fst sample_put) ?k = [m]"
    using m l sample_put_disk(4) by (simp add: refreshed_def release_def free_def)
  have a: "avail 0 [m] = [m]" using m(3) by (simp add: avail_from_def)
  show ?thesis
    unfolding sample_taken_def
    using Take_eq [OF sample_route, of io_fine "\<lambda>_. 5" 0 "fst sample_put" "snd sample_put"] m b
    by (simp add: Let_def r a expireLocked_disk sample_put_disk(3,4) l dropDurableLocked_def os_Remove_def io_fine_def)
qed

theorem collected_files_gone_witness:
  "\<exists>m s' d'. sample_taken = (Inr [m], s', d') \<and> m_ID m = ''m1'' \<and> map_of (vol d') (m_file m) = None"
proof -
  obtain m s' d' where t: "sample_taken = (Inr [m], s', d')" "m_ID m = ''m1''" "m_file m = spool_name 1"
    using sample_taken_eq by blast
  have "map_of (vol d') (m_file m) = None"
    using collected_files_gone [of "fst sample_put" io_fine "\<lambda>_. 5" "''e1''" "''st''" c2s 0 "snd sample_put" "[m]" s' d' m]
      t(1,3) sample_put_disk(3) by (simp add: sample_taken_def) (simp add: io_fine_def)
  with t show ?thesis by blast
qed

text \<open>
  Property C37. Message ids are reused across a restart. The counter resumes from the ids found in the
  spool, and a collected message is no longer there: after one message has been accepted as m1 and
  collected, a restart on the same directory gives the id m1 to the next, different, message, so a collector that
  deduplicates on the id, as the code's comments tell it to, takes the second for a redelivery of the first.
\<close>

theorem ids_reused_after_restart:
  "\<exists>m s d rep s' d'. sample_taken = (Inr [m], s, d) \<and>
     OpenSpool io_fine ''spool'' (NewStore 8) d = (Inr rep, s', d') \<and> fst (nextIDLocked s') = m_ID m"
proof -
  obtain m s d where t: "sample_taken = (Inr [m], s, d)" "m_ID m = ''m1''" "vol d = []" using sample_taken_eq by blast
  have "TrimSpace ''spool'' \<noteq> ''''" using TrimSpace_keeps [of "CHR ''s''" "''spool''"] by (auto simp: space_runes_def)
  then obtain rep s' d' where o: "OpenSpool io_fine ''spool'' (NewStore 8) d = (Inr rep, s', d')" "s_ids s' = 0"
    using t(3) by (simp add: OpenSpool_def io_fine_def spool_load_def spool_names_def tmp_names_def Let_def NewStore_def)
  have "fst (nextIDLocked s') = ''m1''" unfolding nextID_name o(2) by (simp, code_simp)
  with t(1,2) o(1) show ?thesis by (intro exI conjI) auto
qed

text \<open>
  Property C38. Two routes can share a queue. The routing key joins estate, station and direction with
  slashes and a path segment may contain an escaped one, so a message accepted for estate a/b and
  station c is handed to a collector of estate a and station b/c.
\<close>

theorem slash_shares_queue:
  "\<exists>m s1 s2 ms. Put io_fine sample_clock m (NewStore 7) empty_disk = (Inr (), s1, empty_disk) \<and> m_Estate m = ''a/b'' \<and>
     Take io_fine sample_clock ''a'' ''b/c'' c2s 0 s1 empty_disk = (Inr ms, s2, empty_disk) \<and>
     map m_Body ms = [m_Body m]"
proof -
  let ?m = "sample_message\<lparr>m_Estate := ''a/b'', m_Station := ''c''\<rparr>"
  let ?m1 = "?m\<lparr>m_At := sample_clock 1, m_ID := fst (nextIDLocked (NewStore 7))\<rparr>"
  let ?s1 = "set_queue (key ''a'' ''b/c'' c2s) [?m1] ((NewStore 7)\<lparr>s_ids := 1\<rparr>)"
  have v: "validRoute (m_Estate ?m) (m_Station ?m) (m_Dir ?m)" "int (length (m_Body ?m)) \<le> MaxBodyBytes"
    "key ''a'' ''b/c'' c2s = key (m_Estate ?m) (m_Station ?m) (m_Dir ?m)"
    by (simp_all add: sample_message_def validRoute_def MaxBodyBytes_def key_def)
  have n: "queue (NewStore 7) k = []" "s_spool (NewStore 7) = None" "s_max (NewStore 7) = 256" "s_ids (NewStore 7) = 0"
    "s_ttl (NewStore 7) = DefaultTTL" for k
    by (simp_all add: NewStore_def queue_def DefaultMaxQueue_def)
  have put: "Put io_fine sample_clock ?m (NewStore 7) empty_disk = (Inr (), ?s1, empty_disk)"
    unfolding Put_eq [OF v] by (simp add: n live_def expireLocked_def Let_def)
  have v2: "validRoute ''a'' ''b/c'' c2s" by (simp add: validRoute_def)
  have l: "live DefaultTTL (sample_clock i) [?m1] = [?m1]" "stale DefaultTTL (sample_clock i) [?m1] = []" for i
    by (simp_all add: live_def stale_def DefaultTTL_def duration_defs sample_clock_def)
  have r: "refreshed sample_clock ?s1 (key ''a'' ''b/c'' c2s) = [?m1]"
    by (simp add: refreshed_def n l) (simp add: release_def sample_message_def)
  have a: "avail 0 [?m1] = [?m1]" by (simp add: avail_from_def free_def sample_message_def)
  have "\<exists>s2. Take io_fine sample_clock ''a'' ''b/c'' c2s 0 ?s1 empty_disk = (Inr [?m1], s2, empty_disk)"
    unfolding Take_eq [OF v2] by (simp add: Let_def r a expireLocked_disk n l dropDurableLocked_def)
  with put show ?thesis by fastforce
qed

end
