(* ===== verification/Relay_Life.thy ===== *)
theory Relay_Life
  imports Relay_Durable
begin

text \<open>
  The life of a relay with a spool, across restarts: any sequence of operations, power cuts and plain restarts of the
  process (\<^verbatim>\<open>src/relay.go\<close>, \<^verbatim>\<open>src/lease.go\<close>, \<^verbatim>\<open>src/spool.go\<close>).

  \<^item> \<open>life_step x G y\<close> is one event; \<open>G\<close> is the set of messages that event accounts for: those a destructive
    collection returned, those held under a lease in force when an acknowledgement of that lease was accepted, and
    those past their time to live. A refused acknowledgement accounts for nothing, and neither does a blank lease name,
    so a relay that let either delete a message would not satisfy the contract.
  \<^item> An operation is one event: a power cut falls before or after it, not inside it. A plain restart finds the
    directory with nothing waiting to be flushed (\<open>settled\<close>); that is so unless a write has failed half-way or a start
    has set a file aside, and \<open>write_back\<close>, the operating system emptying its cache, makes it so again. What is written has names in valid
    UTF-8, since other names are read back changed, and a counter with room.
  \<^item> \<open>life_inv\<close> is the invariant of \<open>Relay_Durable\<close> together with what the directory may contain, which is what makes
    a start-up establish the invariant again: the files are the relay's own.
  \<^item> \<open>leaves_only_accounted\<close> is the at-least-once contract of the whole: nothing leaves a queue but what is
    accounted for.
\<close>

section \<open>Definitions\<close>

text \<open>The names a directory holds, in its present or its durable state, and that its message files are the relay's own.\<close>

definition dir_names :: "disk \<Rightarrow> string set" where
  "dir_names d = dom (map_of (vol d)) \<union> dom (map_of (dur d))"

definition own_name :: "string \<Rightarrow> bool" where
  "own_name n \<longleftrightarrow> has_suffix n spoolExt \<and> \<not> has_prefix n spoolTmpPre \<longrightarrow> (\<exists>i. n = spool_name i \<and> unat i < 2 ^ 64 - 1)"

definition own_names :: "disk \<Rightarrow> bool" where
  "own_names d \<longleftrightarrow> (\<forall>n \<in> dir_names d. own_name n)"

text \<open>Nothing in the directory is waiting to be flushed.\<close>

definition settled :: "disk \<Rightarrow> bool" where
  "settled d \<longleftrightarrow> (\<forall>n e. map_of (vol d) n = Some e \<longrightarrow> map_of (dur d) n = Some e \<and> (\<forall>b. e \<noteq> File b False))"

definition life_inv :: "store \<times> disk \<Rightarrow> bool" where
  "life_inv x \<longleftrightarrow> spooled_inv (fst x) (snd x) \<and> own_names (snd x)"

definition expired :: "duration \<Rightarrow> time \<Rightarrow> message set" where
  "expired ttl now = {m. m_At m < now - ttl}"

definition handed_out :: "string + message list \<Rightarrow> message set" where
  "handed_out r = (case r of Inl _ \<Rightarrow> {} | Inr ms \<Rightarrow> plain ` set ms)"

text \<open>What an acknowledgement with answer \<open>r\<close> accounts for: nothing unless it was accepted, and then the messages under that lease.\<close>

definition acked_under :: "string + nat \<Rightarrow> store \<Rightarrow> string \<Rightarrow> string \<Rightarrow> time \<Rightarrow> message set" where
  "acked_under r s k i now =
     (case r of Inl _ \<Rightarrow> {}
      | Inr _ \<Rightarrow> plain ` {m \<in> set (queue s k). m_lease m = i \<and> m_lease m \<noteq> '''' \<and> now < m_leaseUntil m})"

text \<open>The operating system empties its cache: what the directory shows is what a power cut would leave.\<close>

definition write_back :: "disk \<Rightarrow> disk" where
  "write_back d =
     (let v = map (\<lambda>(n, e). (n, case e of Directory \<Rightarrow> Directory | File b _ \<Rightarrow> File b True)) (vol d)
      in \<lparr>vol = v, dur = v\<rparr>)"

inductive life_step :: "store \<times> disk \<Rightarrow> message set \<Rightarrow> store \<times> disk \<Rightarrow> bool" where
  put: "\<lbrakk>valid_utf8 (m_Estate m); valid_utf8 (m_Station m); - (2 ^ 63) \<le> clk 1; clk 1 < 2 ^ 63;
      free m; m_leaseUntil m = zero_time; s_spool s = Some sp; unat (sp_next sp) < 2 ^ 64 - 1\<rbrakk>
    \<Longrightarrow> life_step (s, d) (expired (s_ttl s) (clk 0)) (snd (Put w clk m s d))"
| take: "life_step (s, d) (expired (s_ttl s) (clk 0) \<union> handed_out (fst (Take w clk e st dr limit s d)))
      (snd (Take w clk e st dr limit s d))"
| lease: "life_step (s, d) (expired (s_ttl s) (clk 0)) (snd (TakeLeased w clk e st dr limit dt s d))"
| ack: "life_step (s, d) (expired (s_ttl s) (clk 0) \<union> acked_under (fst (Ack w clk e st dr i s d)) s (key e st dr) i (clk 1))
      (snd (Ack w clk e st dr i s d))"
| depth: "life_step (s, d) (expired (s_ttl s) t) (snd (Depth w t e st dr s d))"
| sweep: "(\<And>k. sweep_clk k \<le> t) \<Longrightarrow> life_step (s, d) (expired (s_ttl s) t) (snd (Sweep w sweep_clk s d))"
| write_back: "life_step (s, d) {} (s, write_back d)"
| power_cut: "(\<And>n. io_read w n) \<Longrightarrow> OpenSpool w dir (NewStore t) (power_cut keep junk d) = (Inr rep, s', d')
    \<Longrightarrow> life_step (s, d) {} (s', d')"
| restart: "(\<And>n. io_read w n) \<Longrightarrow> settled d \<Longrightarrow> OpenSpool w dir (NewStore t) d = (Inr rep, s', d')
    \<Longrightarrow> life_step (s, d) {} (s', d')"

inductive life :: "store \<times> disk \<Rightarrow> message set \<Rightarrow> store \<times> disk \<Rightarrow> bool" where
  life_refl: "life x {} x"
| life_step: "life x G y \<Longrightarrow> life_step y H z \<Longrightarrow> life x (G \<union> H) z"

text \<open>The abstract contract: every queue keeps, in order, what is not accounted for.\<close>

definition keeps :: "(string \<Rightarrow> message list) \<Rightarrow> message set \<Rightarrow> (string \<Rightarrow> message list) \<Rightarrow> bool" where
  "keeps Q G Q' \<longleftrightarrow> (\<forall>k. subseq (filter (\<lambda>m. m \<notin> G) (Q k)) (Q' k))"

definition mailbox_of :: "store \<times> disk \<Rightarrow> string \<Rightarrow> message list" where
  "mailbox_of x k = map plain (queue (fst x) k)"

section \<open>The contract composes\<close>

lemma keeps_refl: "keeps Q G Q"
  by (simp add: keeps_def)

lemma keeps_trans:
  assumes "keeps Q G Q'" "keeps Q' H Q''"
  shows "keeps Q (G \<union> H) Q''"
  unfolding keeps_def
proof
  fix k
  have "filter (\<lambda>m. m \<notin> G \<union> H) (Q k) = filter (\<lambda>m. m \<notin> H) (filter (\<lambda>m. m \<notin> G) (Q k))" by simp
  also have "subseq \<dots> (filter (\<lambda>m. m \<notin> H) (Q' k))" using assms(1) by (intro subseq_filter) (simp add: keeps_def)
  also have "subseq \<dots> (Q'' k)" using assms(2) by (simp add: keeps_def)
  finally (subseq_order.trans) show "subseq (filter (\<lambda>m. m \<notin> G \<union> H) (Q k)) (Q'' k)" .
qed

lemma keeps_mono: "keeps Q G Q' \<Longrightarrow> G \<subseteq> H \<Longrightarrow> keeps Q H Q'"
  using keeps_trans [of Q G Q' H Q'] keeps_refl by (simp add: sup_absorb2)

text \<open>One queue changes to a list that still has what is not accounted for.\<close>

lemma keeps_upd:
  assumes "\<And>k'. k' \<noteq> k \<Longrightarrow> Q' k' = Q k'" "subseq (filter (\<lambda>m. m \<notin> G) (Q k)) (Q' k)"
  shows "keeps Q G Q'"
  unfolding keeps_def using assms by (metis subseq_filter_left)

section \<open>What one operation does to a queue\<close>

lemma keeps_live: "subseq (filter (\<lambda>m. m \<notin> expired ttl t) (map plain ms)) (map plain (live ttl t ms))"
proof -
  have "filter (\<lambda>m. m \<notin> expired ttl t) (map plain (stale ttl t ms)) = []"
    by (auto simp: filter_empty_conv stale_def expired_def dest: set_takeWhileD)
  then have "filter (\<lambda>m. m \<notin> expired ttl t) (map plain ms) = filter (\<lambda>m. m \<notin> expired ttl t) (map plain (live ttl t ms))"
    by (subst stale_live [of ttl t ms, symmetric]) (simp add: filter_map)
  then show ?thesis by simp
qed

lemma shuffles_rest:
  assumes "zs \<in> shuffles xs ys"
  shows "subseq (filter (\<lambda>z. z \<notin> set xs) zs) ys"
proof -
  have "filter (\<lambda>z. z \<notin> set xs) zs \<in> shuffles (filter (\<lambda>z. z \<notin> set xs) xs) (filter (\<lambda>z. z \<notin> set xs) ys)"
    using imageI [OF assms, of "filter (\<lambda>z. z \<notin> set xs)"] unfolding filter_shuffles .
  then show ?thesis by (simp add: filter_False)
qed

lemma keeps_expire: "keeps (mailbox_of (s, d)) (expired (s_ttl s) t) (mailbox_of (expireLocked w t k s d))"
  by (rule keeps_upd [of k]) (simp_all add: mailbox_of_def keeps_live)

lemma plain_refreshed: "map plain (refreshed clk s k) = map plain (live (s_ttl s) (clk 0) (queue s k))"
  by (simp add: refreshed_def comp_def)

text \<open>A collection that splits the refreshed queue into what goes and what stays.\<close>

lemma keeps_collect:
  assumes "refreshed clk s k \<in> shuffles A B" "plain ` set A \<subseteq> G" "queue s' k = B" "\<And>k'. k' \<noteq> k \<Longrightarrow> queue s' k' = queue s k'"
  shows "keeps (mailbox_of (s, d)) (expired (s_ttl s) (clk 0) \<union> G) (mailbox_of (s', d'))"
proof -
  let ?Q = "(mailbox_of (s, d))(k := map plain (refreshed clk s k))"
  have "keeps (mailbox_of (s, d)) (expired (s_ttl s) (clk 0)) ?Q"
    by (rule keeps_upd [of k]) (simp_all add: mailbox_of_def plain_refreshed keeps_live)
  moreover have "keeps ?Q (plain ` set A) (mailbox_of (s', d'))"
  proof (rule keeps_upd [of k])
    show "subseq (filter (\<lambda>m. m \<notin> plain ` set A) (?Q k)) (mailbox_of (s', d') k)"
      using shuffles_rest [OF shuffles_facts(3) [OF assms(1), of plain]] by (simp add: mailbox_of_def assms(3))
  qed (simp add: mailbox_of_def assms(4))
  ultimately have "keeps (mailbox_of (s, d)) (expired (s_ttl s) (clk 0) \<union> plain ` set A) (mailbox_of (s', d'))"
    by (rule keeps_trans)
  then show ?thesis using assms(2) by (auto intro: keeps_mono)
qed

lemma keeps_Put: "keeps (mailbox_of (s, d)) (expired (s_ttl s) (clk 0)) (mailbox_of (snd (Put w clk m s d)))"
proof (cases rule: Put_cases [of w clk m s d])
  case same
  then show ?thesis by (simp add: keeps_refl)
next
  case full
  then show ?thesis by (simp add: keeps_expire)
next
  case (lost sp sp' d')
  have "mailbox_of (snd (Put w clk m s d)) = mailbox_of (expireLocked w (clk 0) (msg_key m) s d)"
    unfolding lost(3) by (auto simp: mailbox_of_def)
  then show ?thesis using keeps_expire by simp
next
  case (accepted sp' d' fl)
  then show ?thesis
    using keeps_live [of "s_ttl s" "clk 0" "queue s (msg_key m)"]
    by (intro keeps_upd [of "msg_key m"]) (auto simp: mailbox_of_def intro: subseq_order.trans)
qed

lemma keeps_Take:
  "keeps (mailbox_of (s, d)) (expired (s_ttl s) (clk 0) \<union> handed_out (fst (Take w clk e st dr limit s d)))
     (mailbox_of (snd (Take w clk e st dr limit s d)))"
proof (cases "validRoute e st dr")
  case True
  let ?q = "refreshed clk s (key e st dr)" and ?r = "Take w clk e st dr limit s d"
  have "queue (fst (snd ?r)) k' = (if k' = key e st dr then kept limit ?q else queue s k')" for k'
    unfolding Take_eq [OF True] Let_def by (simp add: avail_none_kept)
  moreover have "handed_out (fst ?r) = plain ` set (avail limit ?q)"
    unfolding Take_eq [OF True] Let_def by (simp add: handed_out_def)
  ultimately show ?thesis
    using keeps_collect [OF avail_kept_shuffles [of ?q limit 0], of "handed_out (fst ?r)" "fst (snd ?r)" d "snd (snd ?r)"] by simp
next
  case False
  then show ?thesis by (simp add: Take_def keeps_refl)
qed

lemma keeps_TakeLeased:
  "keeps (mailbox_of (s, d)) (expired (s_ttl s) (clk 0)) (mailbox_of (snd (TakeLeased w clk e st dr limit dt s d)))"
proof (cases "validRoute e st dr \<and> 0 < dt \<and> dt \<le> MaxLease")
  case True
  then have v: "validRoute e st dr" "0 < dt" "dt \<le> MaxLease" by auto
  show ?thesis
    by (rule keeps_upd [of "key e st dr"])
      (simp_all add: mailbox_of_def TakeLeased_eq(2) [OF v] lease_loop_plain plain_refreshed keeps_live)
next
  case False
  then show ?thesis by (auto simp: TakeLeased_def keeps_refl)
qed

lemma released_lease:
  assumes "m \<in> set (refreshed clk s k)" "m_lease m = i" "i \<noteq> ''''"
  shows "\<exists>m' \<in> set (queue s k). m_lease m' = i \<and> clk 1 < m_leaseUntil m' \<and> plain m' = plain m"
proof -
  obtain m' where m: "m' \<in> set (live (s_ttl s) (clk 0) (queue s k))" "m = release (clk 1) m'"
    using assms(1) by (auto simp: refreshed_def)
  have "m' \<in> set (queue s k)" using m(1) by (auto simp: live_def dest: set_dropWhileD)
  moreover have "m_lease m' = i \<and> clk 1 < m_leaseUntil m'" using m(2) assms(2,3) by (auto simp: release_def split: if_splits)
  ultimately show ?thesis using m(2) by auto
qed

lemma keeps_Ack:
  "keeps (mailbox_of (s, d)) (expired (s_ttl s) (clk 0) \<union> acked_under (fst (Ack w clk e st dr i s d)) s (key e st dr) i (clk 1))
     (mailbox_of (snd (Ack w clk e st dr i s d)))"
proof (cases "validRoute e st dr \<and> TrimSpace i \<noteq> ''''")
  case True
  then have v: "validRoute e st dr" "TrimSpace i \<noteq> ''''" by auto
  have "TrimSpace '''' = ''''" by code_simp
  then have i: "i \<noteq> ''''" using v(2) by auto
  let ?q = "refreshed clk s (key e st dr)" and ?r = "Ack w clk e st dr i s d"
  have q: "queue (fst (snd ?r)) k' = (if k' = key e st dr then filter (\<lambda>m. m_lease m \<noteq> i) ?q else queue s k')" for k'
    unfolding Ack_eq [OF v] Let_def by (auto simp: filter_empty_conv filter_id_conv)
  have r: "fst ?r = (if filter (\<lambda>m. m_lease m = i) ?q = [] then Inl ErrNoSuchLease else Inr (length (filter (\<lambda>m. m_lease m = i) ?q)))"
    unfolding Ack_eq [OF v] Let_def by simp
  have "plain ` set (filter (\<lambda>m. m_lease m = i) ?q) \<subseteq> acked_under (fst ?r) s (key e st dr) i (clk 1)"
  proof
    fix x assume "x \<in> plain ` set (filter (\<lambda>m. m_lease m = i) ?q)"
    then obtain m where m: "m \<in> set ?q" "m_lease m = i" "x = plain m" by auto
    then have "fst ?r = Inr (length (filter (\<lambda>m. m_lease m = i) ?q))" unfolding r by (auto simp: filter_empty_conv)
    moreover obtain m' where "m' \<in> set (queue s (key e st dr))" "m_lease m' = i" "clk 1 < m_leaseUntil m'" "plain m' = plain m"
      using released_lease [OF m(1,2) i] by blast
    ultimately show "x \<in> acked_under (fst ?r) s (key e st dr) i (clk 1)"
      using m(3) i unfolding acked_under_def by (auto intro!: rev_image_eqI [of m'])
  qed
  from keeps_collect [OF partition_in_shuffles [of ?q "\<lambda>m. m_lease m = i"] this, of "fst (snd ?r)" d "snd (snd ?r)"] q
  show ?thesis by simp
next
  case False
  then show ?thesis by (auto simp: Ack_def keeps_refl)
qed

lemma keeps_Sweep:
  assumes "\<And>k. sweep_clk k \<le> t"
  shows "keeps (mailbox_of (s, d)) (expired (s_ttl s) t) (mailbox_of (snd (Sweep w sweep_clk s d)))"
proof -
  let ?f = "\<lambda>k (s1, d1). expireLocked w (sweep_clk k) k s1 d1"
  have "keeps (mailbox_of (s, d)) (expired (s_ttl s) t) (mailbox_of (fold ?f ks (s, d)))" for ks
  proof (induction ks arbitrary: s d)
    case (Cons k ks)
    let ?x = "expireLocked w (sweep_clk k) k s d"
    have "expired (s_ttl s) (sweep_clk k) \<subseteq> expired (s_ttl s) t" using assms [of k] by (auto simp: expired_def)
    then have "keeps (mailbox_of (s, d)) (expired (s_ttl s) t) (mailbox_of ?x)" by (rule keeps_mono [OF keeps_expire])
    moreover have "keeps (mailbox_of ?x) (expired (s_ttl s) t) (mailbox_of (fold ?f ks ?x))"
      using Cons [of "fst ?x" "snd ?x"] by simp
    ultimately show ?case using keeps_trans by fastforce
  qed (simp add: keeps_refl)
  then show ?thesis by (simp add: Sweep_def Let_def split_beta)
qed

lemmas keeps_ops = keeps_Put keeps_Take keeps_TakeLeased keeps_Ack keeps_Sweep

section \<open>The directory holds the relay's own files\<close>

lemma own_names_mono: "own_names d \<Longrightarrow> dir_names d' \<subseteq> dir_names d \<union> {n. own_name n} \<Longrightarrow> own_names d'"
  unfolding own_names_def by blast

lemma names_Remove: "dir_names (os_Remove w n d) \<subseteq> dir_names d"
  by (auto simp: dir_names_def os_Remove_def delete_conv split: if_splits)

lemma names_spool_remove: "dir_names (spool_remove w ms d) \<subseteq> dir_names d"
proof (induction ms arbitrary: d)
  case (Cons m ms)
  show ?case
    using Cons [of d] Cons [of "os_Remove w (m_file m) d"] names_Remove [of w "m_file m" d] by auto
qed simp

lemma names_dropDurable: "dir_names (dropDurableLocked w ms s d) \<subseteq> dir_names d"
  using names_spool_remove by (simp add: dropDurableLocked_def split: option.splits)

lemma names_expire: "dir_names (snd (expireLocked w t k s d)) \<subseteq> dir_names d"
  using names_dropDurable by (simp add: expireLocked_disk)

lemma names_power_cut: "dir_names (power_cut keep junk d) \<subseteq> dir_names d"
proof -
  have "dur (power_cut keep junk d) = vol (power_cut keep junk d)" by (simp add: power_cut_def Let_def)
  then show ?thesis by (auto simp: dir_names_def power_cut_map_of split: if_splits)
qed

lemma own_tmp: "own_name (spoolTmpPre @ r)"
  by (simp add: own_name_def has_prefix_iff)

lemma own_corrupt: "own_name (n @ spoolCorrupt)"
  using corrupt_not_ext by (simp add: own_name_def)

lemma own_spool: "unat i < 2 ^ 64 - 1 \<Longrightarrow> own_name (spool_name i)"
  by (auto simp: own_name_def)

lemma own_write:
  assumes "spool_write w m sp d = (r, sp', d')" "own_names d" "unat (sp_next sp) < 2 ^ 64 - 1"
  shows "own_names d'"
proof (rule own_names_mono [OF assms(2)], rule subsetI)
  fix n assume "n \<in> dir_names d'"
  then consider "n \<in> dir_names d" | x where "n = spoolTmpPre @ x" | "n = spool_name (sp_next sp)"
    using assms(1)
    by (auto simp: spool_write_def Let_def put_file_def os_Remove_def os_Rename_def syncDir_def dir_names_def dom_def
        update_conv delete_conv split: option.splits if_splits)
  then show "n \<in> dir_names d \<union> {n. own_name n}"
    using own_tmp own_spool [OF assms(3)] by cases auto
qed

lemma own_shrink: "own_names d \<Longrightarrow> dir_names d' \<subseteq> dir_names d \<Longrightarrow> own_names d'"
  using own_names_mono [of d d'] by blast

lemma own_drop_expire:
  "own_names d \<Longrightarrow> own_names (dropDurableLocked w ms s' (snd (expireLocked w t k s d)))"
  "own_names d \<Longrightarrow> own_names (snd (expireLocked w t k s d))"
  using names_dropDurable [of w ms s' "snd (expireLocked w t k s d)"] names_expire [of w t k s d]
  by (auto intro: own_shrink)

lemma own_Put:
  assumes "own_names d" "s_spool s = Some sp" "unat (sp_next sp) < 2 ^ 64 - 1"
  shows "own_names (snd (snd (Put w clk m s d)))"
proof -
  have x: "own_names (snd (expireLocked w (clk 0) (msg_key m) s d))"
    using assms(1) by (rule own_drop_expire(2))
  show ?thesis
  proof (cases rule: Put_cases [of w clk m s d])
    case (accepted sp' d' fl)
    with x assms own_write show ?thesis by auto
  qed (use x assms own_write in auto)
qed

lemma own_collect:
  "own_names d \<Longrightarrow> own_names (snd (snd (Take w clk e st dr limit s d)))"
  "own_names d \<Longrightarrow> own_names (snd (snd (TakeLeased w clk e st dr limit dt s d)))"
  "own_names d \<Longrightarrow> own_names (snd (snd (Ack w clk e st dr i s d)))"
  "own_names d \<Longrightarrow> own_names (snd (snd (Depth w t e st dr s d)))"
  by (simp_all add: Take_def TakeLeased_def Ack_def Depth_def Let_def split_beta nextLeaseLocked_def own_drop_expire)

lemma own_Sweep:
  assumes "own_names d"
  shows "own_names (snd (snd (Sweep w clk s d)))"
proof -
  let ?f = "\<lambda>k (s1, d1). expireLocked w (clk k) k s1 d1"
  have "dir_names (snd (fold ?f ks (s, d))) \<subseteq> dir_names d" for ks
  proof (induction ks arbitrary: s d)
    case (Cons k ks)
    then show ?case
      using Cons [of "fst (expireLocked w (clk k) k s d)" "snd (expireLocked w (clk k) k s d)"] names_expire by fastforce
  qed simp
  then show ?thesis using own_names_mono [OF assms] by (simp add: Sweep_def Let_def split_beta) blast
qed

section \<open>A start-up establishes the invariant again\<close>

lemma readSpoolFile_sel: "readSpoolFile n raw = Some m \<Longrightarrow> m_file m = n \<and> plain m = m"
  by (auto simp: readSpoolFile_def Let_def plain_def split: if_splits option.splits)

lemma read_entryD:
  assumes "read_entry w d n = Some m"
  obtains raw f where "map_of (vol d) n = Some (File raw f)" "readSpoolFile n raw = Some m" "m_file m = n" "plain m = m"
  using assms readSpoolFile_sel by (auto simp: read_entry_def split: option.splits dirent.splits if_splits)

lemma load_one_frame:
  shows "dur (ls_disk (load_one w n l)) = dur (ls_disk l)"
    and "distinct (mkeys (vol (ls_disk l))) \<Longrightarrow> distinct (mkeys (vol (ls_disk (load_one w n l))))"
    and "dir_names (ls_disk (load_one w n l)) \<subseteq> dir_names (ls_disk l) \<union> {n @ spoolCorrupt}"
    and "read_entry w (ls_disk l) n' \<noteq> None \<Longrightarrow> has_suffix n' spoolExt \<Longrightarrow>
      map_of (vol (ls_disk (load_one w n l))) n' = map_of (vol (ls_disk l)) n'"
proof -
  show "dur (ls_disk (load_one w n l)) = dur (ls_disk l)"
    "distinct (mkeys (vol (ls_disk l))) \<Longrightarrow> distinct (mkeys (vol (ls_disk (load_one w n l))))"
    unfolding load_one_def read_entry_def [symmetric]
    by (auto simp: Let_def os_Rename_def distinct_update distinct_delete split: option.splits)
  show "dir_names (ls_disk (load_one w n l)) \<subseteq> dir_names (ls_disk l) \<union> {n @ spoolCorrupt}"
    unfolding load_one_def read_entry_def [symmetric]
    by (auto simp: Let_def os_Rename_def dir_names_def dom_def update_conv delete_conv split: option.splits if_splits)
  show "map_of (vol (ls_disk (load_one w n l))) n' = map_of (vol (ls_disk l)) n'"
    if "read_entry w (ls_disk l) n' \<noteq> None" "has_suffix n' spoolExt"
  proof (cases "n' = n")
    case True
    with that(1) show ?thesis unfolding load_one_def read_entry_def [symmetric] by (auto split: option.splits)
  next
    case False
    then show ?thesis using that(2) by (rule load_one_disk)
  qed
qed

lemma load_all_frame:
  shows "dur (ls_disk (fold (load_one w) ns l)) = dur (ls_disk l)"
    and "distinct (mkeys (vol (ls_disk l))) \<Longrightarrow> distinct (mkeys (vol (ls_disk (fold (load_one w) ns l))))"
    and "own_names (ls_disk l) \<Longrightarrow> own_names (ls_disk (fold (load_one w) ns l))"
    and "read_entry w (ls_disk l) n \<noteq> None \<Longrightarrow> has_suffix n spoolExt \<Longrightarrow>
      map_of (vol (ls_disk (fold (load_one w) ns l))) n = map_of (vol (ls_disk l)) n"
    and "\<forall>n \<in> set ns. \<forall>i. spoolNumber n = Some i \<longrightarrow> unat i < b \<Longrightarrow> unat (ls_highest l) < b \<Longrightarrow>
      unat (ls_highest (fold (load_one w) ns l)) < b"
proof (induction ns arbitrary: l)
  case (Cons a ns)
  {
    case 1
    then show ?case using Cons(1) [of "load_one w a l"] load_one_frame(1) by simp
  next
    case 2
    then show ?case using Cons(2) [of "load_one w a l"] load_one_frame(2) by simp
  next
    case 3
    then have "own_names (ls_disk (load_one w a l))"
      using load_one_frame(3) [of w a l] own_corrupt [of a] by (intro own_names_mono [OF 3]) auto
    then show ?case using Cons(3) [of "load_one w a l"] by simp
  next
    case 4
    note same = load_one_frame(4) [OF 4, of a]
    with 4 have "read_entry w (ls_disk (load_one w a l)) n \<noteq> None" using read_entry_cong by metis
    from Cons(4) [OF this 4(2)] same show ?case by simp
  next
    case 5
    have "unat (ls_highest (load_one w a l)) < b" using 5 by (simp add: load_one_eq max_def split: option.splits)
    with 5 Cons(5) [of "load_one w a l"] show ?case by simp
  }
qed simp_all

lemma map_filter_names:
  assumes "\<And>n m. f n = Some m \<Longrightarrow> m_file m = n"
  shows "map m_file (List.map_filter f ns) = filter (\<lambda>n. f n \<noteq> None) ns"
  using assms by (induction ns) (auto simp: map_filter_simps split: option.splits)

lemma map_filter_mem: "m \<in> set (List.map_filter f ns) \<longleftrightarrow> (\<exists>n \<in> set ns. f n = Some m)"
  by (induction ns) (auto simp: map_filter_simps split: option.splits)

lemma names_remove_tmp: "dir_names (fold (os_Remove w) ns d) \<subseteq> dir_names d"
proof (induction ns arbitrary: d)
  case (Cons n ns)
  show ?case using Cons [of "os_Remove w n d"] names_Remove [of w n d] by auto
qed simp

lemma fold_Remove_frame:
  "dur (fold (os_Remove w) ns d) = dur d"
  "distinct (mkeys (vol d)) \<Longrightarrow> distinct (mkeys (vol (fold (os_Remove w) ns d)))"
  by (induction ns arbitrary: d) (simp_all add: os_Remove_distinct)

lemma spool_names_own:
  assumes "own_names d" "n \<in> set (spool_names d)"
  obtains i where "n = spool_name i" "unat i < 2 ^ 64 - 1"
proof -
  have "n \<in> dir_names d" "has_suffix n spoolExt" "\<not> has_prefix n spoolTmpPre"
    using assms(2) by (auto simp: spool_names_def dir_names_def dom_map_of_conv_image_fst rev_image_eqI)
  with assms(1) that show ?thesis unfolding own_names_def own_name_def by blast
qed

lemma spool_load_frame:
  assumes "spool_load w d = Some l" "distinct (mkeys (vol d))" "own_names d"
  shows "dur (ls_disk l) = dur d" "distinct (mkeys (vol (ls_disk l)))" "own_names (ls_disk l)"
    and "n \<in> set (spool_names d) \<Longrightarrow> read_entry w d n \<noteq> None \<Longrightarrow> map_of (vol (ls_disk l)) n = map_of (vol d) n"
    and "unat (ls_highest l) < 2 ^ 64 - 1"
proof -
  let ?d = "fold (os_Remove w) (tmp_names d) d"
  let ?l = "\<lparr>ls_msgs = [], ls_quarantined = [], ls_highest = 0, ls_disk = ?d\<rparr>"
  have l: "l = fold (load_one w) (spool_names d) ?l"
    using assms(1) by (auto simp: spool_load_def Let_def split: if_splits)
  note F = load_all_frame [where w = w and ns = "spool_names d" and l = ?l, folded l, simplified]
  show "dur (ls_disk l) = dur d" using F(1) by (simp add: fold_Remove_frame)
  show "distinct (mkeys (vol (ls_disk l)))" using F(2) assms(2) by (simp add: fold_Remove_frame)
  show "own_names (ls_disk l)" using F(3) own_shrink [OF assms(3) names_remove_tmp] by simp
  show "map_of (vol (ls_disk l)) n = map_of (vol d) n" if n: "n \<in> set (spool_names d)" "read_entry w d n \<noteq> None"
  proof -
    have e: "has_suffix n spoolExt" "\<not> has_prefix n spoolTmpPre" using spool_names_facts(2) [OF assms(2)] n(1) by auto
    have "map_of (vol ?d) n = map_of (vol d) n" using e(2) by (intro remove_tmp_vol) (auto simp: tmp_names_def)
    moreover from this have "read_entry w ?d n \<noteq> None" using n(2) read_entry_cong by metis
    ultimately show ?thesis using F(4) [OF _ e(1)] by simp
  qed
  have "unat i < 2 ^ 64 - 1" if "n \<in> set (spool_names d)" "spoolNumber n = Some i" for n i
    using spool_names_own [OF assms(3) that(1)] that(2) by (metis option.inject spoolNumber_name)
  then show "unat (ls_highest l) < 2 ^ 64 - 1" using F(5) [of "2 ^ 64 - 1"] by simp
qed

lemma restart_inv:
  assumes open_spool: "OpenSpool w dir (NewStore t) d = (Inr rep, s', d')"
    and d: "settled d" "own_names d" "distinct (mkeys (vol d))"
  shows "life_inv (s', d')"
proof -
  obtain l where l: "spool_load w d = Some l" "d' = ls_disk l"
    "s' = fold load_message (ls_msgs l) ((NewStore t)\<lparr>s_spool := Some \<lparr>sp_dir = dir, sp_next = ls_highest l + 1\<rparr>\<rparr>)"
    using open_spool by (auto simp: OpenSpool_def Let_def split: if_splits option.splits)
  note F = spool_load_frame [OF l(1) d(3,2), folded l(2)]
  let ?ms = "List.map_filter (read_entry w d) (spool_names d)"
  have q: "queue s' k = filter (\<lambda>m. msg_key m = k) ?ms" for k using OpenSpool_queue [OF open_spool d(3)] .
  have mem: "held d' m \<and> (\<exists>i < ls_highest l + 1. m_file m = spool_name i)" if loaded: "m \<in> set ?ms" for m
  proof -
    obtain n where n: "n \<in> set (spool_names d)" "read_entry w d n = Some m" using loaded unfolding map_filter_mem by blast
    obtain raw f where r: "map_of (vol d) n = Some (File raw f)" "readSpoolFile n raw = Some m" "m_file m = n" "plain m = m"
      using read_entryD [OF n(2)] .
    have f: "f" "map_of (dur d) n = Some (File raw f)" using d(1) r(1) by (auto simp: settled_def)
    obtain i where i: "n = spool_name i" using spool_names_own [OF d(2) n(1)] by metis
    have "i \<le> ls_highest l" using spool_load_msgs(2) [OF l(1) d(3) n(1), of i] n(2) i by (simp add: spoolNumber_name)
    then have "i < ls_highest l + 1" using succ_word [OF F(5)] by (simp add: word_less_nat_alt word_le_nat_alt)
    then show ?thesis using F(1) F(4) [OF n(1)] n(2) r f i by (auto simp: held_def)
  qed
  have "sorted_wrt (<) (map m_file ?ms)"
    using map_filter_names [of "read_entry w d" "spool_names d"] read_entryD spool_names_facts(1) [OF d(3)]
    by (metis sorted_wrt_filter)
  then have "sorted_wrt (<) (map m_file (queue s' k))" for k
    unfolding q by (intro subseq_sorted_wrt [OF subseq_map [OF subseq_filter_left]])
  then have "spooled_queue d' (ls_highest l + 1) k (queue s' k)" for k
    using mem by (auto simp: spooled_queue_def q)
  moreover have "s_spool s' = Some \<lparr>sp_dir = dir, sp_next = ls_highest l + 1\<rparr>" by (simp add: l(3) load_messages_spool)
  ultimately show ?thesis using F(2,3) by (simp add: life_inv_def spooled_inv_def)
qed

lemma settled_power_cut: "settled (power_cut keep junk d)"
  unfolding settled_def
proof (intro allI impI)
  fix n e assume e: "map_of (vol (power_cut keep junk d)) n = Some e"
  have "dur (power_cut keep junk d) = vol (power_cut keep junk d)" by (simp add: power_cut_def Let_def)
  moreover obtain e0 where "e = settle_entry (junk n) e0" using e unfolding power_cut_map_of by blast
  ultimately show "map_of (dur (power_cut keep junk d)) n = Some e \<and> (\<forall>b. e \<noteq> File b False)"
    using e by (cases e0) (simp_all add: settle_entry_def)
qed

lemma write_back_vol:
  "map_of (vol (write_back d)) n = map_option (\<lambda>e. case e of Directory \<Rightarrow> Directory | File b _ \<Rightarrow> File b True) (map_of (vol d) n)"
  "dur (write_back d) = vol (write_back d)" "mkeys (vol (write_back d)) = mkeys (vol d)"
  by (simp_all add: write_back_def Let_def map_of_map split_beta comp_def)

lemma settled_write_back: "settled (write_back d)"
  unfolding settled_def write_back_vol
proof (intro allI impI conjI)
  fix n e b assume "map_option (\<lambda>e. case e of Directory \<Rightarrow> Directory | File b _ \<Rightarrow> File b True) (map_of (vol d) n) = Some e"
  then obtain e0 where "e = (case e0 of Directory \<Rightarrow> Directory | File b _ \<Rightarrow> File b True)" by auto
  then show "e \<noteq> File b False" by (cases e0) simp_all
qed

lemma own_write_back: "own_names d \<Longrightarrow> own_names (write_back d)"
  by (rule own_shrink) (auto simp: dir_names_def dom_def write_back_vol)

lemma spooled_write_back: "spooled_inv s d \<Longrightarrow> spooled_inv s (write_back d)"
proof -
  have "held d m \<Longrightarrow> held (write_back d) m" for m by (auto simp: held_def write_back_vol)
  then show "spooled_inv s d \<Longrightarrow> spooled_inv s (write_back d)"
    by (fastforce simp: spooled_inv_def spooled_queue_def write_back_vol split: option.splits)
qed

section \<open>Every event keeps the contract and the invariant\<close>

lemma life_step_inv: "life_step x G y \<Longrightarrow> life_inv x \<Longrightarrow> life_inv y"
proof (induction rule: life_step.induct)
  case (put m clk s sp d w)
  then show ?case using spooled_Put [of s d m clk w] own_Put [of d s sp w clk m] by (simp add: life_inv_def)
next
  case (power_cut w dir t keep junk d rep s' d' s)
  then show ?case
    using restart_inv [OF power_cut.hyps(2) settled_power_cut _ power_cut_distinct] own_shrink [OF _ names_power_cut]
    by (simp add: life_inv_def)
next
  case (restart w d dir t rep s' d' s)
  then show ?case using restart_inv [OF restart.hyps(3,2)] by (auto simp: life_inv_def spooled_inv_def)
qed (simp_all add: life_inv_def spooled_Take spooled_TakeLeased spooled_Ack spooled_Depth spooled_Sweep own_collect own_Sweep spooled_write_back own_write_back)

lemma keeps_start:
  assumes "spooled_inv s d" "distinct (mkeys (vol dc))" "\<And>n. io_read w n" "OpenSpool w dir (NewStore t) dc = (Inr rep, s', d')"
    and "\<And>m. held d m \<Longrightarrow> \<exists>b. map_of (vol dc) (m_file m) = Some (File b True) \<and> readSpoolFile (m_file m) b = Some (plain m)"
  shows "keeps (mailbox_of (s, d)) {} (mailbox_of (s', d'))"
proof -
  have "map plain (queue s' k) = queue s' k" for k
    using OpenSpool_queue [OF assms(4,2), of k] by (auto intro!: map_idI simp: map_filter_mem elim: read_entryD)
  moreover have "subseq (map plain (queue s k)) (queue s' k)" for k
    using recovered_from [OF assms(1,2,5,3,4)] .
  ultimately show ?thesis by (simp add: keeps_def mailbox_of_def)
qed

lemma life_step_keeps: "life_step x G y \<Longrightarrow> life_inv x \<Longrightarrow> keeps (mailbox_of x) G (mailbox_of y)"
proof (induction rule: life_step.induct)
  case (depth s d t w e st dr)
  then show ?case
    using keeps_expire [of s d t w "key e st dr"] by (auto simp: Depth_def Let_def split_beta keeps_refl)
next
  case (power_cut w dir t keep junk d rep s' d' s)
  then show ?case
    using keeps_start [OF _ power_cut_distinct _ power_cut.hyps(2) held_power_cut] by (simp add: life_inv_def)
next
  case (restart w d dir t rep s' d' s)
  then show ?case
    by (intro keeps_start [OF _ _ _ restart.hyps(3)]) (auto simp: life_inv_def spooled_inv_def held_def)
next
  case (write_back s d)
  then show ?case by (simp add: mailbox_of_def keeps_def)
qed (simp_all add: keeps_ops)

lemma life_inv_run: "life x G y \<Longrightarrow> life_inv x \<Longrightarrow> life_inv y"
  by (induction rule: life.induct) (auto intro: life_step_inv)

lemma life_keeps: "life x G y \<Longrightarrow> life_inv x \<Longrightarrow> keeps (mailbox_of x) G (mailbox_of y)"
proof (induction rule: life.induct)
  case (life_step x G y H z)
  then show ?case using keeps_trans life_step_keeps life_inv_run by metis
qed (simp add: keeps_refl)

section \<open>The contract\<close>

lemma own_empty: "own_names empty_disk"
  by (simp add: own_names_def dir_names_def empty_disk_def)

lemma life_inv_start:
  assumes "OpenSpool w dir (NewStore t) empty_disk = (Inr rep, s, d)"
  shows "life_inv (s, d)"
  by (rule restart_inv [OF assms _ own_empty]) (simp_all add: settled_def empty_disk_def)

text \<open>
  Property C1. Nothing leaves the relay unaccounted for, however often it is restarted. Start with a relay in good order, such as
  one started on an empty directory, and let it live through any sequence of writes, collections, leases,
  acknowledgements, sweeps, power cuts and restarts, with any pattern of disk failures during the operations. At the end every
  queue still holds, in their order of arrival, all
  the messages it held at the beginning, except those that a collection handed out, those held under a lease in force
  whose acknowledgement was accepted, and those past their time to live; and the relay is in good order again. An
  acknowledgement that is refused, or names a blank lease, excuses the loss of no message.

  The events are those of \<open>life_step\<close>: what is written carries no lease, has names in valid UTF-8 (a message whose name is not
  is read back into another queue), an instant that fits 64 bits and a counter with room; power cuts fall between two operations, and leave of
  every unflushed name what they like; a plain restart of the process finds a directory with nothing waiting to be flushed, as after \<open>write_back\<close>; every start
  can read the files it finds.
\<close>

theorem leaves_only_accounted:
  assumes "life (s0, d0) G (s, d)" "life_inv (s0, d0)"
  shows "life_inv (s, d) \<and> subseq (filter (\<lambda>m. m \<notin> G) (map plain (queue s0 k))) (map plain (queue s k))"
  using life_keeps [OF assms] life_inv_run [OF assms] by (simp add: keeps_def mailbox_of_def)

theorem leaves_only_accounted_witness:
  "\<exists>s1 d1 s2 d2. life sample_put {} (s1, d1) \<and> life (s1, d1) {} (s2, d2) \<and>
     m_Body sample_message \<in> m_Body ` set (queue s2 (msg_key sample_message))"
proof -
  have t: "TrimSpace ''spool'' \<noteq> ''''" using TrimSpace_keeps [of "CHR ''s''" "''spool''"] by (auto simp: space_runes_def)
  have r: "io_read io_fine n" for n by (simp add: io_fine_def)
  obtain rep s1 d1 where o1: "OpenSpool io_fine ''spool'' (NewStore 8) (power_cut (\<lambda>_. False) (\<lambda>_. ''junk'') (snd sample_put)) = (Inr rep, s1, d1)"
    using OpenSpool_fine [OF t] by blast
  obtain rep2 s2 d2 where o2: "OpenSpool io_fine ''spool'' (NewStore 9) (power_cut (\<lambda>_. True) (\<lambda>_. ''junk'') d1) = (Inr rep2, s2, d2)"
    using OpenSpool_fine [OF t] by blast
  have step: "life (s, d) {} (s', d')" if "OpenSpool io_fine ''spool'' (NewStore t) (power_cut keep junk d) = (Inr rep, s', d')"
    for s d t keep junk rep s' d'
    using life.life_step [OF life_refl life_step.power_cut [OF r that]] by simp
  have "life_inv sample_open" using sample_open_inv own_empty by (simp add: life_inv_def sample_open_eq(1))
  then have "own_names (snd sample_put)"
    using own_Put [of "snd sample_open" "fst sample_open"] by (simp add: sample_put_def life_inv_def sample_open_eq(1))
  then have inv: "life_inv (fst sample_put, snd sample_put)"
    using spooled_step_inv [OF sample_put_step sample_open_inv] by (simp add: life_inv_def)
  note A = leaves_only_accounted [OF step [OF o1] inv, of "msg_key sample_message"]
  note B = leaves_only_accounted [OF step [OF o2], of s1 "msg_key sample_message"]
  have "subseq (map plain (queue (fst sample_put) (msg_key sample_message))) (map plain (queue s2 (msg_key sample_message)))"
    using A B by (auto intro: subseq_order.trans)
  from subseq_map [OF this, of m_Body] sample_put_accepts(2)
  have "subseq [m_Body sample_message] (map m_Body (queue s2 (msg_key sample_message)))" by (simp add: comp_def)
  then have "m_Body sample_message \<in> set (map m_Body (queue s2 (msg_key sample_message)))" using subseq_set by fastforce
  then show ?thesis
    using step [OF o1, of "fst sample_put"] step [OF o2, of s1] by (intro exI [of _ s1] exI [of _ d1] exI [of _ s2] exI [of _ d2]) simp
qed

end
