(* ===== verification/Go_Base64.thy ===== *)
theory Go_Base64
  imports Relay_Prelude
begin

text \<open>
  What the relay uses of \<^verbatim>\<open>encoding/base64\<close> and \<^verbatim>\<open>encoding/hex\<close>: the standard encoding with padding (message bodies in
  JSON, the configured key) and the unpadded URL encoding (authorisation leases). The decoders are the
  lenient ones of the library: carriage returns and line feeds are skipped and the unused bits of a last, partial group
  are not checked.
\<close>

section \<open>Definitions\<close>

definition b64_alphabet :: "bool \<Rightarrow> string" where
  "b64_alphabet url = ''ABCDEFGHIJKLMNOPQRSTUVWXYZabcdefghijklmnopqrstuvwxyz0123456789'' @ (if url then ''-_'' else ''+/'')"

definition b64_char :: "bool \<Rightarrow> nat \<Rightarrow> char" where
  "b64_char url n = b64_alphabet url ! n"

definition b64_val :: "bool \<Rightarrow> char \<Rightarrow> nat option" where
  "b64_val url c = map_of (zip (b64_alphabet url) [0..<64]) c"

definition ord :: "char \<Rightarrow> nat" where "ord c = of_char c"

fun b64_encode :: "bool \<Rightarrow> bool \<Rightarrow> bytes \<Rightarrow> string" where
  "b64_encode url pad [] = []"
| "b64_encode url pad [a] =
     [b64_char url (ord a div 4), b64_char url (ord a mod 4 * 16)] @ (if pad then ''=='' else [])"
| "b64_encode url pad [a, b] =
     [b64_char url (ord a div 4), b64_char url (ord a mod 4 * 16 + ord b div 16), b64_char url (ord b mod 16 * 4)] @
     (if pad then ''='' else [])"
| "b64_encode url pad (a # b # c # rest) =
     [b64_char url (ord a div 4), b64_char url (ord a mod 4 * 16 + ord b div 16),
      b64_char url (ord b mod 16 * 4 + ord c div 64), b64_char url (ord c mod 64)] @ b64_encode url pad rest"

text \<open>The bytes of a group of two, three or four sextets.\<close>

definition quantum :: "nat list \<Rightarrow> bytes" where
  "quantum vs =
     (case vs of
        [p, q] \<Rightarrow> [byte (p * 4 + q div 16)]
      | [p, q, r] \<Rightarrow> [byte (p * 4 + q div 16), byte (q mod 16 * 16 + r div 4)]
      | [p, q, r, s] \<Rightarrow> [byte (p * 4 + q div 16), byte (q mod 16 * 16 + r div 4), byte (r mod 4 * 64 + s)]
      | _ \<Rightarrow> [])"

definition sextets :: "bool \<Rightarrow> string \<Rightarrow> nat list option" where
  "sextets url s = those (map (b64_val url) s)"

fun b64_groups :: "bool \<Rightarrow> bool \<Rightarrow> string \<Rightarrow> bytes option" where
  "b64_groups url pad [] = Some []"
| "b64_groups url pad [a] = None"
| "b64_groups url pad [a, b] = (if pad then None else map_option quantum (sextets url [a, b]))"
| "b64_groups url pad [a, b, c] = (if pad then None else map_option quantum (sextets url [a, b, c]))"
| "b64_groups url pad (a # b # c # e # rest) =
     (if pad \<and> c = CHR ''='' then
        if e = CHR ''='' \<and> rest = [] then map_option quantum (sextets url [a, b]) else None
      else if pad \<and> e = CHR ''='' then
        if rest = [] then map_option quantum (sextets url [a, b, c]) else None
      else (case sextets url [a, b, c, e] of
              None \<Rightarrow> None
            | Some vs \<Rightarrow> map_option ((@) (quantum vs)) (b64_groups url pad rest)))"

definition b64_decode :: "bool \<Rightarrow> bool \<Rightarrow> string \<Rightarrow> bytes option" where
  "b64_decode url pad s = b64_groups url pad (filter (\<lambda>c. c \<noteq> CHR 0x0A \<and> c \<noteq> CHR 0x0D) s)"

abbreviation StdEncoding_Decode :: "string \<Rightarrow> bytes option" where "StdEncoding_Decode \<equiv> b64_decode False True"
abbreviation StdEncoding_Encode :: "bytes \<Rightarrow> string" where "StdEncoding_Encode \<equiv> b64_encode False True"
abbreviation RawURLEncoding_Decode :: "string \<Rightarrow> bytes option" where "RawURLEncoding_Decode \<equiv> b64_decode True False"
abbreviation RawURLEncoding_Encode :: "bytes \<Rightarrow> string" where "RawURLEncoding_Encode \<equiv> b64_encode True False"

section \<open>Lemmas\<close>

definition b64_good :: "bool \<Rightarrow> nat \<Rightarrow> bool" where
  "b64_good url n \<longleftrightarrow> b64_val url (b64_char url n) = Some n \<and> b64_char url n \<noteq> CHR ''='' \<and>
     b64_char url n \<noteq> CHR 0x0A \<and> b64_char url n \<noteq> CHR 0x0D \<and> b64_char url n \<noteq> CHR ''.''"

lemma b64_table_std: "list_all (b64_good False) [0..<64]"
  by code_simp

lemma b64_table_url: "list_all (b64_good True) [0..<64]"
  by code_simp

lemma b64_char_facts:
  assumes "n < 64"
  shows "b64_val url (b64_char url n) = Some n" "b64_char url n \<noteq> CHR ''=''" "b64_char url n \<noteq> CHR 0x0A"
    "b64_char url n \<noteq> CHR 0x0D" "b64_char url n \<noteq> CHR ''.''"
  using b64_table_std b64_table_url assms by (cases url; auto simp: list_all_iff b64_good_def)+

lemma ord_less: "ord c < 256"
  unfolding ord_def using range_nat_of_char by auto

lemma byte_ord [simp]: "byte (ord c) = c"
  by (simp add: byte_def ord_def)

lemma parts_less: "ord c div 4 < 64" "ord c div 16 < 16" "ord c div 64 < 4"
  using ord_less [of c] by (simp_all add: less_mult_imp_div_less)

lemma sextet_bounds:
  fixes a b c :: char
  shows "ord a div 4 < 64" "ord a mod 4 * 16 + ord b div 16 < 64" "ord b mod 16 * 4 + ord c div 64 < 64" "ord c mod 64 < 64"
    "ord a mod 4 * 16 < 64" "ord b mod 16 * 4 < 64"
proof -
  have m: "p < 4 \<Longrightarrow> q < 16 \<Longrightarrow> p * 16 + q < (64 :: nat)" "p < 16 \<Longrightarrow> q < 4 \<Longrightarrow> p * 4 + q < (64 :: nat)" for p q
    by linarith+
  show "ord a mod 4 * 16 + ord b div 16 < 64" by (rule m) (simp_all add: parts_less)
  show "ord b mod 16 * 4 + ord c div 64 < 64" by (rule m) (simp_all add: parts_less)
qed (simp_all add: parts_less)

lemma glue:
  fixes p q :: nat
  shows "q < 16 \<Longrightarrow> (p * 16 + q) div 16 = p" "q < 16 \<Longrightarrow> (p * 16 + q) mod 16 = q" "q < 4 \<Longrightarrow> (p * 4 + q) div 4 = p"
    "q < 4 \<Longrightarrow> (p * 4 + q) mod 4 = q"
  by simp_all

lemma sextet_recover:
  fixes a b c :: char
  shows "ord a div 4 * 4 + (ord a mod 4 * 16 + ord b div 16) div 16 = ord a"
    "(ord a mod 4 * 16 + ord b div 16) mod 16 * 16 + (ord b mod 16 * 4 + ord c div 64) div 4 = ord b"
    "(ord b mod 16 * 4 + ord c div 64) mod 4 * 64 + ord c mod 64 = ord c"
    "ord a div 4 * 4 + (ord a mod 4 * 16) div 16 = ord a"
    "(ord a mod 4 * 16 + ord b div 16) mod 16 * 16 + (ord b mod 16 * 4) div 4 = ord b"
  by (simp_all only: glue parts_less nonzero_mult_div_cancel_right div_mult_mod_eq simp_thms zero_neq_numeral [symmetric])

lemma groups_encode: "b64_groups url pad (b64_encode url pad bs) = Some bs"
  by (induction url pad bs rule: b64_encode.induct)
    (simp_all add: sextets_def quantum_def b64_char_facts sextet_bounds sextet_recover parts_less del: One_nat_def)

lemma encode_clean: "c \<in> set (b64_encode url pad bs) \<Longrightarrow> c \<noteq> CHR 0x0A \<and> c \<noteq> CHR 0x0D \<and> c \<noteq> CHR ''.''"
  by (induction url pad bs rule: b64_encode.induct)
    (auto simp: b64_char_facts sextet_bounds split: if_splits)

text \<open>What either encoder writes, its decoder reads back.\<close>

lemma b64_roundtrip: "b64_decode url pad (b64_encode url pad bs) = Some bs"
proof -
  have "filter (\<lambda>c. c \<noteq> CHR 0x0A \<and> c \<noteq> CHR 0x0D) (b64_encode url pad bs) = b64_encode url pad bs"
    using encode_clean [of _ url pad bs] by (auto simp: filter_id_conv)
  then show ?thesis by (simp add: b64_decode_def groups_encode)
qed

text \<open>Four characters carry at most three bytes.\<close>

lemma groups_length: "b64_groups url pad s = Some bs \<Longrightarrow> 4 * length bs \<le> 3 * length s"
proof (induction url pad s arbitrary: bs rule: b64_groups.induct)
  case (5 url pad a b c e rest)
  have q: "length (quantum vs) \<le> 3" for vs by (auto simp: quantum_def split: list.splits)
  consider "rest = []" "length bs \<le> 3" | vs bs' where "b64_groups url pad rest = Some bs'" "bs = quantum vs @ bs'"
    "sextets url [a, b, c, e] = Some vs" "\<not> (pad \<and> c = CHR ''='')" "\<not> (pad \<and> e = CHR ''='')"
    using "5.prems" q by (auto split: if_splits option.splits)
  then show ?case
  proof cases
    case 1
    then show ?thesis by simp
  next
    case (2 vs bs')
    then have "4 * length bs' \<le> 3 * length rest" using "5.IH" by blast
    with 2(2) q [of vs] show ?thesis by simp
  qed
qed (auto simp: quantum_def sextets_def split: if_splits option.splits)

lemma b64_length: "b64_decode url pad s = Some bs \<Longrightarrow> 4 * length bs \<le> 3 * length s"
  using groups_length [of url pad] length_filter_le unfolding b64_decode_def
  by (metis (no_types, lifting) le_trans mult_le_mono2)

end
