(* ===== verification/Go_Stream.thy ===== *)
theory Go_Stream
  imports Go_Json Go_Base64
begin

text \<open>
  What the handlers use of \<^verbatim>\<open>json.Decoder\<close> on a request body, \<^verbatim>\<open>http.MaxBytesReader\<close> included, and the
  decoding of a byte slice.

  The decoder reads ahead only until one value is complete. An object or an array is complete with
  its last bracket, any other value with the byte after it or the end of the body. A body over the cap is
  delivered up to the cap and then fails, so it is a size error only when the delivered part neither
  completes a value nor contains a syntax error. \<open>scan\<close> is the library's scanner, the
  automaton that decides the latter; a complete value is read by \<^const>\<open>p_value\<close>.
\<close>

section \<open>The scanner\<close>

datatype parse = ParseObjectKey | ParseObjectValue | ParseArrayValue

datatype scan_state =
    BeginValue | BeginValueOrEmpty | BeginString | BeginStringOrEmpty | EndValue
  | InString | InStringEsc | InStringEscU nat
  | Neg | Zero | Digits | Dot | DotDigits | Exp | ExpSign | ExpDigits
  | Literal string

datatype scan_result = ScanMore "parse list" scan_state | ScanEnd | ScanError

definition pop :: "parse list \<Rightarrow> scan_result" where
  "pop ps = (if ps = [] then ScanEnd else ScanMore ps EndValue)"

definition push :: "parse list \<Rightarrow> parse \<Rightarrow> scan_state \<Rightarrow> scan_result" where
  "push ps p st = (if length ps < max_depth then ScanMore (p # ps) st else ScanError)"

definition end_value :: "parse list \<Rightarrow> char \<Rightarrow> scan_result" where
  "end_value ps c =
     (case ps of
        [] \<Rightarrow> ScanEnd
      | p # qs \<Rightarrow>
          if is_ws c then ScanMore ps EndValue
          else (case p of
                  ParseObjectKey \<Rightarrow> if c = CHR '':'' then ScanMore (ParseObjectValue # qs) BeginValue else ScanError
                | ParseObjectValue \<Rightarrow>
                    if c = CHR '','' then ScanMore (ParseObjectKey # qs) BeginString
                    else if c = CHR ''}'' then pop qs else ScanError
                | ParseArrayValue \<Rightarrow>
                    if c = CHR '','' then ScanMore ps BeginValue else if c = CHR '']'' then pop qs else ScanError))"

definition begin_value :: "parse list \<Rightarrow> scan_state \<Rightarrow> char \<Rightarrow> scan_result" where
  "begin_value ps here c =
     (if is_ws c then ScanMore ps here
      else if c = CHR ''{'' then push ps ParseObjectKey BeginStringOrEmpty
      else if c = CHR ''['' then push ps ParseArrayValue BeginValueOrEmpty
      else if c = dquote then ScanMore ps InString
      else if c = CHR ''-'' then ScanMore ps Neg
      else if c = CHR ''0'' then ScanMore ps Zero
      else if is_digit c then ScanMore ps Digits
      else if c = CHR ''t'' then ScanMore ps (Literal ''rue'')
      else if c = CHR ''f'' then ScanMore ps (Literal ''alse'')
      else if c = CHR ''n'' then ScanMore ps (Literal ''ull'')
      else ScanError)"

definition begin_string :: "parse list \<Rightarrow> scan_state \<Rightarrow> char \<Rightarrow> scan_result" where
  "begin_string ps here c =
     (if is_ws c then ScanMore ps here else if c = dquote then ScanMore ps InString else ScanError)"

definition after_int :: "parse list \<Rightarrow> char \<Rightarrow> scan_result" where
  "after_int ps c =
     (if c = CHR ''.'' then ScanMore ps Dot
      else if c = CHR ''e'' \<or> c = CHR ''E'' then ScanMore ps Exp else end_value ps c)"

fun scan_step :: "parse list \<Rightarrow> scan_state \<Rightarrow> char \<Rightarrow> scan_result" where
  "scan_step ps BeginValue c = begin_value ps BeginValue c"
| "scan_step ps BeginValueOrEmpty c =
     (if is_ws c then ScanMore ps BeginValueOrEmpty
      else if c = CHR '']'' then end_value ps c else begin_value ps BeginValue c)"
| "scan_step ps BeginString c = begin_string ps BeginString c"
| "scan_step ps BeginStringOrEmpty c = (if c = CHR ''}'' then pop (tl ps) else begin_string ps BeginStringOrEmpty c)"
| "scan_step ps EndValue c = end_value ps c"
| "scan_step ps InString c =
     (if c = dquote then ScanMore ps EndValue
      else if c = bslash then ScanMore ps InStringEsc
      else if in_range 0 31 c then ScanError else ScanMore ps InString)"
| "scan_step ps InStringEsc c =
     (if c = CHR ''u'' then ScanMore ps (InStringEscU 4)
      else if unescape c \<noteq> None then ScanMore ps InString else ScanError)"
| "scan_step ps (InStringEscU n) c =
     (if is_hex c then ScanMore ps (if n \<le> 1 then InString else InStringEscU (n - 1)) else ScanError)"
| "scan_step ps Neg c = (if c = CHR ''0'' then ScanMore ps Zero else if is_digit c then ScanMore ps Digits else ScanError)"
| "scan_step ps Zero c = after_int ps c"
| "scan_step ps Digits c = (if is_digit c then ScanMore ps Digits else after_int ps c)"
| "scan_step ps Dot c = (if is_digit c then ScanMore ps DotDigits else ScanError)"
| "scan_step ps DotDigits c =
     (if is_digit c then ScanMore ps DotDigits
      else if c = CHR ''e'' \<or> c = CHR ''E'' then ScanMore ps Exp else end_value ps c)"
| "scan_step ps Exp c =
     (if c = CHR ''+'' \<or> c = CHR ''-'' then ScanMore ps ExpSign
      else if is_digit c then ScanMore ps ExpDigits else ScanError)"
| "scan_step ps ExpSign c = (if is_digit c then ScanMore ps ExpDigits else ScanError)"
| "scan_step ps ExpDigits c = (if is_digit c then ScanMore ps ExpDigits else end_value ps c)"
| "scan_step ps (Literal s) c =
     (case s of
        [] \<Rightarrow> end_value ps c
      | x # xs \<Rightarrow> if c \<noteq> x then ScanError else ScanMore ps (if xs = [] then EndValue else Literal xs))"

fun scan :: "parse list \<Rightarrow> scan_state \<Rightarrow> string \<Rightarrow> scan_result" where
  "scan ps st [] = ScanMore ps st"
| "scan ps st (c # s) = (case scan_step ps st c of ScanMore ps' st' \<Rightarrow> scan ps' st' s | r \<Rightarrow> r)"

definition scan_value :: "string \<Rightarrow> scan_result" where "scan_value s = scan [] BeginValue s"

section \<open>Reading one value of a capped body\<close>

datatype read_error = MaxBytesError | OtherError

text \<open>A request body: the bytes the client sends, and whether the connection fails after them.\<close>

record http_body =
  b_bytes :: bytes
  b_broken :: bool

definition is_container :: "json \<Rightarrow> bool" where
  "is_container j = (case j of JObj _ \<Rightarrow> True | JArr _ \<Rightarrow> True | _ \<Rightarrow> False)"

definition read_value :: "int \<Rightarrow> http_body \<Rightarrow> read_error + json" where
  "read_value cap b =
     (let seen = take (nat cap) (b_bytes b); over = nat cap < length (b_bytes b)
      in (case p_value (json_fuel seen) 0 seen of
            Some (j, rest) \<Rightarrow>
              if is_container j \<or> rest \<noteq> [] \<or> (\<not> over \<and> \<not> b_broken b) then Inr j
              else if over then Inl MaxBytesError else Inl OtherError
          | None \<Rightarrow>
              (case scan_value seen of
                 ScanMore _ _ \<Rightarrow> if over then Inl MaxBytesError else Inl OtherError
               | _ \<Rightarrow> Inl OtherError)))"

text \<open>Decoding the value into a struct: any mismatch is an error of the other kind.\<close>

definition decode_body ::
  "int \<Rightarrow> string list \<Rightarrow> (string \<Rightarrow> json \<Rightarrow> 'r \<Rightarrow> 'r option) \<Rightarrow> 'r \<Rightarrow> http_body \<Rightarrow> read_error + 'r" where
  "decode_body cap names upd r0 b =
     (case read_value cap b of
        Inl e \<Rightarrow> Inl e
      | Inr j \<Rightarrow> (case decode_struct names upd j r0 of None \<Rightarrow> Inl OtherError | Some r \<Rightarrow> Inr r))"

text \<open>
  A field of type \<^verbatim>\<open>[]byte\<close>: a base64 string, an array of numbers below 256, or \<^verbatim>\<open>null\<close>. A \<^verbatim>\<open>null\<close> element keeps the
  byte that was there.
\<close>

fun dec_byte_elems :: "json list \<Rightarrow> bytes \<Rightarrow> bytes option" where
  "dec_byte_elems [] old = Some []"
| "dec_byte_elems (j # js) old =
     (case (case j of
              JNum n \<Rightarrow> (case ParseUint n of Some v \<Rightarrow> if v < 256 then Some (byte (unat v)) else None | None \<Rightarrow> None)
            | JNull \<Rightarrow> Some (case old of [] \<Rightarrow> byte 0 | o1 # _ \<Rightarrow> o1)
            | _ \<Rightarrow> None) of
        None \<Rightarrow> None
      | Some b \<Rightarrow> map_option (Cons b) (dec_byte_elems js (drop 1 old)))"

definition dec_bytes :: "json \<Rightarrow> bytes \<Rightarrow> bytes option" where
  "dec_bytes j old =
     (case j of
        JStr s \<Rightarrow> StdEncoding_Decode s
      | JArr js \<Rightarrow> dec_byte_elems js old
      | JNull \<Rightarrow> Some []
      | _ \<Rightarrow> None)"

section \<open>A decoded slice is smaller than its text\<close>

text \<open>
  The weight of a value: the ASCII bytes of a string, two for each element of an array (itself and
  its separator), the members of an object together. A parser never gains weight on the text it
  consumes: an escape is longer than what it stands for, and the replacement of an invalid byte
  contains no ASCII byte.
\<close>

abbreviation ascii :: "string \<Rightarrow> nat" where "ascii s \<equiv> length (filter (in_range 0 127) s)"

fun weight :: "json \<Rightarrow> nat" where
  "weight (JStr s) = ascii s"
| "weight (JArr js) = 2 * length js"
| "weight (JObj ms) = sum_list (map (\<lambda>(k, v). weight v) ms)"
| "weight _ = 0"

lemma byte_not_ascii: "128 \<le> n \<Longrightarrow> n < 256 \<Longrightarrow> \<not> in_range 0 127 (byte n)"
  by (simp add: in_range_def of_char_byte)

lemma ascii_encode_rune: "r < 1114112 \<Longrightarrow> ascii (encode_rune r) \<le> 1"
proof -
  assume r: "r < 1114112"
  consider "r < 128" | "128 \<le> r" "r < 2048" | "2048 \<le> r" "r < 65536" | "65536 \<le> r" by linarith
  then show ?thesis
  proof cases
    case 4
    then have "r div 262144 < 16" using r by simp
    with 4 show ?thesis by (simp add: encode_rune_def byte_not_ascii)
  qed (simp_all add: encode_rune_def byte_not_ascii less_mult_imp_div_less)
qed

lemma ascii_rune_error: "ascii rune_error = 0"
  by (simp add: rune_error_def in_range_def)

lemma hex_val_less: "is_hex c \<Longrightarrow> hex_val c < 16"
  by (auto simp: is_hex_def hex_val_def in_range_def)

lemma hex_str_val_less: "list_all is_hex s \<Longrightarrow> hex_str_val s < 16 ^ length s"
proof (induction s rule: rev_induct)
  case (snoc c s)
  then have "hex_str_val s < 16 ^ length s" "hex_val c < 16" using hex_val_less by auto
  then show ?case by (simp add: hex_str_val_def)
qed (simp add: hex_str_val_def)

lemma get_u4_less: "get_u4 s = Some r \<Longrightarrow> r < 65536 \<and> 4 \<le> length s"
  using hex_str_val_less [of "take 4 s"] by (auto simp: get_u4_def split: if_splits)

lemma ascii_escaped_rune:
  assumes "r < 65536"
  shows "ascii (fst (escaped_rune r s)) \<le> 1 \<and> snd (escaped_rune r s) \<le> length s"
proof -
  have sur: "r < 56320 \<Longrightarrow> r2 < 57344 \<Longrightarrow> 65536 + (r - 55296) * 1024 + (r2 - 56320) < 1114112" for r2
    by simp
  show ?thesis
  proof (cases "is_surrogate r \<and> take 2 s = [bslash, CHR ''u''] \<and> get_u4 (drop 2 s) \<noteq> None")
    case True
    then obtain r2 where r2: "get_u4 (drop 2 s) = Some r2" by blast
    have "4 \<le> length (drop 2 s)" using get_u4_less [OF r2] by blast
    then have "6 \<le> length s" unfolding length_drop by linarith
    with True r2 sur [of r2] show ?thesis
      using ascii_encode_rune [of "65536 + (r - 55296) * 1024 + (r2 - 56320)"]
      by (auto simp: escaped_rune_def ascii_rune_error)
  next
    case False
    then show ?thesis using ascii_encode_rune [of r] assms
      by (auto simp: escaped_rune_def ascii_rune_error split: option.splits)
  qed
qed

lemma prepend_ascii:
  assumes "prepend p q = Some (v, t)" "ascii p \<le> k" "\<And>v'. q = Some (v', t) \<Longrightarrow> ascii v' + length t + k \<le> n"
  shows "ascii v + length t \<le> n"
  using assms by (auto simp: prepend_Some)

lemma p_string_ascii: "p_string s = Some (v, t) \<Longrightarrow> ascii v + length t \<le> length s"
proof (induction s arbitrary: v t rule: p_string.induct)
  case (1 s)
  show ?case
  proof (cases s)
    case Nil
    with "1.prems" show ?thesis by (simp add: p_string.simps [of "[]"])
  next
    case (Cons c u)
    note eq = "1.prems" [unfolded p_string.simps [of s], unfolded Cons list.case]
    consider (closing) "c = dquote" | (escape) "c = bslash" | (plain) "c \<noteq> dquote" "c \<noteq> bslash" by blast
    then show ?thesis
    proof cases
      case closing
      with eq Cons show ?thesis by simp
    next
      case escape
      with eq obtain e w where u: "u = e # w" by (auto split: list.splits)
      show ?thesis
      proof (cases "e = CHR ''u''")
        case True
        with eq escape u obtain r where r: "get_u4 w = Some r"
          and p: "prepend (fst (escaped_rune r (drop 4 w)))
            (p_string (drop (4 + snd (escaped_rune r (drop 4 w))) w)) = Some (v, t)"
          by (auto split: option.splits)
        let ?x = "escaped_rune r (drop 4 w)"
        have b: "ascii (fst ?x) \<le> 1" "snd ?x \<le> length (drop 4 w)" "4 \<le> length w"
          using ascii_escaped_rune get_u4_less [OF r] by blast+
        show ?thesis
        proof (rule prepend_ascii [OF p b(1)])
          fix v' assume "p_string (drop (4 + snd ?x) w) = Some (v', t)"
          with "1.IH"(1) [OF Cons _ escape u True r] escape True have "ascii v' + length t \<le> length (drop (4 + snd ?x) w)"
            by auto
          with Cons u b show "ascii v' + length t + 1 \<le> length s" by simp
        qed
      next
        case False
        with eq escape u obtain x where x: "unescape e = Some x" "prepend [x] (p_string w) = Some (v, t)"
          by (auto split: option.splits)
        show ?thesis
        proof (rule prepend_ascii [OF x(2), of 1])
          fix v' assume "p_string w = Some (v', t)"
          with "1.IH"(2) [OF Cons _ escape u False x(1)] escape have "ascii v' + length t \<le> length w" by auto
          with Cons u show "ascii v' + length t + 1 \<le> length s" by simp
        qed simp
      qed
    next
      case plain
      show ?thesis
      proof (cases "utf8_len s = 0")
        case True
        with eq plain Cons have p: "prepend rune_error (p_string u) = Some (v, t)" by (simp split: if_splits)
        have "\<not> in_range 0 31 c" using eq plain by (auto split: if_splits)
        with "1.IH"(3) [OF Cons plain _ True] p Cons show ?thesis
          by (intro prepend_ascii [OF p, of 0]) (auto simp: ascii_rune_error intro: le_SucI)
      next
        case False
        with eq plain Cons have p: "prepend (take (utf8_len s) s) (p_string (drop (utf8_len s) s)) = Some (v, t)"
          by (simp split: if_splits)
        have "\<not> in_range 0 31 c" using eq plain by (auto split: if_splits)
        with "1.IH"(4) [OF Cons plain _ False] have ih: "ascii v' + length t \<le> length s - utf8_len s"
          if "p_string (drop (utf8_len s) s) = Some (v', t)" for v' using that by simp
        have "ascii (take (utf8_len s) s) \<le> utf8_len s"
          by (metis length_filter_le length_take min.bounded_iff)
        then show ?thesis
          using ih utf8_len_le [of s] by (intro prepend_ascii [OF p]) fastforce+
      qed
    qed
  qed
qed

lemma weight_empty: "weight (JObj []) = 0"
  by simp

lemma p_value_weight:
  "p_value f d s = Some (v, r) \<Longrightarrow> weight v + length r < length s"
  "p_elems f d s = Some (vs, r) \<Longrightarrow> 2 * length vs + length r \<le> length s"
  "p_members f d s = Some (ms, r) \<Longrightarrow> weight (JObj ms) + length r < length s"
proof (induction f d s and f d s and f d s arbitrary: v r and vs r and ms r
    rule: p_value_p_elems_p_members.induct)
  case (2 f d s)
  have w: "length (skip_ws s) \<le> length s" by (rule skip_ws_length)
  from "2.prems" obtain c t where ct: "skip_ws s = c # t" by (auto split: list.splits)
  have "weight v + length r < length (c # t)"
    using "2.prems" ct "2.IH" [OF ct]
    by (auto split: if_splits option.splits simp del: weight.simps(3) simp: weight_empty
        dest!: p_string_ascii strip_length p_number_length expect_length)
  with w ct show ?case by simp
next
  case (4 f d s)
  from "4.prems" obtain v q where v: "p_value f d s = Some (v, q)" by (auto split: option.splits)
  have q: "length q < length s" using p_value_length(1) [OF v] .
  with "4.prems" v "4.IH"(2) [OF v] show ?case
    by (fastforce split: option.splits dest: expect_length)
next
  case (6 f d s)
  from "6.prems" obtain u k q where u: "expect dquote s = Some u" "p_string u = Some (k, q)"
    by (auto split: option.splits bind_splits)
  then have q: "length q < length s" using expect_length p_string_length less_trans by blast
  have b: "Option.bind (expect dquote s) p_string = Some (k, q)" using u by simp
  from "6.prems" b obtain w v x where w: "expect (CHR '':'') q = Some w" "p_value f d w = Some (v, x)"
    by (auto split: option.splits bind_splits)
  have "weight v + length x < length w" using "6.IH"(1) [OF b refl] w by auto
  with q w have x: "weight v + length x < length s" by (auto dest!: expect_length)
  have bw: "Option.bind (expect (CHR '':'') q) (p_value f d) = Some (v, x)" using w by simp
  show ?case
  proof (cases "expect (CHR '','') x")
    case None
    with "6.prems" b bw x show ?thesis by (auto dest: expect_length)
  next
    case (Some y)
    with "6.prems" b bw obtain ms' where "p_members f d y = Some (ms', r)" "ms = (k, v) # ms'" by auto
    with "6.IH"(2) [OF b refl bw refl Some] x Some show ?thesis by (auto dest!: expect_length)
  qed
qed simp_all

text \<open>A slice of \<open>n\<close> bytes needs a value of weight at least four thirds of \<open>n\<close>.\<close>

lemma b64_alphabet_ascii: "list_all (in_range 0 127) (b64_alphabet url)"
  by (cases url) (simp_all add: b64_alphabet_def in_range_def)

lemma b64_val_ascii: "b64_val url c = Some n \<Longrightarrow> in_range 0 127 c"
  using b64_alphabet_ascii [of url]
  by (auto simp: b64_val_def list_all_iff dest!: map_of_SomeD set_zip_leftD)

lemma groups_ascii: "b64_groups url pad s = Some bs \<Longrightarrow> list_all (in_range 0 127) s"
proof (induction url pad s arbitrary: bs rule: b64_groups.induct)
  case (5 url pad a b c e rest)
  then show ?case
    by (auto simp: sextets_def in_range_def [of 0 127 "CHR ''=''"] dest!: b64_val_ascii split: if_splits option.splits)
qed (auto simp: sextets_def dest!: b64_val_ascii split: if_splits option.splits)

lemma b64_ascii: "b64_decode url pad s = Some bs \<Longrightarrow> ascii s = length s"
proof -
  assume "b64_decode url pad s = Some bs"
  then have "list_all (in_range 0 127) (filter (\<lambda>c. c \<noteq> CHR 0x0A \<and> c \<noteq> CHR 0x0D) s)"
    unfolding b64_decode_def by (rule groups_ascii)
  then have "\<forall>c\<in>set s. in_range 0 127 c" by (auto simp: list_all_iff in_range_def)
  then show ?thesis by (simp add: filter_id_conv)
qed

lemma dec_byte_elems_length: "dec_byte_elems js old = Some bs \<Longrightarrow> length bs = length js"
  by (induction js old arbitrary: bs rule: dec_byte_elems.induct)
    (auto split: option.splits json.splits if_splits)

lemma dec_bytes_weight: "dec_bytes j old = Some bs \<Longrightarrow> 4 * length bs \<le> 3 * weight j"
  by (auto simp: dec_bytes_def b64_ascii dest: b64_length dec_byte_elems_length split: json.splits)

text \<open>
  The decoder of a capped body therefore never fills a byte field with more than three quarters of the
  cap: every member of the struct comes from a member of the object, or keeps its zero value.
\<close>

lemma read_value_weight: "read_value cap b = Inr j \<Longrightarrow> weight j \<le> nat cap"
proof -
  assume "read_value cap b = Inr j"
  then obtain rest where "p_value (json_fuel (take (nat cap) (b_bytes b))) 0 (take (nat cap) (b_bytes b)) = Some (j, rest)"
    by (auto simp: read_value_def Let_def split: option.splits if_splits scan_result.splits)
  from p_value_weight(1) [OF this] show ?thesis by simp
qed

lemma decode_members_invariant:
  assumes "decode_members names upd ms r = Some r'" "P r"
    and "\<And>k v f r1 r2. (k, v) \<in> set ms \<Longrightarrow> match_field names k = Some f \<Longrightarrow> upd f v r1 = Some r2 \<Longrightarrow> P r1 \<Longrightarrow> P r2"
  shows "P r'"
  using assms
proof (induction names upd ms r rule: decode_members.induct)
  case (2 names upd k v ms r)
  show ?case
  proof (cases "match_field names k")
    case None
    with "2.prems"(1) have "decode_members names upd ms r = Some r'" by simp
    then show ?thesis using "2.prems"(2,3) by (rule "2.IH"(1) [OF None]) auto
  next
    case (Some f)
    with "2.prems"(1) obtain r1 where r1: "upd f v r = Some r1" "decode_members names upd ms r1 = Some r'"
      by (auto split: option.splits)
    have "P r1" using "2.prems"(3) [OF _ Some r1(1) "2.prems"(2)] by simp
    with r1(2) show ?thesis by (rule "2.IH"(2) [OF Some r1(1)]) (auto intro: "2.prems"(3))
  qed
qed simp

lemma member_weight: "(k, v) \<in> set ms \<Longrightarrow> weight v \<le> weight (JObj ms)"
  using member_le_sum_list [of "weight v" "map (\<lambda>(k, v). weight v) ms"] by force

lemma decode_body_bytes:
  assumes "decode_body cap names upd r0 b = Inr r" "get r0 = []"
    and "\<And>f v r1 r2. upd f v r1 = Some r2 \<Longrightarrow> get r2 = get r1 \<or> dec_bytes v (get r1) = Some (get r2)"
  shows "4 * length (get r) \<le> 3 * nat cap"
proof -
  from assms(1) obtain j where j: "read_value cap b = Inr j" "decode_struct names upd j r0 = Some r"
    by (auto simp: decode_body_def split: sum.splits option.splits)
  show ?thesis
  proof (cases "\<exists>ms. j = JObj ms")
    case True
    then obtain ms where ms: "j = JObj ms" by blast
    with j(2) have "decode_members names upd ms r0 = Some r" by (simp add: decode_struct_def)
    then show ?thesis
    proof (rule decode_members_invariant [where P = "\<lambda>r. 4 * length (get r) \<le> 3 * nat cap"])
      fix k v f r1 r2
      assume m: "(k, v) \<in> set ms" "upd f v r1 = Some r2" "4 * length (get r1) \<le> 3 * nat cap"
      have "weight v \<le> nat cap"
        using member_weight [OF m(1)] read_value_weight [OF j(1)] ms by (meson order_trans)
      with m(3) assms(3) [OF m(2)] dec_bytes_weight show "4 * length (get r2) \<le> 3 * nat cap"
        by (metis mult_le_mono2 order_trans)
    qed (simp add: assms(2))
  next
    case False
    with j(2) assms(2) show ?thesis by (auto simp: decode_struct_def split: json.splits)
  qed
qed

end
