(* ===== verification/Go_Encode.thy ===== *)
theory Go_Encode
  imports Go_Stream
begin

text \<open>
  The JSON writer of \<^verbatim>\<open>encoding/json\<close> on whole values, \<open>json_text\<close>, and its round trip with the readers of
  \<open>Go_Json\<close> and \<open>Go_Stream\<close>: \<open>json_text_reads\<close> for a value inside another, \<open>json_text_unmarshal\<close> for a document and
  \<open>json_text_body\<close> for a streamed body. An object's members are in the order of the list, which is the order of the fields for a
  struct and sorted for a map.

  Then the text of an instant, \<^verbatim>\<open>time.RFC3339Nano\<close>, in a zone given by its offset in seconds.
\<close>

section \<open>Writing a value\<close>

fun commas :: "string list \<Rightarrow> string" where
  "commas [] = []"
| "commas [t] = t"
| "commas (t # ts) = t @ CHR '','' # commas ts"

fun json_text :: "json \<Rightarrow> string" where
  "json_text JNull = ''null''"
| "json_text (JBool b) = (if b then ''true'' else ''false'')"
| "json_text (JNum n) = n"
| "json_text (JStr s) = json_quote s"
| "json_text (JArr js) = CHR ''['' # commas (map json_text js) @ [CHR '']'']"
| "json_text (JObj ms) = object_text (map (\<lambda>(k, v). (k, json_text v)) ms)"

text \<open>\<^verbatim>\<open>Encoder.Encode\<close> ends the value with a newline.\<close>

definition encode_line :: "json \<Rightarrow> string" where
  "encode_line j = json_text j @ [CHR 0x0A]"

text \<open>The values a writer produces: valid UTF-8, integers, and nested at most so deep.\<close>

fun fits :: "nat \<Rightarrow> json \<Rightarrow> bool" where
  "fits n JNull \<longleftrightarrow> True"
| "fits n (JBool b) \<longleftrightarrow> True"
| "fits n (JNum s) \<longleftrightarrow> (\<exists>i. s = FormatInt 10 i)"
| "fits n (JStr s) \<longleftrightarrow> valid_utf8 s"
| "fits n (JArr js) \<longleftrightarrow> n > 0 \<and> (\<forall>j \<in> set js. fits (n - 1) j)"
| "fits n (JObj ms) \<longleftrightarrow> n > 0 \<and> (\<forall>(k, v) \<in> set ms. valid_utf8 k \<and> fits (n - 1) v)"

lemma fits_num: "fits n (JNum (show_nat i))"
  by (auto simp: FormatInt_10 intro!: exI [of _ "int i"])

section \<open>Reading it back\<close>

lemma reads_null: "reads_at D ''null'' JNull"
  by (rule readsI) (simp add: skip_ws_def is_ws_def strip_def has_prefix_def)

lemma commas_Cons: "ts \<noteq> [] \<Longrightarrow> commas (t # ts) = t @ CHR '','' # commas ts"
  by (cases ts) simp_all

lemma p_elems_commas:
  assumes "es \<noteq> []" "\<forall>(t, v) \<in> set es. reads_at D t v" "d < D" "2 * length (commas (map fst es)) + 2 \<le> f"
  shows "p_elems f d (commas (map fst es) @ CHR '']'' # rest) = Some (map snd es, rest)"
  using assms(1,2,4)
proof (induction es arbitrary: f rule: list_nonempty_induct)
  case (single e)
  obtain t v where e: "e = (t, v)" by (cases e)
  with single obtain g where f: "f = Suc g" "2 * length t + 1 \<le> g" by (cases f) auto
  have "p_value g d (t @ CHR '']'' # rest) = Some (v, CHR '']'' # rest)"
    using single.prems(1) e f(2) assms(3) by (auto simp: reads_at_def ends_value_def)
  with e f show ?case by (simp add: expect_here expect_other is_ws_def del: p_value.simps)
next
  case (cons e es)
  obtain t v where e: "e = (t, v)" by (cases e)
  have c: "commas (map fst (e # es)) = t @ CHR '','' # commas (map fst es)" using cons.hyps e by (simp add: commas_Cons)
  obtain g where f: "f = Suc g" "2 * length t + 1 \<le> g" "2 * length (commas (map fst es)) + 2 \<le> g"
    using cons.prems(2) unfolding c by (cases f) auto
  have "p_value g d (t @ CHR '','' # r) = Some (v, CHR '','' # r)" for r
    using cons.prems(1) e f(2) assms(3) by (auto simp: reads_at_def ends_value_def)
  moreover have "p_elems g d (commas (map fst es) @ CHR '']'' # rest) = Some (map snd es, rest)"
    using cons.IH [OF _ f(3)] cons.prems(1) by simp
  ultimately show ?case unfolding c f(1) using e by (simp add: expect_here is_ws_def del: p_value.simps)
qed

lemma p_value_not_close:
  assumes "p_value f d s = Some x"
  shows "expect (CHR '']'') s = None"
proof (rule ccontr)
  assume "expect (CHR '']'') s \<noteq> None"
  then obtain r where r: "skip_ws s = CHR '']'' # r" by (cases "skip_ws s") (auto simp: expect_def eat_def split: if_splits)
  have "p_digits (CHR '']'' # r) = None" by (simp add: p_digits_def is_digit_iff)
  then have "p_number (CHR '']'' # r) = None" by (simp add: p_number_def p_int_def eat_def prepend_def)
  with r have "p_value (Suc g) d s = None" for g by simp
  with assms show False by (cases f) (simp_all del: p_value.simps(2))
qed

lemma p_elems_not_close: "p_elems f d s = Some x \<Longrightarrow> expect (CHR '']'') s = None"
  by (cases f) (auto dest: p_value_not_close simp del: p_value.simps split: option.splits)

lemma reads_elems:
  assumes "\<forall>(t, v) \<in> set es. reads_at (Suc D) t v" "D \<le> max_depth"
  shows "reads_at D (CHR ''['' # commas (map fst es) @ [CHR '']'']) (JArr (map snd es))"
proof (cases "es = []")
  case True
  then show ?thesis using reads_no_strings [OF assms(2)] by simp
next
  case False
  show ?thesis
  proof (rule readsI)
    fix f d c rest
    let ?s = "commas (map fst es)"
    assume f: "2 * length (CHR ''['' # ?s @ [CHR '']'']) \<le> f" and d: "d < D"
    have e: "p_elems f (Suc d) (?s @ CHR '']'' # c # rest) = Some (map snd es, c # rest)"
      using f d by (intro p_elems_commas [OF False assms(1)]) simp_all
    from e p_elems_not_close [OF e]
    show "p_value (Suc f) d ((CHR ''['' # ?s @ [CHR '']'']) @ c # rest) = Some (JArr (map snd es), c # rest)"
      using d assms(2) by (simp add: skip_ws_def is_ws_def del: p_elems.simps)
  qed
qed

lemma reads_empty_object: "D \<le> max_depth \<Longrightarrow> reads_at D (object_text []) (JObj [])"
  by (rule readsI) (simp add: object_text_def skip_ws_def is_ws_def expect_def eat_def)

theorem json_text_reads: "fits n j \<Longrightarrow> D + n \<le> max_depth \<Longrightarrow> reads_at D (json_text j) j"
proof (induction j arbitrary: n D rule: json_text.induct)
  case (5 js)
  let ?es = "map (\<lambda>j. (json_text j, j)) js"
  have "\<forall>(t, v) \<in> set ?es. reads_at (Suc D) t v"
  proof (clarsimp)
    fix j assume j: "j \<in> set js"
    then have "fits (n - 1) j" "Suc D + (n - 1) \<le> max_depth" using 5 by auto
    with 5(1) [OF j] show "reads_at (Suc D) (json_text j) j" .
  qed
  from reads_elems [OF this] 5 show ?case by (simp add: comp_def)
next
  case (6 ms)
  let ?es = "map (\<lambda>(k, v). (k, json_text v, v)) ms"
  show ?case
  proof (cases "ms = []")
    case True
    then show ?thesis using reads_empty_object 6 by simp
  next
    case False
    have all: "\<forall>(k, t, v) \<in> set ?es. valid_utf8 k \<and> reads_at (Suc D) t v"
    proof (clarsimp)
      fix k v assume m: "(k, v) \<in> set ms"
      then have "fits (n - 1) v" "valid_utf8 k" "Suc D + (n - 1) \<le> max_depth" using 6 by auto
      with 6(1) [OF m refl] show "valid_utf8 k \<and> reads_at (Suc D) (json_text v) v" by simp
    qed
    have es: "map (\<lambda>(k, t, v). (k, t)) ?es = map (\<lambda>(k, v). (k, json_text v)) ms" "map (\<lambda>(k, t, v). (k, v)) ?es = ms"
      by (induction ms) auto
    have "?es \<noteq> []" "D \<le> max_depth" using False 6 by simp_all
    from reads_object [OF this(1) all this(2)] show ?thesis unfolding es json_text.simps .
  qed
qed (auto intro: reads_null reads_true reads_false reads_FormatInt reads_quote)

text \<open>A whole document, and a document on a stream.\<close>

lemma readsD:
  "reads_at D t v \<Longrightarrow> 2 * length t + 1 \<le> f \<Longrightarrow> d < D \<Longrightarrow> ends_value c \<Longrightarrow> p_value f d (t @ c # rest) = Some (v, c # rest)"
  by (simp add: reads_at_def)

lemma json_line_value:
  assumes "fits n j" "n < max_depth"
  shows "p_value (json_fuel (encode_line j)) 0 (encode_line j) = Some (j, [CHR 0x0A])"
  unfolding encode_line_def
proof (rule readsD)
  show "reads_at 1 (json_text j) j" using assms by (intro json_text_reads [OF assms(1)]) simp
qed (simp_all add: json_fuel_def ends_value_def)

lemma json_line_unmarshal: "fits n j \<Longrightarrow> n < max_depth \<Longrightarrow> json_unmarshal (encode_line j) = Some j"
  by (simp add: json_unmarshal_def json_line_value skip_ws_def is_ws_def)

lemma json_line_body:
  assumes "fits n j" "n < max_depth" "int (length (encode_line j)) \<le> cap"
  shows "read_value cap \<lparr>b_bytes = encode_line j, b_broken = False\<rparr> = Inr j"
proof -
  have "take (nat cap) (encode_line j) = encode_line j" using assms(3) by simp
  then show ?thesis by (simp add: read_value_def Let_def json_line_value [OF assms(1,2)])
qed

lemma json_text_unmarshal:
  assumes "fits n (JObj ms)" "ms \<noteq> []" "n < max_depth"
  shows "json_unmarshal (json_text (JObj ms)) = Some (JObj ms)"
    and "int (length (json_text (JObj ms))) \<le> cap \<Longrightarrow>
      read_value cap \<lparr>b_bytes = json_text (JObj ms), b_broken = b\<rparr> = Inr (JObj ms)"
proof -
  let ?es = "map (\<lambda>(k, v). (k, json_text v, v)) ms" and ?s = "json_text (JObj ms)"
  have all: "\<forall>(k, t, v) \<in> set ?es. valid_utf8 k \<and> reads_at 2 t v"
  proof (clarsimp)
    fix k v assume m: "(k, v) \<in> set ms"
    then have f: "fits (n - 1) v" "valid_utf8 k" "2 + (n - 1) \<le> max_depth" using assms by auto
    then show "valid_utf8 k \<and> reads_at 2 (json_text v) v" using json_text_reads [OF f(1,3)] by simp
  qed
  have es: "map (\<lambda>(k, t, v). (k, t)) ?es = map (\<lambda>(k, v). (k, json_text v)) ms" "map (\<lambda>(k, t, v). (k, v)) ?es = ms"
    by (induction ms) auto
  have "?es \<noteq> []" using assms(2) by simp
  from object_text_value [OF this all] have v: "p_value (json_fuel ?s) 0 ?s = Some (JObj ms, [])"
    unfolding es by simp
  then show "json_unmarshal ?s = Some (JObj ms)" by (simp add: json_unmarshal_def skip_ws_def)
  assume "int (length ?s) \<le> cap"
  then have "take (nat cap) ?s = ?s" by simp
  then show "read_value cap \<lparr>b_bytes = ?s, b_broken = b\<rparr> = Inr (JObj ms)"
    by (simp add: read_value_def Let_def v is_container_def del: json_text.simps)
qed

section \<open>Base64 in a string\<close>

text \<open>The characters a quoted string carries as they are.\<close>

definition plain_char :: "char \<Rightarrow> bool" where
  "plain_char c \<longleftrightarrow> in_range 32 126 c \<and> c \<notin> set [dquote, bslash, CHR ''<'', CHR ''>'', CHR ''&'']"

lemma plain_char_ascii: "plain_char c \<Longrightarrow> in_range 0 127 c"
  by (simp add: plain_char_def in_range_def)

lemma plain_char_escape: "plain_char c \<Longrightarrow> escape_byte c = [c]"
proof -
  assume c: "plain_char c"
  then have "\<not> of_char c < (32 :: nat)" by (simp add: plain_char_def in_range_def)
  then have "c \<noteq> CHR 0x08" "c \<noteq> CHR 0x0C" "c \<noteq> CHR 0x0A" "c \<noteq> CHR 0x0D" "c \<noteq> CHR 0x09" "\<not> in_range 0 31 c"
    by (auto simp: in_range_def)
  with c show ?thesis by (simp add: plain_char_def escape_byte_def)
qed

lemma quote_body_plain: "list_all plain_char s \<Longrightarrow> quote_body s = s"
proof (induction s)
  case (Cons c s)
  then have "plain_char c" by simp
  then have "in_range 0 127 c" "escape_byte c = [c]" by (rule plain_char_ascii, rule plain_char_escape)
  then show ?case using Cons by (subst quote_body.simps) simp
qed (simp add: quote_body.simps)

lemma b64_char_plain: "n < 64 \<Longrightarrow> plain_char (b64_char url n)"
proof -
  have "list_all (\<lambda>n. plain_char (b64_char True n) \<and> plain_char (b64_char False n)) [0..<64]" by code_simp
  then show "n < 64 \<Longrightarrow> plain_char (b64_char url n)" by (cases url) (auto simp: list_all_iff)
qed

lemma b64_encode_plain: "list_all plain_char (b64_encode url pad bs)"
proof -
  have "plain_char (CHR ''='')" by code_simp
  then show ?thesis
    by (induction url pad bs rule: b64_encode.induct) (simp_all add: b64_char_plain sextet_bounds)
qed

lemma b64_encode_valid: "valid_utf8 (b64_encode url pad bs)"
  using list.pred_mono_strong [OF b64_encode_plain plain_char_ascii] by (rule valid_utf8_ascii)

lemma b64_encode_length: "length (b64_encode url True bs) = 4 * ((length bs + 2) div 3)"
proof -
  have "(5 + n) div 3 = Suc ((2 + n) div 3)" for n :: nat by presburger
  then show ?thesis by (induction url True bs rule: b64_encode.induct) (simp_all add: add.commute)
qed

lemma json_quote_plain: "list_all plain_char s \<Longrightarrow> json_quote s = dquote # s @ [dquote]"
  by (simp add: json_quote_def quote_body_plain)

lemmas json_quote_b64 = json_quote_plain [OF b64_encode_plain]

section \<open>The text of an instant\<close>

text \<open>The date of a day counted from 1 January 1970, in the proleptic Gregorian calendar.\<close>

definition civil :: "int \<Rightarrow> int \<times> int \<times> int" where
  "civil days =
     (let z = days + 719468; era = z div 146097; doe = z mod 146097;
          yoe = (doe - doe div 1460 + doe div 36524 - doe div 146096) div 365;
          doy = doe - (365 * yoe + yoe div 4 - yoe div 100);
          mp = (5 * doy + 2) div 153;
          m = (if mp < 10 then mp + 3 else mp - 9)
      in (yoe + era * 400 + (if m \<le> 2 then 1 else 0), m, doy - (153 * mp + 2) div 5 + 1))"

abbreviation digits :: "nat \<Rightarrow> int \<Rightarrow> string" where "digits w n \<equiv> pad_left w (show_nat (nat n))"

definition year_of :: "int \<Rightarrow> time \<Rightarrow> int" where
  "year_of off t = fst (civil ((t div 1000000000 + off) div 86400))"

definition fraction :: "int \<Rightarrow> string" where
  "fraction ns = (if ns = 0 then '''' else CHR ''.'' # rev (dropWhile (\<lambda>c. c = CHR ''0'') (rev (digits 9 ns))))"

definition zone_text :: "int \<Rightarrow> string" where
  "zone_text off =
     (if off = 0 then ''Z''
      else let m = \<bar>off\<bar> div 60 in (if off < 0 then CHR ''-'' else CHR ''+'') # digits 2 (m div 60) @ CHR '':'' # digits 2 (m mod 60))"

definition RFC3339Nano :: "int \<Rightarrow> time \<Rightarrow> string" where
  "RFC3339Nano off t =
     (let s = t div 1000000000 + off; (y, m, d) = civil (s div 86400); r = s mod 86400
      in digits 4 y @ CHR ''-'' # digits 2 m @ CHR ''-'' # digits 2 d @ CHR ''T'' #
         digits 2 (r div 3600) @ CHR '':'' # digits 2 (r div 60 mod 60) @ CHR '':'' # digits 2 (r mod 60) @
         fraction (t mod 1000000000) @ zone_text off)"

text \<open>\<^verbatim>\<open>Time.MarshalJSON\<close> refuses years that do not have four digits and offsets of a day or more.\<close>

definition Time_MarshalJSON :: "int \<Rightarrow> time \<Rightarrow> json option" where
  "Time_MarshalJSON off t =
     (if 0 \<le> year_of off t \<and> year_of off t \<le> 9999 \<and> \<bar>off\<bar> < 86400 then Some (JStr (RFC3339Nano off t)) else None)"

abbreviation ascii_text :: "string \<Rightarrow> bool" where "ascii_text \<equiv> list_all (in_range 0 127)"

lemma digits_ascii: "ascii_text (digits w n)"
proof -
  have "list_all is_digit (digits w n)" by (rule pad_left_digits) simp
  then show ?thesis by (auto simp: list_all_iff is_digit_iff in_range_def)
qed

lemma fraction_ascii: "ascii_text (fraction ns)"
proof -
  have "set (rev (dropWhile (\<lambda>c. c = CHR ''0'') (rev (digits 9 ns)))) \<subseteq> set (digits 9 ns)"
    by (auto dest: set_dropWhileD)
  then show ?thesis using digits_ascii [of 9 ns] by (auto simp: fraction_def list_all_iff in_range_def)
qed

lemma RFC3339Nano_ascii: "ascii_text (RFC3339Nano off t)"
  using digits_ascii fraction_ascii
  by (simp add: RFC3339Nano_def zone_text_def Let_def in_range_def split: prod.split)

lemma RFC3339Nano_valid: "valid_utf8 (RFC3339Nano off t)"
  using RFC3339Nano_ascii by (rule valid_utf8_ascii)

end
