(* ===== verification/Relay_Suite.thy ===== *)
theory Relay_Suite
  imports Go_Encode "HOL-Library.State_Monad"
begin

text \<open>
  The conformance suite of \<^verbatim>\<open>src/conformance/conformance.go\<close>: a client of a relay and the assertions it makes. Like the package,
  this theory knows nothing of the server.

  \<^item> The world the suite runs in is the record \<open>lab\<close>, over a state the suite cannot look into: sending a request and reading its answer,
    the clock, sleeping, and a poll that is answered while a second request is made. The levers a harness may
    supply are fields of the \<open>target\<close>, absent ones being \<^const>\<open>None\<close>.
  \<^item> A function of the suite is an action of the state monad over the world and the results so far; \<open>ok\<close> appends one.
    Every section of \<^verbatim>\<open>Run\<close> is a definition of its own, in the order of the source. The sentence of detail under a result
    is not modelled.
  \<^item> The suite decodes answers with \<^verbatim>\<open>json.Unmarshal\<close> and drops its error: a field of the wrong type keeps its value and the others are
    still read. \<open>lax_struct\<close> is that reading, with the error as a flag.
\<close>

section \<open>Decoding with the error dropped\<close>

definition or_old :: "'a \<Rightarrow> 'a option \<Rightarrow> 'a \<times> bool" where
  "or_old old x = (case x of None \<Rightarrow> (old, False) | Some v \<Rightarrow> (v, True))"

fun lax_members :: "string list \<Rightarrow> (string \<Rightarrow> json \<Rightarrow> 'r \<Rightarrow> 'r \<times> bool) \<Rightarrow> (string \<times> json) list \<Rightarrow> 'r \<Rightarrow> 'r \<times> bool" where
  "lax_members names upd [] r = (r, True)"
| "lax_members names upd ((k, v) # ms) r =
     (case match_field names k of
        None \<Rightarrow> lax_members names upd ms r
      | Some f \<Rightarrow>
          let (r1, b1) = upd f v r; (r2, b2) = lax_members names upd ms r1
          in (r2, b1 \<and> b2))"

definition lax_struct :: "string list \<Rightarrow> (string \<Rightarrow> json \<Rightarrow> 'r \<Rightarrow> 'r \<times> bool) \<Rightarrow> json \<Rightarrow> 'r \<Rightarrow> 'r \<times> bool" where
  "lax_struct names upd j r =
     (case j of
        JNull \<Rightarrow> (r, True)
      | JObj ms \<Rightarrow> lax_members names upd ms r
      | _ \<Rightarrow> (r, False))"

text \<open>A slice: a new one for every array, its elements decoded one by one from the zero value.\<close>

fun lax_elems :: "(json \<Rightarrow> 'a \<Rightarrow> 'a \<times> bool) \<Rightarrow> 'a \<Rightarrow> json list \<Rightarrow> 'a list \<times> bool" where
  "lax_elems f zero [] = ([], True)"
| "lax_elems f zero (j # js) =
     (let (x, b1) = f j zero; (xs, b2) = lax_elems f zero js in (x # xs, b1 \<and> b2))"

definition lax_slice :: "(json \<Rightarrow> 'a \<Rightarrow> 'a \<times> bool) \<Rightarrow> 'a \<Rightarrow> json \<Rightarrow> 'a list \<Rightarrow> 'a list \<times> bool" where
  "lax_slice f zero j old =
     (case j of JNull \<Rightarrow> ([], True) | JArr js \<Rightarrow> lax_elems f zero js | _ \<Rightarrow> (old, False))"

definition lax_byte :: "json \<Rightarrow> char \<Rightarrow> char \<times> bool" where
  "lax_byte j old =
     (case j of
        JNum n \<Rightarrow> or_old old (case ParseUint n of Some v \<Rightarrow> if v < 256 then Some (byte (unat v)) else None | None \<Rightarrow> None)
      | JNull \<Rightarrow> (old, True)
      | _ \<Rightarrow> (old, False))"

definition lax_bytes :: "json \<Rightarrow> bytes \<Rightarrow> bytes \<times> bool" where
  "lax_bytes j old = (case j of JStr s \<Rightarrow> or_old old (StdEncoding_Decode s) | _ \<Rightarrow> lax_slice lax_byte (byte 0) j old)"

text \<open>A pointer to a boolean is allocated before the value is looked at.\<close>

definition lax_bool_ptr :: "json \<Rightarrow> bool option \<Rightarrow> bool option \<times> bool" where
  "lax_bool_ptr j old =
     (case j of
        JNull \<Rightarrow> (None, True)
      | JBool b \<Rightarrow> (Some b, True)
      | _ \<Rightarrow> (Some (case old of None \<Rightarrow> False | Some b \<Rightarrow> b), False))"

definition Unmarshal :: "(json \<Rightarrow> 'r \<Rightarrow> 'r \<times> bool) \<Rightarrow> string \<Rightarrow> 'r \<Rightarrow> 'r \<times> bool" where
  "Unmarshal f b r = (case json_unmarshal b of None \<Rightarrow> (r, False) | Some j \<Rightarrow> f j r)"

section \<open>The answers a client reads\<close>

record refusal_body =
  rf_Error :: string
  rf_Reason :: string

definition refusal_lax :: "json \<Rightarrow> refusal_body \<Rightarrow> refusal_body \<times> bool" where
  "refusal_lax = lax_struct [''error'', ''reason'']
     (\<lambda>f j r. if f = ''error'' then apfst (\<lambda>x. r\<lparr>rf_Error := x\<rparr>) (or_old (rf_Error r) (dec_string j (rf_Error r)))
              else apfst (\<lambda>x. r\<lparr>rf_Reason := x\<rparr>) (or_old (rf_Reason r) (dec_string j (rf_Reason r))))"

definition no_refusal :: refusal_body where "no_refusal = \<lparr>rf_Error = '''', rf_Reason = ''''\<rparr>"

record msg =
  ms_ID :: string
  ms_Seq :: u64
  ms_Body :: bytes

definition zero_msg :: msg where "zero_msg = \<lparr>ms_ID = '''', ms_Seq = 0, ms_Body = []\<rparr>"

definition msg_lax :: "json \<Rightarrow> msg \<Rightarrow> msg \<times> bool" where
  "msg_lax = lax_struct [''id'', ''seq'', ''body'']
     (\<lambda>f j r. if f = ''id'' then apfst (\<lambda>x. r\<lparr>ms_ID := x\<rparr>) (or_old (ms_ID r) (dec_string j (ms_ID r)))
              else if f = ''seq'' then apfst (\<lambda>x. r\<lparr>ms_Seq := x\<rparr>) (or_old (ms_Seq r) (dec_u64 j (ms_Seq r)))
              else apfst (\<lambda>x. r\<lparr>ms_Body := x\<rparr>) (lax_bytes j (ms_Body r)))"

definition msgs_lax :: "json \<Rightarrow> msg list \<Rightarrow> msg list \<times> bool" where
  "msgs_lax = lax_slice msg_lax zero_msg"

record leaseReply =
  lr_Lease :: string
  lr_Until :: string
  lr_Messages :: "msg list"

definition no_lease :: leaseReply where "no_lease = \<lparr>lr_Lease = '''', lr_Until = '''', lr_Messages = []\<rparr>"

definition lease_lax :: "json \<Rightarrow> leaseReply \<Rightarrow> leaseReply \<times> bool" where
  "lease_lax = lax_struct [''lease'', ''until'', ''messages'']
     (\<lambda>f j r. if f = ''lease'' then apfst (\<lambda>x. r\<lparr>lr_Lease := x\<rparr>) (or_old (lr_Lease r) (dec_string j (lr_Lease r)))
              else if f = ''until'' then apfst (\<lambda>x. r\<lparr>lr_Until := x\<rparr>) (or_old (lr_Until r) (dec_string j (lr_Until r)))
              else apfst (\<lambda>x. r\<lparr>lr_Messages := x\<rparr>) (msgs_lax j (lr_Messages r)))"

definition deleted_lax :: "json \<Rightarrow> int \<Rightarrow> int \<times> bool" where
  "deleted_lax = lax_struct [''deleted''] (\<lambda>f j n. or_old n (dec_i64 j n))"

record health_body =
  he_OK :: bool
  he_Version :: string
  he_Hash :: string
  he_Durable :: "bool option"

definition health_lax :: "json \<Rightarrow> health_body \<Rightarrow> health_body \<times> bool" where
  "health_lax = lax_struct [''ok'', ''version'', ''hash'', ''durable'']
     (\<lambda>f j r. if f = ''ok'' then apfst (\<lambda>x. r\<lparr>he_OK := x\<rparr>) (or_old (he_OK r) (dec_bool j (he_OK r)))
              else if f = ''version'' then apfst (\<lambda>x. r\<lparr>he_Version := x\<rparr>) (or_old (he_Version r) (dec_string j (he_Version r)))
              else if f = ''hash'' then apfst (\<lambda>x. r\<lparr>he_Hash := x\<rparr>) (or_old (he_Hash r) (dec_string j (he_Hash r)))
              else apfst (\<lambda>x. r\<lparr>he_Durable := x\<rparr>) (lax_bool_ptr j (he_Durable r)))"

record identity_body =
  id_Service :: string
  id_Implementation :: string
  id_Version :: string
  id_Source :: string

definition identity_lax :: "json \<Rightarrow> identity_body \<Rightarrow> identity_body \<times> bool" where
  "identity_lax = lax_struct [''service'', ''implementation'', ''version'', ''source'']
     (\<lambda>f j r. if f = ''service'' then apfst (\<lambda>x. r\<lparr>id_Service := x\<rparr>) (or_old (id_Service r) (dec_string j (id_Service r)))
              else if f = ''implementation''
              then apfst (\<lambda>x. r\<lparr>id_Implementation := x\<rparr>) (or_old (id_Implementation r) (dec_string j (id_Implementation r)))
              else if f = ''version'' then apfst (\<lambda>x. r\<lparr>id_Version := x\<rparr>) (or_old (id_Version r) (dec_string j (id_Version r)))
              else apfst (\<lambda>x. r\<lparr>id_Source := x\<rparr>) (or_old (id_Source r) (dec_string j (id_Source r))))"

section \<open>The world and the target\<close>

text \<open>A request as the client hands it to \<^verbatim>\<open>net/http\<close>, and the answer with its body read. A failed call is \<^const>\<open>None\<close>.\<close>

record creq =
  cq_method :: string
  cq_url :: string
  cq_Authorization :: "string option"
  cq_ContentType :: "string option"
  cq_Accept :: "string option"
  cq_body :: "string option"

record creply =
  cr_status :: nat
  cr_type :: string
  cr_body :: string

text \<open>
  \<open>Beside p dt q\<close> sends \<open>p\<close> from another goroutine, sleeps for \<open>dt\<close>, sends \<open>q\<close> and waits forty seconds for the answer to \<open>p\<close>; the
  first component is \<^const>\<open>None\<close> when none came.
\<close>

record 'w lab =
  lab_Do :: "creq \<Rightarrow> 'w \<Rightarrow> creply option \<times> 'w"
  lab_Now :: "'w \<Rightarrow> time \<times> 'w"
  lab_Sleep :: "duration \<Rightarrow> 'w \<Rightarrow> 'w"
  lab_Beside :: "creq \<Rightarrow> duration \<Rightarrow> creq \<Rightarrow> 'w \<Rightarrow> (creply option option \<times> creply option) \<times> 'w"

text \<open>
  \<open>tg_ControlPlane\<close> holds the lever that takes the authoriser away and the one that puts it back; \<open>tg_Disrupt\<close> answers whether the
  relay came back.
\<close>

record 'w target =
  tg_BaseURL :: string
  tg_Estate :: string
  tg_Station :: string
  tg_Control :: string
  tg_StationTok :: string
  tg_OtherEstate :: string
  tg_OtherControl :: string
  tg_ControlPlane :: "(('w \<Rightarrow> 'w) \<times> ('w \<Rightarrow> 'w)) option"
  tg_Tenancy :: bool
  tg_SignLease :: "(string \<Rightarrow> bytes) option"
  tg_AuthoriserSaw :: "('w \<Rightarrow> bytes) option"
  tg_Disrupt :: "('w \<Rightarrow> bool \<times> 'w) option"

record check_result =
  re_Name :: string
  re_OK :: bool
  re_Skipped :: bool

type_synonym ('w, 'a) act = "('w \<times> check_result list, 'a) state"

definition act :: "('w \<Rightarrow> 'a \<times> 'w) \<Rightarrow> ('w, 'a) act" where
  "act f = State (\<lambda>(w, out). let (x, w') = f w in (x, (w', out)))"

definition ok :: "string \<Rightarrow> bool \<Rightarrow> ('w, unit) act" where
  "ok name b = State (\<lambda>(w, out). ((), (w, out @ [\<lparr>re_Name = name, re_OK = b, re_Skipped = False\<rparr>])))"

definition skip :: "string \<Rightarrow> ('w, unit) act" where
  "skip name = State (\<lambda>(w, out). ((), (w, out @ [\<lparr>re_Name = name, re_OK = False, re_Skipped = True\<rparr>])))"

fun loop :: "('a \<Rightarrow> 'x \<Rightarrow> ('s, 'x) state) \<Rightarrow> 'a list \<Rightarrow> 'x \<Rightarrow> ('s, 'x) state" where
  "loop f [] x = State_Monad.return x"
| "loop f (a # as) x = do { y \<leftarrow> f a x; loop f as y }"

abbreviation done_with :: "'a \<Rightarrow> ('s, 'a) state" where "done_with \<equiv> State_Monad.return"

section \<open>The client\<close>

definition base_url :: "'w target \<Rightarrow> string" where
  "base_url t = rev (dropWhile (\<lambda>c. c = CHR ''/'') (rev (tg_BaseURL t)))"

definition target_url :: "'w target \<Rightarrow> string \<Rightarrow> string \<Rightarrow> string \<Rightarrow> string \<Rightarrow> string" where
  "target_url t estate station dir q =
     base_url t @ ''/v1/'' @ estate @ ''/'' @ station @ ''/'' @ dir @ (if q \<noteq> '''' then ''?'' @ q else '''')"

definition client_request :: "string \<Rightarrow> string \<Rightarrow> string \<Rightarrow> string option \<Rightarrow> creq" where
  "client_request meth url tok body =
     \<lparr>cq_method = meth, cq_url = url, cq_Authorization = (if tok \<noteq> '''' then Some (''Bearer '' @ tok) else None),
      cq_ContentType = Some ''application/json'', cq_Accept = None, cq_body = body\<rparr>"

definition target_do :: "'w lab \<Rightarrow> string \<Rightarrow> string \<Rightarrow> string \<Rightarrow> string option \<Rightarrow> ('w, creply option) act" where
  "target_do l meth url tok body = act (lab_Do l (client_request meth url tok body))"

text \<open>The body of a write: a map, so its keys are in order.\<close>

definition put_text :: "u64 \<Rightarrow> bytes \<Rightarrow> string" where
  "put_text seq body = json_text (JObj [(''body'', JStr (StdEncoding_Encode body)), (''seq'', JNum (show_nat (unat seq)))])"

definition putR ::
  "'w lab \<Rightarrow> 'w target \<Rightarrow> string \<Rightarrow> string \<Rightarrow> string \<Rightarrow> string \<Rightarrow> u64 \<Rightarrow> bytes \<Rightarrow> ('w, nat \<times> refusal_body) act" where
  "putR l t estate station dir tok seq body = do {
     r \<leftarrow> target_do l ''POST'' (target_url t estate station dir '''') tok (Some (put_text seq body));
     done_with (case r of
        None \<Rightarrow> (0, no_refusal)
      | Some r \<Rightarrow> (cr_status r, fst (Unmarshal refusal_lax (cr_body r) no_refusal))) }"

definition put :: "'w lab \<Rightarrow> 'w target \<Rightarrow> string \<Rightarrow> string \<Rightarrow> string \<Rightarrow> string \<Rightarrow> u64 \<Rightarrow> bytes \<Rightarrow> ('w, nat) act" where
  "put l t estate station dir tok seq body = do {
     (code, why) \<leftarrow> putR l t estate station dir tok seq body;
     done_with code }"

definition take_msgs :: "'w lab \<Rightarrow> 'w target \<Rightarrow> string \<Rightarrow> string \<Rightarrow> string \<Rightarrow> string \<Rightarrow> ('w, nat \<times> msg list) act" where
  "take_msgs l t estate station dir tok = do {
     r \<leftarrow> target_do l ''GET'' (target_url t estate station dir ''wait=0'') tok None;
     done_with (case r of
        None \<Rightarrow> (0, [])
      | Some r \<Rightarrow> (cr_status r, fst (Unmarshal msgs_lax (cr_body r) []))) }"

definition takeLeased ::
  "'w lab \<Rightarrow> 'w target \<Rightarrow> string \<Rightarrow> string \<Rightarrow> string \<Rightarrow> string \<Rightarrow> string \<Rightarrow> ('w, nat \<times> leaseReply) act" where
  "takeLeased l t estate station dir tok lease = do {
     r \<leftarrow> target_do l ''GET'' (target_url t estate station dir (''wait=0&lease='' @ lease)) tok None;
     done_with (case r of
        None \<Rightarrow> (0, no_lease)
      | Some r \<Rightarrow> (cr_status r, fst (Unmarshal lease_lax (cr_body r) no_lease))) }"

definition ack_text :: "string \<Rightarrow> string" where "ack_text lease = json_text (JObj [(''lease'', JStr lease)])"

definition target_ack ::
  "'w lab \<Rightarrow> 'w target \<Rightarrow> string \<Rightarrow> string \<Rightarrow> string \<Rightarrow> string \<Rightarrow> string \<Rightarrow> ('w, nat \<times> int) act" where
  "target_ack l t estate station dir tok lease = do {
     r \<leftarrow> target_do l ''POST'' (base_url t @ ''/v1/'' @ estate @ ''/'' @ station @ ''/'' @ dir @ ''/ack'') tok (Some (ack_text lease));
     done_with (case r of
        None \<Rightarrow> (0, 0)
      | Some r \<Rightarrow> (cr_status r, fst (Unmarshal deleted_lax (cr_body r) 0))) }"

section \<open>Fixtures\<close>

text \<open>Two customers under one estate.\<close>

definition TenantEstate :: string where "TenantEstate = ''e-tenancy''"
definition TenantAlpha :: string where "TenantAlpha = ''alpha-01''"
definition TenantBravo :: string where "TenantBravo = ''bravo-07''"
definition TenantAlphaControl :: string where "TenantAlphaControl = ''alpha-control-credential''"
definition TenantAlphaStation :: string where "TenantAlphaStation = ''alpha-station-credential''"
definition TenantBravoControl :: string where "TenantBravoControl = ''bravo-control-credential''"
definition TenantBravoStation :: string where "TenantBravoStation = ''bravo-station-credential''"
definition TenantWide :: string where "TenantWide = ''estate-wide-credential''"

text \<open>A lease in the wire format, the payload being a map with the fields that are not empty.\<close>

definition lease_members :: "string \<Rightarrow> string list \<Rightarrow> string list \<Rightarrow> string list \<Rightarrow> time \<Rightarrow> time \<Rightarrow> int \<Rightarrow> (string \<times> json) list" where
  "lease_members estate stations rd wr notBefore expires epoch =
     [(''e'', JStr estate)] @
     (if epoch \<noteq> 0 then [(''ep'', JNum (FormatInt 10 epoch))] else []) @
     [(''exp'', JNum (FormatInt 10 (unix_seconds expires))), (''nbf'', JNum (FormatInt 10 (unix_seconds notBefore)))] @
     (if rd \<noteq> [] then [(''r'', JArr (map JStr rd))] else []) @
     (if stations \<noteq> [] then [(''s'', JArr (map JStr stations))] else []) @
     (if wr \<noteq> [] then [(''w'', JArr (map JStr wr))] else [])"

definition suite_Lease ::
  "(string \<Rightarrow> bytes) \<Rightarrow> string \<Rightarrow> string list \<Rightarrow> string list \<Rightarrow> string list \<Rightarrow> time \<Rightarrow> time \<Rightarrow> int \<Rightarrow> string" where
  "suite_Lease sign estate stations rd wr notBefore expires epoch =
     (let body = RawURLEncoding_Encode (json_text (JObj (lease_members estate stations rd wr notBefore expires epoch)))
      in ''hl1.'' @ body @ ''.'' @ RawURLEncoding_Encode (sign body))"

section \<open>The sections of Run\<close>

subsection \<open>Health and identity\<close>

definition health_section :: "'w lab \<Rightarrow> 'w target \<Rightarrow> ('w, unit) act" where
  "health_section l t = do {
     r \<leftarrow> target_do l ''GET'' (base_url t @ ''/health'') '''' None;
     ok ''health answers without a token'' (case r of Some r \<Rightarrow> cr_status r = 200 | None \<Rightarrow> False);
     let (h, parsed) = (case r of
           Some r \<Rightarrow> Unmarshal health_lax (cr_body r) \<lparr>he_OK = False, he_Version = '''', he_Hash = '''', he_Durable = None\<rparr>
         | None \<Rightarrow> (\<lparr>he_OK = False, he_Version = '''', he_Hash = '''', he_Durable = None\<rparr>, False));
     ok ''health still says ok'' (parsed \<and> he_OK h);
     ok ''health names the version that is serving'' (parsed \<and> he_Version h \<noteq> '''');
     ok ''health names the hash of what is serving'' (parsed \<and> he_Hash h \<noteq> '''');
     ok ''health says whether this deployment is durable'' (parsed \<and> he_Durable h \<noteq> None) }"

definition identity_check :: "'w lab \<Rightarrow> 'w target \<Rightarrow> string \<Rightarrow> ('w, unit) act" where
  "identity_check l t path = do {
     r \<leftarrow> target_do l ''GET'' (base_url t @ path) '''' None;
     let (got, parsed) = (case r of
           Some r \<Rightarrow> Unmarshal identity_lax (cr_body r) \<lparr>id_Service = '''', id_Implementation = '''', id_Version = '''', id_Source = ''''\<rparr>
         | None \<Rightarrow> (\<lparr>id_Service = '''', id_Implementation = '''', id_Version = '''', id_Source = ''''\<rparr>, False));
     ok (path @ '' answers without a token'') (case r of Some r \<Rightarrow> cr_status r = 200 | None \<Rightarrow> False);
     ok (path @ '' names the service and the implementation'')
       (parsed \<and> id_Service got = ''heliograph-relay'' \<and> id_Implementation got \<noteq> '''');
     ok (path @ '' reports a version that is never blank'') (parsed \<and> id_Version got \<noteq> '''');
     ok (path @ '' points at the source'') (parsed \<and> id_Source got \<noteq> '''') }"

definition browser_request :: "'w target \<Rightarrow> creq" where
  "browser_request t = \<lparr>cq_method = ''GET'', cq_url = base_url t @ ''/'', cq_Authorization = None, cq_ContentType = None,
     cq_Accept = Some ''text/html,application/xhtml+xml,*/*;q=0.8'', cq_body = None\<rparr>"

definition identity_section :: "'w lab \<Rightarrow> 'w target \<Rightarrow> ('w, unit) act" where
  "identity_section l t = do {
     loop (\<lambda>path _. identity_check l t path) [''/'', ''/version''] ();
     r \<leftarrow> act (lab_Do l (browser_request t));
     ok ''/ gives a browser HTML rather than a file to download''
       (case r of Some r \<Rightarrow> has_prefix (cr_type r) ''text/html'' | None \<Rightarrow> False) }"

subsection \<open>A message goes in and comes back\<close>

definition sent_bytes :: bytes where
  "sent_bytes = [CHR 0x00, CHR 0xFF, CHR 0x7B, CHR 0x22, CHR 0x10] @ ''cipher'' @ [CHR 0xFE]"

definition message_section :: "'w lab \<Rightarrow> 'w target \<Rightarrow> string \<Rightarrow> ('w, unit) act" where
  "message_section l t uniq = do {
     code \<leftarrow> put l t (tg_Estate t) uniq ''c2s'' (tg_Control t) 1 sent_bytes;
     ok ''a control token may queue a request'' (code = 202);
     (code, got) \<leftarrow> take_msgs l t (tg_Estate t) uniq ''c2s'' (tg_StationTok t);
     ok ''a station token may collect it'' (code = 200);
     ok ''exactly one message came back'' (length got = 1);
     (case got of
        [m] \<Rightarrow> do {
          ok ''the body is byte-for-byte what was sent'' (ms_Body m = sent_bytes);
          ok ''the sequence number is unchanged'' (ms_Seq m = 1) }
      | _ \<Rightarrow> done_with ());
     (code, got) \<leftarrow> take_msgs l t (tg_Estate t) uniq ''c2s'' (tg_StationTok t);
     ok ''a collected message is not delivered twice'' (got = []) }"

definition split_section :: "'w lab \<Rightarrow> 'w target \<Rightarrow> string \<Rightarrow> ('w, unit) act" where
  "split_section l t uniq = do {
     code \<leftarrow> put l t (tg_Estate t) uniq ''c2s'' (tg_StationTok t) 2 ''evil'';
     ok ''a station token may NOT queue a request'' (code \<noteq> 202);
     code \<leftarrow> put l t (tg_Estate t) uniq ''s2c'' (tg_Control t) 2 ''fake status'';
     ok ''a control token may NOT publish a status'' (code \<noteq> 202);
     code \<leftarrow> put l t (tg_Estate t) uniq ''s2c'' (tg_StationTok t) 1 ''real status'';
     ok ''a station token may publish a status'' (code = 202);
     (code, got) \<leftarrow> take_msgs l t (tg_Estate t) uniq ''s2c'' (tg_Control t);
     ok ''a control token may read a status'' (code = 200 \<and> length got = 1) }"

subsection \<open>Refusals\<close>

definition wrong_token :: string where "wrong_token = ''definitely-not-the-token''"

definition credential_section :: "'w lab \<Rightarrow> 'w target \<Rightarrow> string \<Rightarrow> ('w, unit) act" where
  "credential_section l t uniq = do {
     code \<leftarrow> put l t (tg_Estate t) uniq ''c2s'' '''' 3 ''x'';
     ok ''a put with no token is refused'' (code = 401);
     (code, got) \<leftarrow> take_msgs l t (tg_Estate t) uniq ''c2s'' '''';
     ok ''a get with no token is refused'' (code = 401);
     code \<leftarrow> put l t (tg_Estate t) uniq ''c2s'' wrong_token 3 ''x'';
     ok ''a put with a wrong token is refused'' (code = 401) }"

definition reason_section :: "'w lab \<Rightarrow> 'w target \<Rightarrow> string \<Rightarrow> ('w, unit) act" where
  "reason_section l t uniq = do {
     (_, none) \<leftarrow> putR l t (tg_Estate t) uniq ''c2s'' '''' 3 ''x'';
     (_, wrong) \<leftarrow> putR l t (tg_Estate t) uniq ''c2s'' wrong_token 3 ''x'';
     (_, dirn) \<leftarrow> putR l t (tg_Estate t) uniq ''c2s'' (tg_StationTok t) 3 ''x'';
     ok ''a refusal names a machine-readable reason'' (rf_Reason none \<noteq> '''' \<and> rf_Reason wrong \<noteq> '''' \<and> rf_Reason dirn \<noteq> '''');
     ok ''a missing credential and a wrong one are told apart'' (rf_Reason none \<noteq> rf_Reason wrong);
     ok ''a good credential in the wrong direction is not reported as a bad one'' (rf_Reason dirn \<noteq> rf_Reason wrong);
     ok ''a refusal still carries a sentence for a person'' (rf_Error none \<noteq> '''' \<and> rf_Error wrong \<noteq> '''' \<and> rf_Error dirn \<noteq> '''') }"

subsection \<open>The authoriser\<close>

definition outage_section :: "'w lab \<Rightarrow> 'w target \<Rightarrow> string \<Rightarrow> ('w, unit) act" where
  "outage_section l t uniq =
     (case tg_ControlPlane t of
        None \<Rightarrow> ok ''SKIPPED: the authoriser outage section needs a lever this harness did not supply'' True
      | Some (stop, restore) \<Rightarrow> do {
          code \<leftarrow> put l t (tg_Estate t) (uniq @ ''-warm'') ''c2s'' (tg_Control t) 1 ''before'';
          ok ''the authoriser answers before the outage'' (code = 202);
          act (\<lambda>w. ((), stop w));
          (code, why) \<leftarrow> putR l t (tg_Estate t) (uniq @ ''-warm'') ''c2s'' (tg_Control t) 2 ''during'';
          ok ''a decision made before the outage still works during it'' (code = 202);
          (code, why) \<leftarrow> putR l t (tg_Estate t) (uniq @ ''-cold'') ''c2s'' (tg_Control t) 1 ''x'';
          ok ''an outage does NOT answer 401'' (code \<noteq> 401);
          ok ''an outage answers 503'' (code = 503);
          ok ''an outage names itself as the authoriser being unreachable'' (rf_Reason why = ''authoriser-unavailable'');
          act (\<lambda>w. ((), restore w));
          (code, why) \<leftarrow> putR l t (tg_Estate t) (uniq @ ''-cold'') ''c2s'' (tg_Control t) 1 ''after'';
          ok ''the relay works again as soon as the authoriser does'' (code = 202) })"

definition sentinel :: bytes where "sentinel = ''SENTINEL-0xFEEDFACE-no-authoriser-may-see-this''"

definition sentinel_section :: "'w lab \<Rightarrow> 'w target \<Rightarrow> string \<Rightarrow> ('w, unit) act" where
  "sentinel_section l t uniq =
     (case tg_AuthoriserSaw t of
        None \<Rightarrow> ok ''SKIPPED: the authoriser body check needs a control plane this harness did not supply'' True
      | Some Saw \<Rightarrow> do {
          code \<leftarrow> put l t (tg_Estate t) (uniq @ ''-sentinel'') ''c2s'' (tg_Control t) 1 sentinel;
          ok ''the sentinel message was accepted'' (code = 202);
          _ \<leftarrow> take_msgs l t (tg_Estate t) (uniq @ ''-sentinel'') ''c2s'' (tg_StationTok t);
          saw \<leftarrow> act (\<lambda>w. (Saw w, w));
          let forms = [sentinel, StdEncoding_Encode sentinel, b64_encode True True sentinel, hex_encode sentinel];
          ok ''the authoriser is never sent a message body'' (\<not> list_ex (contains_str saw) forms);
          ok ''the authoriser was asked something, so the check above means anything'' (saw \<noteq> []) })"

definition crossings :: "(string \<times> string \<times> string) list" where
  "crossings =
     [(TenantAlphaStation, TenantBravo, ''c2s''), (TenantAlphaStation, TenantBravo, ''s2c''),
      (TenantAlphaControl, TenantBravo, ''c2s''), (TenantAlphaControl, TenantBravo, ''s2c''),
      (TenantBravoStation, TenantAlpha, ''c2s''), (TenantBravoStation, TenantAlpha, ''s2c''),
      (TenantBravoControl, TenantAlpha, ''c2s'')]"

text \<open>One crossing; the loop keeps whether any was let through and whether any was refused for another reason.\<close>

definition crossing :: "'w lab \<Rightarrow> 'w target \<Rightarrow> string \<times> string \<times> string \<Rightarrow> bool \<times> bool \<Rightarrow> ('w, bool \<times> bool) act" where
  "crossing l t c seen = (case (c, seen) of ((cred, station, dir), (crossed, wrongReason)) \<Rightarrow> do {
     (code, why) \<leftarrow> putR l t TenantEstate station dir cred 1 ''forged'';
     (code2, _) \<leftarrow> take_msgs l t TenantEstate station dir cred;
     done_with (crossed \<or> code = 202 \<or> code2 = 200, wrongReason \<or> (code \<noteq> 202 \<and> rf_Reason why \<noteq> ''out-of-scope'')) })"

definition tenancy_section :: "'w lab \<Rightarrow> 'w target \<Rightarrow> ('w, unit) act" where
  "tenancy_section l t =
     (if \<not> tg_Tenancy t
      then ok ''SKIPPED: the per-station isolation section needs a tenancy this harness did not supply'' True
      else do {
        (crossed, wrongReason) \<leftarrow> loop (crossing l t) crossings (False, False);
        ok ''a credential from one customer cannot reach another's queues'' (\<not> crossed);
        ok ''crossing a customer boundary is refused as out-of-scope, not as a bad credential'' (\<not> wrongReason);
        code \<leftarrow> put l t TenantEstate TenantAlpha ''c2s'' TenantAlphaControl 1 ''alpha's own'';
        ok ''a control credential still queues for its own station'' (code = 202);
        (code, got) \<leftarrow> take_msgs l t TenantEstate TenantAlpha ''c2s'' TenantAlphaStation;
        ok ''a station credential still collects its own requests'' (code = 200 \<and> length got = 1);
        code \<leftarrow> put l t TenantEstate TenantAlpha ''s2c'' TenantAlphaStation 1 ''alpha's status'';
        ok ''a station credential still publishes its own status'' (code = 202);
        code \<leftarrow> put l t TenantEstate TenantAlpha ''c2s'' TenantAlphaStation 1 ''evil'';
        ok ''a station credential still may NOT queue a request for its own station'' (code \<noteq> 202);
        (code, why) \<leftarrow> putR l t TenantEstate TenantAlpha ''c2s'' TenantWide 1 ''x'';
        ok ''a hosted tenant refuses an estate-wide credential'' (code \<noteq> 202);
        ok ''and says estate-wide is why, rather than reporting a bad credential'' (rf_Reason why = ''estate-wide-credential'') })"

subsection \<open>Authorisation leases\<close>

definition forged_lease :: string where
  "forged_lease = ''hl1.eyJlIjoiZTEiLCJzIjpbInN0MSJdLCJyIjpbImMycyJdLCJ3IjpbInMyYyJdLCJuYmYiOjEsImV4cCI6OTk5OTk5OTk5OX0.bm90LWEtc2lnbmF0dXJl''"

definition unverifiable_section :: "'w lab \<Rightarrow> 'w target \<Rightarrow> string \<Rightarrow> ('w, unit) act" where
  "unverifiable_section l t uniq = do {
     (code, why) \<leftarrow> putR l t (tg_Estate t) (uniq @ ''-lease'') ''s2c'' forged_lease 1 ''x'';
     ok ''a lease nothing can verify is refused'' (code \<noteq> 202);
     ok ''and the refusal names the lease rather than the credential'' (rf_Reason why = ''authority-unverifiable'');
     (code, _) \<leftarrow> take_msgs l t (tg_Estate t) (uniq @ ''-lease'') ''c2s'' forged_lease;
     ok ''a lease nothing can verify cannot collect either'' (code \<noteq> 200);
     code \<leftarrow> put l t (tg_Estate t) (uniq @ ''-dotted'') ''c2s'' (tg_Control t) 1 ''x'';
     ok ''an ordinary credential is still not read as a lease'' (code = 202) }"

text \<open>A signature of the right length that is none.\<close>

definition no_signature :: "string \<Rightarrow> bytes" where
  "no_signature payload = take 64 payload @ replicate (64 - length payload) (CHR 0x00)"

definition split_dots :: "string \<Rightarrow> string list" where "split_dots = split_on (CHR ''.'')"

definition tampered_lease :: "string \<Rightarrow> string list \<Rightarrow> string" where
  "tampered_lease wide parts = split_dots wide ! 0 @ ''.'' @ split_dots wide ! 1 @ ''.'' @ parts ! 2"

definition signed_section :: "'w lab \<Rightarrow> 'w target \<Rightarrow> string \<Rightarrow> ('w, unit) act" where
  "signed_section l t uniq =
     (case tg_SignLease t of
        None \<Rightarrow> ok ''SKIPPED: the signed-lease section needs a signing key this harness did not supply'' True
      | Some sign \<Rightarrow> do {
          now \<leftarrow> act (lab_Now l);
          let st = uniq @ ''-leased'';
          let live = suite_Lease sign (tg_Estate t) [st] [''c2s''] [''s2c''] (now - Minute) (now + 10 * Minute) 0;
          (code, why) \<leftarrow> putR l t (tg_Estate t) st ''s2c'' live 1 ''status'';
          ok ''a lease signed by the control plane is honoured'' (code = 202);
          code \<leftarrow> put l t (tg_Estate t) st ''c2s'' (tg_Control t) 1 ''a request'';
          ok ''a control credential can queue for a leased station'' (code = 202);
          (code, got) \<leftarrow> take_msgs l t (tg_Estate t) st ''c2s'' live;
          ok ''a leased station collects its own requests'' (code = 200 \<and> length got = 1);
          code \<leftarrow> put l t (tg_Estate t) st ''c2s'' live 1 ''evil'';
          ok ''a leased station still may NOT queue a request for itself'' (code \<noteq> 202);
          code \<leftarrow> put l t (tg_Estate t) (uniq @ ''-elsewhere'') ''s2c'' live 1 ''x'';
          ok ''a lease does not reach a station it does not name'' (code \<noteq> 202);
          let expired = suite_Lease sign (tg_Estate t) [st] [''c2s''] [''s2c''] (now - 20 * Minute) (now - 10 * Minute) 0;
          (code, why) \<leftarrow> putR l t (tg_Estate t) st ''s2c'' expired 1 ''x'';
          ok ''an expired lease is refused'' (code \<noteq> 202);
          ok ''and says it expired rather than blaming the credential'' (rf_Reason why = ''authority-expired'');
          let forged = suite_Lease no_signature (tg_Estate t) [st] [''c2s''] [''s2c''] (now - Minute) (now + 10 * Minute) 0;
          (code, why) \<leftarrow> putR l t (tg_Estate t) st ''s2c'' forged 1 ''x'';
          ok ''a lease signed by the wrong key is refused'' (code \<noteq> 202);
          ok ''and the refusal names the lease rather than the credential'' (rf_Reason why = ''authority-unverifiable'');
          let parts = split_dots live;
          if length parts = 3
          then do {
            let wide = suite_Lease sign (tg_Estate t) [] [''c2s'', ''s2c''] [''c2s'', ''s2c''] (now - Minute) (now + 10 * Minute) 0;
            code \<leftarrow> put l t (tg_Estate t) st ''c2s'' (tampered_lease wide parts) 1 ''x'';
            ok ''a lease widened after signing no longer verifies'' (code \<noteq> 202) }
          else done_with () })"

subsection \<open>Routes, bodies and order\<close>

definition route_section :: "'w lab \<Rightarrow> 'w target \<Rightarrow> string \<Rightarrow> ('w, unit) act" where
  "route_section l t uniq = do {
     (if tg_OtherEstate t \<noteq> ''''
      then do {
        code \<leftarrow> put l t (tg_OtherEstate t) uniq ''c2s'' (tg_Control t) 1 ''x'';
        ok ''one estate's token cannot write into another'' (code \<noteq> 202);
        (code, _) \<leftarrow> take_msgs l t (tg_OtherEstate t) uniq ''c2s'' (tg_StationTok t);
        ok ''one estate's token cannot read another'' (code = 401) }
      else done_with ());
     code \<leftarrow> put l t ''estate-that-does-not-exist'' uniq ''c2s'' (tg_Control t) 1 ''x'';
     ok ''an unconfigured estate is refused'' (code \<noteq> 202);
     code \<leftarrow> put l t (tg_Estate t) uniq ''sideways'' (tg_Control t) 1 ''x'';
     ok ''a direction other than c2s or s2c is refused'' (code \<noteq> 202) }"

definition odd_bodies :: "(nat \<times> bytes) list" where
  "odd_bodies = enumerate 0 [[], [CHR 0x00], ''{not json'', replicate 4096 (CHR 0xFF)]"

definition body_station :: "string \<Rightarrow> nat \<Rightarrow> string" where "body_station uniq i = uniq @ ''-body'' @ show_nat i"

definition body_put :: "'w lab \<Rightarrow> 'w target \<Rightarrow> string \<Rightarrow> nat \<times> bytes \<Rightarrow> bool \<Rightarrow> ('w, bool) act" where
  "body_put l t uniq b allOK = do {
     c \<leftarrow> put l t (tg_Estate t) (body_station uniq (fst b)) ''c2s'' (tg_Control t) 1 (snd b);
     done_with (allOK \<and> c = 202) }"

definition body_section :: "'w lab \<Rightarrow> 'w target \<Rightarrow> string \<Rightarrow> ('w, unit) act" where
  "body_section l t uniq = do {
     allOK \<leftarrow> loop (body_put l t uniq) odd_bodies True;
     ok ''any body is accepted, including one that is not JSON or UTF-8'' allOK }"

text \<open>The two messages have different numbers, so it does not matter that \<^verbatim>\<open>sort.Slice\<close> is not stable.\<close>

definition order_section :: "'w lab \<Rightarrow> 'w target \<Rightarrow> string \<Rightarrow> ('w, unit) act" where
  "order_section l t uniq = do {
     _ \<leftarrow> put l t (tg_Estate t) (uniq @ ''-seq'') ''c2s'' (tg_Control t) 99 ''a'';
     _ \<leftarrow> put l t (tg_Estate t) (uniq @ ''-seq'') ''c2s'' (tg_Control t) 1 ''b'';
     (_, got) \<leftarrow> take_msgs l t (tg_Estate t) (uniq @ ''-seq'') ''c2s'' (tg_StationTok t);
     ok ''sequence numbers are carried, not rewritten''
       (case sort_key ms_Seq got of [a, b] \<Rightarrow> ms_Seq a = 1 \<and> ms_Seq b = 99 | _ \<Rightarrow> False) }"

subsection \<open>Waiting\<close>

definition poll_section :: "'w lab \<Rightarrow> 'w target \<Rightarrow> string \<Rightarrow> ('w, unit) act" where
  "poll_section l t uniq = do {
     let st = uniq @ ''-poll'';
     (woke, _) \<leftarrow> act (lab_Beside l (client_request ''GET'' (target_url t (tg_Estate t) st ''c2s'' '''') (tg_StationTok t) None)
       (400 * Millisecond)
       (client_request ''POST'' (target_url t (tg_Estate t) st ''c2s'' '''') (tg_Control t) (Some (put_text 1 ''wake up''))));
     ok ''a long poll wakes when a message arrives''
       (case woke of
          Some (Some r) \<Rightarrow> cr_status r = 200 \<and> length (fst (Unmarshal msgs_lax (cr_body r) [])) = 1
        | _ \<Rightarrow> False) }"

definition wait_section :: "'w lab \<Rightarrow> 'w target \<Rightarrow> string \<Rightarrow> ('w, unit) act" where
  "wait_section l t uniq = do {
     start \<leftarrow> act (lab_Now l);
     _ \<leftarrow> take_msgs l t (tg_Estate t) (uniq @ ''-empty'') ''c2s'' (tg_StationTok t);
     now \<leftarrow> act (lab_Now l);
     ok ''wait=0 returns immediately rather than holding the line'' (now - start < 5 * Second) }"

section \<open>Leased collection\<close>

text \<open>
  \<^verbatim>\<open>leasing\<close>, in the parts its early returns cut it into: each part answers whether the next is run.
\<close>

definition plain_part :: "'w lab \<Rightarrow> 'w target \<Rightarrow> string \<Rightarrow> ('w, bool) act" where
  "plain_part l t uniq = do {
     let plain = uniq @ ''-plain'';
     code \<leftarrow> put l t (tg_Estate t) plain ''c2s'' (tg_Control t) 1 ''plain'';
     if code \<noteq> 202 then do {
       ok ''a collection without a lease is unchanged'' False;
       done_with False }
     else do {
       (code, got) \<leftarrow> take_msgs l t (tg_Estate t) plain ''c2s'' (tg_StationTok t);
       ok ''a collection without a lease answers with a bare array of messages''
         (code = 200 \<and> (case got of [m] \<Rightarrow> ms_Body m = ''plain'' | _ \<Rightarrow> False));
       (_, again) \<leftarrow> take_msgs l t (tg_Estate t) plain ''c2s'' (tg_StationTok t);
       ok ''a collection without a lease still deletes what it returned'' (again = []);
       ok ''every message carries an id, leased or not'' (case got of [m] \<Rightarrow> ms_ID m \<noteq> '''' | _ \<Rightarrow> False);
       let zero = uniq @ ''-zero'';
       _ \<leftarrow> put l t (tg_Estate t) zero ''c2s'' (tg_Control t) 1 ''zero'';
       (code, got) \<leftarrow> take_msgs l t (tg_Estate t) zero ''c2s'' (tg_StationTok t);
       r \<leftarrow> target_do l ''GET'' (target_url t (tg_Estate t) zero ''c2s'' ''wait=0&lease=0'') (tg_StationTok t) None;
       ok ''lease=0 answers as a collection with no lease at all''
         (code = 200 \<and> length got = 1 \<and> (case r of Some r \<Rightarrow> snd (Unmarshal msgs_lax (cr_body r) []) | None \<Rightarrow> False));
       done_with True } }"

definition held_bytes :: bytes where "held_bytes = [CHR 0x00, CHR 0xFF] @ ''lease'' @ [CHR 0xFE]"

definition held_part :: "'w lab \<Rightarrow> 'w target \<Rightarrow> string \<Rightarrow> ('w, leaseReply option) act" where
  "held_part l t uniq = do {
     let held = uniq @ ''-held'';
     code \<leftarrow> put l t (tg_Estate t) held ''c2s'' (tg_Control t) 3 held_bytes;
     if code \<noteq> 202 then do {
       ok ''a leased collection holds the message'' False;
       done_with None }
     else do {
       (code, lease) \<leftarrow> takeLeased l t (tg_Estate t) held ''c2s'' (tg_StationTok t) ''30s'';
       let leased = (code = 200 \<and> lr_Lease lease \<noteq> '''' \<and> lr_Until lease \<noteq> '''' \<and> length (lr_Messages lease) = 1);
       ok ''a leased collection answers with a lease id, a deadline and the messages'' leased;
       if \<not> leased then done_with None
       else do {
         ok ''a leased message is byte for byte what was sent'' (ms_Body (lr_Messages lease ! 0) = held_bytes);
         ok ''a leased message carries an id'' (ms_ID (lr_Messages lease ! 0) \<noteq> '''');
         (_, second) \<leftarrow> takeLeased l t (tg_Estate t) held ''c2s'' (tg_StationTok t) ''30s'';
         ok ''a message under a live lease is not handed to a second collector'' (lr_Messages second = []);
         ok ''an empty leased collection says so in both fields'' (lr_Lease second = '''' \<and> lr_Until second = '''');
         (_, plainSteal) \<leftarrow> take_msgs l t (tg_Estate t) held ''c2s'' (tg_StationTok t);
         ok ''a message under a live lease is not handed to a collection with no lease'' (plainSteal = []);
         done_with (Some lease) } } }"

definition ack_part :: "'w lab \<Rightarrow> 'w target \<Rightarrow> string \<Rightarrow> leaseReply \<Rightarrow> ('w, unit) act" where
  "ack_part l t uniq lease = do {
     let held = uniq @ ''-held'';
     (code, deleted) \<leftarrow> target_ack l t (tg_Estate t) held ''c2s'' (tg_StationTok t) (lr_Lease lease);
     ok ''acknowledging a lease deletes what it held'' (code = 200 \<and> deleted = 1);
     (_, after) \<leftarrow> take_msgs l t (tg_Estate t) held ''c2s'' (tg_StationTok t);
     ok ''an acknowledged message is not delivered again'' (after = []);
     (code, _) \<leftarrow> target_ack l t (tg_Estate t) held ''c2s'' (tg_StationTok t) (lr_Lease lease);
     ok ''an acknowledgement the relay is not holding is refused with 410'' (code = 410);
     (code, _) \<leftarrow> target_ack l t (tg_Estate t) held ''c2s'' (tg_StationTok t) ''definitely-not-a-lease'';
     ok ''an acknowledgement of a lease that never existed is refused with 410'' (code = 410);
     (code, _) \<leftarrow> target_ack l t (tg_Estate t) held ''c2s'' '''' (lr_Lease lease);
     ok ''an acknowledgement with no token is refused'' (code = 401);
     if tg_OtherEstate t \<noteq> '''' then do {
       (code, _) \<leftarrow> target_ack l t (tg_OtherEstate t) held ''c2s'' (tg_StationTok t) (lr_Lease lease);
       ok ''one estate's token cannot acknowledge another's lease'' (code = 401) }
     else done_with () }"

definition expiry_part :: "'w lab \<Rightarrow> 'w target \<Rightarrow> string \<Rightarrow> ('w, bool) act" where
  "expiry_part l t uniq = do {
     let dying = uniq @ ''-dying'';
     _ \<leftarrow> put l t (tg_Estate t) dying ''c2s'' (tg_Control t) 9 ''an hour of capture'';
     (_, short) \<leftarrow> takeLeased l t (tg_Estate t) dying ''c2s'' (tg_StationTok t) ''1s'';
     if length (lr_Messages short) \<noteq> 1 then do {
       ok ''an unacknowledged lease returns the messages when it expires'' False;
       done_with False }
     else do {
       act (\<lambda>w. ((), lab_Sleep l (1500 * Millisecond) w));
       (_, back) \<leftarrow> takeLeased l t (tg_Estate t) dying ''c2s'' (tg_StationTok t) ''30s'';
       ok ''an unacknowledged lease returns the messages when it expires'' (length (lr_Messages back) = 1);
       (if length (lr_Messages back) = 1 then do {
          ok ''a redelivered message keeps the id it had'' (ms_ID (lr_Messages back ! 0) = ms_ID (lr_Messages short ! 0));
          ok ''a redelivered message is under a new lease'' (lr_Lease back \<noteq> lr_Lease short) }
        else done_with ());
       done_with True } }"

definition leased_poll_part :: "'w lab \<Rightarrow> 'w target \<Rightarrow> string \<Rightarrow> ('w, unit) act" where
  "leased_poll_part l t uniq = do {
     let poll = uniq @ ''-leasepoll'';
     (woke, _) \<leftarrow> act (lab_Beside l (client_request ''GET'' (target_url t (tg_Estate t) poll ''c2s'' ''lease=30s'') (tg_StationTok t) None)
       (400 * Millisecond)
       (client_request ''POST'' (target_url t (tg_Estate t) poll ''c2s'' '''') (tg_Control t) (Some (put_text 1 ''wake up''))));
     (case woke of
        None \<Rightarrow> ok ''a long poll that asked for a lease wakes holding one'' False
      | Some answer \<Rightarrow> do {
          let got = (case answer of
                Some r \<Rightarrow> if cr_status r = 200 then fst (Unmarshal lease_lax (cr_body r) no_lease) else no_lease
              | None \<Rightarrow> no_lease);
          ok ''a long poll that asked for a lease wakes holding one'' (lr_Lease got \<noteq> '''' \<and> length (lr_Messages got) = 1);
          if lr_Lease got \<noteq> '''' then do {
            (code, deleted) \<leftarrow> target_ack l t (tg_Estate t) poll ''c2s'' (tg_StationTok t) (lr_Lease got);
            ok ''the lease from a long poll can be acknowledged'' (code = 200 \<and> deleted = 1) }
          else done_with () }) }"

text \<open>One text the relay should refuse, and one it should accept; the loops or_old whether all were.\<close>

definition refused_form :: "'w lab \<Rightarrow> 'w target \<Rightarrow> string \<Rightarrow> string \<Rightarrow> bool \<Rightarrow> ('w, bool) act" where
  "refused_form l t bad v allRefused = do {
     (code, _) \<leftarrow> takeLeased l t (tg_Estate t) bad ''c2s'' (tg_StationTok t) v;
     if code \<noteq> 400 then do {
       ok (''a lease outside the grammar is refused: '' @ v) False;
       done_with False }
     else done_with allRefused }"

definition accepted_form :: "'w lab \<Rightarrow> 'w target \<Rightarrow> string \<Rightarrow> string \<Rightarrow> bool \<Rightarrow> ('w, bool) act" where
  "accepted_form l t bad v allAccepted = do {
     (code, got) \<leftarrow> takeLeased l t (tg_Estate t) bad ''c2s'' (tg_StationTok t) v;
     (if code \<noteq> 200 then ok (''a lease inside the grammar is accepted: '' @ v) False else done_with ());
     (if lr_Lease got \<noteq> '''' then do {
        _ \<leftarrow> target_ack l t (tg_Estate t) bad ''c2s'' (tg_StationTok t) (lr_Lease got);
        _ \<leftarrow> put l t (tg_Estate t) bad ''c2s'' (tg_Control t) 1 ''x'';
        done_with () }
      else done_with ());
     done_with (allAccepted \<and> code = 200) }"

definition grammar_part :: "'w lab \<Rightarrow> 'w target \<Rightarrow> string \<Rightarrow> ('w, unit) act" where
  "grammar_part l t uniq = do {
     let bad = uniq @ ''-badlease'';
     _ \<leftarrow> put l t (tg_Estate t) bad ''c2s'' (tg_Control t) 1 ''x'';
     allRefused \<leftarrow> loop (refused_form l t bad) [''nonsense'', ''1h'', ''600'', ''1m30s'', ''-5s''] True;
     ok ''a lease that is unparseable or too long is refused'' allRefused;
     allAccepted \<leftarrow> loop (accepted_form l t bad) [''30'', ''30s'', ''500ms'', ''2m''] True;
     ok ''seconds, milliseconds and minutes are all accepted as a lease'' allAccepted }"

definition leasing :: "'w lab \<Rightarrow> 'w target \<Rightarrow> string \<Rightarrow> ('w, unit) act" where
  "leasing l t uniq = do {
     go \<leftarrow> plain_part l t uniq;
     if \<not> go then done_with ()
     else do {
       lease \<leftarrow> held_part l t uniq;
       case lease of
         None \<Rightarrow> done_with ()
       | Some lease \<Rightarrow> do {
           ack_part l t uniq lease;
           go \<leftarrow> expiry_part l t uniq;
           if \<not> go then done_with ()
           else do {
             leased_poll_part l t uniq;
             grammar_part l t uniq } } } }"

section \<open>Durability\<close>

definition durable_bytes :: bytes where "durable_bytes = [CHR 0x00, CHR 0xFF, CHR 0x0A] @ ''durable'' @ [CHR 0xFE]"

definition durability :: "'w lab \<Rightarrow> 'w target \<Rightarrow> string \<Rightarrow> ('w, unit) act" where
  "durability l t uniq =
     (let survives = ''a message accepted before the relay restarts is still there after it'';
          notTwice = ''a message collected before the relay restarts does not come back after it'';
          cameBack = ''the relay answers again after being restarted'';
          accepted = ''a message is accepted before the relay is restarted''
      in case tg_Disrupt t of
        None \<Rightarrow> do { skip survives; skip notTwice }
      | Some disrupt \<Rightarrow> do {
          code \<leftarrow> put l t (tg_Estate t) (uniq @ ''-durable'') ''c2s'' (tg_Control t) 11 durable_bytes;
          ok accepted (code = 202);
          if code \<noteq> 202 then done_with ()
          else do {
            came \<leftarrow> act disrupt;
            ok cameBack came;
            if \<not> came then done_with ()
            else do {
              (code, got) \<leftarrow> take_msgs l t (tg_Estate t) (uniq @ ''-durable'') ''c2s'' (tg_StationTok t);
              ok survives (code = 200 \<and> (case got of [m] \<Rightarrow> ms_Body m = durable_bytes \<and> ms_Seq m = 11 | _ \<Rightarrow> False));
              code \<leftarrow> put l t (tg_Estate t) (uniq @ ''-collected'') ''c2s'' (tg_Control t) 12 ''durable'';
              if code \<noteq> 202 then ok notTwice False
              else do {
                (_, got) \<leftarrow> take_msgs l t (tg_Estate t) (uniq @ ''-collected'') ''c2s'' (tg_StationTok t);
                if length got \<noteq> 1 then ok notTwice False
                else do {
                  came \<leftarrow> act disrupt;
                  if \<not> came then ok notTwice False
                  else do {
                    (_, got) \<leftarrow> take_msgs l t (tg_Estate t) (uniq @ ''-collected'') ''c2s'' (tg_StationTok t);
                    ok notTwice (got = []) } } } } } })"

section \<open>The run and its report\<close>

definition run_section :: "'w lab \<Rightarrow> 'w target \<Rightarrow> string \<Rightarrow> ('w, unit) act" where
  "run_section l t uniq = do {
     health_section l t;
     identity_section l t;
     message_section l t uniq;
     split_section l t uniq;
     credential_section l t uniq;
     reason_section l t uniq;
     outage_section l t uniq;
     sentinel_section l t uniq;
     tenancy_section l t;
     unverifiable_section l t uniq;
     signed_section l t uniq;
     route_section l t uniq;
     body_section l t uniq;
     order_section l t uniq;
     poll_section l t uniq;
     wait_section l t uniq;
     leasing l t uniq;
     durability l t uniq }"

definition Run :: "'w lab \<Rightarrow> 'w target \<Rightarrow> 'w \<Rightarrow> check_result list \<times> 'w" where
  "Run l t w =
     (let (now, w1) = lab_Now l w;
          uniq = tg_Station t @ ''-'' @ FormatInt 10 (wrap64 now);
          (_, (w2, out)) = run_state (run_section l t uniq) (w1, [])
      in (out, w2))"

text \<open>\<^verbatim>\<open>Report\<close>, without the lines of detail: the text, and whether everything passed.\<close>

definition result_line :: "check_result \<Rightarrow> string" where
  "result_line r = (if re_Skipped r then ''skip '' else if re_OK r then ''ok   '' else ''FAIL '') @ re_Name r @ [CHR 0x0A]"

definition Report :: "string \<Rightarrow> check_result list \<Rightarrow> string \<times> bool" where
  "Report name rs =
     (let skipped = length (filter re_Skipped rs);
          passed = length (filter (\<lambda>r. \<not> re_Skipped r \<and> re_OK r) rs);
          failed = length (filter (\<lambda>r. \<not> re_Skipped r \<and> \<not> re_OK r) rs)
      in ([CHR 0x0A] @ ''--- relay conformance: '' @ name @ '' ---'' @ [CHR 0x0A] @
          concat (map result_line rs) @
          [CHR 0x0A] @ name @ '': '' @ show_nat passed @ '' passed, '' @ show_nat failed @ '' failed, '' @
          show_nat skipped @ '' skipped'' @ [CHR 0x0A] @
          ''not asserted here: the storage model, which is not observable over HTTP.'' @ [CHR 0x0A] @
          ''  See storage_test.go and edge/test/storage-model.test.ts.'' @ [CHR 0x0A],
          failed = 0))"

end
