(* ===== verification/Relay_Contract.thy ===== *)
theory Relay_Contract
  imports Relay_Types Relay_Suite
begin

text \<open>
  What a relay has to promise to pass the suite, and that the promises are enough.

  The locale \<open>relay_contract\<close> is the abstract relay: a state described by the present time, the supply of lease names and, for every
  station and direction of the estate under test, the list of messages held, each free or under a lease until some instant. Its laws
  say what each operation of the client answers and what it leaves behind. The lemmas run the suite's sections
  against the laws, one by one, and \<open>relay_contract.conformant\<close> all of them; nothing of the server is used. The Go
  server keeps the laws, in \<open>Relay_Conformance\<close>.
\<close>

section \<open>The abstract relay\<close>

record held_msg =
  v_ID :: string
  v_Seq :: u64
  v_Body :: bytes
  v_At :: time
  v_Lease :: string
  v_Until :: time

type_synonym queues = "string \<times> string \<Rightarrow> held_msg list"

definition unheld :: "held_msg \<Rightarrow> bool" where "unheld v \<longleftrightarrow> v_Lease v = ''''"

text \<open>A lease that has run out is no longer one.\<close>

definition lapse :: "time \<Rightarrow> held_msg \<Rightarrow> held_msg" where
  "lapse T v = (if v_Lease v \<noteq> '''' \<and> v_Until v \<le> T then v\<lparr>v_Lease := '''', v_Until := zero_time\<rparr> else v)"

definition grant_lease :: "string \<Rightarrow> time \<Rightarrow> held_msg \<Rightarrow> held_msg" where
  "grant_lease i u v = (if unheld v then v\<lparr>v_Lease := i, v_Until := u\<rparr> else v)"

text \<open>The messages as the client reads them.\<close>

definition sent :: "held_msg \<Rightarrow> msg" where
  "sent v = \<lparr>ms_ID = v_ID v, ms_Seq = v_Seq v, ms_Body = v_Body v\<rparr>"

text \<open>Every request is answered within a tenth of a second, and a message is kept for an hour at least.\<close>

definition slack :: duration where "slack = 100 * Millisecond"

definition later :: "time \<Rightarrow> time \<Rightarrow> bool" where "later T T' \<longleftrightarrow> T \<le> T' \<and> T' \<le> T + slack"

definition young :: "time \<Rightarrow> held_msg list \<Rightarrow> bool" where
  "young T vs \<longleftrightarrow> list_all (\<lambda>v. T - v_At v \<le> Hour) vs \<and> length vs < 100"

text \<open>Names that stand for themselves in a path.\<close>

definition path_char :: "char \<Rightarrow> bool" where
  "path_char c \<longleftrightarrow> is_digit c \<or> c = CHR ''-'' \<or> c = CHR ''_'' \<or> (let n = of_char c :: nat in (65 \<le> n \<and> n \<le> 90) \<or> (97 \<le> n \<and> n \<le> 122))"

definition path_name :: "string \<Rightarrow> bool" where "path_name s \<longleftrightarrow> s \<noteq> '''' \<and> list_all path_char s"

definition a_dir :: "string \<Rightarrow> bool" where "a_dir d \<longleftrightarrow> d = c2s \<or> d = s2c"

text \<open>The texts of a lease the suite sends, with what they ask for; nothing for those outside the grammar.\<close>

definition lease_forms :: "(string \<times> duration option) list" where
  "lease_forms = [(''30s'', Some (30 * Second)), (''1s'', Some Second), (''30'', Some (30 * Second)), (''500ms'', Some (500 * Millisecond)),
     (''2m'', Some (2 * Minute)), (''nonsense'', None), (''1h'', None), (''600'', None), (''1m30s'', None), (''-5s'', None)]"

text \<open>What a restart leaves: the messages, without their leases.\<close>

definition unlease :: "held_msg \<Rightarrow> held_msg" where "unlease v = v\<lparr>v_Lease := '''', v_Until := zero_time\<rparr>"

definition zero_health :: health_body where
  "zero_health = \<lparr>he_OK = False, he_Version = '''', he_Hash = '''', he_Durable = None\<rparr>"

definition zero_identity :: identity_body where
  "zero_identity = \<lparr>id_Service = '''', id_Implementation = '''', id_Version = '''', id_Source = ''''\<rparr>"

text \<open>A refusal as the client reads it: the status of its reason, the reason, and some sentence.\<close>

definition refused :: "string \<Rightarrow> nat \<times> refusal_body \<Rightarrow> bool" where
  "refused r x \<longleftrightarrow> fst x = reason_status r \<and> rf_Reason (snd x) = r \<and> rf_Error (snd x) \<noteq> ''''"

definition passed :: "check_result list \<Rightarrow> bool" where
  "passed rs \<longleftrightarrow> list_all (\<lambda>r. re_OK r \<or> re_Skipped r) rs"

lemma passed_simps [simp]:
  "passed [] = True" "passed (r # rs) = ((re_OK r \<or> re_Skipped r) \<and> passed rs)" "passed (rs @ rs') = (passed rs \<and> passed rs')"
  by (simp_all add: passed_def)

lemma run_act [simp]: "run_state (act f) (w, out) = (fst (f w), (snd (f w), out))"
  by (simp add: act_def split_beta)

lemma run_ok [simp]: "run_state (ok n b) (w, out) = ((), (w, out @ [\<lparr>re_Name = n, re_OK = b, re_Skipped = False\<rparr>]))"
  by (simp add: ok_def)

lemma run_skip [simp]: "run_state (skip n) (w, out) = ((), (w, out @ [\<lparr>re_Name = n, re_OK = False, re_Skipped = True\<rparr>]))"
  by (simp add: skip_def)

text \<open>An action that reports nothing: its answer and the world it leaves.\<close>

definition does :: "('w, 'a) act \<Rightarrow> 'w \<Rightarrow> 'a \<Rightarrow> 'w \<Rightarrow> bool" where
  "does m w x w' \<longleftrightarrow> (\<forall>out. run_state m (w, out) = (x, (w', out)))"

lemma does_run: "does m w x w' \<Longrightarrow> run_state m (w, out) = (x, (w', out))"
  by (simp add: does_def)

lemma does_put: "does (putR l t e st dr tok q body) w (c, y) w' \<Longrightarrow> does (put l t e st dr tok q body) w c w'"
  by (simp add: does_def put_def)

text \<open>
  A part of the suite passes: it finds the stations of \<open>R\<close> empty, reports nothing that failed, and leaves everything but the stations of
  \<open>S\<close> as it was.
\<close>

definition finishes ::
  "('w \<Rightarrow> time \<Rightarrow> (nat \<Rightarrow> string) \<Rightarrow> queues \<Rightarrow> bool) \<Rightarrow> string set \<Rightarrow> queues \<Rightarrow> 'a \<times> 'w \<times> check_result list \<Rightarrow> bool" where
  "finishes state S H res \<longleftrightarrow>
     (\<exists>T nm H'. state (fst (snd res)) T nm H' \<and> (\<forall>s d. s \<notin> S \<longrightarrow> H' (s, d) = H (s, d))) \<and> passed (snd (snd res))"

definition passes ::
  "(nat \<Rightarrow> 'w \<Rightarrow> time \<Rightarrow> (nat \<Rightarrow> string) \<Rightarrow> queues \<Rightarrow> bool) \<Rightarrow> nat \<Rightarrow> string set \<Rightarrow> string set \<Rightarrow> ('w, 'a) act \<Rightarrow> bool" where
  "passes state n R S m \<longleftrightarrow> (\<forall>b w T nm H out. state (n + b) w T nm H \<and> (\<forall>s \<in> R. \<forall>d. H (s, d) = []) \<and> passed out \<longrightarrow>
     finishes (state b) S H (run_state m (w, out)))"

lemma finishesI:
  assumes "fst (snd res) = w'" "state w' T' nm' H'" "\<And>s d. s \<notin> S \<Longrightarrow> H' (s, d) = H (s, d)" "passed (snd (snd res))"
  shows "finishes state S H res"
  unfolding finishes_def
proof (intro conjI exI allI impI)
  show "state (fst (snd res)) T' nm' H'" using assms(1,2) by simp
qed (use assms in simp_all)

lemma passesI:
  assumes "\<And>b w T nm H out. state (n + b) w T nm H \<Longrightarrow> (\<And>s d. s \<in> R \<Longrightarrow> H (s, d) = []) \<Longrightarrow> passed out \<Longrightarrow>
    finishes (state b) S H (run_state m (w, out))"
  shows "passes state n R S m"
  unfolding passes_def using assms by blast

lemma passesD:
  "passes state n R S m \<Longrightarrow> state (n + b) w T nm H \<Longrightarrow> (\<And>s d. s \<in> R \<Longrightarrow> H (s, d) = []) \<Longrightarrow> passed out \<Longrightarrow>
   finishes (state b) S H (run_state m (w, out))"
  by (simp add: passes_def)

lemma passes_passed:
  "passes state n R S m \<Longrightarrow> state (n + b) w T nm H \<Longrightarrow> (\<And>s d. s \<in> R \<Longrightarrow> H (s, d) = []) \<Longrightarrow> passed out \<Longrightarrow> passed (snd (snd (run_state m (w, out))))"
  using passesD [of state n R S m b w T nm H out] by (simp add: finishes_def)

lemma passes_more: "passes state n R S m \<Longrightarrow> (\<And>b w T nm H. state (Suc b) w T nm H \<Longrightarrow> state b w T nm H) \<Longrightarrow> passes state (n + k) R S m"
proof (rule passesI)
  fix b w T nm H out
  assume "passes state n R S m" "state (n + k + b) w T nm H" "\<And>s d. s \<in> R \<Longrightarrow> H (s, d) = []" "passed out"
    and f: "\<And>b w T nm H. state (Suc b) w T nm H \<Longrightarrow> state b w T nm H"
  then have "finishes (state (k + b)) S H (run_state m (w, out))" by (simp add: passes_def add.assoc)
  moreover have "state (k + b) w T nm H \<Longrightarrow> state b w T nm H" for w T nm H by (induction k) (auto dest: f)
  ultimately show "finishes (state b) S H (run_state m (w, out))" unfolding finishes_def by blast
qed

lemma passes_seq:
  assumes "passes state n R S m" "passes state n' R' S' m'" "S \<inter> R' = {}"
  shows "passes state (n + n') (R \<union> R') (S \<union> S') (m \<bind> (\<lambda>_. m'))"
proof (rule passesI)
  fix b w T nm H out
  assume s: "state (n + n' + b) w T nm H" and e: "\<And>s d. s \<in> R \<union> R' \<Longrightarrow> H (s, d) = []" and out: "passed out"
  obtain w1 out1 x where 1: "run_state m (w, out) = (x, (w1, out1))" by (metis prod.exhaust)
  from passesD [OF assms(1) s [unfolded add.assoc] e out] obtain T1 nm1 H1
    where 2: "state (n' + b) w1 T1 nm1 H1" "\<And>s d. s \<notin> S \<Longrightarrow> H1 (s, d) = H (s, d)" "passed out1"
    by (auto simp: 1 finishes_def)
  then have "H1 (s, d) = []" if "s \<in> R'" for s d using e assms(3) that by (metis IntI UnCI empty_iff)
  from passesD [OF assms(2) 2(1) this 2(3)] obtain T2 nm2 H2
    where 3: "state b (fst (snd (run_state m' (w1, out1)))) T2 nm2 H2" "\<And>s d. s \<notin> S' \<Longrightarrow> H2 (s, d) = H1 (s, d)"
      "passed (snd (snd (run_state m' (w1, out1))))"
    by (auto simp: finishes_def)
  show "finishes (state b) (S \<union> S') H (run_state (m \<bind> (\<lambda>_. m')) (w, out))"
  proof (rule finishesI)
    show "state b (fst (snd (run_state m' (w1, out1)))) T2 nm2 H2" by (rule 3)
  qed (use 1 2(2) 3(2,3) in simp_all)
qed

locale relay_contract =
  fixes l :: "'w lab" and t :: "'w target"
    and state :: "nat \<Rightarrow> 'w \<Rightarrow> time \<Rightarrow> (nat \<Rightarrow> string) \<Rightarrow> queues \<Rightarrow> bool"
    and verdict :: "time \<Rightarrow> string \<Rightarrow> string \<Rightarrow> string \<Rightarrow> string \<Rightarrow> string \<Rightarrow> string"
  assumes estate_name: "path_name (tg_Estate t)"
    and lease_names: "state b w T nm H \<Longrightarrow> path_name (nm i) \<and> length (nm i) < 1000 \<and> nm i \<noteq> nm (Suc i)"
    and fewer: "state (Suc b) w T nm H \<Longrightarrow> state b w T nm H"
    and clock: "state b w T nm H \<Longrightarrow> lab_Now l w = (T, w)"
    and sleeping: "state (Suc b) w T nm H \<Longrightarrow> 0 \<le> dt \<Longrightarrow> dt \<le> Minute \<Longrightarrow> \<exists>T'. later (T + dt) T' \<and> state b (lab_Sleep l dt w) T' nm H"
    and health_answers:
      "state (Suc b) w T nm H \<Longrightarrow> \<exists>w' T' r h. lab_Do l (client_request ''GET'' (base_url t @ ''/health'') '''' None) w = (Some r, w') \<and>
         cr_status r = 200 \<and> Unmarshal health_lax (cr_body r) zero_health = (h, True) \<and>
         he_OK h \<and> he_Version h \<noteq> '''' \<and> he_Hash h \<noteq> '''' \<and> he_Durable h \<noteq> None \<and> later T T' \<and> state b w' T' nm H"
    and identity_answers:
      "state (Suc b) w T nm H \<Longrightarrow> path = ''/'' \<or> path = ''/version'' \<Longrightarrow>
       \<exists>w' T' r i. lab_Do l (client_request ''GET'' (base_url t @ path) '''' None) w = (Some r, w') \<and>
         cr_status r = 200 \<and> Unmarshal identity_lax (cr_body r) zero_identity = (i, True) \<and>
         id_Service i = ''heliograph-relay'' \<and> id_Implementation i \<noteq> '''' \<and> id_Version i \<noteq> '''' \<and> id_Source i \<noteq> '''' \<and>
         later T T' \<and> state b w' T' nm H"
    and browser_answered:
      "state (Suc b) w T nm H \<Longrightarrow> \<exists>w' T' r. lab_Do l (browser_request t) w = (Some r, w') \<and> has_prefix (cr_type r) ''text/html'' \<and>
         later T T' \<and> state b w' T' nm H"
    and put_accepted:
      "state (Suc b) w T nm H \<Longrightarrow> path_name st \<Longrightarrow> a_dir dr \<Longrightarrow> verdict T tok (tg_Estate t) st dr OpWrite = '''' \<Longrightarrow>
       length body \<le> 4096 \<Longrightarrow> young T (H (st, dr)) \<Longrightarrow>
       \<exists>w' T' v. does (putR l t (tg_Estate t) st dr tok sq body) w (202, no_refusal) w' \<and> later T T' \<and>
         v_ID v \<noteq> '''' \<and> v_Seq v = sq \<and> v_Body v = body \<and> v_At v = T \<and> v_Lease v = '''' \<and>
         state b w' T' nm (H((st, dr) := H (st, dr) @ [v]))"
    and put_refused:
      "state (Suc b) w T nm H \<Longrightarrow> path_name e \<Longrightarrow> path_name st \<Longrightarrow> a_dir dr \<Longrightarrow> verdict T tok e st dr OpWrite = r \<Longrightarrow> r \<noteq> '''' \<Longrightarrow>
       \<exists>w' T' x. does (putR l t e st dr tok sq body) w x w' \<and> refused r x \<and> later T T' \<and> state b w' T' nm H"
    and put_astray:
      "state (Suc b) w T nm H \<Longrightarrow> path_name e \<Longrightarrow> path_name st \<Longrightarrow> path_name dr \<Longrightarrow> \<not> a_dir dr \<Longrightarrow>
       \<exists>w' T' x. does (putR l t e st dr tok sq body) w x w' \<and> refused ReasonBadRoute x \<and> later T T' \<and> state b w' T' nm H"
    and take_allowed:
      "state (Suc b) w T nm H \<Longrightarrow> path_name st \<Longrightarrow> a_dir dr \<Longrightarrow> verdict T tok (tg_Estate t) st dr OpRead = '''' \<Longrightarrow> young T (H (st, dr)) \<Longrightarrow>
       \<exists>w' T'. does (take_msgs l t (tg_Estate t) st dr tok) w (200, map sent (filter unheld (map (lapse T) (H (st, dr))))) w' \<and> later T T' \<and>
         state b w' T' nm (H((st, dr) := filter (\<lambda>v. \<not> unheld v) (map (lapse T) (H (st, dr)))))"
    and take_refused:
      "state (Suc b) w T nm H \<Longrightarrow> path_name e \<Longrightarrow> path_name st \<Longrightarrow> a_dir dr \<Longrightarrow> verdict T tok e st dr OpRead = r \<Longrightarrow> r \<noteq> '''' \<Longrightarrow>
       \<exists>w' T' got. does (take_msgs l t e st dr tok) w (reason_status r, got) w' \<and> later T T' \<and> state b w' T' nm H"
    and control_writes: "path_name st \<Longrightarrow> verdict T (tg_Control t) (tg_Estate t) st c2s OpWrite = ''''"
    and control_no_reply: "path_name st \<Longrightarrow> verdict T (tg_Control t) (tg_Estate t) st s2c OpWrite = ReasonWrongDirection"
    and control_reads: "path_name st \<Longrightarrow> a_dir dr \<Longrightarrow> verdict T (tg_Control t) (tg_Estate t) st dr OpRead = ''''"
    and station_writes: "path_name st \<Longrightarrow> verdict T (tg_StationTok t) (tg_Estate t) st s2c OpWrite = ''''"
    and station_no_request: "path_name st \<Longrightarrow> verdict T (tg_StationTok t) (tg_Estate t) st c2s OpWrite = ReasonWrongDirection"
    and station_reads: "path_name st \<Longrightarrow> a_dir dr \<Longrightarrow> verdict T (tg_StationTok t) (tg_Estate t) st dr OpRead = ''''"
    and nobody: "verdict T '''' e st dr op = ReasonNoCredential"
    and stranger: "verdict T wrong_token e st dr op = ReasonBadCredential"
    and forger: "verdict T forged_lease e st dr op = ReasonAuthorityUnverifiable"
    and foreigner: "tg_OtherEstate t \<noteq> '''' \<Longrightarrow> path_name (tg_OtherEstate t) \<and> (tok = tg_Control t \<or> tok = tg_StationTok t \<longrightarrow>
       verdict T tok (tg_OtherEstate t) st dr op = ReasonBadCredential)"
    and no_such_estate: "verdict T (tg_Control t) ''estate-that-does-not-exist'' st dr op = ReasonBadCredential"
    and lease_taken:
      "state (Suc b) w T nm H \<Longrightarrow> path_name st \<Longrightarrow> (v, Some dt) \<in> set lease_forms \<Longrightarrow> q = map (lapse T) (H (st, c2s)) \<Longrightarrow> young T q \<Longrightarrow>
       \<exists>w' T' r. does (takeLeased l t (tg_Estate t) st c2s (tg_StationTok t) v) w (200, r) w' \<and> later T T' \<and>
         (if filter unheld q = [] then r = no_lease \<and> state b w' T' (\<lambda>i. nm (Suc i)) (H((st, c2s) := q))
          else lr_Lease r = nm 0 \<and> lr_Until r \<noteq> '''' \<and> lr_Messages r = map sent (filter unheld q) \<and>
            state b w' T' (\<lambda>i. nm (Suc i)) (H((st, c2s) := map (grant_lease (nm 0) (T + dt)) q)))"
    and lease_not_understood:
      "state (Suc b) w T nm H \<Longrightarrow> path_name st \<Longrightarrow> (v, None) \<in> set lease_forms \<Longrightarrow>
       \<exists>w' T' r. does (takeLeased l t (tg_Estate t) st c2s (tg_StationTok t) v) w (400, r) w' \<and>
         later T T' \<and> state b w' T' nm H"
    and plain_lease:
      "state (Suc b) w T nm H \<Longrightarrow> path_name st \<Longrightarrow> H (st, c2s) = [] \<Longrightarrow>
       \<exists>w' T' r. lab_Do l (client_request ''GET'' (target_url t (tg_Estate t) st c2s ''wait=0&lease=0'') (tg_StationTok t) None) w = (Some r, w') \<and>
         snd (Unmarshal msgs_lax (cr_body r) []) \<and> later T T' \<and> state b w' T' nm H"
    and acknowledged:
      "state (Suc b) w T nm H \<Longrightarrow> path_name st \<Longrightarrow> path_name idt \<Longrightarrow> length idt < 1000 \<Longrightarrow> q = map (lapse T) (H (st, c2s)) \<Longrightarrow> young T q \<Longrightarrow>
       acked = filter (\<lambda>v. v_Lease v = idt) q \<Longrightarrow>
       \<exists>w' T' n. does (target_ack l t (tg_Estate t) st c2s (tg_StationTok t) idt) w (if acked = [] then 410 else 200, n) w' \<and> (acked = [] \<or> n = int (length acked)) \<and>
         later T T' \<and> state b w' T' nm (H((st, c2s) := filter (\<lambda>v. v_Lease v \<noteq> idt) q))"
    and ack_refused:
      "state (Suc b) w T nm H \<Longrightarrow> path_name e \<Longrightarrow> path_name st \<Longrightarrow> verdict T tok e st c2s OpRead = r \<Longrightarrow> r \<noteq> '''' \<Longrightarrow>
       \<exists>w' T' n. does (target_ack l t e st c2s tok idt) w (reason_status r, n) w' \<and> later T T' \<and> state b w' T' nm H"
    and poll_woken:
      "state (Suc b) w T nm H \<Longrightarrow> path_name st \<Longrightarrow> H (st, c2s) = [] \<Longrightarrow> length body \<le> 4096 \<Longrightarrow>
       \<exists>w' T' r x v. lab_Beside l (client_request ''GET'' (target_url t (tg_Estate t) st c2s '''') (tg_StationTok t) None) (400 * Millisecond)
           (client_request ''POST'' (target_url t (tg_Estate t) st c2s '''') (tg_Control t) (Some (put_text sq body))) w = ((Some (Some r), x), w') \<and>
         cr_status r = 200 \<and> fst (Unmarshal msgs_lax (cr_body r) []) = [sent v] \<and> T \<le> T' \<and> state b w' T' nm H"
    and leased_poll_woken:
      "state (Suc b) w T nm H \<Longrightarrow> path_name st \<Longrightarrow> H (st, c2s) = [] \<Longrightarrow> length body \<le> 4096 \<Longrightarrow>
       \<exists>w' T' nm' r x v u. lab_Beside l (client_request ''GET'' (target_url t (tg_Estate t) st c2s ''lease=30s'') (tg_StationTok t) None) (400 * Millisecond)
           (client_request ''POST'' (target_url t (tg_Estate t) st c2s '''') (tg_Control t) (Some (put_text sq body))) w = ((Some (Some r), x), w') \<and>
         cr_status r = 200 \<and> fst (Unmarshal lease_lax (cr_body r) no_lease) = \<lparr>lr_Lease = v_Lease v, lr_Until = u, lr_Messages = [sent v]\<rparr> \<and>
         T \<le> T' \<and> path_name (v_Lease v) \<and> length (v_Lease v) < 1000 \<and> T' + 20 * Second \<le> v_Until v \<and> T' - v_At v \<le> Minute \<and>
         state b w' T' nm' (H((st, c2s) := [v]))"
    and disrupted:
      "state (Suc b) w T nm H \<Longrightarrow> tg_Disrupt t = Some f \<Longrightarrow> \<exists>w' T' nm'. f w = (True, w') \<and> T \<le> T' \<and> T' \<le> T + Minute \<and>
         state b w' T' nm' (\<lambda>k. map unlease (H k))"
begin

text \<open>The laws with the verdicts put in.\<close>

lemma dirs [simp]: "a_dir c2s" "a_dir s2c"
  by (simp_all add: a_dir_def)

lemma reasons [simp]:
  "reason_status r \<noteq> 202" "reason_status ReasonNoCredential = 401" "reason_status ReasonBadCredential = 401"
  by (simp_all add: reason_status_def)

lemma less: "state (n + b) w T nm H \<Longrightarrow> state b w T nm H"
  by (induction n) (auto dest: fewer)

lemma soon: "later T T' \<Longrightarrow> v_At v = T \<Longrightarrow> T' - v_At v \<le> Hour"
  by (simp add: later_def slack_def duration_defs)

lemmas finish = finishesI [where state = "state b" for b]

lemma put_new:
  assumes "state (Suc b) w T nm H" "path_name st" "length body \<le> 4096" "H (st, c2s) = []"
  obtains w' T' v where "does (put l t (tg_Estate t) st c2s (tg_Control t) q body) w 202 w'" "later T T'"
    "v_ID v \<noteq> ''''" "v_Seq v = q" "v_Body v = body" "v_At v = T" "v_Lease v = ''''" "state b w' T' nm (H((st, c2s) := [v]))"
  using put_accepted [OF assms(1,2) dirs(1) control_writes [OF assms(2)] assms(3), of q] assms(4)
  by (auto simp: young_def dest: does_put)

lemma take_one:
  assumes "state (Suc b) w T nm (H((st, c2s) := [v]))" "path_name st" "v_Lease v = ''''" "T - v_At v \<le> Hour"
  obtains w' T' where "does (take_msgs l t (tg_Estate t) st c2s (tg_StationTok t)) w (200, [sent v]) w'"
    "later T T'" "state b w' T' nm (H((st, c2s) := []))"
  using take_allowed [OF assms(1,2) dirs(1) station_reads [OF assms(2) dirs(1)]] assms(3,4)
  by (auto simp: young_def lapse_def unheld_def)

lemma take_none:
  assumes "state (Suc b) w T nm H" "path_name st" "H (st, c2s) = []"
  obtains w' T' where "does (take_msgs l t (tg_Estate t) st c2s (tg_StationTok t)) w (200, []) w'" "later T T'" "state b w' T' nm H"
proof -
  have "H((st, c2s) := []) = H" using assms(3) by auto
  then show thesis
    using take_allowed [OF assms(1,2) dirs(1) station_reads [OF assms(2) dirs(1)]] assms(3) that by (auto simp: young_def)
qed

lemma no_put:
  assumes "state (Suc b) w T nm H" "path_name e" "path_name st" "a_dir dr" "verdict T tok e st dr OpWrite = r" "r \<noteq> ''''"
  obtains w' T' why where "does (putR l t e st dr tok q body) w (reason_status r, why) w'"
    "does (put l t e st dr tok q body) w (reason_status r) w'" "rf_Reason why = r" "rf_Error why \<noteq> ''''" "later T T'" "state b w' T' nm H"
  using put_refused [OF assms, of q body] by (auto simp: refused_def dest: does_put)

section \<open>The sections of the suite\<close>

lemma message_section_passes:
  assumes u: "path_name uniq"
  shows "passes state 3 {uniq} {} (message_section l t uniq)"
proof (rule passesI)
  fix b w T nm H and out :: "check_result list"
  assume s0: "state (3 + b) w T nm H" and e: "\<And>s d. s \<in> {uniq} \<Longrightarrow> H (s, d) = []" and out: "passed out"
  from s0 have s: "state (Suc (Suc (Suc b))) w T nm H" by (simp add: numeral_eq_Suc)
  have k: "H (uniq, c2s) = []" "length sent_bytes \<le> 4096" "H((uniq, c2s) := []) = H" using e by (auto simp: sent_bytes_def)
  obtain w1 T1 v where 1: "does (put l t (tg_Estate t) uniq c2s (tg_Control t) 1 sent_bytes) w 202 w1" "later T T1"
    "v_ID v \<noteq> ''''" "v_Seq v = 1" "v_Body v = sent_bytes" "v_At v = T" "v_Lease v = ''''" "state (Suc (Suc b)) w1 T1 nm (H((uniq, c2s) := [v]))"
    by (rule put_new [OF s u k(2,1)])
  obtain w2 T2 where 2: "does (take_msgs l t (tg_Estate t) uniq c2s (tg_StationTok t)) w1 (200, [sent v]) w2" "later T1 T2"
    "state (Suc b) w2 T2 nm (H((uniq, c2s) := []))"
    by (rule take_one [OF 1(8) u 1(7) soon [OF 1(2,6)]])
  obtain w3 T3 where 3: "does (take_msgs l t (tg_Estate t) uniq c2s (tg_StationTok t)) w2 (200, []) w3" "later T2 T3" "state b w3 T3 nm H"
    by (rule take_none [OF 2(3) [unfolded k(3)] u k(1)])
  note r = does_run [OF 1(1)] does_run [OF 2(1)] does_run [OF 3(1)]
  show "finishes (state b) {} H (run_state (message_section l t uniq) (w, out))"
    by (rule finish [OF _ 3(3)]) (use 1 out in \<open>simp_all add: message_section_def r sent_def\<close>)
qed

lemma split_section_passes:
  assumes u: "path_name uniq"
  shows "passes state 4 {uniq} {} (split_section l t uniq)"
proof (rule passesI)
  fix b w T nm H and out :: "check_result list"
  assume s0: "state (4 + b) w T nm H" and e: "\<And>s d. s \<in> {uniq} \<Longrightarrow> H (s, d) = []" and out: "passed out"
  from s0 have s: "state (Suc (Suc (Suc (Suc b)))) w T nm H" by (simp add: numeral_eq_Suc)
  have k: "H (uniq, s2c) = []" "H((uniq, s2c) := []) = H" using e by auto
  obtain w1 T1 where 1: "does (put l t (tg_Estate t) uniq c2s (tg_StationTok t) 2 ''evil'') w (reason_status ReasonWrongDirection) w1" "state (Suc (Suc (Suc b))) w1 T1 nm H"
    using no_put [OF s estate_name u dirs(1) station_no_request [OF u]] by (metis list.distinct(1))
  obtain w2 T2 where 2: "does (put l t (tg_Estate t) uniq s2c (tg_Control t) 2 ''fake status'') w1 (reason_status ReasonWrongDirection) w2" "state (Suc (Suc b)) w2 T2 nm H"
    using no_put [OF 1(2) estate_name u dirs(2) control_no_reply [OF u]] by (metis list.distinct(1))
  obtain w3 T3 v where 3: "does (put l t (tg_Estate t) uniq s2c (tg_StationTok t) 1 ''real status'') w2 202 w3"
    "later T2 T3" "v_At v = T2" "v_Lease v = ''''" "state (Suc b) w3 T3 nm (H((uniq, s2c) := [v]))"
    using put_accepted [OF 2(2) u dirs(2) station_writes [OF u], of "''real status''" 1] k(1) by (auto simp: young_def dest: does_put)
  obtain w4 T4 where 4: "does (take_msgs l t (tg_Estate t) uniq s2c (tg_Control t)) w3 (200, [sent v]) w4" "state b w4 T4 nm H"
    using take_allowed [OF 3(5) u dirs(2) control_reads [OF u dirs(2)]] soon [OF 3(2,3)] 3(4) k(2) by (auto simp: young_def lapse_def unheld_def)
  note r = does_run [OF 1(1)] does_run [OF 2(1)] does_run [OF 3(1)] does_run [OF 4(1)]
  show "finishes (state b) {} H (run_state (split_section l t uniq) (w, out))"
    by (rule finish [OF _ 4(2)]) (use out in \<open>simp_all add: split_section_def r\<close>)
qed

lemma credential_section_passes:
  assumes u: "path_name uniq"
  shows "passes state 3 {} {} (credential_section l t uniq)"
proof (rule passesI)
  fix b w T nm H and out :: "check_result list"
  assume s0: "state (3 + b) w T nm H" and out: "passed out"
  from s0 have s: "state (Suc (Suc (Suc b))) w T nm H" by (simp add: numeral_eq_Suc)
  obtain w1 T1 where 1: "does (put l t (tg_Estate t) uniq c2s '''' 3 ''x'') w (reason_status ReasonNoCredential) w1" "state (Suc (Suc b)) w1 T1 nm H"
    using no_put [OF s estate_name u dirs(1) nobody] by (metis list.distinct(1))
  obtain w2 T2 got where 2: "does (take_msgs l t (tg_Estate t) uniq c2s '''') w1 (reason_status ReasonNoCredential, got) w2" "state (Suc b) w2 T2 nm H"
    using take_refused [OF 1(2) estate_name u dirs(1) nobody] by auto
  obtain w3 T3 where 3: "does (put l t (tg_Estate t) uniq c2s wrong_token 3 ''x'') w2 (reason_status ReasonBadCredential) w3" "state b w3 T3 nm H"
    using no_put [OF 2(2) estate_name u dirs(1) stranger] by (metis list.distinct(1))
  note r = does_run [OF 1(1)] does_run [OF 2(1)] does_run [OF 3(1)]
  show "finishes (state b) {} H (run_state (credential_section l t uniq) (w, out))"
    by (rule finish [OF _ 3(2)]) (use out in \<open>simp_all add: credential_section_def r\<close>)
qed

lemma reason_section_passes:
  assumes u: "path_name uniq"
  shows "passes state 3 {} {} (reason_section l t uniq)"
proof (rule passesI)
  fix b w T nm H and out :: "check_result list"
  assume s0: "state (3 + b) w T nm H" and out: "passed out"
  from s0 have s: "state (Suc (Suc (Suc b))) w T nm H" by (simp add: numeral_eq_Suc)
  obtain w1 T1 a where 1: "does (putR l t (tg_Estate t) uniq c2s '''' 3 ''x'') w (reason_status ReasonNoCredential, a) w1"
    "rf_Reason a = ReasonNoCredential" "rf_Error a \<noteq> ''''" "state (Suc (Suc b)) w1 T1 nm H"
    using no_put [OF s estate_name u dirs(1) nobody] by (metis list.distinct(1))
  obtain w2 T2 y where 2: "does (putR l t (tg_Estate t) uniq c2s wrong_token 3 ''x'') w1 (reason_status ReasonBadCredential, y) w2"
    "rf_Reason y = ReasonBadCredential" "rf_Error y \<noteq> ''''" "state (Suc b) w2 T2 nm H"
    using no_put [OF 1(4) estate_name u dirs(1) stranger] by (metis list.distinct(1))
  obtain w3 T3 c where 3: "does (putR l t (tg_Estate t) uniq c2s (tg_StationTok t) 3 ''x'') w2 (reason_status ReasonWrongDirection, c) w3"
    "rf_Reason c = ReasonWrongDirection" "rf_Error c \<noteq> ''''" "state b w3 T3 nm H"
    using no_put [OF 2(4) estate_name u dirs(1) station_no_request [OF u]] by (metis list.distinct(1))
  note r = does_run [OF 1(1)] does_run [OF 2(1)] does_run [OF 3(1)]
  show "finishes (state b) {} H (run_state (reason_section l t uniq) (w, out))"
    by (rule finish [OF _ 3(4)]) (use 1 2 3 out in \<open>simp_all add: reason_section_def r\<close>)
qed

lemma health_section_passes: "passes state 1 {} {} (health_section l t)"
proof (rule passesI)
  fix b w T nm H and out :: "check_result list"
  assume s0: "state (1 + b) w T nm H" and out: "passed out"
  from s0 have s: "state (Suc b) w T nm H" by (simp add: numeral_eq_Suc)
  obtain w1 T1 r h where 1: "lab_Do l (client_request ''GET'' (base_url t @ ''/health'') '''' None) w = (Some r, w1)" "cr_status r = 200"
    "Unmarshal health_lax (cr_body r) zero_health = (h, True)" "he_OK h" "he_Version h \<noteq> ''''" "he_Hash h \<noteq> ''''" "he_Durable h \<noteq> None"
    "state b w1 T1 nm H"
    using health_answers [OF s] by auto
  show "finishes (state b) {} H (run_state (health_section l t) (w, out))"
    by (rule finish [OF _ 1(8)]) (use 1 out in \<open>simp_all add: health_section_def target_do_def zero_health_def\<close>)
qed

lemma identity_check_passes: "path = ''/'' \<or> path = ''/version'' \<Longrightarrow> passes state 1 {} {} (identity_check l t path)"
proof (rule passesI)
  fix b w T nm H and out :: "check_result list"
  assume p: "path = ''/'' \<or> path = ''/version''" and s0: "state (1 + b) w T nm H" and out: "passed out"
  from s0 have s: "state (Suc b) w T nm H" by (simp add: numeral_eq_Suc)
  obtain w1 T1 r i where 1: "lab_Do l (client_request ''GET'' (base_url t @ path) '''' None) w = (Some r, w1)" "cr_status r = 200"
    "Unmarshal identity_lax (cr_body r) zero_identity = (i, True)" "id_Service i = ''heliograph-relay''" "id_Implementation i \<noteq> ''''"
    "id_Version i \<noteq> ''''" "id_Source i \<noteq> ''''" "state b w1 T1 nm H"
    using identity_answers [OF s p] by auto
  show "finishes (state b) {} H (run_state (identity_check l t path) (w, out))"
    by (rule finish [OF _ 1(8)]) (use 1 out in \<open>simp_all add: identity_check_def target_do_def zero_identity_def\<close>)
qed

lemma browser_passes:
  "passes state 1 {} {} (do { r \<leftarrow> act (lab_Do l (browser_request t)); ok name (case r of Some r \<Rightarrow> has_prefix (cr_type r) ''text/html'' | None \<Rightarrow> False) })"
  (is "passes state 1 {} {} ?m")
proof (rule passesI)
  fix b w T nm H and out :: "check_result list"
  assume s0: "state (1 + b) w T nm H" and out: "passed out"
  from s0 have s: "state (Suc b) w T nm H" by (simp add: numeral_eq_Suc)
  obtain w1 T1 r where 1: "lab_Do l (browser_request t) w = (Some r, w1)" "has_prefix (cr_type r) ''text/html''" "state b w1 T1 nm H"
    using browser_answered [OF s] by auto
  show "finishes (state b) {} H (run_state ?m (w, out))"
    by (rule finish [OF _ 1(3)]) (use 1 out in simp_all)
qed

lemma identity_section_passes: "passes state 3 {} {} (identity_section l t)"
proof -
  let ?b = "do { r \<leftarrow> act (lab_Do l (browser_request t)); ok ''/ gives a browser HTML rather than a file to download''
       (case r of Some r \<Rightarrow> has_prefix (cr_type r) ''text/html'' | None \<Rightarrow> False) }"
  have "identity_section l t = identity_check l t ''/'' \<bind> (\<lambda>_. identity_check l t ''/version'' \<bind> (\<lambda>_. ?b))"
    by (simp add: identity_section_def)
  then show ?thesis
    using passes_seq [OF identity_check_passes passes_seq [OF identity_check_passes browser_passes]] by (simp add: numeral_eq_Suc)
qed

lemma unverifiable_section_passes:
  assumes u: "path_name (uniq @ ''-lease'')" "path_name (uniq @ ''-dotted'')"
  shows "passes state 3 {uniq @ ''-dotted''} {uniq @ ''-dotted''} (unverifiable_section l t uniq)"
proof (rule passesI)
  fix b w T nm H and out :: "check_result list"
  assume s0: "state (3 + b) w T nm H" and e: "\<And>s d. s \<in> {uniq @ ''-dotted''} \<Longrightarrow> H (s, d) = []" and out: "passed out"
  from s0 have s: "state (Suc (Suc (Suc b))) w T nm H" by (simp add: numeral_eq_Suc)
  have k: "H (uniq @ ''-dotted'', c2s) = []" "length ''x'' \<le> 4096" using e by simp_all
  obtain w1 T1 a where 1: "does (putR l t (tg_Estate t) (uniq @ ''-lease'') s2c forged_lease 1 ''x'') w (reason_status ReasonAuthorityUnverifiable, a) w1"
    "rf_Reason a = ReasonAuthorityUnverifiable" "state (Suc (Suc b)) w1 T1 nm H"
    using no_put [OF s estate_name u(1) dirs(2) forger] by (metis list.distinct(1))
  obtain w2 T2 got where 2: "does (take_msgs l t (tg_Estate t) (uniq @ ''-lease'') c2s forged_lease) w1 (reason_status ReasonAuthorityUnverifiable, got) w2"
    "state (Suc b) w2 T2 nm H"
    using take_refused [OF 1(3) estate_name u(1) dirs(1) forger] by auto
  obtain w3 T3 v where 3: "does (put l t (tg_Estate t) (uniq @ ''-dotted'') c2s (tg_Control t) 1 ''x'') w2 202 w3"
    "later T2 T3" "v_ID v \<noteq> ''''" "v_Seq v = 1" "v_Body v = ''x''" "v_At v = T2" "v_Lease v = ''''"
    "state b w3 T3 nm (H((uniq @ ''-dotted'', c2s) := [v]))"
    by (rule put_new [OF 2(2) u(2) k(2,1)])
  note r = does_run [OF 1(1)] does_run [OF 2(1)] does_run [OF 3(1)]
  show "finishes (state b) {uniq @ ''-dotted''} H (run_state (unverifiable_section l t uniq) (w, out))"
    by (rule finish [OF _ 3(8)]) (use 1(2) out in \<open>simp_all add: unverifiable_section_def r reason_status_def\<close>)
qed

lemma route_section_passes:
  assumes u: "path_name uniq"
  shows "passes state 4 {} {} (route_section l t uniq)"
proof -
  have other: "passes state 2 {} {} (do {
        code \<leftarrow> put l t (tg_OtherEstate t) uniq ''c2s'' (tg_Control t) 1 ''x'';
        ok a (code \<noteq> 202);
        (code, _) \<leftarrow> take_msgs l t (tg_OtherEstate t) uniq ''c2s'' (tg_StationTok t);
        ok b (code = 401) })" (is "passes state 2 {} {} ?m") if "tg_OtherEstate t \<noteq> ''''" for a b
  proof (rule passesI)
    fix b w T nm H and out :: "check_result list"
    assume s0: "state (2 + b) w T nm H" and out: "passed out"
    from s0 have s: "state (Suc (Suc b)) w T nm H" by (simp add: numeral_eq_Suc)
    note f = foreigner [OF that]
    obtain w1 T1 where 1: "does (put l t (tg_OtherEstate t) uniq c2s (tg_Control t) 1 ''x'') w (reason_status ReasonBadCredential) w1" "state (Suc b) w1 T1 nm H"
      using no_put [OF s _ u dirs(1), of "tg_OtherEstate t" "tg_Control t" ReasonBadCredential] f by (metis list.distinct(1))
    obtain w2 T2 got where 2: "does (take_msgs l t (tg_OtherEstate t) uniq c2s (tg_StationTok t)) w1 (reason_status ReasonBadCredential, got) w2"
      "state b w2 T2 nm H"
      using take_refused [OF 1(2) _ u dirs(1), of "tg_OtherEstate t" "tg_StationTok t" ReasonBadCredential] f by auto
    show "finishes (state b) {} H (run_state ?m (w, out))"
      by (rule finish [OF _ 2(2)]) (use out in \<open>simp_all add: does_run [OF 1(1)] does_run [OF 2(1)]\<close>)
  qed
  have rest: "passes state 2 {} {} (do {
     code \<leftarrow> put l t ''estate-that-does-not-exist'' uniq ''c2s'' (tg_Control t) 1 ''x'';
     ok a (code \<noteq> 202);
     code \<leftarrow> put l t (tg_Estate t) uniq ''sideways'' (tg_Control t) 1 ''x'';
     ok b (code \<noteq> 202) })" (is "passes state 2 {} {} ?m") for a b
  proof (rule passesI)
    fix b w T nm H and out :: "check_result list"
    assume s0: "state (2 + b) w T nm H" and out: "passed out"
    from s0 have s: "state (Suc (Suc b)) w T nm H" by (simp add: numeral_eq_Suc)
    have names: "path_name ''estate-that-does-not-exist''" "path_name ''sideways''" by code_simp+
    obtain w1 T1 where 1: "does (put l t ''estate-that-does-not-exist'' uniq c2s (tg_Control t) 1 ''x'') w (reason_status ReasonBadCredential) w1"
      "state (Suc b) w1 T1 nm H"
      using no_put [OF s names(1) u dirs(1) no_such_estate] by (metis list.distinct(1))
    obtain w2 T2 where 2: "does (put l t (tg_Estate t) uniq ''sideways'' (tg_Control t) 1 ''x'') w1 (reason_status ReasonBadRoute) w2" "state b w2 T2 nm H"
      using put_astray [OF 1(2) estate_name u names(2)] by (force simp: a_dir_def refused_def dest: does_put)
    show "finishes (state b) {} H (run_state ?m (w, out))"
      by (rule finish [OF _ 2(2)]) (use out in \<open>simp_all add: does_run [OF 1(1)] does_run [OF 2(1)]\<close>)
  qed
  show ?thesis
  proof (cases "tg_OtherEstate t = ''''")
    case False
    then show ?thesis using passes_seq [OF other [OF False] rest] by (simp add: route_section_def split_beta)
  qed (use passes_more [OF rest fewer, of 2] in \<open>simp add: route_section_def\<close>)
qed

lemma path_suffix: "path_name u \<Longrightarrow> list_all path_char s \<Longrightarrow> path_name (u @ s)"
  by (simp add: path_name_def)

lemma body_station: "path_name u \<Longrightarrow> path_name (body_station u i)" "body_station u i = body_station u j \<longleftrightarrow> i = j"
proof -
  have "list_all path_char ''-body''" by code_simp
  moreover have "list_all path_char (show_nat i)" using show_nat_digits [of i] by (auto simp: list_all_iff path_char_def Let_def)
  ultimately have "list_all path_char (''-body'' @ show_nat i)" by simp
  then show "path_name u \<Longrightarrow> path_name (body_station u i)" unfolding body_station_def by (rule path_suffix [rotated])
qed (simp add: body_station_def)

lemma body_loop:
  assumes "state (length bs + b) w T nm H" "distinct (map fst bs)" "path_name uniq"
    and "\<forall>b \<in> set bs. length (snd b) \<le> 4096 \<and> H (body_station uniq (fst b), c2s) = []"
  shows "\<exists>w' T' H'. does (loop (body_put l t uniq) bs True) w True w' \<and> state b w' T' nm H' \<and>
    (\<forall>s d. s \<notin> range (body_station uniq) \<longrightarrow> H' (s, d) = H (s, d))"
  using assms
proof (induction bs arbitrary: w T H)
  case Nil
  then show ?case by (auto simp: does_def)
next
  case (Cons c bs)
  let ?st = "body_station uniq (fst c)"
  from Cons.prems(1) have s: "state (Suc (length bs + b)) w T nm H" by simp
  from Cons.prems have p: "path_name ?st" "length (snd c) \<le> 4096" "H (?st, c2s) = []" by (simp_all add: body_station)
  obtain w1 T1 v where 1: "does (put l t (tg_Estate t) ?st c2s (tg_Control t) 1 (snd c)) w 202 w1" "later T T1"
    "v_ID v \<noteq> ''''" "v_Seq v = 1" "v_Body v = snd c" "v_At v = T" "v_Lease v = ''''" "state (length bs + b) w1 T1 nm (H((?st, c2s) := [v]))"
    by (rule put_new [OF s p])
  have "\<forall>x \<in> set bs. length (snd x) \<le> 4096 \<and> (H((?st, c2s) := [v])) (body_station uniq (fst x), c2s) = []"
  proof
    fix x assume x: "x \<in> set bs"
    then have "fst x \<noteq> fst c" using Cons.prems(2) by (metis distinct.simps(2) image_eqI list.set_map list.simps(9))
    then show "length (snd x) \<le> 4096 \<and> (H((?st, c2s) := [v])) (body_station uniq (fst x), c2s) = []"
      using Cons.prems(4) x by (simp add: body_station)
  qed
  with Cons.IH [OF 1(8)] Cons.prems(2,3) obtain w2 T2 H2 where 2: "does (loop (body_put l t uniq) bs True) w1 True w2" "state b w2 T2 nm H2"
    "\<forall>s d. s \<notin> range (body_station uniq) \<longrightarrow> H2 (s, d) = (H((?st, c2s) := [v])) (s, d)"
    by auto
  have "does (loop (body_put l t uniq) (c # bs) True) w True w2"
    using 1(1) 2(1) by (simp add: does_def body_put_def)
  with 2(2,3) show ?case by (intro exI [of _ w2] exI [of _ T2] exI [of _ H2]) auto
qed

lemma body_section_passes:
  assumes u: "path_name uniq"
  shows "passes state 4 (range (body_station uniq)) (range (body_station uniq)) (body_section l t uniq)"
proof (rule passesI)
  fix b w T nm H and out :: "check_result list"
  assume s0: "state (4 + b) w T nm H" and e: "\<And>s d. s \<in> range (body_station uniq) \<Longrightarrow> H (s, d) = []" and out: "passed out"
  from s0 have s: "state (length odd_bodies + b) w T nm H" by (simp add: odd_bodies_def numeral_eq_Suc)
  have "\<forall>b \<in> set odd_bodies. length (snd b) \<le> 4096" "distinct (map fst odd_bodies)" by (simp_all add: odd_bodies_def numeral_eq_Suc)
  with body_loop [OF s _ u] e obtain w1 T1 H1 where 1: "does (loop (body_put l t uniq) odd_bodies True) w True w1" "state b w1 T1 nm H1"
    "\<forall>s d. s \<notin> range (body_station uniq) \<longrightarrow> H1 (s, d) = H (s, d)"
    by (metis rangeI)
  show "finishes (state b) (range (body_station uniq)) H (run_state (body_section l t uniq) (w, out))"
    by (rule finish [OF _ 1(2)]) (use 1(3) out in \<open>simp_all add: body_section_def does_run [OF 1(1)]\<close>)
qed

lemma order_section_passes:
  assumes u: "path_name (uniq @ ''-seq'')"
  shows "passes state 3 {uniq @ ''-seq''} {uniq @ ''-seq''} (order_section l t uniq)"
proof (rule passesI)
  fix b w T nm H and out :: "check_result list"
  let ?k = "(uniq @ ''-seq'', c2s)"
  assume s0: "state (3 + b) w T nm H" and e: "\<And>s d. s \<in> {uniq @ ''-seq''} \<Longrightarrow> H (s, d) = []" and out: "passed out"
  from s0 have s: "state (Suc (Suc (Suc b))) w T nm H" by (simp add: numeral_eq_Suc)
  have k: "H ?k = []" "length ''a'' \<le> 4096" using e by simp_all
  obtain w1 T1 a where 1: "does (put l t (tg_Estate t) (uniq @ ''-seq'') c2s (tg_Control t) 99 ''a'') w 202 w1" "later T T1"
    "v_ID a \<noteq> ''''" "v_Seq a = 99" "v_Body a = ''a''" "v_At a = T" "v_Lease a = ''''" "state (Suc (Suc b)) w1 T1 nm (H(?k := [a]))"
    by (rule put_new [OF s u k(2,1)])
  obtain w2 T2 y where 2: "does (put l t (tg_Estate t) (uniq @ ''-seq'') c2s (tg_Control t) 1 ''b'') w1 202 w2" "later T1 T2"
    "v_Seq y = 1" "v_At y = T1" "v_Lease y = ''''" "state (Suc b) w2 T2 nm (H(?k := [a, y]))"
    using put_accepted [OF 1(8) u dirs(1) control_writes [OF u], of "''b''" 1] soon [OF 1(2,6)] by (auto simp: young_def dest: does_put)
  have "T2 - v_At a \<le> Hour" "T2 - v_At y \<le> Hour" using 1(2,6) 2(2,4) by (simp_all add: later_def slack_def duration_defs)
  then obtain w3 T3 where 3: "does (take_msgs l t (tg_Estate t) (uniq @ ''-seq'') c2s (tg_StationTok t)) w2 (200, [sent a, sent y]) w3"
    "state b w3 T3 nm (H(?k := []))"
    using take_allowed [OF 2(6) u dirs(1) station_reads [OF u dirs(1)]] 1(7) 2(5) by (auto simp: young_def lapse_def unheld_def)
  note r = does_run [OF 1(1)] does_run [OF 2(1)] does_run [OF 3(1)]
  show "finishes (state b) {uniq @ ''-seq''} H (run_state (order_section l t uniq) (w, out))"
    by (rule finish [OF _ 3(2)]) (use 1(4) 2(3) out in \<open>simp_all add: order_section_def r sent_def word_le_nat_alt\<close>)
qed

lemma poll_section_passes:
  assumes u: "path_name (uniq @ ''-poll'')"
  shows "passes state 1 {uniq @ ''-poll''} {} (poll_section l t uniq)"
proof (rule passesI)
  fix b w T nm H and out :: "check_result list"
  assume s0: "state (1 + b) w T nm H" and e: "\<And>s d. s \<in> {uniq @ ''-poll''} \<Longrightarrow> H (s, d) = []" and out: "passed out"
  from s0 have s: "state (Suc b) w T nm H" by (simp add: numeral_eq_Suc)
  have k: "H (uniq @ ''-poll'', c2s) = []" "length ''wake up'' \<le> 4096" using e by simp_all
  from poll_woken [OF s u k, of 1] show "finishes (state b) {} H (run_state (poll_section l t uniq) (w, out))"
  proof (elim exE conjE)
    fix w' T' r x v
    assume 1: "lab_Beside l (client_request ''GET'' (target_url t (tg_Estate t) (uniq @ ''-poll'') c2s '''') (tg_StationTok t) None) (400 * Millisecond)
        (client_request ''POST'' (target_url t (tg_Estate t) (uniq @ ''-poll'') c2s '''') (tg_Control t) (Some (put_text 1 ''wake up''))) w =
        ((Some (Some r), x), w')" "cr_status r = 200" "fst (Unmarshal msgs_lax (cr_body r) []) = [sent v]" "state b w' T' nm H"
    show ?thesis by (rule finish [OF _ 1(4)]) (use 1 out in \<open>simp_all add: poll_section_def Let_def\<close>)
  qed
qed

lemma wait_section_passes:
  assumes u: "path_name (uniq @ ''-empty'')"
  shows "passes state 1 {uniq @ ''-empty''} {} (wait_section l t uniq)"
proof (rule passesI)
  fix b w T nm H and out :: "check_result list"
  assume s0: "state (1 + b) w T nm H" and e: "\<And>s d. s \<in> {uniq @ ''-empty''} \<Longrightarrow> H (s, d) = []" and out: "passed out"
  from s0 have s: "state (Suc b) w T nm H" by (simp add: numeral_eq_Suc)
  have k: "H (uniq @ ''-empty'', c2s) = []" using e by simp
  obtain w1 T1 where 1: "does (take_msgs l t (tg_Estate t) (uniq @ ''-empty'') c2s (tg_StationTok t)) w (200, []) w1" "later T T1" "state b w1 T1 nm H"
    by (rule take_none [OF s u k])
  have "T1 - T < 5 * Second" using 1(2) by (simp add: later_def slack_def duration_defs)
  then show "finishes (state b) {} H (run_state (wait_section l t uniq) (w, out))"
    by (intro finish [OF _ 1(3)]) (use out in \<open>simp_all add: wait_section_def does_run [OF 1(1)] clock [OF s] clock [OF 1(3)]\<close>)
qed

section \<open>Leased collection\<close>

lemma plain_part_goes:
  assumes u: "path_name (uniq @ ''-plain'')" "path_name (uniq @ ''-zero'')" and s0: "state (6 + b) w T nm H"
    and k: "H (uniq @ ''-plain'', c2s) = []" "H (uniq @ ''-zero'', c2s) = []" and out: "passed out"
  obtains w' T' out' where "run_state (plain_part l t uniq) (w, out) = (True, (w', out'))" "passed out'" "state b w' T' nm H"
proof -
  from s0 have s: "state (Suc (Suc (Suc (Suc (Suc (Suc b)))))) w T nm H" by (simp add: numeral_eq_Suc)
  have len: "length ''plain'' \<le> 4096" "length ''zero'' \<le> 4096" and e: "H((uniq @ ''-plain'', c2s) := []) = H" "H((uniq @ ''-zero'', c2s) := []) = H"
    using k by auto
  obtain w1 T1 v where 1: "does (put l t (tg_Estate t) (uniq @ ''-plain'') c2s (tg_Control t) 1 ''plain'') w 202 w1" "later T T1" "v_ID v \<noteq> ''''"
    "v_Seq v = 1" "v_Body v = ''plain''" "v_At v = T" "v_Lease v = ''''" "state (Suc (Suc (Suc (Suc (Suc b))))) w1 T1 nm (H((uniq @ ''-plain'', c2s) := [v]))"
    by (rule put_new [OF s u(1) len(1) k(1)])
  obtain w2 T2 where 2: "does (take_msgs l t (tg_Estate t) (uniq @ ''-plain'') c2s (tg_StationTok t)) w1 (200, [sent v]) w2" "later T1 T2"
    "state (Suc (Suc (Suc (Suc b)))) w2 T2 nm (H((uniq @ ''-plain'', c2s) := []))"
    by (rule take_one [OF 1(8) u(1) 1(7) soon [OF 1(2,6)]])
  obtain w3 T3 where 3: "does (take_msgs l t (tg_Estate t) (uniq @ ''-plain'') c2s (tg_StationTok t)) w2 (200, []) w3" "later T2 T3" "state (Suc (Suc (Suc b))) w3 T3 nm H"
    by (rule take_none [OF 2(3) [unfolded e(1)] u(1) k(1)])
  obtain w4 T4 z where 4: "does (put l t (tg_Estate t) (uniq @ ''-zero'') c2s (tg_Control t) 1 ''zero'') w3 202 w4" "later T3 T4" "v_ID z \<noteq> ''''"
    "v_Seq z = 1" "v_Body z = ''zero''" "v_At z = T3" "v_Lease z = ''''" "state (Suc (Suc b)) w4 T4 nm (H((uniq @ ''-zero'', c2s) := [z]))"
    by (rule put_new [OF 3(3) u(2) len(2) k(2)])
  obtain w5 T5 where 5: "does (take_msgs l t (tg_Estate t) (uniq @ ''-zero'') c2s (tg_StationTok t)) w4 (200, [sent z]) w5" "later T4 T5"
    "state (Suc b) w5 T5 nm (H((uniq @ ''-zero'', c2s) := []))"
    by (rule take_one [OF 4(8) u(2) 4(7) soon [OF 4(2,6)]])
  obtain w6 T6 r where 6: "lab_Do l (client_request ''GET'' (target_url t (tg_Estate t) (uniq @ ''-zero'') c2s ''wait=0&lease=0'') (tg_StationTok t) None) w5 = (Some r, w6)"
    "snd (Unmarshal msgs_lax (cr_body r) [])" "state b w6 T6 nm H"
    using plain_lease [OF 5(3) [unfolded e(2)] u(2) k(2)] by auto
  note r = does_run [OF 1(1)] does_run [OF 2(1)] does_run [OF 3(1)] does_run [OF 4(1)] does_run [OF 5(1)]
  have "\<exists>out'. run_state (plain_part l t uniq) (w, out) = (True, (w6, out')) \<and> passed out'"
    using out 1(3,5) 6(1,2) by (simp add: plain_part_def Let_def r target_do_def sent_def)
  then show thesis using that 6(3) by blast
qed

text \<open>Collecting under a lease a queue that holds one free message, and one that holds none.\<close>

lemma lease_one:
  assumes "state (Suc b) w T nm (H((st, c2s) := [v]))" "path_name st" "(x, Some dt) \<in> set lease_forms" "unheld (lapse T v)" "T - v_At v \<le> Hour"
  obtains w' T' r where "does (takeLeased l t (tg_Estate t) st c2s (tg_StationTok t) x) w (200, r) w'" "later T T'"
    "lr_Lease r = nm 0" "lr_Until r \<noteq> ''''" "lr_Messages r = [sent v]"
    "state b w' T' (\<lambda>i. nm (Suc i)) (H((st, c2s) := [v\<lparr>v_Lease := nm 0, v_Until := T + dt\<rparr>]))"
proof -
  have v: "sent (lapse T v) = sent v" "v_At (lapse T v) = v_At v"
    "grant_lease (nm 0) (T + dt) (lapse T v) = v\<lparr>v_Lease := nm 0, v_Until := T + dt\<rparr>"
    using assms(4) by (simp_all add: lapse_def sent_def grant_lease_def)
  show thesis
    using lease_taken [OF assms(1-3) refl] assms(4,5) v that by (auto simp: young_def)
qed

lemma lease_none:
  assumes "state (Suc b) w T nm (H((st, c2s) := [v]))" "path_name st" "(x, Some dt) \<in> set lease_forms" "v_Lease v \<noteq> ''''" "T < v_Until v" "T - v_At v \<le> Hour"
  obtains w' T' where "does (takeLeased l t (tg_Estate t) st c2s (tg_StationTok t) x) w (200, no_lease) w'" "later T T'"
    "state b w' T' (\<lambda>i. nm (Suc i)) (H((st, c2s) := [v]))"
  using lease_taken [OF assms(1-3) refl] assms(4-6) by (auto simp: young_def lapse_def unheld_def)

lemma take_held:
  assumes "state (Suc b) w T nm (H((st, c2s) := [v]))" "path_name st" "v_Lease v \<noteq> ''''" "T < v_Until v" "T - v_At v \<le> Hour"
  obtains w' T' where "does (take_msgs l t (tg_Estate t) st c2s (tg_StationTok t)) w (200, []) w'" "later T T'" "state b w' T' nm (H((st, c2s) := [v]))"
  using take_allowed [OF assms(1,2) dirs(1) station_reads [OF assms(2) dirs(1)]] assms(3-5) by (auto simp: young_def lapse_def unheld_def)

lemma ack_one:
  assumes "state (Suc b) w T nm (H((st, c2s) := [v]))" "path_name st" "path_name (v_Lease v)" "length (v_Lease v) < 1000" "T < v_Until v" "T - v_At v \<le> Hour"
  obtains w' T' where "does (target_ack l t (tg_Estate t) st c2s (tg_StationTok t) (v_Lease v)) w (200, 1) w'" "later T T'"
    "state b w' T' nm (H((st, c2s) := []))"
  using acknowledged [OF assms(1-4) refl _ refl] assms(3,5,6) by (auto simp: young_def lapse_def path_name_def)

lemma ack_none:
  assumes "state (Suc b) w T nm H" "path_name st" "path_name i" "length i < 1000" "H (st, c2s) = []"
  obtains w' T' n where "does (target_ack l t (tg_Estate t) st c2s (tg_StationTok t) i) w (410, n) w'" "later T T'" "state b w' T' nm H"
proof -
  have "H((st, c2s) := []) = H" using assms(5) by auto
  then show thesis using acknowledged [OF assms(1-4) refl _ refl] assms(5) that by (auto simp: young_def)
qed

lemma held_part_goes:
  assumes u: "path_name (uniq @ ''-held'')" and s0: "state (4 + b) w T nm H" and k: "H (uniq @ ''-held'', c2s) = []" and out: "passed out"
  obtains w' T' out' r v where "run_state (held_part l t uniq) (w, out) = (Some r, (w', out'))" "passed out'" "lr_Lease r = v_Lease v"
    "v_Lease v = nm 0" "T' < v_Until v" "T' - v_At v \<le> Hour" "state b w' T' (\<lambda>i. nm (Suc (Suc i))) (H((uniq @ ''-held'', c2s) := [v]))"
proof -
  from s0 have s: "state (Suc (Suc (Suc (Suc b)))) w T nm H" by (simp add: numeral_eq_Suc)
  have len: "length held_bytes \<le> 4096" by (simp add: held_bytes_def)
  have f: "(''30s'', Some (30 * Second)) \<in> set lease_forms" by (simp add: lease_forms_def)
  obtain w1 T1 v where 1: "does (put l t (tg_Estate t) (uniq @ ''-held'') c2s (tg_Control t) 3 held_bytes) w 202 w1" "later T T1" "v_ID v \<noteq> ''''"
    "v_Seq v = 3" "v_Body v = held_bytes" "v_At v = T" "v_Lease v = ''''" "state (Suc (Suc (Suc b))) w1 T1 nm (H((uniq @ ''-held'', c2s) := [v]))"
    by (rule put_new [OF s u len k])
  have free: "unheld (lapse T1 v)" using 1(7) by (simp add: unheld_def lapse_def)
  let ?v = "v\<lparr>v_Lease := nm 0, v_Until := T1 + 30 * Second\<rparr>"
  obtain w2 T2 r where 2: "does (takeLeased l t (tg_Estate t) (uniq @ ''-held'') c2s (tg_StationTok t) ''30s'') w1 (200, r) w2" "later T1 T2"
    "lr_Lease r = nm 0" "lr_Until r \<noteq> ''''" "lr_Messages r = [sent v]" "state (Suc (Suc b)) w2 T2 (\<lambda>i. nm (Suc i)) (H((uniq @ ''-held'', c2s) := [?v]))"
    by (rule lease_one [OF 1(8) u f free soon [OF 1(2,6)]])
  have nm: "nm 0 \<noteq> ''''" using lease_names [OF s, of 0] by (simp add: path_name_def)
  note t = 1(2) 2(2) 1(6) and ar = later_def slack_def duration_defs
  obtain w3 T3 where 3: "does (takeLeased l t (tg_Estate t) (uniq @ ''-held'') c2s (tg_StationTok t) ''30s'') w2 (200, no_lease) w3" "later T2 T3"
    "state (Suc b) w3 T3 (\<lambda>i. nm (Suc (Suc i))) (H((uniq @ ''-held'', c2s) := [?v]))"
    by (rule lease_none [OF 2(6) u f]) (use nm t in \<open>simp_all add: ar\<close>)
  obtain w4 T4 where 4: "does (take_msgs l t (tg_Estate t) (uniq @ ''-held'') c2s (tg_StationTok t)) w3 (200, []) w4" "later T3 T4"
    "state b w4 T4 (\<lambda>i. nm (Suc (Suc i))) (H((uniq @ ''-held'', c2s) := [?v]))"
    by (rule take_held [OF 3(3) u]) (use nm t 3(2) in \<open>simp_all add: ar\<close>)
  note r = does_run [OF 1(1)] does_run [OF 2(1)] does_run [OF 3(1)] does_run [OF 4(1)]
  have "\<exists>out'. run_state (held_part l t uniq) (w, out) = (Some r, (w4, out')) \<and> passed out'"
    using out 1(3,5) 2(3-5) nm by (simp add: held_part_def Let_def r sent_def no_lease_def)
  moreover have "T4 < v_Until ?v" "T4 - v_At ?v \<le> Hour" using t 3(2) 4(2) by (simp_all add: ar)
  ultimately show thesis using that [of r w4 _ ?v T4] 2(3) 4(3) by auto
qed

lemma ack_part_goes:
  assumes u: "path_name (uniq @ ''-held'')" and s0: "state (6 + b) w T nm (H((uniq @ ''-held'', c2s) := [v]))" and out: "passed out"
    and v: "path_name (v_Lease v)" "length (v_Lease v) < 1000" "T < v_Until v" "T - v_At v \<le> Hour" and lease: "lr_Lease r = v_Lease v"
  obtains w' T' out' where "run_state (ack_part l t uniq r) (w, out) = ((), (w', out'))" "passed out'" "state b w' T' nm (H((uniq @ ''-held'', c2s) := []))"
proof -
  from s0 have s: "state (Suc (Suc (Suc (Suc (Suc (Suc b)))))) w T nm (H((uniq @ ''-held'', c2s) := [v]))" by (simp add: numeral_eq_Suc)
  let ?H = "H((uniq @ ''-held'', c2s) := [])"
  have e: "?H (uniq @ ''-held'', c2s) = []" by simp
  obtain w1 T1 where 1: "does (target_ack l t (tg_Estate t) (uniq @ ''-held'') c2s (tg_StationTok t) (v_Lease v)) w (200, 1) w1" "later T T1" "state (Suc (Suc (Suc (Suc (Suc b))))) w1 T1 nm ?H"
    by (rule ack_one [OF s u v])
  obtain w2 T2 where 2: "does (take_msgs l t (tg_Estate t) (uniq @ ''-held'') c2s (tg_StationTok t)) w1 (200, []) w2" "later T1 T2" "state (Suc (Suc (Suc (Suc b)))) w2 T2 nm ?H"
    by (rule take_none [OF 1(3) u e])
  obtain w3 T3 n3 where 3: "does (target_ack l t (tg_Estate t) (uniq @ ''-held'') c2s (tg_StationTok t) (v_Lease v)) w2 (410, n3) w3" "later T2 T3" "state (Suc (Suc (Suc b))) w3 T3 nm ?H"
    by (rule ack_none [OF 2(3) u v(1,2) e])
  have name: "path_name ''definitely-not-a-lease''" "length ''definitely-not-a-lease'' < 1000" by code_simp simp
  obtain w4 T4 n4 where 4: "does (target_ack l t (tg_Estate t) (uniq @ ''-held'') c2s (tg_StationTok t) ''definitely-not-a-lease'') w3 (410, n4) w4" "later T3 T4" "state (Suc (Suc b)) w4 T4 nm ?H"
    by (rule ack_none [OF 3(3) u name e])
  obtain w5 T5 n5 where 5: "does (target_ack l t (tg_Estate t) (uniq @ ''-held'') c2s '''' (v_Lease v)) w4 (reason_status ReasonNoCredential, n5) w5" "state (Suc b) w5 T5 nm ?H"
    using ack_refused [OF 4(3) estate_name u nobody, of "v_Lease v"] by auto
  note r = does_run [OF 1(1)] does_run [OF 2(1)] does_run [OF 3(1)] does_run [OF 4(1)] does_run [OF 5(1)]
  show thesis
  proof (cases "tg_OtherEstate t = ''''")
    case True
    then have "\<exists>out'. run_state (ack_part l t uniq r) (w, out) = ((), (w5, out')) \<and> passed out'"
      using out by (simp add: ack_part_def Let_def r lease)
    then show thesis using that fewer [OF 5(2)] by blast
  next
    case False
    obtain w6 T6 n6 where 6: "does (target_ack l t (tg_OtherEstate t) (uniq @ ''-held'') c2s (tg_StationTok t) (v_Lease v)) w5 (reason_status ReasonBadCredential, n6) w6"
      "state b w6 T6 nm ?H"
      using ack_refused [OF 5(2) _ u, of "tg_OtherEstate t" "tg_StationTok t" ReasonBadCredential "v_Lease v"] foreigner [OF False] by auto
    have "\<exists>out'. run_state (ack_part l t uniq r) (w, out) = ((), (w6, out')) \<and> passed out'"
      using out False by (simp add: ack_part_def Let_def r does_run [OF 6(1)] lease)
    then show thesis using that 6(2) by blast
  qed
qed

lemma expiry_part_goes:
  assumes u: "path_name (uniq @ ''-dying'')" and s0: "state (4 + b) w T nm H" and k: "H (uniq @ ''-dying'', c2s) = []" and out: "passed out"
  obtains w' T' out' v where "run_state (expiry_part l t uniq) (w, out) = (True, (w', out'))" "passed out'"
    "state b w' T' (\<lambda>i. nm (Suc (Suc i))) (H((uniq @ ''-dying'', c2s) := [v]))"
proof -
  from s0 have s: "state (Suc (Suc (Suc (Suc b)))) w T nm H" by (simp add: numeral_eq_Suc)
  have len: "length ''an hour of capture'' \<le> 4096" by simp
  have f: "(''1s'', Some Second) \<in> set lease_forms" "(''30s'', Some (30 * Second)) \<in> set lease_forms" by (simp_all add: lease_forms_def)
  note ar = later_def slack_def duration_defs
  obtain w1 T1 v where 1: "does (put l t (tg_Estate t) (uniq @ ''-dying'') c2s (tg_Control t) 9 ''an hour of capture'') w 202 w1" "later T T1" "v_ID v \<noteq> ''''"
    "v_Seq v = 9" "v_Body v = ''an hour of capture''" "v_At v = T" "v_Lease v = ''''" "state (Suc (Suc (Suc b))) w1 T1 nm (H((uniq @ ''-dying'', c2s) := [v]))"
    by (rule put_new [OF s u len k])
  have free: "unheld (lapse T1 v)" using 1(7) by (simp add: unheld_def lapse_def)
  let ?v = "v\<lparr>v_Lease := nm 0, v_Until := T1 + Second\<rparr>"
  obtain w2 T2 r where 2: "does (takeLeased l t (tg_Estate t) (uniq @ ''-dying'') c2s (tg_StationTok t) ''1s'') w1 (200, r) w2" "later T1 T2"
    "lr_Lease r = nm 0" "lr_Until r \<noteq> ''''" "lr_Messages r = [sent v]" "state (Suc (Suc b)) w2 T2 (\<lambda>i. nm (Suc i)) (H((uniq @ ''-dying'', c2s) := [?v]))"
    by (rule lease_one [OF 1(8) u f(1) free soon [OF 1(2,6)]])
  obtain T3 where 3: "later (T2 + 1500 * Millisecond) T3" "state (Suc b) (lab_Sleep l (1500 * Millisecond) w2) T3 (\<lambda>i. nm (Suc i)) (H((uniq @ ''-dying'', c2s) := [?v]))"
    using sleeping [OF 2(6), of "1500 * Millisecond"] by (auto simp: duration_defs)
  have v: "unheld (lapse T3 ?v)" "T3 - v_At ?v \<le> Hour" using 1(2,6) 2(2) 3(1) by (auto simp: unheld_def lapse_def ar)
  obtain w4 T4 r4 where 4: "does (takeLeased l t (tg_Estate t) (uniq @ ''-dying'') c2s (tg_StationTok t) ''30s'') (lab_Sleep l (1500 * Millisecond) w2) (200, r4) w4"
    "later T3 T4" "lr_Lease r4 = nm (Suc 0)" "lr_Until r4 \<noteq> ''''" "lr_Messages r4 = [sent ?v]"
    "state b w4 T4 (\<lambda>i. nm (Suc (Suc i))) (H((uniq @ ''-dying'', c2s) := [?v\<lparr>v_Lease := nm (Suc 0), v_Until := T3 + 30 * Second\<rparr>]))"
    by (rule lease_one [OF 3(2) u f(2) v])
  note r = does_run [OF 1(1)] does_run [OF 2(1)] does_run [OF 4(1)]
  have "nm (Suc 0) \<noteq> nm 0" using lease_names [OF s, of 0] by metis
  then have "\<exists>out'. run_state (expiry_part l t uniq) (w, out) = (True, (w4, out')) \<and> passed out'"
    using out 2(3,5) 4(3,5) by (simp add: expiry_part_def Let_def r sent_def)
  then show thesis using that 4(6) by blast
qed

lemma leased_poll_part_goes:
  assumes u: "path_name (uniq @ ''-leasepoll'')" and s0: "state (2 + b) w T nm H" and k: "H (uniq @ ''-leasepoll'', c2s) = []" and out: "passed out"
  obtains w' T' nm' out' where "run_state (leased_poll_part l t uniq) (w, out) = ((), (w', out'))" "passed out'" "state b w' T' nm' H"
proof -
  from s0 have s: "state (Suc (Suc b)) w T nm H" by (simp add: numeral_eq_Suc)
  let ?st = "uniq @ ''-leasepoll''"
  have len: "length ''wake up'' \<le> 4096" and e: "H((?st, c2s) := []) = H" using k by auto
  obtain w1 T1 nm1 r x v du where 1: "lab_Beside l (client_request ''GET'' (target_url t (tg_Estate t) ?st c2s ''lease=30s'') (tg_StationTok t) None) (400 * Millisecond)
      (client_request ''POST'' (target_url t (tg_Estate t) ?st c2s '''') (tg_Control t) (Some (put_text 1 ''wake up''))) w = ((Some (Some r), x), w1)"
    "cr_status r = 200" "fst (Unmarshal lease_lax (cr_body r) no_lease) = \<lparr>lr_Lease = v_Lease v, lr_Until = du, lr_Messages = [sent v]\<rparr>"
    "path_name (v_Lease v)" "length (v_Lease v) < 1000" "T1 + 20 * Second \<le> v_Until v" "T1 - v_At v \<le> Minute" "state (Suc b) w1 T1 nm1 (H((?st, c2s) := [v]))"
    using leased_poll_woken [OF s u k len, of 1] by (elim exE conjE) rule
  have t: "T1 < v_Until v" "T1 - v_At v \<le> Hour" using 1(6,7) by (simp_all add: duration_defs)
  obtain w2 T2 where 2: "does (target_ack l t (tg_Estate t) ?st c2s (tg_StationTok t) (v_Lease v)) w1 (200, 1) w2" "later T1 T2"
    "state b w2 T2 nm1 (H((?st, c2s) := []))"
    by (rule ack_one [OF 1(8) u 1(4,5) t])
  have "v_Lease v \<noteq> ''''" using 1(4) by (simp add: path_name_def)
  then have "\<exists>out'. run_state (leased_poll_part l t uniq) (w, out) = ((), (w2, out')) \<and> passed out'"
    using out 1(1-3) does_run [OF 2(1)] by (simp add: leased_poll_part_def Let_def)
  then show thesis using that 2(3) unfolding e by blast
qed

lemma refused_forms:
  assumes u: "path_name st" and "list_all (\<lambda>v. (v, None) \<in> set lease_forms) vs" "state (length vs + b) w T nm H"
  shows "\<exists>w' T'. does (loop (refused_form l t st) vs True) w True w' \<and> T \<le> T' \<and> T' \<le> T + int (length vs) * slack \<and> state b w' T' nm H"
  using assms(2,3)
proof (induction vs arbitrary: w T)
  case Nil
  then show ?case by (auto simp: does_def)
next
  case (Cons v vs)
  obtain w1 T1 r where 1: "does (takeLeased l t (tg_Estate t) st c2s (tg_StationTok t) v) w (400, r) w1" "later T T1" "state (length vs + b) w1 T1 nm H"
    using lease_not_understood [of "length vs + b", OF _ u, of w T nm H v] Cons.prems(2) Cons.prems(1) by auto
  obtain w2 T2 where 2: "does (loop (refused_form l t st) vs True) w1 True w2" "T1 \<le> T2" "T2 \<le> T1 + int (length vs) * slack" "state b w2 T2 nm H"
    using Cons.IH [OF _ 1(3)] Cons.prems(1) by auto
  have "does (loop (refused_form l t st) (v # vs) True) w True w2"
    using 1(1) 2(1) by (simp add: does_def refused_form_def)
  with 1(2) 2(2-4) show ?case by (intro exI [of _ w2] exI [of _ T2]) (simp add: later_def algebra_simps)
qed

lemma accepted_forms:
  assumes u: "path_name st" and "list_all (\<lambda>x. \<exists>dt. (x, Some dt) \<in> set lease_forms \<and> 500 * Millisecond \<le> dt) xs"
    and "state (3 * length xs + b) w T nm (H((st, c2s) := [v]))" "v_Lease v = ''''" "T - v_At v \<le> Second"
  shows "\<exists>w' T' nm' v'. does (loop (accepted_form l t st) xs True) w True w' \<and> state b w' T' nm' (H((st, c2s) := [v']))"
  using assms(2-5)
proof (induction xs arbitrary: w T nm v)
  case Nil
  then show ?case by (auto simp: does_def)
next
  case (Cons x xs)
  have "3 * length (x # xs) + b = Suc (Suc (Suc (3 * length xs + b)))" by simp
  with Cons.prems(2) have s0: "state (Suc (Suc (Suc (3 * length xs + b)))) w T nm (H((st, c2s) := [v]))" by (simp only:)
  note ar = later_def slack_def duration_defs
  from Cons.prems(1) obtain dt where dt: "(x, Some dt) \<in> set lease_forms" "500 * Millisecond \<le> dt"
    and xs: "list_all (\<lambda>x. \<exists>dt. (x, Some dt) \<in> set lease_forms \<and> 500 * Millisecond \<le> dt) xs" by auto
  have v: "unheld (lapse T v)" "T - v_At v \<le> Hour" using Cons.prems(3,4) by (simp_all add: unheld_def lapse_def duration_defs)
  let ?v = "v\<lparr>v_Lease := nm 0, v_Until := T + dt\<rparr>"
  obtain w1 T1 r where 1: "does (takeLeased l t (tg_Estate t) st c2s (tg_StationTok t) x) w (200, r) w1" "later T T1"
    "lr_Lease r = nm 0" "lr_Until r \<noteq> ''''" "lr_Messages r = [sent v]" "state (Suc (Suc (3 * length xs + b))) w1 T1 (\<lambda>i. nm (Suc i)) (H((st, c2s) := [?v]))"
    by (rule lease_one [OF s0 u dt(1) v])
  have n: "path_name (v_Lease ?v)" "length (v_Lease ?v) < 1000" "T1 < v_Until ?v" "T1 - v_At ?v \<le> Hour"
    using lease_names [OF s0, of 0] 1(2) dt(2) Cons.prems(4) by (simp_all add: ar)
  obtain w2 T2 where 2: "does (target_ack l t (tg_Estate t) st c2s (tg_StationTok t) (v_Lease ?v)) w1 (200, 1) w2" "later T1 T2"
    "state (Suc (3 * length xs + b)) w2 T2 (\<lambda>i. nm (Suc i)) (H((st, c2s) := []))"
    by (rule ack_one [OF 1(6) u n])
  have e: "(H((st, c2s) := [])) (st, c2s) = []" "length ''x'' \<le> 4096" by simp_all
  obtain w3 T3 v3 where 3: "does (put l t (tg_Estate t) st c2s (tg_Control t) 1 ''x'') w2 202 w3" "later T2 T3" "v_ID v3 \<noteq> ''''" "v_Seq v3 = 1"
    "v_Body v3 = ''x''" "v_At v3 = T2" "v_Lease v3 = ''''" "state (3 * length xs + b) w3 T3 (\<lambda>i. nm (Suc i)) (H((st, c2s) := [], (st, c2s) := [v3]))"
    by (rule put_new [OF 2(3) u e(2,1)])
  have s: "state (3 * length xs + b) w3 T3 (\<lambda>i. nm (Suc i)) (H((st, c2s) := [v3]))" "T3 - v_At v3 \<le> Second" using 3(2,6,8) by (simp_all add: ar)
  obtain w4 T4 nm4 v4 where 4: "does (loop (accepted_form l t st) xs True) w3 True w4" "state b w4 T4 nm4 (H((st, c2s) := [v4]))"
    using Cons.IH [OF xs s(1) 3(7) s(2)] by blast
  have "nm 0 \<noteq> ''''" using n(1) by (simp add: path_name_def)
  then have "does (loop (accepted_form l t st) (x # xs) True) w True w4"
    using 1(1,3) 2(1) 3(1) 4(1) by (simp add: does_def accepted_form_def)
  with 4(2) show ?case by blast
qed

lemma grammar_part_goes:
  assumes u: "path_name (uniq @ ''-badlease'')" and s0: "state (18 + b) w T nm H" and k: "H (uniq @ ''-badlease'', c2s) = []" and out: "passed out"
  obtains w' T' nm' out' v where "run_state (grammar_part l t uniq) (w, out) = ((), (w', out'))" "passed out'"
    "state b w' T' nm' (H((uniq @ ''-badlease'', c2s) := [v]))"
proof -
  let ?st = "uniq @ ''-badlease''" and ?bad = "[''nonsense'', ''1h'', ''600'', ''1m30s'', ''-5s'']" and ?good = "[''30'', ''30s'', ''500ms'', ''2m'']"
  from s0 have s: "state (Suc (17 + b)) w T nm H" by (simp add: numeral_eq_Suc)
  have len: "length ''x'' \<le> 4096" by simp
  obtain w1 T1 v where 1: "does (put l t (tg_Estate t) ?st c2s (tg_Control t) 1 ''x'') w 202 w1" "later T T1" "v_ID v \<noteq> ''''" "v_Seq v = 1"
    "v_Body v = ''x''" "v_At v = T" "v_Lease v = ''''" "state (17 + b) w1 T1 nm (H((?st, c2s) := [v]))"
    by (rule put_new [OF s u len k])
  have "list_all (\<lambda>v. (v, None) \<in> set lease_forms) ?bad" by (simp add: lease_forms_def)
  from refused_forms [OF u this, of "12 + b" w1 T1 nm "H((?st, c2s) := [v])"] 1(8) obtain w2 T2 where 2: "does (loop (refused_form l t ?st) ?bad True) w1 True w2" "T2 \<le> T1 + 5 * slack"
    "state (12 + b) w2 T2 nm (H((?st, c2s) := [v]))" by auto
  have "T2 - v_At v \<le> Second" using 1(2,6) 2(2) by (simp add: later_def slack_def duration_defs)
  moreover have "list_all (\<lambda>x. \<exists>dt. (x, Some dt) \<in> set lease_forms \<and> 500 * Millisecond \<le> dt) ?good"
    by (auto simp: lease_forms_def duration_defs)
  ultimately obtain w3 T3 nm3 v3 where 3: "does (loop (accepted_form l t ?st) ?good True) w2 True w3" "state b w3 T3 nm3 (H((?st, c2s) := [v3]))"
    using accepted_forms [of ?st ?good b, OF u _ _ 1(7)] 2(3) by fastforce
  have "\<exists>out'. run_state (grammar_part l t uniq) (w, out) = ((), (w3, out')) \<and> passed out'"
    using out by (simp add: grammar_part_def Let_def does_run [OF 1(1)] does_run [OF 2(1)] does_run [OF 3(1)] del: loop.simps)
  then show thesis using that 3(2) by blast
qed

lemma leasing_passes:
  assumes u: "path_name uniq"
  shows "passes state 40 {uniq @ ''-plain'', uniq @ ''-zero'', uniq @ ''-held'', uniq @ ''-dying'', uniq @ ''-leasepoll'', uniq @ ''-badlease''}
    {uniq @ ''-held'', uniq @ ''-dying'', uniq @ ''-badlease''} (leasing l t uniq)" (is "passes state _ ?R ?S _")
proof (rule passesI)
  fix b w T nm H and out :: "check_result list"
  assume s0: "state (40 + b) w T nm H" and e: "\<And>s d. s \<in> ?R \<Longrightarrow> H (s, d) = []" and out: "passed out"
  from s0 have s: "state (6 + (4 + (6 + (4 + (2 + (18 + b)))))) w T nm H" by simp
  have "list_all (list_all path_char) [''-plain'', ''-zero'', ''-held'', ''-dying'', ''-leasepoll'', ''-badlease'']" by code_simp
  then have n: "path_name (uniq @ ''-plain'')" "path_name (uniq @ ''-zero'')" "path_name (uniq @ ''-held'')" "path_name (uniq @ ''-dying'')"
    "path_name (uniq @ ''-leasepoll'')" "path_name (uniq @ ''-badlease'')"
    using path_suffix [OF u] by simp_all
  have k: "H (uniq @ ''-plain'', c2s) = []" "H (uniq @ ''-zero'', c2s) = []" "H (uniq @ ''-held'', c2s) = []" "H (uniq @ ''-dying'', c2s) = []"
    "H (uniq @ ''-leasepoll'', c2s) = []" "H (uniq @ ''-badlease'', c2s) = []"
    by (rule e; simp)+
  obtain w1 T1 o1 where 1: "run_state (plain_part l t uniq) (w, out) = (True, (w1, o1))" "passed o1" "state (4 + (6 + (4 + (2 + (18 + b))))) w1 T1 nm H"
    by (rule plain_part_goes [OF n(1,2) s k(1,2) out])
  obtain w2 T2 o2 r v where 2: "run_state (held_part l t uniq) (w1, o1) = (Some r, (w2, o2))" "passed o2" "lr_Lease r = v_Lease v"
    "v_Lease v = nm 0" "T2 < v_Until v" "T2 - v_At v \<le> Hour" "state (6 + (4 + (2 + (18 + b)))) w2 T2 (\<lambda>i. nm (Suc (Suc i))) (H((uniq @ ''-held'', c2s) := [v]))"
    by (rule held_part_goes [OF n(3) 1(3) k(3) 1(2)])
  have v: "path_name (v_Lease v)" "length (v_Lease v) < 1000" using lease_names [OF s, of 0] 2(4) by simp_all
  let ?H1 = "H((uniq @ ''-held'', c2s) := [])"
  obtain w3 T3 o3 where 3: "run_state (ack_part l t uniq r) (w2, o2) = ((), (w3, o3))" "passed o3" "state (4 + (2 + (18 + b))) w3 T3 (\<lambda>i. nm (Suc (Suc i))) ?H1"
    by (rule ack_part_goes [OF n(3) 2(7,2) v 2(5,6,3)])
  have k3: "?H1 (uniq @ ''-dying'', c2s) = []" using k by simp
  obtain w4 T4 o4 v4 where 4: "run_state (expiry_part l t uniq) (w3, o3) = (True, (w4, o4))" "passed o4"
    "state (2 + (18 + b)) w4 T4 (\<lambda>i. nm (Suc (Suc (Suc (Suc i))))) (?H1((uniq @ ''-dying'', c2s) := [v4]))"
    by (rule expiry_part_goes [OF n(4) 3(3) k3 3(2)])
  have k4: "(?H1((uniq @ ''-dying'', c2s) := [v4])) (uniq @ ''-leasepoll'', c2s) = []" "(?H1((uniq @ ''-dying'', c2s) := [v4])) (uniq @ ''-badlease'', c2s) = []"
    using k by simp_all
  obtain w5 T5 nm5 o5 where 5: "run_state (leased_poll_part l t uniq) (w4, o4) = ((), (w5, o5))" "passed o5"
    "state (18 + b) w5 T5 nm5 (?H1((uniq @ ''-dying'', c2s) := [v4]))"
    by (rule leased_poll_part_goes [OF n(5) 4(3) k4(1) 4(2)])
  obtain w6 T6 nm6 o6 v6 where 6: "run_state (grammar_part l t uniq) (w5, o5) = ((), (w6, o6))" "passed o6"
    "state b w6 T6 nm6 (?H1((uniq @ ''-dying'', c2s) := [v4], (uniq @ ''-badlease'', c2s) := [v6]))"
    by (rule grammar_part_goes [OF n(6) 5(3) k4(2) 5(2)])
  show "finishes (state b) ?S H (run_state (leasing l t uniq) (w, out))"
    by (rule finish [OF _ 6(3)]) (use 1(1) 2(1) 3(1) 4(1) 5(1) 6(1,2) in \<open>auto simp: leasing_def\<close>)
qed

section \<open>Durability and the whole run\<close>

lemma durability_passes:
  assumes u: "path_name (uniq @ ''-durable'')" "path_name (uniq @ ''-collected'')"
  shows "passes state 7 {uniq @ ''-durable'', uniq @ ''-collected''} UNIV (durability l t uniq)" (is "passes state _ ?R _ _")
proof (rule passesI)
  fix b w T nm H and out :: "check_result list"
  assume s0: "state (7 + b) w T nm H" and e: "\<And>s d. s \<in> ?R \<Longrightarrow> H (s, d) = []" and out: "passed out"
  from s0 have s: "state (Suc (Suc (Suc (Suc (Suc (Suc (Suc b))))))) w T nm H" by (simp add: numeral_eq_Suc)
  let ?a = "(uniq @ ''-durable'', c2s)" and ?b = "(uniq @ ''-collected'', c2s)"
  have k: "H ?a = []" "H ?b = []" "length durable_bytes \<le> 4096" "length ''durable'' \<le> 4096" using e by (simp_all add: durable_bytes_def)
  show "finishes (state b) UNIV H (run_state (durability l t uniq) (w, out))"
  proof (cases "tg_Disrupt t")
    case None
    show ?thesis by (rule finish [OF _ less [OF s0]]) (use None out in \<open>simp_all add: durability_def\<close>)
  next
    case (Some f)
    obtain w1 T1 v where 1: "does (put l t (tg_Estate t) (uniq @ ''-durable'') c2s (tg_Control t) 11 durable_bytes) w 202 w1" "later T T1" "v_ID v \<noteq> ''''"
      "v_Seq v = 11" "v_Body v = durable_bytes" "v_At v = T" "v_Lease v = ''''" "state (Suc (Suc (Suc (Suc (Suc (Suc b)))))) w1 T1 nm (H(?a := [v]))"
      by (rule put_new [OF s u(1) k(3,1)])
    define H1 where "H1 = (\<lambda>k. map unlease (H k))"
    obtain w2 T2 nm2 where 2: "f w1 = (True, w2)" "T1 \<le> T2" "T2 \<le> T1 + Minute" "state (Suc (Suc (Suc (Suc (Suc b))))) w2 T2 nm2 (H1(?a := [unlease v]))"
      using disrupted [OF 1(8) Some] by (auto simp: H1_def fun_upd_def if_distrib cong: if_cong)
    have v: "v_Lease (unlease v) = ''''" "T2 - v_At (unlease v) \<le> Hour"
      using 1(2,6) 2(2,3) by (simp_all add: unlease_def later_def slack_def duration_defs)
    obtain w3 T3 where 3: "does (take_msgs l t (tg_Estate t) (uniq @ ''-durable'') c2s (tg_StationTok t)) w2 (200, [sent (unlease v)]) w3" "later T2 T3"
      "state (Suc (Suc (Suc (Suc b)))) w3 T3 nm2 (H1(?a := []))"
      by (rule take_one [OF 2(4) u(1) v])
    have kb: "(H1(?a := [])) ?b = []" using k by (simp add: H1_def)
    obtain w4 T4 x where 4: "does (put l t (tg_Estate t) (uniq @ ''-collected'') c2s (tg_Control t) 12 ''durable'') w3 202 w4" "later T3 T4" "v_ID x \<noteq> ''''"
      "v_Seq x = 12" "v_Body x = ''durable''" "v_At x = T3" "v_Lease x = ''''" "state (Suc (Suc (Suc b))) w4 T4 nm2 (H1(?a := [], ?b := [x]))"
      by (rule put_new [OF 3(3) u(2) k(4) kb])
    obtain w5 T5 where 5: "does (take_msgs l t (tg_Estate t) (uniq @ ''-collected'') c2s (tg_StationTok t)) w4 (200, [sent x]) w5" "later T4 T5"
      "state (Suc (Suc b)) w5 T5 nm2 (H1(?a := [], ?b := []))"
      by (rule take_one [OF 4(8) u(2) 4(7) soon [OF 4(2,6)]])
    obtain w6 T6 nm6 H6 where 6: "f w5 = (True, w6)" "state (Suc b) w6 T6 nm6 H6" "H6 ?b = []"
      using disrupted [OF 5(3) Some] by auto
    obtain w7 T7 where 7: "does (take_msgs l t (tg_Estate t) (uniq @ ''-collected'') c2s (tg_StationTok t)) w6 (200, []) w7" "later T6 T7" "state b w7 T7 nm6 H6"
      by (rule take_none [OF 6(2) u(2) 6(3)])
    note r = does_run [OF 1(1)] does_run [OF 3(1)] does_run [OF 4(1)] does_run [OF 5(1)] does_run [OF 7(1)]
    show ?thesis
      by (rule finish [OF _ 7(3)]) (use Some 1(4,5) out in \<open>simp_all add: durability_def Let_def r 2(1) 6(1) sent_def unlease_def\<close>)
  qed
qed

lemma levers_passes:
  "tg_ControlPlane t = None \<Longrightarrow> passes state 0 {} {} (outage_section l t uniq)"
  "tg_AuthoriserSaw t = None \<Longrightarrow> passes state 0 {} {} (sentinel_section l t uniq)"
  "\<not> tg_Tenancy t \<Longrightarrow> passes state 0 {} {} (tenancy_section l t)"
  "tg_SignLease t = None \<Longrightarrow> passes state 0 {} {} (signed_section l t uniq)"
  by (rule passesI, rule finish, rule refl,
      simp_all add: outage_section_def sentinel_section_def tenancy_section_def signed_section_def)+

text \<open>
  A relay that keeps the laws passes every section that needs no lever of the authoriser.
\<close>

lemma conformant:
  assumes "path_name uniq" "state 120 w T nm H" "\<And>x d. H (uniq @ x, d) = []" "passed out"
    and "tg_ControlPlane t = None" "tg_AuthoriserSaw t = None" "\<not> tg_Tenancy t"
    and signed: "passes state 12 {uniq @ ''-leased''} {uniq @ ''-leased''} (signed_section l t uniq)"
  shows "passed (snd (snd (run_state (run_section l t uniq) (w, out))))"
proof -
  note u = assms(1)
  have "list_all (list_all path_char) [''-lease'', ''-dotted'', ''-seq'', ''-poll'', ''-empty'', ''-durable'', ''-collected'']" by code_simp
  then have n: "path_name (uniq @ ''-lease'')" "path_name (uniq @ ''-dotted'')" "path_name (uniq @ ''-seq'')" "path_name (uniq @ ''-poll'')"
    "path_name (uniq @ ''-empty'')" "path_name (uniq @ ''-durable'')" "path_name (uniq @ ''-collected'')"
    using path_suffix [OF u] by simp_all
  let ?R17 = "{uniq @ ''-plain'', uniq @ ''-zero'', uniq @ ''-held'', uniq @ ''-dying'', uniq @ ''-leasepoll'', uniq @ ''-badlease''} \<union>
    {uniq @ ''-durable'', uniq @ ''-collected''}"
  let ?R14 = "{uniq @ ''-seq''} \<union> ({uniq @ ''-poll''} \<union> ({uniq @ ''-empty''} \<union> ?R17))"
  let ?R11 = "{uniq @ ''-leased''} \<union> ({} \<union> (range (body_station uniq) \<union> ?R14))"
  have d: "{uniq @ ''-held'', uniq @ ''-dying'', uniq @ ''-badlease''} \<inter> {uniq @ ''-durable'', uniq @ ''-collected''} = {}"
    "{uniq @ ''-seq''} \<inter> ({uniq @ ''-poll''} \<union> ({uniq @ ''-empty''} \<union> ?R17)) = {}" "range (body_station uniq) \<inter> ?R14 = {}"
    "{uniq @ ''-leased''} \<inter> ({} \<union> (range (body_station uniq) \<union> ?R14)) = {}" "{uniq @ ''-dotted''} \<inter> ?R11 = {}"
    by (auto simp: body_station_def)
  note tail = passes_seq [OF leasing_passes [OF u] durability_passes [OF n(6,7)] d(1)]
  note tail = passes_seq [OF order_section_passes [OF n(3)] passes_seq [OF poll_section_passes [OF n(4)]
      passes_seq [OF wait_section_passes [OF n(5)] tail Int_empty_left] Int_empty_left] d(2)]
  note tail = passes_seq [OF signed passes_seq [OF route_section_passes [OF u] passes_seq [OF body_section_passes [OF u] tail d(3)] Int_empty_left] d(4)]
  note tail = passes_seq [OF unverifiable_section_passes [OF n(1,2)] tail d(5)]
  note tail = passes_seq [OF levers_passes(1) [OF assms(5), of uniq] passes_seq [OF levers_passes(2) [OF assms(6), of uniq]
      passes_seq [OF levers_passes(3) [OF assms(7)] tail Int_empty_left] Int_empty_left] Int_empty_left]
  note tail = passes_seq [OF credential_section_passes [OF u] passes_seq [OF reason_section_passes [OF u] tail Int_empty_left] Int_empty_left]
  note tail = passes_seq [OF message_section_passes [OF u] passes_seq [OF split_section_passes [OF u] tail Int_empty_left] Int_empty_left]
  note all = passes_seq [OF health_section_passes passes_seq [OF identity_section_passes tail Int_empty_left] Int_empty_left,
      folded run_section_def]
  have s: "state (1 + (3 + (3 + (4 + (3 + (3 + (0 + (0 + (0 + (3 + (12 + (4 + (4 + (3 + (1 + (1 + (40 + 7)))))))))))))))) + 28) w T nm H"
    using assms(2) by simp
  show ?thesis
    by (rule passes_passed [OF all s _ assms(4)], use assms(3) assms(3) [of "''''"] in \<open>auto simp: body_station_def\<close>)
qed

end

text \<open>
  The same for a relay that trusts the harness's signing key: what it makes of the leases the suite writes at the instant \<open>n\<close> for the station
  \<open>probe\<close>.
\<close>

locale signed_contract = relay_contract +
  fixes sign :: "string \<Rightarrow> bytes" and probe :: string
  assumes signer: "tg_SignLease t = Some sign"
    and live_lease:
      "state b w n nm H \<Longrightarrow> path_name probe \<Longrightarrow> n \<le> T \<Longrightarrow> T \<le> n + Minute \<Longrightarrow>
       live = suite_Lease sign (tg_Estate t) [probe] [c2s] [s2c] (n - Minute) (n + 10 * Minute) 0 \<Longrightarrow>
       verdict T live (tg_Estate t) probe s2c OpWrite = '''' \<and> verdict T live (tg_Estate t) probe c2s OpRead = '''' \<and>
       verdict T live (tg_Estate t) probe c2s OpWrite \<noteq> '''' \<and> (st' \<noteq> probe \<longrightarrow> verdict T live (tg_Estate t) st' s2c OpWrite \<noteq> '''')"
    and expired_lease:
      "state b w n nm H \<Longrightarrow> path_name probe \<Longrightarrow> n \<le> T \<Longrightarrow>
       verdict T (suite_Lease sign (tg_Estate t) [probe] [c2s] [s2c] (n - 20 * Minute) (n - 10 * Minute) 0) (tg_Estate t) probe s2c OpWrite = ReasonAuthorityExpired"
    and forged_by_another:
      "state b w n nm H \<Longrightarrow> path_name probe \<Longrightarrow>
       verdict T (suite_Lease no_signature (tg_Estate t) [probe] [c2s] [s2c] (n - Minute) (n + 10 * Minute) 0) (tg_Estate t) probe s2c OpWrite =
         ReasonAuthorityUnverifiable"
    and widened_lease:
      "state b w n nm H \<Longrightarrow> path_name probe \<Longrightarrow>
       wide = suite_Lease sign (tg_Estate t) [] [c2s, s2c] [c2s, s2c] (n - Minute) (n + 10 * Minute) 0 \<Longrightarrow>
       live = suite_Lease sign (tg_Estate t) [probe] [c2s] [s2c] (n - Minute) (n + 10 * Minute) 0 \<Longrightarrow>
       length (split_dots live) = 3 \<and> verdict T (tampered_lease wide (split_dots live)) (tg_Estate t) probe c2s OpWrite \<noteq> ''''"
begin

lemma signed_section_passes:
  assumes u: "path_name (uniq @ ''-leased'')" "path_name (uniq @ ''-elsewhere'')" and probe: "probe = uniq @ ''-leased''"
  shows "passes state 8 {uniq @ ''-leased''} {uniq @ ''-leased''} (signed_section l t uniq)"
proof (rule passesI)
  fix b w T nm H and out :: "check_result list"
  let ?st = "uniq @ ''-leased''" and ?E = "tg_Estate t"
  assume s0: "state (8 + b) w T nm H" and e: "\<And>s d. s \<in> {?st} \<Longrightarrow> H (s, d) = []" and out: "passed out"
  have s: "state (Suc (Suc (Suc (Suc (Suc (Suc (Suc (Suc b)))))))) w T nm H" using s0 by (simp add: numeral_eq_Suc)
  define live where "live = suite_Lease sign ?E [?st] [c2s] [s2c] (T - Minute) (T + 10 * Minute) 0"
  define expired where "expired = suite_Lease sign ?E [?st] [c2s] [s2c] (T - 20 * Minute) (T - 10 * Minute) 0"
  define forged where "forged = suite_Lease no_signature ?E [?st] [c2s] [s2c] (T - Minute) (T + 10 * Minute) 0"
  define wide where "wide = suite_Lease sign ?E [] [c2s, s2c] [c2s, s2c] (T - Minute) (T + 10 * Minute) 0"
  note pr = u(1) [folded probe]
  note v = live_lease [OF s pr, unfolded probe, OF _ _ live_def] and ar = later_def slack_def duration_defs
  have k: "H (?st, c2s) = []" "H (?st, s2c) = []" using e by simp_all
  obtain w1 T1 m where 1: "does (putR l t ?E ?st s2c live 1 ''status'') w (202, no_refusal) w1" "later T T1"
    "state (Suc (Suc (Suc (Suc (Suc (Suc (Suc b))))))) w1 T1 nm (H((?st, s2c) := [m]))"
    using put_accepted [OF s u(1) dirs(2), of live "''status''" 1] v [of T] k(2) by (auto simp: young_def duration_defs)
  let ?H = "H((?st, s2c) := [m])"
  have k1: "?H (?st, c2s) = []" "length ''a request'' \<le> 4096" using k by simp_all
  obtain w2 T2 x where 2: "does (put l t ?E ?st c2s (tg_Control t) 1 ''a request'') w1 202 w2" "later T1 T2" "v_ID x \<noteq> ''''" "v_Seq x = 1"
    "v_Body x = ''a request''" "v_At x = T1" "v_Lease x = ''''" "state (Suc (Suc (Suc (Suc (Suc (Suc b)))))) w2 T2 nm (?H((?st, c2s) := [x]))"
    by (rule put_new [OF 1(3) u(1) k1(2,1)])
  obtain w3 T3 where 3: "does (take_msgs l t ?E ?st c2s live) w2 (200, [sent x]) w3" "later T2 T3" "state (Suc (Suc (Suc (Suc (Suc b))))) w3 T3 nm (?H((?st, c2s) := []))"
    using take_allowed [OF 2(8) u(1) dirs(1), of live] v [of T2] 1(2) 2(2,6,7) by (auto simp: young_def lapse_def unheld_def ar)
  let ?H = "?H((?st, c2s) := [])"
  have h4: "verdict T3 live ?E ?st c2s OpWrite \<noteq> ''''" using v [of T3] 1(2) 2(2) 3(2) by (simp add: ar)
  obtain w4 T4 c4 where 4: "does (put l t ?E ?st c2s live 1 ''evil'') w3 (reason_status c4) w4" "later T3 T4" "state (Suc (Suc (Suc (Suc b)))) w4 T4 nm ?H"
    using no_put [OF 3(3) estate_name u(1) dirs(1) refl h4] by metis
  have h5: "verdict T4 live ?E (uniq @ ''-elsewhere'') s2c OpWrite \<noteq> ''''"
    using v [of T4 "uniq @ ''-elsewhere''"] 1(2) 2(2) 3(2) 4(2) by (simp add: ar)
  obtain w5 T5 c5 where 5: "does (put l t ?E (uniq @ ''-elsewhere'') s2c live 1 ''x'') w4 (reason_status c5) w5" "later T4 T5" "state (Suc (Suc (Suc b))) w5 T5 nm ?H"
    using no_put [OF 4(3) estate_name u(2) dirs(2) refl h5] by metis
  have t5: "T \<le> T5" using 1(2) 2(2) 3(2) 4(2) 5(2) by (simp add: ar)
  obtain w6 T6 y where 6: "does (putR l t ?E ?st s2c expired 1 ''x'') w5 (reason_status ReasonAuthorityExpired, y) w6" "rf_Reason y = ReasonAuthorityExpired"
    "state (Suc (Suc b)) w6 T6 nm ?H"
    using no_put [OF 5(3) estate_name u(1) dirs(2) expired_lease [OF s pr t5, unfolded probe, folded expired_def]] by (metis list.distinct(1))
  obtain w7 T7 z where 7: "does (putR l t ?E ?st s2c forged 1 ''x'') w6 (reason_status ReasonAuthorityUnverifiable, z) w7" "rf_Reason z = ReasonAuthorityUnverifiable"
    "state (Suc b) w7 T7 nm ?H"
    using no_put [OF 6(3) estate_name u(1) dirs(2) forged_by_another [OF s pr, unfolded probe, folded forged_def]] by (metis list.distinct(1))
  note wd = widened_lease [OF s pr, unfolded probe, OF wide_def live_def]
  obtain w8 T8 c8 where 8: "does (put l t ?E ?st c2s (tampered_lease wide (split_dots live)) 1 ''x'') w7 (reason_status c8) w8" "state b w8 T8 nm ?H"
    using no_put [OF 7(3) estate_name u(1) dirs(1) refl wd [THEN conjunct2]] by metis
  note r = does_run [OF 1(1)] does_run [OF 2(1)] does_run [OF 3(1)] does_run [OF 4(1)] does_run [OF 5(1)] does_run [OF 6(1)] does_run [OF 7(1)] does_run [OF 8(1)]
  show "finishes (state b) {?st} H (run_state (signed_section l t uniq) (w, out))"
    by (rule finish [OF _ 8(2)])
      (use 6(2) 7(2) wd [THEN conjunct1] out in \<open>simp_all add: signed_section_def signer clock [OF s] Let_def
         live_def [symmetric] expired_def [symmetric] forged_def [symmetric] wide_def [symmetric] r\<close>)
qed

end

end
