(* ===== verification/Go_Float.thy ===== *)
theory Go_Float
  imports Go_Json
begin

text \<open>
  What \<^verbatim>\<open>ParseLease\<close> uses of floating point: \<^verbatim>\<open>strconv.ParseFloat(s, 64)\<close> on a text without exponent
  letters and signs (the caller has refused those), one multiplication by a whole number, and the
  conversion to a 64-bit integer.

  A \<^verbatim>\<open>float64\<close> that is not negative is a whole number times a power of two, or infinite, or not a number. Rounding is
  to nearest, ties to even, with 53 bits and the least exponent \<open>-1074\<close>. Go leaves the result of
  converting a value outside the integer range to the platform; it is a parameter here.
\<close>

section \<open>Numbers\<close>

datatype float64 = Finite int int | Inf | NaN

function bitlen :: "int \<Rightarrow> int" where
  "bitlen n = (if n \<le> 0 then 0 else 1 + bitlen (n div 2))"
  by pat_completeness auto
termination
  by (relation "measure nat") auto

declare bitlen.simps [simp del]

definition pow2 :: "int \<Rightarrow> int" where "pow2 e = 2 ^ nat e"

text \<open>The nearest multiple of \<open>2 ^ e\<close> to \<open>num / den\<close>, as that multiple.\<close>

definition round_at :: "int \<Rightarrow> int \<Rightarrow> int \<Rightarrow> int" where
  "round_at num den e =
     (let n = num * pow2 (- e); d = den * pow2 e; q = n div d; r = n mod d
      in if 2 * r > d \<or> (2 * r = d \<and> odd q) then q + 1 else q)"

text \<open>The exponent that leaves 53 significant bits.\<close>

definition float_exponent :: "int \<Rightarrow> int \<Rightarrow> int" where
  "float_exponent num den =
     (let e = bitlen num - bitlen den - 53
      in max (- 1074) (if num * pow2 (- e) \<ge> 2 ^ 53 * (den * pow2 e) then e + 1 else e))"

definition nearest :: "int \<Rightarrow> int \<Rightarrow> float64" where
  "nearest num den =
     (if num = 0 then Finite 0 0
      else let e = float_exponent num den; q = round_at num den e
           in if e > 971 \<or> (e = 971 \<and> q \<ge> 2 ^ 53) then Inf else Finite q e)"

fun float_times :: "float64 \<Rightarrow> int \<Rightarrow> float64" where
  "float_times (Finite m e) u = nearest (m * u * pow2 e) (pow2 (- e))"
| "float_times Inf u = Inf"
| "float_times NaN u = NaN"

fun float_trunc :: "float64 \<Rightarrow> int option" where
  "float_trunc (Finite m e) = Some (m * pow2 e div pow2 (- e))"
| "float_trunc _ = None"

definition to_int64 :: "(float64 \<Rightarrow> int) \<Rightarrow> float64 \<Rightarrow> int" where
  "to_int64 oor x =
     (case float_trunc x of
        Some i \<Rightarrow> if i < 2 ^ 63 then i else oor x
      | None \<Rightarrow> oor x)"

section \<open>Reading a number\<close>

datatype underscore_state = AtStart | AtDigit | AtUnderscore | AtOther

fun underscores :: "bool \<Rightarrow> underscore_state \<Rightarrow> string \<Rightarrow> bool" where
  "underscores hex st [] \<longleftrightarrow> st \<noteq> AtUnderscore"
| "underscores hex st (c # s) \<longleftrightarrow>
     (if is_digit c \<or> (hex \<and> in_range 97 102 (lower_byte c)) then underscores hex AtDigit s
      else if c = CHR ''_'' then st = AtDigit \<and> underscores hex AtUnderscore s
      else st \<noteq> AtUnderscore \<and> underscores hex AtOther s)"

text \<open>The mantissa: its digits without underscores, and how many follow the point.\<close>

definition mantissa :: "string \<Rightarrow> string \<times> nat" where
  "mantissa s =
     (let t = filter (\<lambda>c. c \<noteq> CHR ''_'') s; fp = drop 1 (dropWhile (\<lambda>c. c \<noteq> CHR ''.'') t)
      in (takeWhile (\<lambda>c. c \<noteq> CHR ''.'') t @ fp, length fp))"

definition digits_int :: "int \<Rightarrow> (char \<Rightarrow> nat) \<Rightarrow> string \<Rightarrow> int" where
  "digits_int base val s = foldl (\<lambda>n c. base * n + int (val c)) 0 s"

definition ParseFloat_decimal :: "string \<Rightarrow> float64 option" where
  "ParseFloat_decimal s =
     (let (ds, k) = mantissa s
      in if ds \<noteq> [] \<and> list_all is_digit ds \<and> (CHR ''_'' \<in> set s \<longrightarrow> underscores False AtStart s)
         then (case nearest (digits_int 10 digit_val ds) (10 ^ k) of Inf \<Rightarrow> None | x \<Rightarrow> Some x)
         else None)"

definition exponent_digits :: "string \<Rightarrow> int" where
  "exponent_digits s = foldl (\<lambda>e c. if c = CHR ''_'' \<or> e \<ge> 10000 then e else 10 * e + int (digit_val c)) 0 s"

definition ParseFloat_hex :: "string \<Rightarrow> float64 option" where
  "ParseFloat_hex s =
     (let m = takeWhile (\<lambda>c. lower_byte c \<noteq> CHR ''p'') s; x = drop (length m + 1) s;
          (ds, k) = mantissa m
      in if length m < length s \<and> ds \<noteq> [] \<and> list_all is_hex ds \<and>
            x \<noteq> [] \<and> is_digit (hd x) \<and> list_all (\<lambda>c. is_digit c \<or> c = CHR ''_'') x \<and>
            (CHR ''_'' \<in> set s \<longrightarrow> underscores True AtDigit s)
         then (case nearest (digits_int 16 hex_val ds * pow2 (exponent_digits x)) (16 ^ k) of
                 Inf \<Rightarrow> None | v \<Rightarrow> Some v)
         else None)"

definition ParseFloat :: "string \<Rightarrow> float64 option" where
  "ParseFloat s =
     (let l = map lower_byte s
      in if l = ''inf'' \<or> l = ''infinity'' then Some Inf
         else if l = ''nan'' then Some NaN
         else if has_prefix l ''0x'' \<and> 2 < length s then ParseFloat_hex (drop 2 s)
         else ParseFloat_decimal s)"

section \<open>Whole numbers below \<open>2 ^ 53\<close> are exact\<close>

lemma pow2_neg [simp]: "e \<le> 0 \<Longrightarrow> pow2 e = 1"
  by (simp add: pow2_def)

lemma pow2_pos [simp]: "0 < pow2 e"
  by (simp add: pow2_def)

lemma pow2_not_neg [simp]: "\<not> pow2 e < 0"
  using pow2_pos [of e] by linarith

lemma pow2_nonzero [simp]: "pow2 e \<noteq> 0"
  using pow2_pos [of e] by linarith

lemma pow2_add: "0 \<le> a \<Longrightarrow> 0 \<le> b \<Longrightarrow> pow2 (a + b) = pow2 a * pow2 b"
  by (simp add: pow2_def nat_add_distrib power_add)

lemma pow2_step: "0 < b \<Longrightarrow> pow2 b = 2 * pow2 (b - 1)"
  using pow2_add [of 1 "b - 1"] by (simp add: pow2_def)

lemma bitlen_double: "0 < n \<Longrightarrow> bitlen (2 * n) = 1 + bitlen n"
  by (simp add: bitlen.simps [of "2 * n"])

lemma bitlen_scaled: "0 < n \<Longrightarrow> bitlen (n * 2 ^ k) = bitlen n + int k"
proof (induction k)
  case (Suc k)
  then show ?case using bitlen_double [of "n * 2 ^ k"] by (simp add: mult.left_commute)
qed simp

lemma bitlen_pow2: "0 < n \<Longrightarrow> 0 \<le> k \<Longrightarrow> bitlen (n * pow2 k) = bitlen n + k"
  by (simp add: pow2_def bitlen_scaled)

lemma bitlen_one [simp]: "bitlen 1 = 1"
  by (simp add: bitlen.simps [of 1] bitlen.simps [of 0])

lemma bitlen_bounds: "0 < n \<Longrightarrow> 0 < bitlen n \<and> pow2 (bitlen n - 1) \<le> n \<and> n < pow2 (bitlen n)"
proof (induction n rule: bitlen.induct)
  case (1 n)
  show ?case
  proof (cases "n = 1")
    case True
    then show ?thesis by (simp add: pow2_def)
  next
    case False
    let ?b = "bitlen (n div 2)"
    have h: "0 < n div 2" using 1(2) False by simp
    with 1 have ih: "0 < ?b" "pow2 (?b - 1) \<le> n div 2" "n div 2 < pow2 ?b" by auto
    have b: "bitlen n = 1 + ?b" using 1(2) by (simp add: bitlen.simps [of n])
    have p: "pow2 ?b = 2 * pow2 (?b - 1)" "pow2 (1 + ?b) = 2 * pow2 ?b"
      using ih(1) pow2_step [of ?b] pow2_step [of "1 + ?b"] by simp_all
    have "2 * pow2 (?b - 1) \<le> n" "n < 2 * pow2 ?b" using ih(2,3) by linarith+
    with ih(1) b p show ?thesis by simp
  qed
qed

lemma bitlen_le: "0 < n \<Longrightarrow> n < 2 ^ 53 \<Longrightarrow> bitlen n \<le> 53"
proof (rule ccontr)
  assume n: "0 < n" "n < 2 ^ 53" and "\<not> bitlen n \<le> 53"
  then have "pow2 (bitlen n - 1) = pow2 53 * pow2 (bitlen n - 54)" using pow2_add [of 53 "bitlen n - 54"] by simp
  moreover have "1 \<le> pow2 (bitlen n - 54)" using pow2_pos [of "bitlen n - 54"] by linarith
  ultimately have "pow2 53 \<le> pow2 (bitlen n - 1)" by (simp add: pow2_def)
  with bitlen_bounds [OF n(1)] n(2) show False by (simp add: pow2_def)
qed

text \<open>A number below \<open>2 ^ 53\<close>, over any power of two that divides the numerator, is represented exactly.\<close>

lemma nearest_exact:
  assumes n: "0 < n" "n < 2 ^ 53" and k: "0 \<le> k" and e: "e = bitlen n - 53"
  shows "nearest (n * pow2 k) (pow2 k) = Finite (n * pow2 (- e)) e"
proof -
  have b: "0 < bitlen n" "bitlen n \<le> 53" "pow2 (bitlen n - 1) \<le> n"
    using bitlen_bounds [OF n(1)] bitlen_le [OF n] by auto
  have e0: "bitlen (n * pow2 k) - bitlen (pow2 k) - 53 = e - 1" "e \<le> 0"
    using b e bitlen_pow2 [OF n(1) k] bitlen_pow2 [of 1 k] k by auto
  have "2 ^ 53 = pow2 (bitlen n - 1) * pow2 (1 - e)"
    using b e pow2_add [of "bitlen n - 1" "1 - e"] by (simp add: pow2_def)
  also have "\<dots> \<le> n * pow2 (1 - e)" using b(3) by (simp add: mult_right_mono)
  finally have "2 ^ 53 * pow2 k \<le> n * pow2 (1 - e) * pow2 k" by (simp only: mult_right_mono pow2_pos less_imp_le)
  then have "2 ^ 53 * (pow2 k * pow2 (e - 1)) \<le> n * pow2 k * pow2 (- (e - 1))"
    using e0(2) by (simp add: mult_ac)
  then have x: "float_exponent (n * pow2 k) (pow2 k) = e"
    unfolding float_exponent_def Let_def e0(1) using e b(1) by simp
  have "n * pow2 k * pow2 (- e) = n * pow2 (- e) * pow2 k" by simp
  then have "round_at (n * pow2 k) (pow2 k) e = n * pow2 (- e)"
    using e0(2) by (simp add: round_at_def Let_def)
  with x n e0 show ?thesis by (simp add: nearest_def Let_def)
qed

lemma trunc_exact:
  assumes "0 \<le> n" "n < 2 ^ 53" "0 \<le> k"
  shows "float_trunc (nearest (n * pow2 k) (pow2 k)) = Some n"
proof (cases "n = 0")
  case False
  with assms have n: "0 < n" by simp
  have "bitlen n \<le> 53" using bitlen_le [OF n assms(2)] .
  then show ?thesis using nearest_exact [OF n assms(2,3) refl] by simp
qed (simp add: nearest_def)

lemma float_times_exact:
  assumes "0 \<le> n" "0 < u" "n * u < 2 ^ 53"
  shows "float_trunc (float_times (nearest n 1) u) = Some (n * u)"
proof (cases "n = 0")
  case False
  with assms have n: "0 < n" by simp
  have "n * 1 \<le> n * u" using assms by (intro mult_left_mono) auto
  with assms have l: "n < 2 ^ 53" by simp
  let ?e = "bitlen n - 53"
  have e: "?e \<le> 0" using bitlen_le [OF n l] by simp
  have "nearest n 1 = Finite (n * pow2 (- ?e)) ?e"
    using nearest_exact [OF n l order_refl refl] by simp
  moreover have "n * pow2 (- ?e) * u = (n * u) * pow2 (- ?e)" by simp
  ultimately show ?thesis using trunc_exact [of "n * u" "- ?e"] assms e
    by (simp only: float_times.simps) (simp add: mult.commute mult.left_commute)
qed (simp add: nearest_def)

lemma digits_int_10: "digits_int 10 digit_val s = int (digits_val s)"
  by (induction s rule: rev_induct) (simp_all add: digits_int_def digits_val_def)

lemma ParseFloat_whole:
  assumes "s \<noteq> []" "list_all is_digit s" "int (digits_val s) < 2 ^ 53"
  shows "ParseFloat s = Some (nearest (int (digits_val s)) 1)"
proof -
  have d: "is_digit c \<Longrightarrow> lower_byte c = c \<and> c \<noteq> CHR ''.'' \<and> c \<noteq> CHR ''_'' \<and> c \<noteq> CHR ''x'' \<and> c \<noteq> CHR ''i'' \<and> c \<noteq> CHR ''n''" for c
    by (auto simp: is_digit_def lower_byte_def less_eq_char_def)
  have l: "map lower_byte s = s" using assms(2) d by (simp add: list_all_iff map_idI)
  have nx: "\<not> has_prefix s ''0x''" "s \<noteq> ''inf''" "s \<noteq> ''infinity''" "s \<noteq> ''nan''"
  proof -
    have "take 2 s \<noteq> ''0x''" using assms(2) d [of "CHR ''x''"] by (metis (no_types, lifting) in_set_takeD list.set_intros list_all_iff)
    then show "\<not> has_prefix s ''0x''" by (simp add: has_prefix_def numeral_2_eq_2)
  qed (use assms(2) in \<open>auto simp: is_digit_def less_eq_char_def\<close>)
  have f: "filter (\<lambda>c. c \<noteq> CHR ''_'') s = s" "takeWhile (\<lambda>c. c \<noteq> CHR ''.'') s = s" "CHR ''_'' \<notin> set s"
    "dropWhile (\<lambda>c. c \<noteq> CHR ''.'') s = []"
    using assms(2) d by (auto simp: list_all_iff filter_id_conv takeWhile_eq_all_conv dropWhile_eq_Nil_conv)
  then have m: "mantissa s = (s, 0)" unfolding mantissa_def Let_def f(1) unfolding f(2,4) by simp
  have "nearest (int (digits_val s)) 1 \<noteq> Inf"
    using trunc_exact [of "int (digits_val s)" 0] assms(3) by auto
  then show ?thesis
    using assms l nx m f(3) by (simp add: ParseFloat_def ParseFloat_decimal_def digits_int_10 split: float64.splits)
qed

end
