(* ===== verification/Relay_Query.thy ===== *)
theory Relay_Query
  imports Go_Float Relay_Store
begin

text \<open>
  The parameters of a collection's query: \<^verbatim>\<open>limit\<close>, read by \<^verbatim>\<open>strconv.Atoi\<close> with its error dropped, and \<^verbatim>\<open>lease\<close>, read by
  \<^verbatim>\<open>ParseLease\<close> of \<^verbatim>\<open>src/lease.go\<close>. The parameter \<open>oor\<close> is what the platform makes of a floating-point
  value outside the integer range.
\<close>

section \<open>Definitions\<close>

text \<open>
  \<^verbatim>\<open>limit, _ = strconv.Atoi(v)\<close>: zero for a text that is not a number, the nearest bound for one outside
  the 64-bit range.
\<close>

definition Atoi :: "string \<Rightarrow> int" where
  "Atoi s =
     (let (neg, t) = (case eat (CHR ''-'') s of
            Some t \<Rightarrow> (True, t)
          | None \<Rightarrow> (case eat (CHR ''+'') s of Some t \<Rightarrow> (False, t) | None \<Rightarrow> (False, s)));
          n = digits_int 10 digit_val t
      in if t = [] \<or> \<not> list_all is_digit t then 0
         else if neg then max (- (2 ^ 63)) (- n) else min (2 ^ 63 - 1) n)"

definition ParseLease :: "(float64 \<Rightarrow> int) \<Rightarrow> string \<Rightarrow> string + duration" where
  "ParseLease oor v0 =
     (let v = TrimSpace v0
      in if v = '''' \<or> v = ''0'' then Inr 0
         else let (unit, n) =
                (if has_suffix v ''ms'' then (Millisecond, trim_suffix v ''ms'')
                 else if has_suffix v ''s'' then (Second, trim_suffix v ''s'')
                 else if has_suffix v ''m'' then (Minute, trim_suffix v ''m'')
                 else if has_suffix v ''h'' then (Hour, trim_suffix v ''h'')
                 else (Second, v))
         in if n = '''' \<or> contains_any n (''eE+- '' @ [CHR 0x09]) then Inl ErrBadLease
         else (case ParseFloat n of
                 None \<Rightarrow> Inl ErrBadLease
               | Some x \<Rightarrow>
                   let d = to_int64 oor (float_times x unit)
                   in if d > MaxLease then Inl ErrLeaseTooLong else Inr d))"

text \<open>The units of the parameter's grammar.\<close>

definition lease_units :: "(string \<times> duration) list" where
  "lease_units = [('''', Second), (''ms'', Millisecond), (''s'', Second), (''m'', Minute), (''h'', Hour)]"

section \<open>Lemmas\<close>

lemma ParseLease_bounded: "ParseLease oor v = Inr d \<Longrightarrow> d \<le> MaxLease"
  by (auto simp: ParseLease_def Let_def MaxLease_def duration_defs split: if_splits option.splits)

lemma ParseLease_error: "ParseLease oor v = Inl e \<Longrightarrow> e = ErrBadLease \<or> e = ErrLeaseTooLong"
  by (auto simp: ParseLease_def Let_def split: if_splits option.splits)

definition lease_char :: "char \<Rightarrow> bool" where
  "lease_char c \<longleftrightarrow> is_digit c \<or> c \<in> set ''msh''"

lemma lease_char_plain: "lease_char c \<Longrightarrow> c \<notin> set (concat space_runes) \<and> c \<notin> set (''eE+- '' @ [CHR 0x09])"
  by (auto simp: lease_char_def space_runes_def is_digit_def less_eq_char_def)

lemma digit_suffix:
  assumes "list_all is_digit ds" "ds \<noteq> []" "(u, d) \<in> set lease_units"
  shows "(if has_suffix (ds @ u) ''ms'' then (Millisecond, trim_suffix (ds @ u) ''ms'')
     else if has_suffix (ds @ u) ''s'' then (Second, trim_suffix (ds @ u) ''s'')
     else if has_suffix (ds @ u) ''m'' then (Minute, trim_suffix (ds @ u) ''m'')
     else if has_suffix (ds @ u) ''h'' then (Hour, trim_suffix (ds @ u) ''h'')
     else (Second, ds @ u)) = (d, ds)"
proof -
  from assms(1,2) obtain es e where ds: "ds = es @ [e]" "is_digit e" by (cases ds rule: rev_cases) auto
  have e: "e \<noteq> CHR ''m''" "e \<noteq> CHR ''s''" "e \<noteq> CHR ''h''" using ds(2) by (auto simp: is_digit_def less_eq_char_def)
  show ?thesis using assms(3) e
    by (auto simp: lease_units_def ds(1) has_suffix_def has_prefix_def trim_suffix_def numeral_2_eq_2)
qed

lemma ParseLease_whole:
  assumes unit: "(u, d) \<in> set lease_units" and small: "int n * d < 2 ^ 53"
  shows "ParseLease oor (show_nat n @ u) =
    (if int n * d > MaxLease then Inl ErrLeaseTooLong else Inr (int n * d))"
proof -
  let ?ds = "show_nat n"
  have ds: "?ds \<noteq> []" "list_all is_digit ?ds" "digits_val ?ds = n" by (simp_all add: show_nat_digits digits_val_show_nat)
  have d: "0 < d" using unit by (auto simp: lease_units_def duration_defs)
  have "int n * 1 \<le> int n * d" using d by (intro mult_left_mono) auto
  with small have n: "int n < 2 ^ 53" by simp
  have lc: "lease_char c" if "c \<in> set (?ds @ u)" for c
    using that ds(2) unit by (auto simp: lease_char_def lease_units_def list_all_iff)
  have trim: "TrimSpace (?ds @ u) = ?ds @ u" by (intro TrimSpace_id ballI) (drule lc, drule lease_char_plain, erule conjunct1)
  have "c \<notin> set (''eE+- '' @ [CHR 0x09])" if "c \<in> set ?ds" for c
    using lease_char_plain [OF lc] that by (simp only: set_append Un_iff simp_thms)
  then have any: "\<not> contains_any ?ds (''eE+- '' @ [CHR 0x09])"
    unfolding contains_any_def list_ex_iff by (simp only: not_False_eq_True Bex_def simp_thms) blast
  have val: "to_int64 oor (float_times (nearest (int n) 1) d) = int n * d"
    using float_times_exact [OF _ d small] small by (simp add: to_int64_def)
  show ?thesis
  proof (cases "?ds @ u = ''0''")
    case True
    then have "?ds = ''0''" "u = ''''" using ds(1) by (cases ?ds; auto)+
    then have "n = 0" using ds(3) by (simp add: digits_val_def digit_val_def)
    with True show ?thesis unfolding ParseLease_def Let_def trim by (simp add: MaxLease_def duration_defs)
  next
    case False
    then show ?thesis
      unfolding ParseLease_def Let_def trim digit_suffix [OF ds(2,1) unit] prod.case
      using ds any ParseFloat_whole [OF ds(1,2)] n val by simp
  qed
qed

section \<open>Properties\<close>

text \<open>
  Property C30. A whole number of seconds, milliseconds, minutes or hours is understood exactly. Below
  \<open>2 ^ 53\<close> nanoseconds (about a hundred days), the decimal text of the number followed by its unit, or by
  none for seconds, asks for exactly that many units, and is refused as too long exactly when that is more
  than five minutes. Floating point never shows.
\<close>

theorem parse_lease_exact:
  assumes unit: "(u, d) \<in> set lease_units" and small: "int n * d < 2 ^ 53"
  shows "ParseLease oor (show_nat n @ u) =
    (if int n * d > MaxLease then Inl ErrLeaseTooLong else Inr (int n * d))"
  using assms by (rule ParseLease_whole)

theorem parse_lease_exact_witness:
  "ParseLease (\<lambda>_. 0) (show_nat 30 @ ''s'') = Inr (30 * Second) \<and>
   ParseLease (\<lambda>_. 0) (show_nat 6 @ ''m'') = Inl ErrLeaseTooLong"
  using parse_lease_exact [of "''s''" Second 30 "\<lambda>_. 0"] parse_lease_exact [of "''m''" Minute 6 "\<lambda>_. 0"]
  by (simp add: lease_units_def duration_defs MaxLease_def)

end
