(* ===== verification/Relay_Auth.thy ===== *)
theory Relay_Auth
  imports Relay_Types
begin

text \<open>
  The authorisation seam of \<^verbatim>\<open>src/auth.go\<close> and the self-hosted default of \<^verbatim>\<open>src/server.go\<close>.

  \<^item> \<open>static_auth\<close> with its setters, \<open>AllowRead\<close>, \<open>AllowWrite\<close> and \<open>match\<close>: one hashed token
    per estate and side. The hash \<^verbatim>\<open>crypto/sha256\<close> is the parameter \<open>sha\<close> of every definition
    that uses it; what a property needs of it (no collision between two tokens, no token
    hashing to the zero digest) is a hypothesis of that property.
  \<^item> \<open>authAdapter_Admit\<close>: how a boolean \<^verbatim>\<open>Auth\<close> is lifted onto the \<^verbatim>\<open>Authoriser\<close> seam.
  \<^item> the locale \<open>boolean_auth\<close> is the contract of the boolean interface, \<open>admission\<close> the one of
    \<^verbatim>\<open>Admission\<close>, \<open>scoped_admission\<close> the one of an authoriser that only allows inside the scope
    it states. An admission decision may change the authoriser's own state (a cache), so it is
    a function \<open>'st \<Rightarrow> request \<Rightarrow> grant \<times> 'st\<close>.
\<close>

type_synonym digest = string
type_synonym sha = "string \<Rightarrow> digest"
type_synonym 'st admit = "'st \<Rightarrow> request \<Rightarrow> grant \<times> 'st"

section \<open>Definitions\<close>

subsection \<open>StaticAuth\<close>

record static_auth =
  sa_control :: "(string, digest) gomap"
  sa_station :: "(string, digest) gomap"

definition zero_digest :: digest where "zero_digest = replicate 32 (byte 0)"

definition NewStaticAuth :: static_auth where
  "NewStaticAuth = \<lparr>sa_control = [], sa_station = []\<rparr>"

definition SetControl :: "sha \<Rightarrow> string \<Rightarrow> string \<Rightarrow> static_auth \<Rightarrow> static_auth" where
  "SetControl sha estate token a = a\<lparr>sa_control := AList.update estate (sha token) (sa_control a)\<rparr>"

definition SetStation :: "sha \<Rightarrow> string \<Rightarrow> string \<Rightarrow> static_auth \<Rightarrow> static_auth" where
  "SetStation sha estate token a = a\<lparr>sa_station := AList.update estate (sha token) (sa_station a)\<rparr>"

definition match :: "digest \<Rightarrow> digest \<Rightarrow> bool" where
  "match want got \<longleftrightarrow> (if want = zero_digest then False else want = got)"

definition AllowRead :: "sha \<Rightarrow> static_auth \<Rightarrow> string \<Rightarrow> string \<Rightarrow> string \<Rightarrow> string \<Rightarrow> bool" where
  "AllowRead sha a token estate station dir \<longleftrightarrow>
     (if token = '''' \<or> estate = '''' \<or> station = '''' \<or> \<not> validDir dir then False
      else let got = sha token
           in match (lookup_or zero_digest (sa_control a) estate) got \<or>
              match (lookup_or zero_digest (sa_station a) estate) got)"

definition AllowWrite :: "sha \<Rightarrow> static_auth \<Rightarrow> string \<Rightarrow> string \<Rightarrow> string \<Rightarrow> string \<Rightarrow> bool" where
  "AllowWrite sha a token estate station dir \<longleftrightarrow>
     (if token = '''' \<or> estate = '''' \<or> station = '''' then False
      else let got = sha token
           in if dir = c2s then match (lookup_or zero_digest (sa_control a) estate) got
              else if dir = s2c then match (lookup_or zero_digest (sa_station a) estate) got
              else False)"

text \<open>\<^verbatim>\<open>FingerprintToken\<close>: the first twelve hexadecimal digits of the token's digest.\<close>

definition FingerprintToken :: "sha \<Rightarrow> string \<Rightarrow> string" where
  "FingerprintToken sha t = take 12 (hex_encode (sha t))"

subsection \<open>The adapter from a boolean Auth\<close>

definition wide_scope :: "request \<Rightarrow> scope" where
  "wide_scope req = \<lparr>sc_Estate = r_Estate req, sc_Stations = [], sc_AllStations = True,
     sc_Read = [c2s, s2c], sc_Write = [r_Dir req]\<rparr>"

definition authAdapter_Admit ::
  "(string \<Rightarrow> string \<Rightarrow> string \<Rightarrow> string \<Rightarrow> bool) \<Rightarrow> (string \<Rightarrow> string \<Rightarrow> string \<Rightarrow> string \<Rightarrow> bool)
   \<Rightarrow> request \<Rightarrow> grant" where
  "authAdapter_Admit allow_read allow_write req =
     (let cred = r_Credential req; e = r_Estate req; s = r_Station req; d = r_Dir req
      in if cred = '''' then refusal ReasonNoCredential
         else if r_Op req = OpRead \<and> allow_read cred e s d then allowing (wide_scope req)
         else if r_Op req = OpWrite \<and> allow_write cred e s d then allowing (wide_scope req)
         else if r_Op req = OpWrite \<and> allow_read cred e s d then refusal ReasonWrongDirection
         else refusal ReasonBadCredential)"

definition FromAuth ::
  "(string \<Rightarrow> string \<Rightarrow> string \<Rightarrow> string \<Rightarrow> bool) \<Rightarrow> (string \<Rightarrow> string \<Rightarrow> string \<Rightarrow> string \<Rightarrow> bool)
   \<Rightarrow> unit admit" where
  "FromAuth allow_read allow_write st req = (authAdapter_Admit allow_read allow_write req, st)"

text \<open>\<^verbatim>\<open>NoAccounting.Settle\<close> leaves everything as it was; \<^verbatim>\<open>NoSessions.Watch\<close> is the nil channel.\<close>

definition NoAccounting_Settle :: "'st \<Rightarrow> settlement \<Rightarrow> 'st" where
  "NoAccounting_Settle st s = st"

definition NoSessions_Watch :: "'st \<Rightarrow> request \<Rightarrow> string \<Rightarrow> string list option" where
  "NoSessions_Watch st req ref = None"

subsection \<open>Scopes\<close>

definition permits :: "scope \<Rightarrow> string \<Rightarrow> string \<Rightarrow> string \<Rightarrow> string \<Rightarrow> bool" where
  "permits s estate station dir op \<longleftrightarrow>
     (if estate = '''' \<or> station = '''' \<or> \<not> validDir dir then False
      else if sc_Estate s = '''' \<or> sc_Estate s \<noteq> estate then False
      else if \<not> sc_AllStations s \<and> station \<notin> set (sc_Stations s) then False
      else if op = OpRead then dir \<in> set (sc_Read s)
      else if op = OpWrite then dir \<in> set (sc_Write s)
      else False)"

definition stationScoped :: "scope \<Rightarrow> bool" where
  "stationScoped s \<longleftrightarrow> \<not> sc_AllStations s \<and> 0 < length (sc_Stations s)"

section \<open>Interfaces\<close>

locale boolean_auth =
  fixes allow_read allow_write :: "string \<Rightarrow> string \<Rightarrow> string \<Rightarrow> string \<Rightarrow> bool"
  assumes read_needs: "allow_read tok e s d \<Longrightarrow> tok \<noteq> '''' \<and> e \<noteq> '''' \<and> s \<noteq> '''' \<and> validDir d"
    and write_needs: "allow_write tok e s d \<Longrightarrow> tok \<noteq> '''' \<and> e \<noteq> '''' \<and> s \<noteq> '''' \<and> validDir d"
    and write_may_read: "allow_write tok e s d \<Longrightarrow> allow_read tok e s d"
begin

lemma adapter_read_iff:
  "r_Op req = OpRead \<Longrightarrow>
   g_Allow (authAdapter_Admit allow_read allow_write req) \<longleftrightarrow>
   allow_read (r_Credential req) (r_Estate req) (r_Station req) (r_Dir req)"
  by (auto simp: authAdapter_Admit_def Let_def dest: read_needs)

lemma adapter_write_iff:
  "r_Op req = OpWrite \<Longrightarrow>
   g_Allow (authAdapter_Admit allow_read allow_write req) \<longleftrightarrow>
   allow_write (r_Credential req) (r_Estate req) (r_Station req) (r_Dir req)"
  by (auto simp: authAdapter_Admit_def Let_def dest: write_needs)

lemma adapter_reasons:
  assumes "\<not> g_Allow (authAdapter_Admit allow_read allow_write req)"
  shows "g_Reason (authAdapter_Admit allow_read allow_write req) =
    (if r_Credential req = '''' then ReasonNoCredential
     else if r_Op req = OpWrite \<and>
       allow_read (r_Credential req) (r_Estate req) (r_Station req) (r_Dir req)
     then ReasonWrongDirection else ReasonBadCredential)"
  using assms by (auto simp: authAdapter_Admit_def Let_def split: if_splits)

lemma adapter_within_scope:
  assumes "g_Allow (authAdapter_Admit allow_read allow_write req)"
  shows "permits (g_Scope (authAdapter_Admit allow_read allow_write req))
     (r_Estate req) (r_Station req) (r_Dir req) (r_Op req)"
  using assms
  by (auto simp: authAdapter_Admit_def Let_def wide_scope_def permits_def validDir_def
      split: if_splits dest: read_needs write_needs)

end

locale admission =
  fixes admit :: "'st admit"
  assumes allow_needs_credential: "g_Allow (fst (admit st req)) \<Longrightarrow> r_Credential req \<noteq> ''''"
    and refusal_has_reason:
      "\<not> g_Allow (fst (admit st req)) \<Longrightarrow> g_Reason (fst (admit st req)) \<noteq> ReasonAllowed"
begin

lemma no_credential_refused: "r_Credential req = '''' \<Longrightarrow> \<not> g_Allow (fst (admit st req))"
  using allow_needs_credential by blast

lemma refusal_status:
  "\<not> g_Allow (fst (admit st req)) \<Longrightarrow> 400 \<le> reason_status (g_Reason (fst (admit st req)))"
  using refusal_has_reason reason_status_refuses by blast

end

locale scoped_admission = admission +
  assumes allow_within_scope:
    "g_Allow (fst (admit st req)) \<Longrightarrow>
     permits (g_Scope (fst (admit st req))) (r_Estate req) (r_Station req) (r_Dir req) (r_Op req)"
begin

lemma allow_valid_route:
  "g_Allow (fst (admit st req)) \<Longrightarrow> validRoute (r_Estate req) (r_Station req) (r_Dir req)"
  using allow_within_scope [of st req] by (auto simp: permits_def route_simps split: if_splits)

lemma allow_own_estate:
  "g_Allow (fst (admit st req)) \<Longrightarrow> sc_Estate (g_Scope (fst (admit st req))) = r_Estate req"
  using allow_within_scope [of st req] by (auto simp: permits_def split: if_splits)

end

sublocale boolean_auth \<subseteq> lifted: scoped_admission "FromAuth allow_read allow_write"
proof unfold_locales
  fix st req
  show "g_Allow (fst (FromAuth allow_read allow_write st req)) \<Longrightarrow> r_Credential req \<noteq> ''''"
    by (auto simp: FromAuth_def authAdapter_Admit_def Let_def)
  show "\<not> g_Allow (fst (FromAuth allow_read allow_write st req)) \<Longrightarrow>
    g_Reason (fst (FromAuth allow_read allow_write st req)) \<noteq> ReasonAllowed"
    by (simp add: FromAuth_def adapter_reasons)
  show "g_Allow (fst (FromAuth allow_read allow_write st req)) \<Longrightarrow>
    permits (g_Scope (fst (FromAuth allow_read allow_write st req)))
      (r_Estate req) (r_Station req) (r_Dir req) (r_Op req)"
    by (simp add: FromAuth_def adapter_within_scope)
qed

section \<open>StaticAuth meets the boolean contract\<close>

lemma match_iff: "match want got \<longleftrightarrow> want \<noteq> zero_digest \<and> want = got"
  by (simp add: match_def)

interpretation static: boolean_auth "AllowRead sha a" "AllowWrite sha a" for sha a
  by unfold_locales
    (auto simp: AllowRead_def AllowWrite_def Let_def validDir_def split: if_splits)

lemmas static_auth_defs = AllowRead_def AllowWrite_def Let_def match_iff validDir_def

lemma static_lookup [simp]:
  "lookup_or zero_digest (sa_control (SetControl sha e tok a)) e' =
     (if e' = e then sha tok else lookup_or zero_digest (sa_control a) e')"
  "lookup_or zero_digest (sa_station (SetStation sha e tok a)) e' =
     (if e' = e then sha tok else lookup_or zero_digest (sa_station a) e')"
  "sa_station (SetControl sha e tok a) = sa_station a"
  "sa_control (SetStation sha e tok a) = sa_control a"
  by (simp_all add: SetControl_def SetStation_def)

text \<open>
  The scope split of a configured estate. After an estate has been given its two
  tokens, and those do not collide under the hash, the control token queues requests and the
  station token publishes replies, each for every station of the estate; neither token may do
  the other side's half, for any station; and both may read both queues.
\<close>

theorem static_scope_split:
  assumes cfg: "a' = SetStation sha e stn (SetControl sha e ctl a)"
    and named: "e \<noteq> ''''" "st \<noteq> ''''" "ctl \<noteq> ''''" "stn \<noteq> ''''"
    and hash: "sha ctl \<noteq> sha stn" "sha ctl \<noteq> zero_digest" "sha stn \<noteq> zero_digest"
  shows "AllowWrite sha a' ctl e st c2s \<and> \<not> AllowWrite sha a' ctl e st s2c \<and>
    AllowWrite sha a' stn e st s2c \<and> \<not> AllowWrite sha a' stn e st c2s \<and>
    (\<forall>d. validDir d \<longrightarrow> AllowRead sha a' ctl e st d \<and> AllowRead sha a' stn e st d)"
  using assms by (auto simp: static_auth_defs)

text \<open>A concrete hash for the witnesses: a 32-byte digest, never zero, telling short tokens apart.\<close>

definition sample_sha :: sha where
  "sample_sha s = take 32 (s @ replicate 32 (byte 1))"

theorem static_scope_split_witness:
  "AllowWrite sample_sha (SetStation sample_sha ''e1'' ''stn'' (SetControl sample_sha ''e1'' ''ctl'' NewStaticAuth))
     ''ctl'' ''e1'' ''st1'' c2s \<and>
   \<not> AllowWrite sample_sha (SetStation sample_sha ''e1'' ''stn'' (SetControl sample_sha ''e1'' ''ctl'' NewStaticAuth))
     ''stn'' ''e1'' ''st1'' c2s"
proof -
  have "sample_sha ''ctl'' \<noteq> sample_sha ''stn''" "sample_sha ''ctl'' \<noteq> zero_digest"
    "sample_sha ''stn'' \<noteq> zero_digest"
    by code_simp+
  then show ?thesis
    using static_scope_split [OF refl, of "''e1''" "''st1''" "''ctl''" "''stn''" sample_sha NewStaticAuth]
    by simp
qed

text \<open>
  An estate nobody configured refuses everybody: no token reads or writes any of its
  queues, whatever its digest is, the zero digest included.
\<close>

theorem static_unconfigured_refused:
  assumes "e \<notin> set (mkeys (sa_control a))" "e \<notin> set (mkeys (sa_station a))"
  shows "\<not> AllowRead sha a tok e st d \<and> \<not> AllowWrite sha a tok e st d"
proof -
  have "map_of (sa_control a) e = None" "map_of (sa_station a) e = None"
    using assms by (simp_all add: map_of_eq_None_iff)
  then show ?thesis by (simp add: static_auth_defs lookup_or_def)
qed

theorem static_unconfigured_refused_witness:
  "\<not> AllowRead (\<lambda>_. zero_digest) NewStaticAuth ''any'' ''e9'' ''st1'' c2s \<and>
   \<not> AllowWrite (\<lambda>_. zero_digest) NewStaticAuth ''any'' ''e9'' ''st1'' c2s"
  by (rule static_unconfigured_refused) (simp_all add: NewStaticAuth_def)

text \<open>
  The adapter tells its refusals apart. A request the lifted boolean authoriser refuses is refused as
  no-credential exactly when no credential came, as wrong-direction exactly when it is a write
  by a credential that may read the queue, and as bad-credential otherwise; each answers 401.
\<close>

theorem static_refusal_reasons:
  assumes "\<not> g_Allow (authAdapter_Admit (AllowRead sha a) (AllowWrite sha a) req)"
  shows "g_Reason (authAdapter_Admit (AllowRead sha a) (AllowWrite sha a) req) =
      (if r_Credential req = '''' then ReasonNoCredential
       else if r_Op req = OpWrite \<and>
         AllowRead sha a (r_Credential req) (r_Estate req) (r_Station req) (r_Dir req)
       then ReasonWrongDirection else ReasonBadCredential) \<and>
    reason_status (g_Reason (authAdapter_Admit (AllowRead sha a) (AllowWrite sha a) req)) = 401"
  using static.adapter_reasons [OF assms] by (simp add: reason_status_def)

theorem static_refusal_reasons_witness:
  "\<exists>req. r_Credential req = ''stn'' \<and>
     g_Reason (authAdapter_Admit
       (AllowRead sample_sha (SetStation sample_sha ''e1'' ''stn'' NewStaticAuth))
       (AllowWrite sample_sha (SetStation sample_sha ''e1'' ''stn'' NewStaticAuth)) req) = ReasonWrongDirection"
proof -
  let ?a = "SetStation sample_sha ''e1'' ''stn'' NewStaticAuth"
  let ?req = "\<lparr>r_Credential = ''stn'', r_Estate = ''e1'', r_Station = ''st1'', r_Dir = c2s,
    r_Op = OpWrite, r_Bytes = 3, r_At = 0\<rparr>"
  have ns: "sample_sha ''stn'' \<noteq> zero_digest"
    by code_simp
  have no: "\<not> g_Allow (authAdapter_Admit (AllowRead sample_sha ?a) (AllowWrite sample_sha ?a) ?req)"
    by (simp add: static.adapter_write_iff static_auth_defs NewStaticAuth_def SetStation_def)
  have "g_Reason (authAdapter_Admit (AllowRead sample_sha ?a) (AllowWrite sample_sha ?a) ?req)
      = ReasonWrongDirection"
    using static_refusal_reasons [OF no] ns by (simp add: static_auth_defs)
  then show ?thesis by (intro exI [of _ ?req]) simp
qed

end
