(* ===== verification/Relay_Server.thy ===== *)
theory Relay_Server
  imports Relay_Query Go_Stream Relay_Auth Relay_Lease
begin

text \<open>
  The HTTP surface, \<^verbatim>\<open>src/server.go\<close>: the handlers, the held polls and the answers.

  \<^item> A request is what \<^verbatim>\<open>net/http\<close> hands to a handler: path values, headers, query and body. An answer is a
    status and a payload; the texts of messages and of a lease are left to the encoder, so a payload holds
    the messages themselves.
  \<^item> A server is its store with the spool's directory, the state of its authoriser, the table of waiters and the
    two reported strings. An authoriser is a record of its three methods; what it does is its own business, so every
    theorem here holds for all of them. A waiter is a channel with room for one
    signal: a number and whether the signal is in it. The log has no entry in the state.
  \<^item> \<open>env\<close> is what one activation of a handler meets from outside: disk answers, clock readings and the
    platform's conversion of floating-point numbers.
  \<^item> A collection that finds nothing waits, so its handler is cut where it waits: \<open>Server_get_start\<close> runs up to
    the call of \<^verbatim>\<open>hold\<close>, \<open>hold_begin\<close> and \<open>hold_end\<close> are the two critical sections of \<^verbatim>\<open>hold\<close>, \<open>hold_result\<close> is the
    outcome of its \<^verbatim>\<open>select\<close>, and \<open>Server_get_resume\<close> runs from the return of \<^verbatim>\<open>hold\<close>. \<^verbatim>\<open>put\<close> is cut before \<^verbatim>\<open>wake\<close>, which other
    requests may overtake.
\<close>

section \<open>Requests, answers and the server\<close>

record http_request =
  hr_estate :: string
  hr_station :: string
  hr_dir :: string
  hr_Authorization :: string
  hr_Accept :: string
  hr_query :: "(string \<times> string) list"
  hr_ContentLength :: int
  hr_body :: http_body

datatype payload = NoPayload | Html "string list" | Json json | Messages "message list" | LeaseObject lease

record response =
  rs_status :: nat
  rs_payload :: payload

record ('st, 'w) authoriser =
  au_Admit :: "'st admit"
  au_Settle :: "'st \<Rightarrow> settlement \<Rightarrow> 'st"
  au_Watch :: "'st \<Rightarrow> request \<Rightarrow> string \<Rightarrow> 'w \<times> 'st"

record 'st server =
  sv_store :: store
  sv_disk :: disk
  sv_auth :: 'st
  sv_wait :: duration
  sv_waiters :: "(string, (nat \<times> bool) list) gomap"
  sv_chans :: nat
  sv_Version :: string
  sv_Hash :: string

record env =
  e_io :: io
  e_clk :: "nat \<Rightarrow> time"
  e_started :: time
  e_settled :: time
  e_oor :: "float64 \<Rightarrow> int"

definition NewAuthorisingServer :: "store \<Rightarrow> disk \<Rightarrow> 'st \<Rightarrow> 'st server" where
  "NewAuthorisingServer st d a = \<lparr>sv_store = st, sv_disk = d, sv_auth = a, sv_wait = 25 * Second,
     sv_waiters = [], sv_chans = 0, sv_Version = '''', sv_Hash = ''''\<rparr>"

text \<open>\<^verbatim>\<open>NewServer\<close>: a boolean \<^verbatim>\<open>Auth\<close> lifted onto the seam, with nothing to account for and nothing to revoke.\<close>

definition lifted_authoriser ::
  "(string \<Rightarrow> string \<Rightarrow> string \<Rightarrow> string \<Rightarrow> bool) \<Rightarrow> (string \<Rightarrow> string \<Rightarrow> string \<Rightarrow> string \<Rightarrow> bool)
   \<Rightarrow> (unit, string list option) authoriser" where
  "lifted_authoriser allow_read allow_write =
     \<lparr>au_Admit = FromAuth allow_read allow_write, au_Settle = NoAccounting_Settle,
      au_Watch = (\<lambda>st req ref. (NoSessions_Watch st req ref, st))\<rparr>"

definition NewServer :: "store \<Rightarrow> disk \<Rightarrow> unit server" where
  "NewServer st d = NewAuthorisingServer st d ()"

definition token :: "http_request \<Rightarrow> string" where
  "token hr = (if has_prefix (hr_Authorization hr) ''Bearer ''
               then TrimSpace (trim_prefix (hr_Authorization hr) ''Bearer '') else '''')"

definition query_get :: "http_request \<Rightarrow> string \<Rightarrow> string" where
  "query_get hr k = lookup_or '''' (hr_query hr) k"

section \<open>Answers\<close>

definition reportedVersion :: "'st server \<Rightarrow> string" where
  "reportedVersion s = (if sv_Version s = '''' then ''unknown'' else sv_Version s)"

definition reportedHash :: "'st server \<Rightarrow> string" where
  "reportedHash s = (if sv_Hash s = '''' then ''unknown'' else sv_Hash s)"

abbreviation sourceURL :: string where "sourceURL \<equiv> ''https://github.com/heliograph-io/heliograph-relay''"
abbreviation docsURL :: string where "docsURL \<equiv> ''https://heliograph.dbhq.uk/relay''"
abbreviation whatItIs :: string where
  "whatItIs \<equiv> ''Stores and forwards opaque ciphertext between a control and a station. It holds no keys, does no crypto, and never sees plaintext.''"
abbreviation shortWhat :: string where "shortWhat \<equiv> ''Stores and forwards ciphertext it cannot read.''"

definition writeJSON :: "json \<Rightarrow> response" where
  "writeJSON j = \<lparr>rs_status = 200, rs_payload = Json j\<rparr>"

definition health :: "'st server \<Rightarrow> response" where
  "health s = writeJSON (JObj [(''durable'', JBool (Durable (sv_store s))), (''hash'', JStr (reportedHash s)),
     (''ok'', JBool True), (''version'', JStr (reportedVersion s))])"

definition version :: "'st server \<Rightarrow> response" where
  "version s = writeJSON (JObj [(''implementation'', JStr ''go''), (''service'', JStr ''heliograph-relay''),
     (''source'', JStr sourceURL), (''version'', JStr (reportedVersion s))])"

definition root :: "http_request \<Rightarrow> 'st server \<Rightarrow> response" where
  "root hr s =
     (if contains_str (hr_Accept hr) ''text/html''
      then \<lparr>rs_status = 200, rs_payload = Html [shortWhat, reportedVersion s, sourceURL, docsURL]\<rparr>
      else writeJSON (JObj [(''docs'', JStr docsURL), (''implementation'', JStr ''go''), (''service'', JStr ''heliograph-relay''),
        (''source'', JStr sourceURL), (''version'', JStr (reportedVersion s)), (''what'', JStr whatItIs)]))"

definition refuse :: "grant \<Rightarrow> response" where
  "refuse g =
     (let r = (if g_Reason g = ReasonAllowed then ReasonBadCredential else g_Reason g);
          detail = (if g_Detail g = '''' then reason_detail r else g_Detail g)
      in \<lparr>rs_status = reason_status r, rs_payload = Json (JObj [(''error'', JStr detail), (''reason'', JStr r)])\<rparr>)"

definition refuse_with :: "string \<Rightarrow> string \<Rightarrow> response" where
  "refuse_with r detail = refuse ((refusal r)\<lparr>g_Detail := detail\<rparr>)"

section \<open>Admission, settlement and the store\<close>

definition request_of :: "http_request \<Rightarrow> string \<Rightarrow> int \<Rightarrow> time \<Rightarrow> request" where
  "request_of hr op bytes started = \<lparr>r_Credential = token hr, r_Estate = hr_estate hr, r_Station = hr_station hr,
     r_Dir = hr_dir hr, r_Op = op, r_Bytes = bytes, r_At = started\<rparr>"

definition sv_admit :: "('st, 'w) authoriser \<Rightarrow> request \<Rightarrow> 'st server \<Rightarrow> grant \<times> 'st server" where
  "sv_admit au req s = (let (g, a) = au_Admit au (sv_auth s) req in (g, s\<lparr>sv_auth := a\<rparr>))"

definition settlement_of :: "request \<Rightarrow> grant \<Rightarrow> time \<Rightarrow> int \<Rightarrow> nat \<Rightarrow> string \<Rightarrow> settlement" where
  "settlement_of req g now bytes n outcome = \<lparr>st_Ref = g_Ref g, st_Estate = r_Estate req, st_Station = r_Station req,
     st_Dir = r_Dir req, st_Op = r_Op req, st_Bytes = bytes, st_Messages = n, st_Outcome = outcome,
     st_At = now, st_Started = r_At req\<rparr>"

definition settle ::
  "('st, 'w) authoriser \<Rightarrow> env \<Rightarrow> request \<Rightarrow> grant \<Rightarrow> int \<Rightarrow> nat \<Rightarrow> string \<Rightarrow> 'st server \<Rightarrow> 'st server" where
  "settle au e req g bytes n outcome s =
     s\<lparr>sv_auth := au_Settle au (sv_auth s) (settlement_of req g (e_settled e) bytes n outcome)\<rparr>"

text \<open>One call of the store, which takes the store and its spool from the server and puts them back.\<close>

definition on_store :: "(store \<Rightarrow> disk \<Rightarrow> 'r \<times> store \<times> disk) \<Rightarrow> 'st server \<Rightarrow> 'r \<times> 'st server" where
  "on_store f s = (let (r, st, d) = f (sv_store s) (sv_disk s) in (r, s\<lparr>sv_store := st, sv_disk := d\<rparr>))"

definition sv_Take :: "env \<Rightarrow> request \<Rightarrow> int \<Rightarrow> 'st server \<Rightarrow> (string + message list) \<times> 'st server" where
  "sv_Take e req limit = on_store (Take (e_io e) (e_clk e) (r_Estate req) (r_Station req) (r_Dir req) limit)"

definition sv_TakeLeased :: "env \<Rightarrow> request \<Rightarrow> int \<Rightarrow> duration \<Rightarrow> 'st server \<Rightarrow> (string + lease) \<times> 'st server" where
  "sv_TakeLeased e req limit held =
     on_store (TakeLeased (e_io e) (e_clk e) (r_Estate req) (r_Station req) (r_Dir req) limit held)"

definition route_key :: "request \<Rightarrow> string" where
  "route_key req = key (r_Estate req) (r_Station req) (r_Dir req)"

section \<open>The waiters\<close>

definition wake :: "string \<Rightarrow> 'st server \<Rightarrow> 'st server" where
  "wake k s = s\<lparr>sv_waiters := AList.map_entry k (map (\<lambda>(ch, full). (ch, True))) (sv_waiters s)\<rparr>"

definition hold_begin :: "string \<Rightarrow> 'st server \<Rightarrow> nat \<times> 'st server" where
  "hold_begin k s =
     (let ch = sv_chans s
      in (ch, s\<lparr>sv_waiters := AList.update k (lookup_or [] (sv_waiters s) k @ [(ch, False)]) (sv_waiters s),
                sv_chans := Suc ch\<rparr>))"

definition hold_end :: "string \<Rightarrow> nat \<Rightarrow> 'st server \<Rightarrow> 'st server" where
  "hold_end k ch s =
     (let w = lookup_or [] (sv_waiters s) k;
          w' = (case find (\<lambda>x. fst x = ch) w of None \<Rightarrow> w | Some x \<Rightarrow> remove1 x w)
      in s\<lparr>sv_waiters := (if w' = [] then AList.delete k (sv_waiters s) else AList.update k w' (sv_waiters s))\<rparr>)"

datatype hold_event = Woken | Withdrawn string | TimedOut | ClientGone

fun hold_result :: "hold_event \<Rightarrow> bool \<times> string" where
  "hold_result Woken = (True, ReasonAllowed)"
| "hold_result (Withdrawn why) = (False, if why = ReasonAllowed then ReasonRevoked else why)"
| "hold_result TimedOut = (False, ReasonAllowed)"
| "hold_result ClientGone = (False, ReasonAllowed)"

section \<open>The handlers\<close>

subsection \<open>put\<close>

record put_in =
  in_Seq :: u64
  in_Body :: bytes

definition put_update :: "string \<Rightarrow> json \<Rightarrow> put_in \<Rightarrow> put_in option" where
  "put_update f j r =
     (if f = ''seq'' then map_option (\<lambda>v. r\<lparr>in_Seq := v\<rparr>) (dec_u64 j (in_Seq r))
      else map_option (\<lambda>v. r\<lparr>in_Body := v\<rparr>) (dec_bytes j (in_Body r)))"

definition put_limit :: "grant \<Rightarrow> int" where
  "put_limit g = (if g_MaxBytes g > 0 \<and> g_MaxBytes g < MaxBodyBytes then g_MaxBytes g else MaxBodyBytes)"

definition put_decode :: "grant \<Rightarrow> http_request \<Rightarrow> read_error + put_in" where
  "put_decode g hr = decode_body (put_limit g + 1024) [''seq'', ''body''] put_update \<lparr>in_Seq = 0, in_Body = []\<rparr> (hr_body hr)"

definition put_message :: "http_request \<Rightarrow> put_in \<Rightarrow> message" where
  "put_message hr i = \<lparr>m_ID = '''', m_Estate = hr_estate hr, m_Station = hr_station hr, m_Dir = hr_dir hr,
     m_Seq = in_Seq i, m_Body = in_Body i, m_At = zero_time, m_file = '''', m_lease = '''', m_leaseUntil = zero_time\<rparr>"

definition put_refusal :: "string \<Rightarrow> response" where
  "put_refusal err =
     (if err = ErrTooLarge then refuse_with ReasonTooLarge err
      else if err = ErrQueueFull then refuse_with ReasonQueueFull err
      else if err = ErrBadRoute then refuse_with ReasonBadRoute err
      else if err = ErrNotDurable then refuse (refusal ReasonNotDurable)
      else refuse (refusal ReasonInternal))"

definition Server_put_store ::
  "('st, 'w) authoriser \<Rightarrow> env \<Rightarrow> http_request \<Rightarrow> 'st server \<Rightarrow> response \<times> string option \<times> 'st server" where
  "Server_put_store au e hr s =
     (if \<not> validDir (hr_dir hr) then (refuse (refusal ReasonBadRoute), None, s)
      else let req = request_of hr OpWrite (hr_ContentLength hr) (e_started e); (g, s1) = sv_admit au req s
      in if \<not> g_Allow g then (refuse g, None, s1)
      else (case put_decode g hr of
              Inl MaxBytesError \<Rightarrow> (refuse (refusal ReasonTooLarge), None, settle au e req g 0 0 OutcomeRefused s1)
            | Inl OtherError \<Rightarrow> (refuse (refusal ReasonUnreadable), None, settle au e req g 0 0 OutcomeRefused s1)
            | Inr i \<Rightarrow>
                if int (length (in_Body i)) > put_limit g
                then (refuse (refusal ReasonTooLarge), None, settle au e req g 0 0 OutcomeRefused s1)
                else (case on_store (Put (e_io e) (e_clk e) (put_message hr i)) s1 of
                        (Inl err, s2) \<Rightarrow> (put_refusal err, None, settle au e req g 0 0 OutcomeRefused s2)
                      | (Inr _, s2) \<Rightarrow>
                          (\<lparr>rs_status = 202, rs_payload = NoPayload\<rparr>, Some (route_key req),
                           settle au e req g (int (length (in_Body i))) 1 OutcomeAccepted s2))))"

definition wake_all :: "string option \<Rightarrow> 'st server \<Rightarrow> 'st server" where
  "wake_all k s = (case k of None \<Rightarrow> s | Some k \<Rightarrow> wake k s)"

definition Server_put ::
  "('st, 'w) authoriser \<Rightarrow> env \<Rightarrow> http_request \<Rightarrow> 'st server \<Rightarrow> response \<times> 'st server" where
  "Server_put au e hr s = (let (r, k, s') = Server_put_store au e hr s in (r, wake_all k s'))"

subsection \<open>get\<close>

record 'w collection =
  c_req :: request
  c_grant :: grant
  c_limit :: int
  c_held :: duration
  c_watch :: 'w

definition park ::
  "('st, 'w) authoriser \<Rightarrow> request \<Rightarrow> grant \<Rightarrow> int \<Rightarrow> duration \<Rightarrow> 'st server \<Rightarrow> (response + 'w collection) \<times> 'st server" where
  "park au req g limit held s =
     (let (w, a) = au_Watch au (sv_auth s) req (g_Ref g)
      in (Inr \<lparr>c_req = req, c_grant = g, c_limit = limit, c_held = held, c_watch = w\<rparr>, s\<lparr>sv_auth := a\<rparr>))"

definition total_bytes :: "message list \<Rightarrow> int" where
  "total_bytes ms = (\<Sum>m\<leftarrow>ms. int (length (m_Body m)))"

definition settle_delivery ::
  "('st, 'w) authoriser \<Rightarrow> env \<Rightarrow> request \<Rightarrow> grant \<Rightarrow> message list \<Rightarrow> 'st server \<Rightarrow> 'st server" where
  "settle_delivery au e req g ms s =
     (if ms = [] then settle au e req g 0 0 OutcomeEmpty s
      else settle au e req g (total_bytes ms) (length ms) OutcomeDelivered s)"

definition answer ::
  "('st, 'w) authoriser \<Rightarrow> env \<Rightarrow> request \<Rightarrow> grant \<Rightarrow> message list \<Rightarrow> 'st server \<Rightarrow> response \<times> 'st server" where
  "answer au e req g ms s = (\<lparr>rs_status = 200, rs_payload = Messages ms\<rparr>, settle_delivery au e req g ms s)"

definition answer_lease ::
  "('st, 'w) authoriser \<Rightarrow> env \<Rightarrow> request \<Rightarrow> grant \<Rightarrow> lease \<Rightarrow> 'st server \<Rightarrow> response \<times> 'st server" where
  "answer_lease au e req g l s =
     (\<lparr>rs_status = 200, rs_payload = LeaseObject l\<rparr>, settle_delivery au e req g (l_Messages l) s)"

definition getLeased_start ::
  "('st, 'w) authoriser \<Rightarrow> env \<Rightarrow> http_request \<Rightarrow> request \<Rightarrow> grant \<Rightarrow> int \<Rightarrow> duration \<Rightarrow> 'st server
   \<Rightarrow> (response + 'w collection) \<times> 'st server" where
  "getLeased_start au e hr req g limit held s =
     (case sv_TakeLeased e req limit held s of
        (Inl err, s1) \<Rightarrow>
          (Inl (if err = ErrBadLease \<or> err = ErrLeaseTooLong then refuse_with ReasonBadLease err
                else if err = ErrBadRoute then refuse_with ReasonBadRoute err
                else refuse (refusal ReasonInternal)),
           settle au e req g 0 0 OutcomeRefused s1)
      | (Inr l, s1) \<Rightarrow>
          if l_Messages l = [] \<and> query_get hr ''wait'' \<noteq> ''0'' then park au req g limit held s1
          else apfst Inl (answer_lease au e req g l s1))"

definition Server_get_start ::
  "('st, 'w) authoriser \<Rightarrow> env \<Rightarrow> http_request \<Rightarrow> 'st server \<Rightarrow> (response + 'w collection) \<times> 'st server" where
  "Server_get_start au e hr s =
     (if \<not> validDir (hr_dir hr) then (Inl (refuse (refusal ReasonBadRoute)), s)
      else let req = request_of hr OpRead 0 (e_started e); (g, s1) = sv_admit au req s
      in if \<not> g_Allow g then (Inl (refuse g), s1)
      else let limit = (if query_get hr ''limit'' \<noteq> '''' then Atoi (query_get hr ''limit'') else 0)
      in (case ParseLease (e_oor e) (query_get hr ''lease'') of
            Inl err \<Rightarrow> (Inl (refuse_with ReasonBadLease err), settle au e req g 0 0 OutcomeRefused s1)
          | Inr held \<Rightarrow>
              if held > 0 then getLeased_start au e hr req g limit held s1
              else (case sv_Take e req limit s1 of
                      (Inl err, s2) \<Rightarrow> (Inl (refuse_with ReasonBadRoute err), settle au e req g 0 0 OutcomeRefused s2)
                    | (Inr ms, s2) \<Rightarrow>
                        if ms = [] \<and> query_get hr ''wait'' \<noteq> ''0'' then park au req g limit 0 s2
                        else apfst Inl (answer au e req g ms s2))))"

definition getLeased_resume ::
  "('st, 'w) authoriser \<Rightarrow> env \<Rightarrow> 'w collection \<Rightarrow> bool \<Rightarrow> 'st server \<Rightarrow> response \<times> 'st server" where
  "getLeased_resume au e c woken s =
     (if woken
      then (case sv_TakeLeased e (c_req c) (c_limit c) (c_held c) s of
              (Inl _, s1) \<Rightarrow> answer_lease au e (c_req c) (c_grant c) empty_lease s1
            | (Inr l, s1) \<Rightarrow> answer_lease au e (c_req c) (c_grant c) l s1)
      else answer_lease au e (c_req c) (c_grant c) empty_lease s)"

definition Server_get_resume ::
  "('st, 'w) authoriser \<Rightarrow> env \<Rightarrow> 'w collection \<Rightarrow> bool \<times> string \<Rightarrow> 'st server \<Rightarrow> response \<times> 'st server" where
  "Server_get_resume au e c h s =
     (let (woken, revoked) = h
      in if revoked \<noteq> ReasonAllowed
         then (refuse (refusal revoked), settle au e (c_req c) (c_grant c) 0 0 OutcomeRevoked s)
         else if c_held c > 0 then getLeased_resume au e c woken s
         else if woken
         then (case sv_Take e (c_req c) (c_limit c) s of
                 (Inl _, s1) \<Rightarrow> answer au e (c_req c) (c_grant c) [] s1
               | (Inr ms, s1) \<Rightarrow> answer au e (c_req c) (c_grant c) ms s1)
         else answer au e (c_req c) (c_grant c) [] s)"

text \<open>
  The whole handler when nothing else runs while it waits. What other requests do in the meantime is in \<open>sys_step\<close>, where its
  two halves and the critical sections of \<^verbatim>\<open>hold\<close> are steps of their own.
\<close>

definition Server_get ::
  "('st, 'w) authoriser \<Rightarrow> env \<Rightarrow> hold_event \<Rightarrow> env \<Rightarrow> http_request \<Rightarrow> 'st server \<Rightarrow> response \<times> 'st server" where
  "Server_get au e ev e2 hr s =
     (case Server_get_start au e hr s of
        (Inl r, s1) \<Rightarrow> (r, s1)
      | (Inr c, s1) \<Rightarrow>
          let k = route_key (c_req c); (ch, s2) = hold_begin k s1
          in Server_get_resume au e2 c (hold_result ev) (hold_end k ch s2))"

subsection \<open>ack\<close>

definition ack_update :: "string \<Rightarrow> json \<Rightarrow> string \<Rightarrow> string option" where
  "ack_update f j r = dec_string j r"

definition Server_ack ::
  "('st, 'w) authoriser \<Rightarrow> env \<Rightarrow> http_request \<Rightarrow> 'st server \<Rightarrow> response \<times> 'st server" where
  "Server_ack au e hr s =
     (if \<not> validDir (hr_dir hr) then (refuse (refusal ReasonBadRoute), s)
      else let req = request_of hr OpRead 0 (e_started e); (g, s1) = sv_admit au req s
      in if \<not> g_Allow g then (refuse g, s1)
      else (case decode_body 4096 [''lease''] ack_update '''' (hr_body hr) of
              Inl _ \<Rightarrow> (refuse_with ReasonUnreadable ''could not read the acknowledgement'',
                        settle au e req g 0 0 OutcomeRefused s1)
            | Inr ident \<Rightarrow>
                (case on_store (Ack (e_io e) (e_clk e) (hr_estate hr) (hr_station hr) (hr_dir hr) ident) s1 of
                   (Inl err, s2) \<Rightarrow>
                     ((if err = ErrNoSuchLease then refuse (refusal ReasonNoSuchLease)
                       else if err = ErrBadRoute then refuse_with ReasonBadRoute err
                       else refuse (refusal ReasonInternal)),
                      settle au e req g 0 0 OutcomeRefused s2)
                 | (Inr n, s2) \<Rightarrow>
                     (writeJSON (JObj [(''deleted'', JNum (show_nat n))]), settle au e req g 0 n OutcomeAcknowledged s2))))"

section \<open>What the handlers rely on of the store\<close>

lemma refuse_status [simp]:
  "rs_status (refuse g) = reason_status (if g_Reason g = ReasonAllowed then ReasonBadCredential else g_Reason g)"
  "rs_status (refuse_with r detail) = reason_status (if r = ReasonAllowed then ReasonBadCredential else r)"
  by (simp_all add: refuse_with_def refuse_def Let_def)

text \<open>
  The contract of the store as its clients see it: no operation but \<open>put\<close> on its own queue brings a message, what a
  collection hands out was in its queue, and each operation fails only with the errors the handlers tell apart.
\<close>

locale mailbox =
  fixes contents :: "'s \<Rightarrow> string \<Rightarrow> message list"
    and put :: "message \<Rightarrow> 's \<Rightarrow> (string + unit) \<times> 's"
    and collect :: "string \<Rightarrow> string \<Rightarrow> string \<Rightarrow> int \<Rightarrow> 's \<Rightarrow> (string + message list) \<times> 's"
    and collect_leased :: "string \<Rightarrow> string \<Rightarrow> string \<Rightarrow> int \<Rightarrow> duration \<Rightarrow> 's \<Rightarrow> (string + lease) \<times> 's"
    and confirm :: "string \<Rightarrow> string \<Rightarrow> string \<Rightarrow> string \<Rightarrow> 's \<Rightarrow> (string + nat) \<times> 's"
  assumes put_frame: "k \<noteq> msg_key m \<or> (\<exists>err. fst (put m s) = Inl err) \<Longrightarrow>
      m_ID ` set (contents (snd (put m s)) k) \<subseteq> m_ID ` set (contents s k)"
    and collect_frame: "m_ID ` set (contents (snd (collect e st dr n s)) k) \<subseteq> m_ID ` set (contents s k)"
    and lease_frame: "m_ID ` set (contents (snd (collect_leased e st dr n h s)) k) \<subseteq> m_ID ` set (contents s k)"
    and confirm_frame: "m_ID ` set (contents (snd (confirm e st dr i s)) k) \<subseteq> m_ID ` set (contents s k)"
    and collect_from: "fst (collect e st dr n s) = Inr ms \<Longrightarrow> m_ID ` set ms \<subseteq> m_ID ` set (contents s (key e st dr))"
    and lease_from: "fst (collect_leased e st dr n h s) = Inr l \<Longrightarrow>
      m_ID ` set (l_Messages l) \<subseteq> m_ID ` set (contents s (key e st dr))"
    and put_errors: "fst (put m s) = Inl err \<Longrightarrow> err \<in> {ErrBadRoute, ErrTooLarge, ErrQueueFull, ErrNotDurable}"
    and collect_errors: "fst (collect e st dr n s) = Inl err \<Longrightarrow> err = ErrBadRoute"
    and lease_errors: "0 < h \<Longrightarrow> h \<le> MaxLease \<Longrightarrow> fst (collect_leased e st dr n h s) = Inl err \<Longrightarrow> err = ErrBadRoute"
    and confirm_errors: "fst (confirm e st dr i s) = Inl err \<Longrightarrow> err \<in> {ErrBadRoute, ErrNoSuchLease}"
begin

lemma put_refusal_status:
  "fst (put m s) = Inl err \<Longrightarrow> rs_status (put_refusal err) \<in> {400, 413, 429, 503}"
  using put_errors [of m s err] by (auto simp: put_refusal_def reason_status_def)

lemma put_appears:
  assumes "i \<in> m_ID ` set (contents (snd (put m s)) k)" "i \<notin> m_ID ` set (contents s k)"
  shows "k = msg_key m \<and> fst (put m s) = Inr ()"
proof -
  have "\<not> (k \<noteq> msg_key m \<or> (\<exists>err. fst (put m s) = Inl err))" using put_frame assms by blast
  then show ?thesis by (cases "fst (put m s)") auto
qed

end

lemma refreshed_ids: "m_ID ` set (refreshed clk s k) \<subseteq> m_ID ` set (queue s k)"
  using subseq_set [OF live_subseq, of "s_ttl s" "clk 0" "queue s k"] by (force simp: refreshed_def)

lemma avail_ids: "set (avail_from limit n ms) \<subseteq> set ms"
  by (auto simp: avail_from_def dest: in_set_takeD)

interpretation store_mailbox: mailbox "\<lambda>p. queue (fst p)" "\<lambda>m p. Put w clk m (fst p) (snd p)"
  "\<lambda>e st dr n p. Take w clk e st dr n (fst p) (snd p)" "\<lambda>e st dr n h p. TakeLeased w clk e st dr n h (fst p) (snd p)"
  "\<lambda>e st dr i p. Ack w clk e st dr i (fst p) (snd p)" for w clk
proof (unfold_locales, goal_cases)
  case (1 k m s)
  have live: "m_ID ` set (live ttl t ms) \<subseteq> m_ID ` set ms" for ttl t ms
    using subseq_set [OF live_subseq] by blast
  show ?case
  proof (cases rule: Put_cases [of w clk m "fst s" "snd s"])
    case (accepted sp' d' fl)
    with 1 show ?thesis by (auto simp: prod_eq_iff)
  next
    case full
    then show ?thesis using live by (auto simp: prod_eq_iff)
  next
    case (lost sp sp' d')
    then show ?thesis using live by (auto simp: prod_eq_iff)
  qed (auto simp: prod_eq_iff)
next
  case (2 e st dr n s k)
  show ?case
  proof (cases "validRoute e st dr")
    case True
    have "m_ID ` set (kept n (refreshed clk (fst s) k)) \<subseteq> m_ID ` set (queue (fst s) k)"
      using subseq_set [OF kept_subseq] refreshed_ids by fast
    then show ?thesis using refreshed_ids [of clk "fst s" k]
      by (cases "k = key e st dr") (simp_all add: Take_eq [OF True] Let_def)
  qed (simp add: Take_def)
next
  case (3 e st dr n h s k)
  show ?case
  proof (cases "validRoute e st dr \<and> 0 < h \<and> h \<le> MaxLease")
    case True
    then have t: "validRoute e st dr" "0 < h" "h \<le> MaxLease" by auto
    have "m_ID ` set ms = set (map m_ID ms)" for ms by simp
    then have "m_ID ` set (snd (lease_loop i u n [] ms)) = m_ID ` set ms" for i u ms by (metis lease_loop_ids)
    then show ?thesis using refreshed_ids [of clk "fst s" k]
      by (cases "k = key e st dr") (simp_all add: TakeLeased_eq(2) [OF t])
  qed (auto simp: TakeLeased_def)
next
  case (4 e st dr i s k)
  show ?case
  proof (cases "validRoute e st dr \<and> TrimSpace i \<noteq> ''''")
    case True
    then have t: "validRoute e st dr" "TrimSpace i \<noteq> ''''" by auto
    show ?thesis using refreshed_ids [of clk "fst s" k] by (auto simp: Ack_eq [OF t] Let_def)
  qed (auto simp: Ack_def)
next
  case (5 e st dr n s ms)
  then have v: "validRoute e st dr" by (auto simp: Take_def split: if_splits)
  with 5 have "set ms \<subseteq> set (refreshed clk (fst s) (key e st dr))" using avail_ids by (auto simp: Take_eq [OF v] Let_def)
  then show ?case using refreshed_ids [of clk "fst s" "key e st dr"] by blast
next
  case (6 e st dr n h s l)
  then have t: "validRoute e st dr" "0 < h" "h \<le> MaxLease" by (auto simp: TakeLeased_def split: if_splits)
  have "l_Messages l = [] \<or> m_ID ` set (l_Messages l) = m_ID ` set (avail n (refreshed clk (fst s) (key e st dr)))"
    using 6 by (auto simp: TakeLeased_eq(1) [OF t] empty_lease_def image_image split: if_splits)
  then show ?case
    using image_mono [OF avail_ids [of n 0 "refreshed clk (fst s) (key e st dr)"], of m_ID] refreshed_ids [of clk "fst s" "key e st dr"]
    by (metis empty_iff image_empty list.set(1) order_trans subsetI)
next
  case (7 m s err)
  then show ?case by (cases rule: Put_cases [of w clk m "fst s" "snd s"]) (auto simp: prod_eq_iff)
next
  case (8 e st dr n s err)
  have "Inl err = (Inr x :: string + message list) \<Longrightarrow> False" for x by simp
  with 8 show ?case by (cases "validRoute e st dr") (simp_all add: Take_eq Let_def, simp add: Take_def)
next
  case (9 h e st dr n s err)
  then show ?case by (cases "validRoute e st dr") (simp_all add: TakeLeased_eq(1), simp add: TakeLeased_def)
next
  case (10 e st dr i s err)
  show ?case
  proof (cases "validRoute e st dr \<and> TrimSpace i \<noteq> ''''")
    case True
    then have t: "validRoute e st dr" "TrimSpace i \<noteq> ''''" by auto
    from 10 show ?thesis by (simp add: Ack_eq [OF t] Let_def split: if_splits)
  next
    case False
    with 10 show ?thesis by (auto simp: Ack_def split: if_splits)
  qed
qed

section \<open>Lemmas\<close>

lemma on_store_eq:
  "on_store f s = (fst (f (sv_store s) (sv_disk s)),
     s\<lparr>sv_store := fst (snd (f (sv_store s) (sv_disk s))), sv_disk := snd (snd (f (sv_store s) (sv_disk s)))\<rparr>)"
  by (simp add: on_store_def split_beta)

lemma admit_eq: "sv_admit au req s = (fst (au_Admit au (sv_auth s) req), s\<lparr>sv_auth := snd (au_Admit au (sv_auth s) req)\<rparr>)"
  by (simp add: sv_admit_def split_beta)

lemma park_eq:
  "park au req g limit held s =
     (Inr \<lparr>c_req = req, c_grant = g, c_limit = limit, c_held = held, c_watch = fst (au_Watch au (sv_auth s) req (g_Ref g))\<rparr>,
      s\<lparr>sv_auth := snd (au_Watch au (sv_auth s) req (g_Ref g))\<rparr>)"
  by (simp add: park_def split_beta)

lemmas server_simps = on_store_eq admit_eq park_eq settle_def settle_delivery_def answer_def answer_lease_def

lemma settle_sel [simp]:
  "sv_store (settle au e req g b n oc s) = sv_store s" "sv_disk (settle au e req g b n oc s) = sv_disk s"
  "sv_waiters (settle au e req g b n oc s) = sv_waiters s" "sv_chans (settle au e req g b n oc s) = sv_chans s"
  by (simp_all add: settle_def)

lemma wake_sel [simp]:
  "sv_store (wake k s) = sv_store s" "sv_disk (wake k s) = sv_disk s" "sv_auth (wake k s) = sv_auth s" "sv_chans (wake k s) = sv_chans s"
  by (simp_all add: wake_def)

lemma wake_all_sel [simp]:
  "sv_store (wake_all k s) = sv_store s" "sv_disk (wake_all k s) = sv_disk s" "sv_auth (wake_all k s) = sv_auth s"
  "sv_chans (wake_all k s) = sv_chans s" "wake_all None s = s"
  by (simp_all add: wake_all_def split: option.splits)

lemma hold_begin_sel [simp]:
  "sv_store (snd (hold_begin k s)) = sv_store s" "sv_disk (snd (hold_begin k s)) = sv_disk s"
  "sv_auth (snd (hold_begin k s)) = sv_auth s" "fst (hold_begin k s) = sv_chans s"
  by (simp_all add: hold_begin_def Let_def)

lemma hold_end_sel [simp]:
  "sv_store (hold_end k ch s) = sv_store s" "sv_disk (hold_end k ch s) = sv_disk s" "sv_auth (hold_end k ch s) = sv_auth s"
  "sv_chans (hold_end k ch s) = sv_chans s"
  by (simp_all add: hold_end_def Let_def)

lemma refuse_4xx: "400 \<le> rs_status (refuse g)" "400 \<le> rs_status (refuse_with r detail)"
  using reason_status_refuses [of ReasonBadCredential] reason_status_refuses [of "g_Reason g"] reason_status_refuses [of r]
  by simp_all

lemma put_refusal_4xx: "400 \<le> rs_status (put_refusal err)"
  by (simp add: put_refusal_def refuse_4xx del: refuse_status)

lemma put_decode_bytes: "put_decode g hr = Inr i \<Longrightarrow> 4 * int (length (in_Body i)) \<le> 3 * (put_limit g + 1024)"
proof -
  assume "put_decode g hr = Inr i"
  then have "4 * length (in_Body i) \<le> 3 * nat (put_limit g + 1024)"
    unfolding put_decode_def
    by (rule decode_body_bytes) (auto simp: put_update_def split: if_splits)
  moreover have "0 \<le> put_limit g" by (simp add: put_limit_def MaxBodyBytes_def)
  ultimately show ?thesis using zle_int [of "4 * length (in_Body i)" "3 * nat (put_limit g + 1024)"] by simp
qed

text \<open>
  An admitted write, branch by branch: what is in the request's body decides, then the store.
\<close>

lemma put_admitted_cases:
  fixes au :: "('st, 'w) authoriser" and e :: env and hr :: http_request and s :: "'st server"
  defines "req \<equiv> request_of hr OpWrite (hr_ContentLength hr) (e_started e)"
  defines "g \<equiv> fst (au_Admit au (sv_auth s) req)" and "s1 \<equiv> s\<lparr>sv_auth := snd (au_Admit au (sv_auth s) req)\<rparr>"
  assumes "validDir (hr_dir hr)" "g_Allow g"
  obtains (refused) r where "Server_put_store au e hr s = (r, None, settle au e req g 0 0 OutcomeRefused s1)"
      "rs_status r \<in> {400, 413}"
  | (failed) i err where "put_decode g hr = Inr i"
      "fst (Put (e_io e) (e_clk e) (put_message hr i) (sv_store s) (sv_disk s)) = Inl err"
      "Server_put_store au e hr s = (put_refusal err, None, settle au e req g 0 0 OutcomeRefused
         (snd (on_store (Put (e_io e) (e_clk e) (put_message hr i)) s1)))"
  | (accepted) i where "put_decode g hr = Inr i" "int (length (in_Body i)) \<le> put_limit g"
      "fst (Put (e_io e) (e_clk e) (put_message hr i) (sv_store s) (sv_disk s)) = Inr ()"
      "Server_put_store au e hr s = (\<lparr>rs_status = 202, rs_payload = NoPayload\<rparr>, Some (route_key req),
         settle au e req g (int (length (in_Body i))) 1 OutcomeAccepted
         (snd (on_store (Put (e_io e) (e_clk e) (put_message hr i)) s1)))"
proof -
  note step = Server_put_store_def [of au e hr s] and adm = admit_eq [of au req s, folded g_def s1_def]
  have eq: "Server_put_store au e hr s =
    (case put_decode g hr of
       Inl MaxBytesError \<Rightarrow> (refuse (refusal ReasonTooLarge), None, settle au e req g 0 0 OutcomeRefused s1)
     | Inl OtherError \<Rightarrow> (refuse (refusal ReasonUnreadable), None, settle au e req g 0 0 OutcomeRefused s1)
     | Inr i \<Rightarrow>
         if int (length (in_Body i)) > put_limit g
         then (refuse (refusal ReasonTooLarge), None, settle au e req g 0 0 OutcomeRefused s1)
         else (case on_store (Put (e_io e) (e_clk e) (put_message hr i)) s1 of
                 (Inl err, s2) \<Rightarrow> (put_refusal err, None, settle au e req g 0 0 OutcomeRefused s2)
               | (Inr _, s2) \<Rightarrow>
                   (\<lparr>rs_status = 202, rs_payload = NoPayload\<rparr>, Some (route_key req),
                    settle au e req g (int (length (in_Body i))) 1 OutcomeAccepted s2)))"
    using assms(4,5) by (simp add: step Let_def req_def [symmetric] adm)
  have st: "sv_store s1 = sv_store s" "sv_disk s1 = sv_disk s" by (simp_all add: s1_def)
  show ?thesis
  proof (cases "put_decode g hr")
    case (Inl x)
    then show ?thesis by (cases x) (auto simp: eq reason_status_def intro!: refused)
  next
    case (Inr i)
    show ?thesis
    proof (cases "int (length (in_Body i)) > put_limit g")
      case True
      with Inr show ?thesis by (intro refused) (auto simp: eq reason_status_def)
    next
      case False
      note P = on_store_eq [of "Put (e_io e) (e_clk e) (put_message hr i)" s1, unfolded st]
      show ?thesis
      proof (cases "fst (Put (e_io e) (e_clk e) (put_message hr i) (sv_store s) (sv_disk s))")
        case (Inl err)
        with Inr False P show ?thesis by (intro failed [of i err]) (auto simp: eq st)
      next
        case (Inr u)
        with \<open>put_decode g hr = Inr i\<close> False P show ?thesis by (intro accepted [of i]) (auto simp: eq st)
      qed
    qed
  qed
qed

section \<open>Properties\<close>

text \<open>
  Property C22. A refusal at the door moves nothing. Whoever the authoriser is, a write, a collection or an acknowledgement
  with a direction that does not exist, or one that admission refuses, is answered with an error status, leaves
  the store, its spool and the waiters as they were, and settles nothing: the authoriser's state is the one
  admission left.
\<close>

theorem refused_moves_nothing:
  fixes au :: "('st, 'w) authoriser" and hr :: http_request and e :: env and s :: "'st server"
  defines "wreq \<equiv> request_of hr OpWrite (hr_ContentLength hr) (e_started e)" and "rreq \<equiv> request_of hr OpRead 0 (e_started e)"
  defines "same \<equiv> \<lambda>req r s'. 400 \<le> rs_status r \<and>
    s' = (if validDir (hr_dir hr) then s\<lparr>sv_auth := snd (au_Admit au (sv_auth s) req)\<rparr> else s)"
  shows "(validDir (hr_dir hr) \<and> g_Allow (fst (au_Admit au (sv_auth s) wreq)) \<or>
      same wreq (fst (Server_put au e hr s)) (snd (Server_put au e hr s))) \<and>
    (validDir (hr_dir hr) \<and> g_Allow (fst (au_Admit au (sv_auth s) rreq)) \<or>
      same rreq (fst (Server_get au e ev e2 hr s)) (snd (Server_get au e ev e2 hr s)) \<and>
      same rreq (fst (Server_ack au e hr s)) (snd (Server_ack au e hr s)))"
  unfolding same_def wreq_def rreq_def
  by (auto simp: Server_put_def Server_put_store_def Server_get_def Server_get_start_def Server_ack_def admit_eq Let_def
      refuse_4xx simp del: refuse_status)

text \<open>
  Property C7. An admitted write is settled once and truthfully. It answers 202 exactly when the store took the
  message it read from the body, under the route that was admitted; then the one settlement says accepted, with the
  length of the body and one message. In every other case it answers an error, the one settlement says
  refused with no bytes and no messages, and no queue has gained a message. Either way the settlement carries the
  reference of the grant and the admitted route, and the store goes through exactly the one call of \<^verbatim>\<open>Put\<close>
  or none.
\<close>

theorem put_settled_once:
  fixes au :: "('st, 'w) authoriser" and hr :: http_request and e :: env and s :: "'st server"
  defines "req \<equiv> request_of hr OpWrite (hr_ContentLength hr) (e_started e)"
  assumes "validDir (hr_dir hr)" and adm: "au_Admit au (sv_auth s) req = (g, a)" "g_Allow g"
    and run: "Server_put au e hr s = (r, s')"
  shows "\<exists>b n oc. sv_auth s' = au_Settle au a (settlement_of req g (e_settled e) b n oc) \<and>
    (if rs_status r = 202
     then oc = OutcomeAccepted \<and> n = 1 \<and>
       (\<exists>i. put_decode g hr = Inr i \<and> b = int (length (in_Body i)) \<and>
          Put (e_io e) (e_clk e) (put_message hr i) (sv_store s) (sv_disk s) = (Inr (), sv_store s', sv_disk s'))
     else oc = OutcomeRefused \<and> n = 0 \<and> b = 0 \<and> 400 \<le> rs_status r \<and>
       (\<forall>k. m_ID ` set (queue (sv_store s') k) \<subseteq> m_ID ` set (queue (sv_store s) k)))"
proof -
  have g: "fst (au_Admit au (sv_auth s) req) = g" "snd (au_Admit au (sv_auth s) req) = a" using adm by auto
  note folds = req_def [symmetric] g
  have allow: "g_Allow (fst (au_Admit au (sv_auth s) (request_of hr OpWrite (hr_ContentLength hr) (e_started e))))"
    using adm by (simp add: folds)
  show ?thesis
  proof (cases rule: put_admitted_cases [OF assms(2) allow])
    case (1 r1)
    then show ?thesis using run
      by (intro exI [of _ 0] exI [of _ "0 :: nat"] exI [of _ OutcomeRefused])
        (auto simp: Server_put_def folds settle_def)
  next
    case (2 i err)
    have "m_ID ` set (queue (fst (snd (Put (e_io e) (e_clk e) (put_message hr i) (sv_store s) (sv_disk s)))) k)
        \<subseteq> m_ID ` set (queue (sv_store s) k)" for k
      using store_mailbox.put_frame [of k "put_message hr i" "e_io e" "e_clk e" "(sv_store s, sv_disk s)"] 2(2) by simp
    moreover have "rs_status (put_refusal err) \<noteq> 202"
      using put_refusal_4xx [of err] by linarith
    ultimately show ?thesis using run 2 put_refusal_4xx [of err]
      by (intro exI [of _ 0] exI [of _ "0 :: nat"] exI [of _ OutcomeRefused])
        (simp add: Server_put_def folds settle_def on_store_eq, clarsimp)
  next
    case (3 i)
    then have "r = \<lparr>rs_status = 202, rs_payload = NoPayload\<rparr>"
      "s' = wake_all (Some (route_key req)) (settle au e req g (int (length (in_Body i))) 1 OutcomeAccepted
         (snd (on_store (Put (e_io e) (e_clk e) (put_message hr i)) (s\<lparr>sv_auth := a\<rparr>))))"
      using run by (simp_all add: Server_put_def folds)
    with 3(1,3) show ?thesis
      by (intro exI [of _ "int (length (in_Body i))"] exI [of _ "1 :: nat"] exI [of _ OutcomeAccepted])
        (simp add: folds settle_def on_store_eq prod_eq_iff)
  qed
qed

text \<open>
  What a collection's settlement must say of its answer, given the state \<open>a\<close> of the authoriser it was made from.
\<close>

definition settled_for :: "('st, 'w) authoriser \<Rightarrow> 'st \<Rightarrow> request \<Rightarrow> grant \<Rightarrow> time \<Rightarrow> response \<Rightarrow> 'st server \<Rightarrow> bool" where
  "settled_for au a req g t r s' \<longleftrightarrow>
     (\<exists>b n oc. sv_auth s' = au_Settle au a (settlement_of req g t b n oc) \<and>
        (case rs_payload r of
           Messages ms \<Rightarrow> rs_status r = 200 \<and> b = total_bytes ms \<and> n = length ms \<and>
             oc = (if ms = [] then OutcomeEmpty else OutcomeDelivered)
         | LeaseObject l \<Rightarrow> rs_status r = 200 \<and> b = total_bytes (l_Messages l) \<and> n = length (l_Messages l) \<and>
             oc = (if l_Messages l = [] then OutcomeEmpty else OutcomeDelivered)
         | Json _ \<Rightarrow> 400 \<le> rs_status r \<and> b = 0 \<and> n = 0 \<and> oc \<in> {OutcomeRefused, OutcomeRevoked}
         | _ \<Rightarrow> False))"

lemma total_bytes_Nil [simp]: "total_bytes [] = 0"
  by (simp add: total_bytes_def)

lemma refuse_payload: "\<exists>j. rs_payload (refuse g) = Json j" "\<exists>j. rs_payload (refuse_with r detail) = Json j"
  by (simp_all add: refuse_with_def refuse_def Let_def)

lemma settled_refuse:
  assumes "oc \<in> {OutcomeRefused, OutcomeRevoked}" "s' = settle au e req g 0 0 oc s"
  shows "settled_for au (sv_auth s) req g (e_settled e) (refuse h) s'"
    and "settled_for au (sv_auth s) req g (e_settled e) (refuse_with why detail) s'"
proof -
  show "settled_for au (sv_auth s) req g (e_settled e) (refuse h) s'" for h
    using assms refuse_payload(1) [of h] refuse_4xx(1) [of h] by (auto simp: settled_for_def settle_def simp del: refuse_status)
  then show "settled_for au (sv_auth s) req g (e_settled e) (refuse_with why detail) s'" by (simp add: refuse_with_def)
qed

lemma settled_answer:
  "settled_for au (sv_auth s) req g (e_settled e) (fst (answer au e req g ms s)) (snd (answer au e req g ms s))"
  "settled_for au (sv_auth s) req g (e_settled e) (fst (answer_lease au e req g l s)) (snd (answer_lease au e req g l s))"
  unfolding settled_for_def by (auto simp: answer_def answer_lease_def settle_delivery_def settle_def)

text \<open>The messages an answer carries.\<close>

definition carried :: "response \<Rightarrow> message list" where
  "carried r = (case rs_payload r of Messages ms \<Rightarrow> ms | LeaseObject l \<Rightarrow> l_Messages l | _ \<Rightarrow> [])"

lemma carried_simps [simp]:
  "carried (refuse g) = []" "carried (refuse_with w dt) = []" "carried (fst (answer au e req g ms s)) = ms"
  "carried (fst (answer_lease au e req g l s)) = l_Messages l"
  by (simp_all add: carried_def answer_def answer_lease_def refuse_with_def refuse_def Let_def)

lemma empty_lease_messages [simp]: "l_Messages empty_lease = []"
  by (simp add: empty_lease_def)

abbreviation queue_ids :: "'st server \<Rightarrow> string \<Rightarrow> string set" where
  "queue_ids s k \<equiv> m_ID ` set (queue (sv_store s) k)"

lemma answer_store [simp]:
  "sv_store (snd (answer au e req g ms s)) = sv_store s" "sv_store (snd (answer_lease au e req g l s)) = sv_store s"
  by (simp_all add: answer_def answer_lease_def settle_delivery_def)

lemma sv_Take_auth [simp]: "sv_auth (snd (sv_Take e req n s)) = sv_auth s" "sv_auth (snd (sv_TakeLeased e req n h s)) = sv_auth s"
  by (simp_all add: sv_Take_def sv_TakeLeased_def on_store_eq)

lemma sv_Take_ids:
  "queue_ids (snd (sv_Take e req n s)) k \<subseteq> queue_ids s k" "queue_ids (snd (sv_TakeLeased e req n h s)) k \<subseteq> queue_ids s k"
  "fst (sv_Take e req n s) = Inr ms \<Longrightarrow> m_ID ` set ms \<subseteq> queue_ids s (route_key req)"
  "fst (sv_TakeLeased e req n h s) = Inr l \<Longrightarrow> m_ID ` set (l_Messages l) \<subseteq> queue_ids s (route_key req)"
  using store_mailbox.collect_frame [of "e_io e" "e_clk e" "r_Estate req" "r_Station req" "r_Dir req" n "(sv_store s, sv_disk s)" k]
    store_mailbox.lease_frame [of "e_io e" "e_clk e" "r_Estate req" "r_Station req" "r_Dir req" n h "(sv_store s, sv_disk s)" k]
    store_mailbox.collect_from [of "e_io e" "e_clk e" "r_Estate req" "r_Station req" "r_Dir req" n "(sv_store s, sv_disk s)" ms]
    store_mailbox.lease_from [of "e_io e" "e_clk e" "r_Estate req" "r_Station req" "r_Dir req" n h "(sv_store s, sv_disk s)" l]
  by (simp_all add: sv_Take_def sv_TakeLeased_def on_store_eq route_key_def)

text \<open>The outcome of the first half of a collection: an answer that is settled, or a poll that has collected nothing.\<close>

definition started_ok ::
  "('st, 'w) authoriser \<Rightarrow> env \<Rightarrow> request \<Rightarrow> grant \<Rightarrow> 'st server \<Rightarrow> (response + 'w collection) \<times> 'st server \<Rightarrow> bool" where
  "started_ok au e req g s x \<longleftrightarrow>
     (\<forall>k. queue_ids (snd x) k \<subseteq> queue_ids s k) \<and>
     (case fst x of
        Inl r \<Rightarrow> settled_for au (sv_auth s) req g (e_settled e) r (snd x) \<and>
          m_ID ` set (carried r) \<subseteq> queue_ids s (route_key req)
      | Inr c \<Rightarrow> c_req c = req \<and> c_grant c = g \<and> sv_auth (snd x) = snd (au_Watch au (sv_auth s) req (g_Ref g)) \<and>
          c_watch c = fst (au_Watch au (sv_auth s) req (g_Ref g)))"

lemma getLeased_start_ok: "started_ok au e req g s (getLeased_start au e hr req g limit held s)"
proof -
  obtain x s1 where x: "sv_TakeLeased e req limit held s = (x, s1)" by force
  then have s1: "sv_auth s1 = sv_auth s" "queue_ids s1 k \<subseteq> queue_ids s k" for k
    using sv_Take_auth(2) [of e req limit held s] sv_Take_ids(2) [of e req limit held s k] by simp_all
  show ?thesis
  proof (cases x)
    case (Inl err)
    with x s1 settled_refuse [OF _ refl, of OutcomeRefused au s1 req g e] show ?thesis
      by (auto simp: getLeased_start_def started_ok_def)
  next
    case (Inr l)
    have "m_ID ` set (l_Messages l) \<subseteq> queue_ids s (route_key req)"
      using sv_Take_ids(4) [of e req limit held s l] x Inr by simp
    with x Inr s1 settled_answer(2) [of au s1 req g e l] show ?thesis
      by (simp add: getLeased_start_def started_ok_def park_eq apfst_def map_prod_def split_beta)
  qed
qed

lemma get_start_ok:
  fixes au :: "('st, 'w) authoriser" and hr :: http_request and e :: env and s :: "'st server"
  defines "req \<equiv> request_of hr OpRead 0 (e_started e)"
  assumes "validDir (hr_dir hr)" "g_Allow (fst (au_Admit au (sv_auth s) req))"
  shows "started_ok au e req (fst (au_Admit au (sv_auth s) req)) (s\<lparr>sv_auth := snd (au_Admit au (sv_auth s) req)\<rparr>)
    (Server_get_start au e hr s)"
proof -
  let ?g = "fst (au_Admit au (sv_auth s) req)" and ?s = "s\<lparr>sv_auth := snd (au_Admit au (sv_auth s) req)\<rparr>"
  define limit where "limit = (if query_get hr ''limit'' \<noteq> '''' then Atoi (query_get hr ''limit'') else 0)"
  obtain x s1 where x: "sv_Take e req limit ?s = (x, s1)" by force
  then have s1: "sv_auth s1 = sv_auth ?s" "queue_ids s1 k \<subseteq> queue_ids ?s k" for k
    using sv_Take_auth(1) [of e req limit ?s] sv_Take_ids(1) [of e req limit ?s k] by simp_all
  have eq: "Server_get_start au e hr s =
    (case ParseLease (e_oor e) (query_get hr ''lease'') of
       Inl err \<Rightarrow> (Inl (refuse_with ReasonBadLease err), settle au e req ?g 0 0 OutcomeRefused ?s)
     | Inr held \<Rightarrow>
         if held > 0 then getLeased_start au e hr req ?g limit held ?s
         else (case sv_Take e req limit ?s of
                 (Inl err, s2) \<Rightarrow> (Inl (refuse_with ReasonBadRoute err), settle au e req ?g 0 0 OutcomeRefused s2)
               | (Inr ms, s2) \<Rightarrow>
                   if ms = [] \<and> query_get hr ''wait'' \<noteq> ''0'' then park au req ?g limit 0 s2
                   else apfst Inl (answer au e req ?g ms s2)))"
    using assms(2,3) unfolding Server_get_start_def Let_def req_def [symmetric] admit_eq limit_def by simp
  show ?thesis
  proof (cases "ParseLease (e_oor e) (query_get hr ''lease'')")
    case (Inl err)
    with settled_refuse(2) [OF _ refl, of OutcomeRefused au ?s req ?g e] show ?thesis by (simp add: eq started_ok_def)
  next
    case (Inr held)
    show ?thesis
    proof (cases "held > 0")
      case True
      with Inr show ?thesis using getLeased_start_ok [of au e req ?g ?s hr limit held] by (simp add: eq)
    next
      case False
      show ?thesis
      proof (cases x)
        case (Inl err)
        with Inr False x s1 settled_refuse(2) [OF _ refl, of OutcomeRefused au s1 req ?g e] show ?thesis
          by (simp add: eq started_ok_def)
      next
        case (Inr ms)
        have "m_ID ` set ms \<subseteq> queue_ids ?s (route_key req)" using sv_Take_ids(3) [of e req limit ?s ms] x Inr by simp
        with \<open>ParseLease _ _ = Inr held\<close> Inr False x s1 settled_answer(1) [of au s1 req ?g e ms] show ?thesis
          by (simp add: eq started_ok_def park_eq apfst_def map_prod_def split_beta)
      qed
    qed
  qed
qed

lemma get_resume_ok:
  assumes run: "Server_get_resume au e c h s = (r, s')"
  shows "settled_for au (sv_auth s) (c_req c) (c_grant c) (e_settled e) r s' \<and>
    m_ID ` set (carried r) \<subseteq> queue_ids s (route_key (c_req c))"
proof -
  obtain woken revoked where h: "h = (woken, revoked)" by force
  obtain x s1 where x: "sv_Take e (c_req c) (c_limit c) s = (x, s1)" by force
  obtain y s2 where y: "sv_TakeLeased e (c_req c) (c_limit c) (c_held c) s = (y, s2)" by force
  have s12: "sv_auth s1 = sv_auth s" "sv_auth s2 = sv_auth s"
    using sv_Take_auth(1) [of e "c_req c" "c_limit c" s] sv_Take_auth(2) [of e "c_req c" "c_limit c" "c_held c" s] x y by simp_all
  have ids: "x = Inr ms \<Longrightarrow> m_ID ` set ms \<subseteq> queue_ids s (route_key (c_req c))"
    "y = Inr l \<Longrightarrow> m_ID ` set (l_Messages l) \<subseteq> queue_ids s (route_key (c_req c))" for ms l
    using sv_Take_ids(3) [of e "c_req c" "c_limit c" s ms] sv_Take_ids(4) [of e "c_req c" "c_limit c" "c_held c" s l] x y by simp_all
  have finM: "settled_for au (sv_auth s) (c_req c) (c_grant c) (e_settled e) r s' \<and>
      m_ID ` set (carried r) \<subseteq> queue_ids s (route_key (c_req c))"
    if "(r, s') = answer au e (c_req c) (c_grant c) ms t" "sv_auth t = sv_auth s" "m_ID ` set ms \<subseteq> queue_ids s (route_key (c_req c))"
    for t ms using that settled_answer(1) [of au t "c_req c" "c_grant c" e ms] by (metis carried_simps(3) fst_conv snd_conv)
  have finL: "settled_for au (sv_auth s) (c_req c) (c_grant c) (e_settled e) r s' \<and>
      m_ID ` set (carried r) \<subseteq> queue_ids s (route_key (c_req c))"
    if "(r, s') = answer_lease au e (c_req c) (c_grant c) l t" "sv_auth t = sv_auth s"
      "m_ID ` set (l_Messages l) \<subseteq> queue_ids s (route_key (c_req c))"
    for t l using that settled_answer(2) [of au t "c_req c" "c_grant c" e l] by (metis carried_simps(4) fst_conv snd_conv)
  show ?thesis
  proof (cases "revoked = ReasonAllowed")
    case False
    with run h settled_refuse(1) [OF _ refl, of OutcomeRevoked au s "c_req c" "c_grant c" e "refusal revoked"] show ?thesis
      by (auto simp: Server_get_resume_def)
  next
    case True
    show ?thesis
    proof (cases "c_held c > 0")
      case leased: True
      have "(r, s') = (if woken then (case y of Inl _ \<Rightarrow> answer_lease au e (c_req c) (c_grant c) empty_lease s2
          | Inr l \<Rightarrow> answer_lease au e (c_req c) (c_grant c) l s2) else answer_lease au e (c_req c) (c_grant c) empty_lease s)"
        unfolding run [symmetric] h using True leased y by (cases y; cases woken) (simp_all add: Server_get_resume_def getLeased_resume_def)
      then show ?thesis
        by (cases woken; cases y) (simp_all only: if_True if_False sum.case, (erule finL, simp_all add: s12 ids(2))+)
    next
      case False
      have "(r, s') = (if woken then (case x of Inl _ \<Rightarrow> answer au e (c_req c) (c_grant c) [] s1
          | Inr ms \<Rightarrow> answer au e (c_req c) (c_grant c) ms s1) else answer au e (c_req c) (c_grant c) [] s)"
        unfolding run [symmetric] h using True False x by (cases x; cases woken) (simp_all add: Server_get_resume_def)
      then show ?thesis
        by (cases woken; cases x) (simp_all only: if_True if_False sum.case, (erule finM, simp_all add: s12 ids(1))+)
    qed
  qed
qed

text \<open>
  Property C8. An admitted collection is settled once and truthfully. However it ends (at once, after a
  wake-up, a timeout, a withdrawn authority or a client that hung up), exactly one settlement is made, with the
  reference of the grant: for messages handed over, under a lease or not, it counts exactly those messages and
  their bytes, an empty answer is settled as empty, and an error as refused or revoked with nothing counted. What
  is handed over was in the queue of the admitted route, and no queue has gained a message.
\<close>

theorem get_settled_once:
  fixes au :: "('st, 'w) authoriser" and hr :: http_request and e :: env and s :: "'st server"
  defines "req \<equiv> request_of hr OpRead 0 (e_started e)"
  assumes "validDir (hr_dir hr)" and adm: "au_Admit au (sv_auth s) req = (g, a)" "g_Allow g"
    and run: "Server_get au e ev e2 hr s = (r, s')"
  shows "(settled_for au a req g (e_settled e) r s' \<or>
      settled_for au (snd (au_Watch au a req (g_Ref g))) req g (e_settled e2) r s') \<and>
    m_ID ` set (carried r) \<subseteq> queue_ids s (route_key req)"
proof -
  have ok: "started_ok au e req g (s\<lparr>sv_auth := a\<rparr>) (Server_get_start au e hr s)"
    using get_start_ok [of hr au s e] assms(2) adm by (simp add: req_def)
  obtain x s1 where x: "Server_get_start au e hr s = (x, s1)" by force
  show ?thesis
  proof (cases x)
    case (Inl r1)
    with run x have "r1 = r" "s1 = s'" by (simp_all add: Server_get_def)
    with ok x Inl show ?thesis by (simp add: started_ok_def)
  next
    case (Inr c)
    let ?k = "route_key (c_req c)" and ?t = "hold_end (route_key (c_req c)) (sv_chans s1) (snd (hold_begin (route_key (c_req c)) s1))"
    have "Server_get_resume au e2 c (hold_result ev) ?t = (r, s')"
      using run x Inr by (simp add: Server_get_def split_beta Let_def)
    note res = get_resume_ok [OF this]
    have c: "c_req c = req" "c_grant c = g" "sv_auth s1 = snd (au_Watch au a req (g_Ref g))"
      "queue_ids s1 (route_key req) \<subseteq> queue_ids s (route_key req)"
      using ok x Inr by (simp_all add: started_ok_def)
    with res show ?thesis by (metis hold_begin_sel(1,3) hold_end_sel(1,3) subset_trans)
  qed
qed

text \<open>An authoriser that admits any credential and keeps the settlements, and requests to it, for the witnesses.\<close>

definition recording :: "(settlement list, unit) authoriser" where
  "recording = \<lparr>au_Admit = (\<lambda>st req. (if r_Credential req = '''' then refusal ReasonNoCredential else allowing (wide_scope req), st)),
     au_Settle = (\<lambda>st x. st @ [x]), au_Watch = (\<lambda>st req ref. ((), st))\<rparr>"

definition sample_env :: env where
  "sample_env = \<lparr>e_io = io_fine, e_clk = sample_clock, e_started = sample_clock 0, e_settled = sample_clock 0, e_oor = (\<lambda>_. - (2 ^ 63))\<rparr>"

definition sample_http :: http_request where
  "sample_http = \<lparr>hr_estate = ''e1'', hr_station = ''st'', hr_dir = c2s, hr_Authorization = ''Bearer tok'', hr_Accept = '''',
     hr_query = [], hr_ContentLength = 23,
     hr_body = \<lparr>b_bytes = ''{\"seq\":7,\"body\":\"aGk=\"}'', b_broken = False\<rparr>\<rparr>"

definition sample_server :: "settlement list server" where
  "sample_server = NewAuthorisingServer (NewStore 0) empty_disk []"

lemma read_value_small:
  assumes "int (length (b_bytes b)) \<le> cap" "\<not> b_broken b" "p_value (json_fuel (b_bytes b)) 0 (b_bytes b) = Some (j, rest)"
  shows "read_value cap b = Inr j"
proof -
  have l: "length (b_bytes b) \<le> nat cap" using assms(1) by linarith
  then show ?thesis using assms(2,3) by (simp add: read_value_def Let_def)
qed

lemma put_limit_pos: "0 < put_limit g"
  by (simp add: put_limit_def MaxBodyBytes_def)

lemma sample_token: "token sample_http = ''tok''"
  by code_simp

lemma sample_decode: "put_decode g sample_http = Inr \<lparr>in_Seq = 7, in_Body = ''hi''\<rparr>"
proof -
  let ?b = "hr_body sample_http"
  have "p_value (json_fuel (b_bytes ?b)) 0 (b_bytes ?b) = Some (JObj [(''seq'', JNum ''7''), (''body'', JStr ''aGk='')], [])"
    by code_simp
  moreover have "length (b_bytes ?b) = 23" "\<not> b_broken ?b" by code_simp+
  ultimately have v: "read_value (put_limit g + 1024) ?b = Inr (JObj [(''seq'', JNum ''7''), (''body'', JStr ''aGk='')])"
    using put_limit_pos [of g] by (intro read_value_small) simp_all
  have "decode_struct [''seq'', ''body''] put_update (JObj [(''seq'', JNum ''7''), (''body'', JStr ''aGk='')])
      \<lparr>in_Seq = 0, in_Body = []\<rparr> = Some \<lparr>in_Seq = 7, in_Body = ''hi''\<rparr>"
  proof -
    have "ParseUint ''7'' = Some 7" by (simp add: ParseUint_def is_digit_def digits_val_def digit_val_def less_eq_char_def)
    moreover have "StdEncoding_Decode ''aGk='' = Some ''hi''" by code_simp
    ultimately show ?thesis by (simp add: decode_struct_def match_field_def put_update_def dec_u64_def dec_bytes_def)
  qed
  with v show ?thesis by (simp add: put_decode_def decode_body_def)
qed

lemma sample_admit:
  "au_Admit recording a (request_of sample_http op b t) =
     (allowing (wide_scope (request_of sample_http op b t)), a)"
  by (simp add: recording_def request_of_def sample_token)

lemma sample_dir: "validDir (hr_dir sample_http)"
  by (simp add: sample_http_def validDir_def)

theorem put_settled_once_witness:
  "\<exists>r s'. Server_put recording sample_env sample_http sample_server = (r, s') \<and>
     (rs_status r = 202 \<longrightarrow> st_Outcome (last (sv_auth s')) = OutcomeAccepted) \<and> length (sv_auth s') = 1"
proof -
  obtain r s' where run: "Server_put recording sample_env sample_http sample_server = (r, s')" by force
  show ?thesis
    using put_settled_once [OF sample_dir sample_admit _ run] run
    by (auto simp: recording_def settlement_of_def sample_server_def NewAuthorisingServer_def split: if_splits)
qed

text \<open>A 202 means what it says: admission allowed the write and the store took the message that was decoded.\<close>

lemma put_202:
  fixes au :: "('st, 'w) authoriser" and hr :: http_request and e :: env and s :: "'st server"
  defines "g \<equiv> fst (au_Admit au (sv_auth s) (request_of hr OpWrite (hr_ContentLength hr) (e_started e)))"
  assumes run: "Server_put au e hr s = (r, s')" and ok: "rs_status r = 202"
  obtains i where "validDir (hr_dir hr)" "g_Allow g" "put_decode g hr = Inr i" "int (length (in_Body i)) \<le> put_limit g"
    "Put (e_io e) (e_clk e) (put_message hr i) (sv_store s) (sv_disk s) = (Inr (), sv_store s', sv_disk s')"
proof -
  have adm: "validDir (hr_dir hr)" "g_Allow g"
    using run ok refuse_4xx(1) [of g] refuse_4xx(1) [of "refusal ReasonBadRoute"]
    by (auto simp: Server_put_def Server_put_store_def admit_eq Let_def g_def simp del: refuse_status split: if_splits)
  show ?thesis
  proof (cases rule: put_admitted_cases [OF adm [unfolded g_def]])
    case (1 r1)
    then show ?thesis using run ok by (auto simp: Server_put_def)
  next
    case (2 i err)
    then have "r = put_refusal err" using run by (simp add: Server_put_def)
    with put_refusal_4xx [of err] ok show ?thesis by simp
  next
    case (3 i)
    let ?req = "request_of hr OpWrite (hr_ContentLength hr) (e_started e)"
    from 3(4) have "s' = wake_all (Some (route_key ?req)) (settle au e ?req g (int (length (in_Body i))) 1 OutcomeAccepted
         (snd (on_store (Put (e_io e) (e_clk e) (put_message hr i)) (s\<lparr>sv_auth := snd (au_Admit au (sv_auth s) ?req)\<rparr>))))"
      using run by (simp add: Server_put_def g_def)
    with 3(3) have "Put (e_io e) (e_clk e) (put_message hr i) (sv_store s) (sv_disk s) = (Inr (), sv_store s', sv_disk s')"
      by (simp add: on_store_eq prod_eq_iff)
    with 3 adm show ?thesis by (intro that) (simp_all add: g_def)
  qed
qed

text \<open>
  Property C26. The largest message the relay carries over HTTP. A write that is answered with 202 has put
  its message at the end of the admitted route's queue, and its body is within the grant's cap; but because the body
  travels as text inside a JSON value that must itself fit the cap and 1024 bytes, it is also at most three quarters of
  that, so at most 6292224 bytes and never the eight mebibytes of \<^verbatim>\<open>MaxBodyBytes\<close>.
\<close>

theorem accepted_body_bound:
  fixes au :: "('st, 'w) authoriser" and hr :: http_request and e :: env and s :: "'st server"
  defines "g \<equiv> fst (au_Admit au (sv_auth s) (request_of hr OpWrite (hr_ContentLength hr) (e_started e)))"
  assumes run: "Server_put au e hr s = (r, s')" and ok: "rs_status r = 202"
  shows "\<exists>ms m. queue (sv_store s') (key (hr_estate hr) (hr_station hr) (hr_dir hr)) = ms @ [m] \<and>
    int (length (m_Body m)) \<le> put_limit g \<and> 4 * int (length (m_Body m)) \<le> 3 * (put_limit g + 1024) \<and>
    int (length (m_Body m)) \<le> 6292224 \<and> 6292224 < MaxBodyBytes"
proof -
  obtain i where i: "put_decode g hr = Inr i" "int (length (in_Body i)) \<le> put_limit g"
    "Put (e_io e) (e_clk e) (put_message hr i) (sv_store s) (sv_disk s) = (Inr (), sv_store s', sv_disk s')"
    using put_202 [OF run ok] unfolding g_def by metis
  have b: "4 * int (length (in_Body i)) \<le> 3 * (put_limit g + 1024)" using put_decode_bytes [OF i(1)] .
  have k: "msg_key (put_message hr i) = key (hr_estate hr) (hr_station hr) (hr_dir hr)"
    by (simp add: msg_key_def put_message_def)
  have "put_limit g \<le> 8388608" by (simp add: put_limit_def MaxBodyBytes_def)
  moreover have "4 * x \<le> 3 * (p + 1024) \<Longrightarrow> p \<le> 8388608 \<Longrightarrow> x \<le> 6292224" for x p :: int by presburger
  ultimately have c: "int (length (in_Body i)) \<le> 6292224" using b by blast
  show ?thesis
  proof (cases rule: Put_cases [of "e_io e" "e_clk e" "put_message hr i" "sv_store s" "sv_disk s"])
    case (accepted sp' d' fl)
    then have "sv_store s' = set_queue (msg_key (put_message hr i)) (live (s_ttl (sv_store s)) (e_clk e 0) (queue (sv_store s) (msg_key (put_message hr i))) @
         [(put_message hr i)\<lparr>m_At := e_clk e 1, m_ID := fst (nextIDLocked (sv_store s)), m_file := fl\<rparr>])
       ((fst (expireLocked (e_io e) (e_clk e 0) (msg_key (put_message hr i)) (sv_store s) (sv_disk s)))\<lparr>s_ids := s_ids (sv_store s) + 1, s_spool := sp'\<rparr>)"
      using i(3) by simp
    with b c i(2) show ?thesis by (simp add: k) (simp add: put_message_def MaxBodyBytes_def)
  qed (use i(3) in auto)
qed

lemma sample_Put:
  "\<exists>m. Put io_fine sample_clock (put_message sample_http i) (NewStore 0) empty_disk =
     (Inr (), set_queue (key ''e1'' ''st'' c2s) [m] (NewStore 0\<lparr>s_ids := 1\<rparr>), empty_disk) \<and> free m \<and> m_At m = sample_clock 0"
  if "length (in_Body i) < 100"
proof -
  have v: "validRoute (m_Estate (put_message sample_http i)) (m_Station (put_message sample_http i)) (m_Dir (put_message sample_http i))"
    "int (length (m_Body (put_message sample_http i))) \<le> MaxBodyBytes"
    "key ''e1'' ''st'' c2s = key (m_Estate (put_message sample_http i)) (m_Station (put_message sample_http i)) (m_Dir (put_message sample_http i))"
    using that by (simp_all add: put_message_def sample_http_def MaxBodyBytes_def)
  show ?thesis
    unfolding Put_eq [OF v]
    by (rule exI [of _ "(put_message sample_http i)\<lparr>m_At := sample_clock 1, m_ID := fst (nextIDLocked (NewStore 0))\<rparr>"])
      (simp add: NewStore_def DefaultMaxQueue_def expireLocked_def queue_def live_def free_def put_message_def sample_clock_def)
qed

lemma sample_put_run:
  "\<exists>m s'. Server_put_store recording sample_env sample_http sample_server =
     (\<lparr>rs_status = 202, rs_payload = NoPayload\<rparr>, Some (key ''e1'' ''st'' c2s), s') \<and>
     sv_store s' = set_queue (key ''e1'' ''st'' c2s) [m] (NewStore 0\<lparr>s_ids := 1\<rparr>) \<and> free m \<and> m_At m = sample_clock 0 \<and>
     sv_waiters s' = []"
proof -
  let ?i = "\<lparr>in_Seq = 7, in_Body = ''hi''\<rparr>"
  obtain m where m: "Put io_fine sample_clock (put_message sample_http ?i) (NewStore 0) empty_disk =
     (Inr (), set_queue (key ''e1'' ''st'' c2s) [m] (NewStore 0\<lparr>s_ids := 1\<rparr>), empty_disk)" "free m" "m_At m = sample_clock 0"
    using sample_Put [of ?i] by auto
  have k: "route_key (request_of sample_http op b t) = key ''e1'' ''st'' c2s" for op b t
    by (simp add: route_key_def request_of_def sample_http_def)
  have "put_limit (allowing sc) = MaxBodyBytes" for sc by (simp add: put_limit_def)
  then have "\<not> put_limit (allowing sc) < 2" for sc by (simp add: MaxBodyBytes_def)
  then show ?thesis
    using m sample_dir
    by (intro exI [of _ m]) (simp add: Server_put_store_def Let_def admit_eq sample_admit sample_decode on_store_eq k sample_server_def
        NewAuthorisingServer_def sample_env_def)
qed

theorem accepted_body_bound_witness:
  "\<exists>r s' m. Server_put recording sample_env sample_http sample_server = (r, s') \<and> rs_status r = 202 \<and>
     m \<in> set (queue (sv_store s') (key ''e1'' ''st'' c2s)) \<and> int (length (m_Body m)) \<le> 6292224"
proof -
  obtain r s' where run: "Server_put recording sample_env sample_http sample_server = (r, s')" by force
  have ok: "rs_status r = 202" using run sample_put_run by (auto simp: Server_put_def)
  from accepted_body_bound [OF run ok] run ok show ?thesis by (fastforce simp: sample_http_def)
qed

text \<open>
  Property C34. A lease that is asked for and silently not given. For four values of \<^verbatim>\<open>lease\<close> that are not among those
  documented to mean no lease, on a platform that converts an out-of-range number to the least integer, a collection
  does exactly what it does without one: the messages are deleted as they are handed over. The handler's comment
  says such a collection is refused. The last value is within the parameter's own grammar and fails on every platform.
\<close>

theorem lease_silently_destructive:
  assumes "query_get hr ''lease'' \<in> {''nan'', ''inf'', ''99999999999'', ''0.0000000001''}" and "e_oor e = (\<lambda>_. - (2 ^ 63))"
  shows "Server_get_start au e hr s = Server_get_start au e (hr\<lparr>hr_query := (''lease'', '''') # hr_query hr\<rparr>) s"
proof -
  let ?hr = "hr\<lparr>hr_query := (''lease'', '''') # hr_query hr\<rparr>"
  have e: "ParseLease (\<lambda>_. - (2 ^ 63)) ''nan'' = Inr (- (2 ^ 63))" "ParseLease (\<lambda>_. - (2 ^ 63)) ''inf'' = Inr (- (2 ^ 63))"
    "ParseLease (\<lambda>_. - (2 ^ 63)) ''99999999999'' = Inr (- (2 ^ 63))" "ParseLease (\<lambda>_. - (2 ^ 63)) ''0.0000000001'' = Inr 0"
    "ParseLease (\<lambda>_. - (2 ^ 63)) '''' = Inr 0"
    by code_simp+
  have p: "\<exists>d \<le> 0. ParseLease (e_oor e) (query_get hr ''lease'') = Inr d" using assms e by auto
  have q: "query_get ?hr ''lease'' = ''''" "query_get ?hr ''limit'' = query_get hr ''limit''" "query_get ?hr ''wait'' = query_get hr ''wait''"
    by (simp_all add: query_get_def lookup_or_def)
  have r: "request_of ?hr op b t = request_of hr op b t" "hr_dir ?hr = hr_dir hr" for op b t
    by (simp_all add: request_of_def token_def)
  from p obtain d where d: "d \<le> 0" "ParseLease (e_oor e) (query_get hr ''lease'') = Inr d" by blast
  show ?thesis
    using d assms(2) e(5) unfolding Server_get_start_def Let_def q r by (simp only: sum.case) (simp split: prod.splits)
qed

theorem lease_silently_destructive_witness:
  "Server_get_start recording sample_env (sample_http\<lparr>hr_query := [(''lease'', ''nan'')]\<rparr>) sample_server =
   Server_get_start recording sample_env (sample_http\<lparr>hr_query := [(''lease'', ''''), (''lease'', ''nan'')]\<rparr>) sample_server"
  using lease_silently_destructive [of "sample_http\<lparr>hr_query := [(''lease'', ''nan'')]\<rparr>" sample_env recording sample_server]
  by (simp add: query_get_def lookup_or_def sample_env_def)

theorem get_settled_once_witness:
  "\<exists>r s'. Server_get recording sample_env TimedOut sample_env sample_http sample_server = (r, s') \<and> length (sv_auth s') = 1"
proof -
  obtain r s' where run: "Server_get recording sample_env TimedOut sample_env sample_http sample_server = (r, s')" by force
  show ?thesis
    using get_settled_once [OF sample_dir sample_admit _ run] run
    by (auto simp: settled_for_def recording_def sample_server_def NewAuthorisingServer_def)
qed

end
