(* ===== verification/Relay_Wire.thy ===== *)
theory Relay_Wire
  imports Relay_Server Relay_Suite
begin

text \<open>
  The relay as its clients see it: methods and paths in, status, content type and text out (\<^verbatim>\<open>Routes\<close>, \<^verbatim>\<open>landingHTML\<close>
  and the encoders in \<^verbatim>\<open>src/server.go\<close>, the tags of \<^verbatim>\<open>Message\<close> in \<^verbatim>\<open>src/relay.go\<close>, \<^verbatim>\<open>Lease.MarshalJSON\<close> in \<^verbatim>\<open>src/lease.go\<close>).

  \<^item> \<open>response_body\<close> is the text of an answer. It needs two things the state does not hold: the offset of the local zone at
    an instant, and whether an empty body is a nil slice (the request had none), which is written as \<^verbatim>\<open>null\<close>.
  \<^item> \<open>route\<close> is what \<^verbatim>\<open>http.ServeMux\<close> makes of the patterns of \<^verbatim>\<open>Routes\<close>, on the segments of a path with no empty, dot or
    dot-dot segments before the last: a pattern for \<^verbatim>\<open>GET\<close> also answers \<^verbatim>\<open>HEAD\<close>, a wildcard takes one segment that is not empty,
    and a path known under another method only is answered 405.
\<close>

section \<open>Answers as text\<close>

record wire =
  zone :: "time \<Rightarrow> int"
  nil_body :: "message \<Rightarrow> bool"

definition body_json :: "bool \<Rightarrow> bytes \<Rightarrow> json" where
  "body_json nil b = (if b = [] \<and> nil then JNull else JStr (StdEncoding_Encode b))"

definition message_json :: "wire \<Rightarrow> message \<Rightarrow> json option" where
  "message_json z m =
     map_option (\<lambda>at. JObj [(''id'', JStr (m_ID m)), (''estate'', JStr (m_Estate m)), (''station'', JStr (m_Station m)),
         (''dir'', JStr (m_Dir m)), (''seq'', JNum (show_nat (unat (m_Seq m)))), (''body'', body_json (nil_body z m) (m_Body m)),
         (''at'', at)])
       (Time_MarshalJSON (zone z (m_At m)) (m_At m))"

fun messages_json :: "wire \<Rightarrow> message list \<Rightarrow> json list option" where
  "messages_json z [] = Some []"
| "messages_json z (m # ms) =
     (case message_json z m of
        None \<Rightarrow> None
      | Some j \<Rightarrow> map_option (Cons j) (messages_json z ms))"

definition Lease_MarshalJSON :: "wire \<Rightarrow> lease \<Rightarrow> json option" where
  "Lease_MarshalJSON z l =
     (let until = (if IsZero (l_Until l) then '''' else RFC3339Nano (zone z (l_Until l)) (l_Until l))
      in map_option (\<lambda>ms. JObj [(''lease'', JStr (l_ID l)), (''until'', JStr until), (''messages'', JArr ms)])
           (messages_json z (l_Messages l)))"

definition nl :: string where "nl = [CHR 0x0A]"

definition landingHTML :: "string \<Rightarrow> string \<Rightarrow> string \<Rightarrow> string \<Rightarrow> string" where
  \<open>landingHTML what version_name source docs =
     ''<!doctype html>'' @ nl @
     ''<html lang="en"><head><meta charset="utf-8">'' @ nl @
     ''<meta name="viewport" content="width=device-width,initial-scale=1">'' @ nl @
     ''<meta name="robots" content="noindex">'' @ nl @
     ''<title>heliograph relay</title>'' @ nl @
     ''<style>'' @ nl @
     '' body{background:#111;color:#eee;font:15px/1.7 ui-monospace,SFMono-Regular,Menlo,monospace;margin:0;padding:2.5rem 1.25rem;max-width:34rem}'' @ nl @
     '' h1{font-size:1rem;margin:0;font-weight:600}'' @ nl @
     '' p{color:#8b8b8b;margin:.25rem 0 1.75rem}'' @ nl @
     '' a{color:#6cf;display:block}'' @ nl @
     '' code{color:#8b8b8b;word-break:break-all}'' @ nl @
     ''</style></head><body>'' @ nl @
     ''<h1>heliograph relay</h1>'' @ nl @
     ''<p>'' @ what @ ''</p>'' @ nl @
     ''<code>'' @ version_name @ ''</code>'' @ nl @
     ''<a href="'' @ source @ ''">source</a>'' @ nl @
     ''<a href="'' @ docs @ ''">docs</a>'' @ nl @
     ''</body></html>''\<close>

text \<open>\<^verbatim>\<open>json.NewEncoder(w).Encode(v)\<close>: a value that cannot be written leaves no text.\<close>

definition Encode :: "json option \<Rightarrow> string" where
  "Encode j = (case j of None \<Rightarrow> '''' | Some v \<Rightarrow> encode_line v)"

definition response_body :: "wire \<Rightarrow> response \<Rightarrow> string" where
  "response_body z r =
     (case rs_payload r of
        NoPayload \<Rightarrow> ''''
      | Html args \<Rightarrow> (case args of [a, b, c, d] \<Rightarrow> landingHTML a b c d | _ \<Rightarrow> '''')
      | Json j \<Rightarrow> Encode (Some j)
      | Messages ms \<Rightarrow> Encode (map_option JArr (messages_json z ms))
      | LeaseObject l \<Rightarrow> Encode (Lease_MarshalJSON z l))"

definition content_type :: "response \<Rightarrow> string" where
  "content_type r =
     (case rs_payload r of NoPayload \<Rightarrow> '''' | Html _ \<Rightarrow> ''text/html; charset=utf-8'' | _ \<Rightarrow> ''application/json'')"

section \<open>Routing\<close>

datatype endpoint = EPut string string string | EGet string string string | EAck string string string | EHealth | EVersion | ERoot

definition route :: "string \<Rightarrow> string list \<Rightarrow> endpoint option" where
  "route meth segs =
     (let get = (meth = ''GET'' \<or> meth = ''HEAD''); post = (meth = ''POST'')
      in (case segs of
            [a] \<Rightarrow>
              if \<not> get then None
              else if a = ''health'' then Some EHealth
              else if a = ''version'' then Some EVersion
              else if a = '''' then Some ERoot else None
          | [a, e, s, d] \<Rightarrow>
              if a \<noteq> ''v1'' \<or> e = '''' \<or> s = '''' \<or> d = '''' then None
              else if post then Some (EPut e s d)
              else if get then Some (EGet e s d) else None
          | [a, e, s, d, b] \<Rightarrow>
              if a = ''v1'' \<and> e \<noteq> '''' \<and> s \<noteq> '''' \<and> d \<noteq> '''' \<and> b = ''ack'' \<and> post then Some (EAck e s d) else None
          | _ \<Rightarrow> None))"

definition at_route :: "string \<Rightarrow> string \<Rightarrow> string \<Rightarrow> http_request \<Rightarrow> http_request" where
  "at_route e st d hr = hr\<lparr>hr_estate := e, hr_station := st, hr_dir := d\<rparr>"

definition handle ::
  "('st, 'w) authoriser \<Rightarrow> env \<Rightarrow> hold_event \<Rightarrow> env \<Rightarrow> endpoint \<Rightarrow> http_request \<Rightarrow> 'st server \<Rightarrow> response \<times> 'st server" where
  "handle au e ev e2 ep hr s =
     (case ep of
        EPut es st d \<Rightarrow> Server_put au e (at_route es st d hr) s
      | EGet es st d \<Rightarrow> Server_get au e ev e2 (at_route es st d hr) s
      | EAck es st d \<Rightarrow> Server_ack au e (at_route es st d hr) s
      | EHealth \<Rightarrow> (health s, s)
      | EVersion \<Rightarrow> (version s, s)
      | ERoot \<Rightarrow> (root hr s, s))"

record http_response =
  hs_status :: nat
  hs_type :: string
  hs_body :: string

definition serve_http ::
  "wire \<Rightarrow> ('st, 'w) authoriser \<Rightarrow> env \<Rightarrow> hold_event \<Rightarrow> env \<Rightarrow> string \<Rightarrow> string list \<Rightarrow> http_request \<Rightarrow> 'st server
   \<Rightarrow> http_response \<times> 'st server" where
  "serve_http z au e ev e2 meth segs hr s =
     (let text = (\<lambda>t. if meth = ''HEAD'' then '''' else t)
      in (case route meth segs of
            Some ep \<Rightarrow>
              let (r, s') = handle au e ev e2 ep hr s
              in (\<lparr>hs_status = rs_status r, hs_type = content_type r, hs_body = text (response_body z r)\<rparr>, s')
          | None \<Rightarrow>
              if route ''GET'' segs \<noteq> None \<or> route ''POST'' segs \<noteq> None
              then (\<lparr>hs_status = 405, hs_type = ''text/plain; charset=utf-8'', hs_body = text (''Method Not Allowed'' @ nl)\<rparr>, s)
              else (\<lparr>hs_status = 404, hs_type = ''text/plain; charset=utf-8'', hs_body = text (''404 page not found'' @ nl)\<rparr>, s)))"

section \<open>Lemmas\<close>

subsection \<open>What a collection without a lease does\<close>

lemma Server_get_take:
  fixes au :: "('st, 'w) authoriser" and hr :: http_request and e :: env and s :: "'st server"
  defines "req \<equiv> request_of hr OpRead 0 (e_started e)"
    and "limit \<equiv> (if query_get hr ''limit'' \<noteq> '''' then Atoi (query_get hr ''limit'') else 0)"
  assumes "validDir (hr_dir hr)" and adm: "au_Admit au (sv_auth s) req = (g, a)" "g_Allow g"
    and lease: "ParseLease (e_oor e) (query_get hr ''lease'') = Inr held" "held \<le> 0"
    and take: "Take (e_io e) (e_clk e) (hr_estate hr) (hr_station hr) (hr_dir hr) limit (sv_store s) (sv_disk s) = (Inr ms, st, d)"
    and now: "ms \<noteq> [] \<or> query_get hr ''wait'' = ''0''"
  shows "Server_get au e ev e2 hr s =
    (\<lparr>rs_status = 200, rs_payload = Messages ms\<rparr>,
     settle_delivery au e req g ms (s\<lparr>sv_auth := a, sv_store := st, sv_disk := d\<rparr>))"
proof -
  have "sv_Take e req limit (s\<lparr>sv_auth := a\<rparr>) = (Inr ms, s\<lparr>sv_auth := a, sv_store := st, sv_disk := d\<rparr>)"
    using take by (simp add: sv_Take_def on_store_def req_def request_of_def)
  with assms have "Server_get_start au e hr s =
      (Inl \<lparr>rs_status = 200, rs_payload = Messages ms\<rparr>,
       settle_delivery au e req g ms (s\<lparr>sv_auth := a, sv_store := st, sv_disk := d\<rparr>))"
    by (auto simp: Server_get_start_def Let_def sv_admit_def answer_def)
  then show ?thesis by (simp add: Server_get_def)
qed

lemma settle_delivery_sel [simp]:
  "sv_store (settle_delivery au e req g ms s) = sv_store s" "sv_disk (settle_delivery au e req g ms s) = sv_disk s"
  "sv_waiters (settle_delivery au e req g ms s) = sv_waiters s"
  by (simp_all add: settle_delivery_def settle_def)

text \<open>A queue of free messages that have not expired is taken whole.\<close>

lemma kept_from_free: "list_all free ms \<Longrightarrow> kept_from 0 n ms = []"
  by (induction ms arbitrary: n) (simp_all add: free_def)

lemma refreshed_free:
  assumes "list_all free (queue s k)" "\<forall>m \<in> set (queue s k). clk 0 - s_ttl s \<le> m_At m"
  shows "refreshed clk s k = queue s k"
proof -
  have "stale (s_ttl s) (clk 0) (queue s k) = []"
    using assms(2) by (cases "queue s k") (auto simp: stale_def)
  then have "refreshed clk s k = map (release (clk 1)) (queue s k)" by (simp add: refreshed_def live_id)
  also have "\<dots> = queue s k" using assms(1) by (intro map_idI) (auto simp: list_all_iff free_def release_def)
  finally show ?thesis .
qed

lemma Take_free:
  assumes "validRoute e st dr" "list_all free (queue s (key e st dr))"
    and "\<forall>m \<in> set (queue s (key e st dr)). clk 0 - s_ttl s \<le> m_At m"
  shows "fst (Take w clk e st dr 0 s d) = Inr (queue s (key e st dr))"
    and "queue (fst (snd (Take w clk e st dr 0 s d))) k = (if k = key e st dr then [] else queue s k)"
proof -
  have q: "refreshed clk s (key e st dr) = queue s (key e st dr)" using assms by (intro refreshed_free)
  have a: "avail 0 (queue s (key e st dr)) = queue s (key e st dr)" using assms(2) by (simp add: avail_from_def list_all_iff)
  show "fst (Take w clk e st dr 0 s d) = Inr (queue s (key e st dr))"
    unfolding Take_eq [OF assms(1)] Let_def q a by simp
  show "queue (fst (snd (Take w clk e st dr 0 s d))) k = (if k = key e st dr then [] else queue s k)"
    unfolding Take_eq [OF assms(1)] Let_def q a by (simp add: q kept_from_free [OF assms(2)])
qed

subsection \<open>What a write does not depend on\<close>

definition can_write :: "io \<Rightarrow> disk \<Rightarrow> bool" where
  "can_write w d \<longleftrightarrow>
     (case io_tmp w of
        None \<Rightarrow> False
      | Some r \<Rightarrow> spoolTmpPre @ r \<notin> set (mkeys (vol d)) \<and> io_head w = None \<and> io_body w = None \<and> io_sync w \<and>
          io_close w \<and> io_rename w \<and> io_dirsync w)"

lemma spool_write_outcome: "fst (spool_write w m sp d) = (if can_write w d then Some (spool_name (sp_next sp)) else None)"
  by (simp add: spool_write_def can_write_def Let_def split: option.splits)

text \<open>Whether the store takes a message, and what it answers, depends on the length of its body and not on its contents.\<close>

lemma Put_outcome:
  assumes "length (m_Body m) = length (m_Body m')" "m_Estate m = m_Estate m'" "m_Station m = m_Station m'" "m_Dir m = m_Dir m'"
  shows "fst (Put w clk m s d) = fst (Put w clk m' s d)"
  using assms by (simp add: Put_def Let_def split_beta spool_write_outcome split: option.splits)

subsection \<open>Texts read back\<close>

lemma put_text_length: "length (put_text q b) \<le> 4 * ((length b + 2) div 3) + 38"
proof -
  have "unat q < 10 ^ 20" using unsigned_less [of q, where ?'a = nat] by simp
  then have "length (show_nat (unat q)) \<le> 20" by (rule show_nat_length) simp
  moreover have "json_quote ''body'' = dquote # ''body'' @ [dquote]" "json_quote ''seq'' = dquote # ''seq'' @ [dquote]"
    by (rule json_quote_plain, code_simp)+
  ultimately show ?thesis by (simp add: put_text_def object_text_def json_quote_b64 b64_encode_length)
qed

lemma put_text_decode:
  assumes "hr_body hr = \<lparr>b_bytes = put_text q b, b_broken = x\<rparr>" "int (length (put_text q b)) \<le> put_limit g + 1024"
  shows "put_decode g hr = Inr \<lparr>in_Seq = q, in_Body = b\<rparr>"
proof -
  let ?j = "JObj [(''body'', JStr (StdEncoding_Encode b)), (''seq'', JNum (show_nat (unat q)))]"
  have "fits 1 ?j" using fits_num [of 0] by (simp add: b64_encode_valid valid_utf8_ascii in_range_def)
  from json_text_unmarshal(2) [OF this _ _ assms(2) [unfolded put_text_def]]
  have "read_value (put_limit g + 1024) (hr_body hr) = Inr ?j" by (simp add: assms(1) put_text_def max_depth_def)
  then show ?thesis
    by (simp add: put_decode_def decode_body_def decode_struct_def match_field_def put_update_def dec_bytes_def dec_u64_def
        b64_roundtrip ParseUint_show_nat)
qed

section \<open>Properties\<close>

text \<open>
  Property C4. The authoriser never sees a message body. Two writes that differ in nothing but the bytes of their bodies, and
  whose bodies decode to the same length, are indistinguishable to the authoriser and to the sender: whatever the
  authoriser is and does with what it is told, it is left in the same state, by the same decision and the same settlement,
  and the answers are equal. So is everything else about the relay but the store and its spool.
\<close>

theorem authoriser_sees_no_body:
  fixes au :: "('st, 'w) authoriser" and hr :: http_request and e :: env and s :: "'st server"
  defines "g \<equiv> fst (au_Admit au (sv_auth s) (request_of hr OpWrite (hr_ContentLength hr) (e_started e)))"
  assumes "put_decode g hr = Inr i" "put_decode g (hr\<lparr>hr_body := b\<rparr>) = Inr i'" "length (in_Body i) = length (in_Body i')"
    and run: "Server_put au e hr s = (r, s1)" "Server_put au e (hr\<lparr>hr_body := b\<rparr>) s = (r', s2)"
  shows "r = r' \<and> sv_auth s1 = sv_auth s2 \<and> sv_waiters s1 = sv_waiters s2"
proof -
  let ?hr = "hr\<lparr>hr_body := b\<rparr>" and ?req = "request_of hr OpWrite (hr_ContentLength hr) (e_started e)"
  have req: "request_of ?hr OpWrite (hr_ContentLength ?hr) (e_started e) = ?req" by (simp add: request_of_def token_def)
  let ?s = "s\<lparr>sv_auth := snd (au_Admit au (sv_auth s) ?req)\<rparr>"
  let ?p = "on_store (Put (e_io e) (e_clk e) (put_message hr i)) ?s" and ?q = "on_store (Put (e_io e) (e_clk e) (put_message ?hr i')) ?s"
  have "fst ?p = fst ?q"
    using Put_outcome [of "put_message hr i" "put_message ?hr i'"] assms(4) by (simp add: on_store_eq put_message_def)
  moreover have "sv_auth (snd ?p) = sv_auth (snd ?q)" "sv_waiters (snd ?p) = sv_waiters (snd ?q)" by (simp_all add: on_store_eq)
  ultimately show ?thesis
    using run assms(2-4) unfolding Server_put_def Server_put_store_def req
    by (cases ?p; cases ?q; cases "fst ?p")
      (auto simp: Let_def admit_eq g_def [symmetric] settle_def wake_all_def wake_def split: if_splits)
qed

theorem authoriser_sees_no_body_witness:
  "sv_auth (snd (Server_put recording sample_env (sample_http\<lparr>hr_body := \<lparr>b_bytes = put_text 7 ''hi'', b_broken = False\<rparr>\<rparr>) sample_server)) =
   sv_auth (snd (Server_put recording sample_env (sample_http\<lparr>hr_body := \<lparr>b_bytes = put_text 9 ''yo'', b_broken = False\<rparr>\<rparr>) sample_server))"
proof -
  let ?hr = "\<lambda>q b. sample_http\<lparr>hr_body := \<lparr>b_bytes = put_text q b, b_broken = False\<rparr>\<rparr>"
  have "length (put_text 7 ''hi'') \<le> 1024" "length (put_text 9 ''yo'') \<le> 1024"
    using put_text_length [of 7 "''hi''"] put_text_length [of 9 "''yo''"] by simp_all
  then have d: "put_decode g (?hr 7 ''hi'') = Inr \<lparr>in_Seq = 7, in_Body = ''hi''\<rparr>" "put_decode g (?hr 9 ''yo'') = Inr \<lparr>in_Seq = 9, in_Body = ''yo''\<rparr>" for g
    using put_limit_pos [of g] by (auto intro!: put_text_decode)
  obtain r1 s1 r2 s2 where run: "Server_put recording sample_env (?hr 7 ''hi'') sample_server = (r1, s1)"
    "Server_put recording sample_env (?hr 9 ''yo'') sample_server = (r2, s2)" by fastforce
  show ?thesis
    using authoriser_sees_no_body [of recording sample_server "?hr 7 ''hi''" sample_env _ "\<lparr>b_bytes = put_text 9 ''yo'', b_broken = False\<rparr>"] d run by simp
qed

text \<open>
  Property C31. A \<^verbatim>\<open>HEAD\<close> request destroys messages. The pattern for \<^verbatim>\<open>GET\<close> also answers \<^verbatim>\<open>HEAD\<close>, whose answer carries no body; so a
  \<^verbatim>\<open>HEAD\<close> on a queue with a credential that may collect takes from the store exactly what a \<^verbatim>\<open>GET\<close> would have taken,
  and hands over none of it.
\<close>

theorem head_destroys:
  fixes au :: "('st, 'w) authoriser" and hr :: http_request and e :: env and s :: "'st server"
  assumes route: "route ''GET'' segs = Some (EGet es st dr)" and "validDir dr"
    and adm: "au_Admit au (sv_auth s) (request_of (at_route es st dr hr) OpRead 0 (e_started e)) = (g, a)" "g_Allow g"
    and plain_get: "query_get hr ''lease'' = ''''" "query_get hr ''limit'' = ''''"
    and take: "Take (e_io e) (e_clk e) es st dr 0 (sv_store s) (sv_disk s) = (Inr ms, stored, left)" "ms \<noteq> []"
    and run: "serve_http z au e ev e2 ''HEAD'' segs hr s = (h, s')"
  shows "hs_status h = 200 \<and> hs_body h = '''' \<and> sv_store s' = stored \<and> sv_disk s' = left"
proof -
  let ?hr = "at_route es st dr hr"
  have head: "route ''HEAD'' segs = Some (EGet es st dr)"
    using route by (auto simp: route_def Let_def split: list.splits if_splits)
  have "query_get ?hr k = query_get hr k" "hr_estate ?hr = es" "hr_station ?hr = st" "hr_dir ?hr = dr" for k
    by (simp_all add: at_route_def query_get_def)
  moreover have "ParseLease (e_oor e) '''' = Inr 0" by (simp add: ParseLease_def TrimSpace_id)
  ultimately have "Server_get au e ev e2 ?hr s =
      (\<lparr>rs_status = 200, rs_payload = Messages ms\<rparr>,
       settle_delivery au e (request_of ?hr OpRead 0 (e_started e)) g ms (s\<lparr>sv_auth := a, sv_store := stored, sv_disk := left\<rparr>))"
    using assms by (intro Server_get_take [where held = 0]) simp_all
  with run show ?thesis by (auto simp: serve_http_def Let_def head handle_def)
qed

definition utc :: wire where "utc = \<lparr>zone = (\<lambda>_. 0), nil_body = (\<lambda>_. False)\<rparr>"

theorem head_destroys_witness:
  "\<exists>s m h s'. Server_put_store recording sample_env sample_http sample_server =
       (\<lparr>rs_status = 202, rs_payload = NoPayload\<rparr>, Some (key ''e1'' ''st'' c2s), s) \<and>
     queue (sv_store s) (key ''e1'' ''st'' c2s) = [m] \<and>
     serve_http utc recording sample_env TimedOut sample_env ''HEAD'' [''v1'', ''e1'', ''st'', c2s] sample_http s = (h, s') \<and>
     hs_body h = '''' \<and> queue (sv_store s') (key ''e1'' ''st'' c2s) = []"
proof -
  obtain m s where put: "Server_put_store recording sample_env sample_http sample_server =
       (\<lparr>rs_status = 202, rs_payload = NoPayload\<rparr>, Some (key ''e1'' ''st'' c2s), s)"
    and s: "sv_store s = set_queue (key ''e1'' ''st'' c2s) [m] (NewStore 0\<lparr>s_ids := 1\<rparr>)" "free m" "m_At m = sample_clock 0"
    using sample_put_run by blast
  let ?k = "key ''e1'' ''st'' c2s" and ?T = "Take io_fine sample_clock ''e1'' ''st'' c2s 0 (sv_store s) (sv_disk s)"
  have q: "queue (sv_store s) ?k = [m]" "s_ttl (sv_store s) = DefaultTTL" by (simp_all add: s(1) NewStore_def)
  have v: "validRoute ''e1'' ''st'' c2s" by (simp add: route_simps validDir_def)
  have t: "list_all free (queue (sv_store s) ?k)" "\<forall>m \<in> set (queue (sv_store s) ?k). sample_clock 0 - s_ttl (sv_store s) \<le> m_At m"
    by (simp_all add: q s(2,3) DefaultTTL_def duration_defs)
  obtain st d where take: "?T = (Inr [m], st, d)"
    using Take_free(1) [where clk = sample_clock, OF v t] by (metis prod.collapse q(1))
  have gone: "queue st ?k = []" using Take_free(2) [where clk = sample_clock, OF v t, of io_fine "sv_disk s" ?k] take by simp
  have same: "at_route ''e1'' ''st'' c2s sample_http = sample_http" by (simp add: at_route_def sample_http_def)
  obtain h s' where run: "serve_http utc recording sample_env TimedOut sample_env ''HEAD'' [''v1'', ''e1'', ''st'', c2s] sample_http s = (h, s')" by fastforce
  have "hs_status h = 200 \<and> hs_body h = '''' \<and> sv_store s' = st \<and> sv_disk s' = d"
  proof (rule head_destroys [OF _ _ _ _ _ _ _ _ run])
    show "route ''GET'' [''v1'', ''e1'', ''st'', c2s] = Some (EGet ''e1'' ''st'' c2s)" by (simp add: route_def)
    show "au_Admit recording (sv_auth s) (request_of (at_route ''e1'' ''st'' c2s sample_http) OpRead 0 (e_started sample_env)) =
      (allowing (wide_scope (request_of sample_http OpRead 0 (e_started sample_env))), sv_auth s)" by (simp add: same sample_admit)
    show "Take (e_io sample_env) (e_clk sample_env) ''e1'' ''st'' c2s 0 (sv_store s) (sv_disk s) = (Inr [m], st, d)"
      using take by (simp add: sample_env_def)
  qed (simp_all add: validDir_def query_get_def sample_http_def)
  with put q(1) run gone show ?thesis by blast
qed

end
