(* ===== verification/Relay_Answers.thy ===== *)
theory Relay_Answers
  imports Relay_Wire
begin

text \<open>
  What a client reads from the text of an answer: the decoders of the suite after the encoders of the server. Every
  answer the server writes is one JSON document that the client's structures take apart without loss.
\<close>

section \<open>Instants that have a text\<close>

text \<open>Any instant from 1970 to some time in the year 7400, in any zone less than a day from Greenwich.\<close>

definition horizon :: time where "horizon = 2000000 * 24 * Hour"

lemma div_between:
  fixes a c lo hi :: int
  assumes "0 < c" "lo * c \<le> a" "a < (hi + 1) * c"
  shows "lo \<le> a div c \<and> a div c \<le> hi"
proof -
  have "lo * c div c \<le> a div c" using assms(1,2) by (intro zdiv_mono1)
  moreover have "a div c \<le> hi"
  proof (rule ccontr)
    assume "\<not> a div c \<le> hi"
    then have "(hi + 1) * c \<le> a div c * c" using assms(1) by (intro mult_right_mono) auto
    also have "\<dots> \<le> a" using assms(1) by (simp add: minus_mod_eq_div_mult [symmetric])
    finally show False using assms(3) by simp
  qed
  ultimately show ?thesis using assms(1) by simp
qed

lemma year_bounds:
  assumes "0 \<le> t" "t \<le> horizon" "\<bar>off\<bar> < 86400"
  shows "0 \<le> year_of off t \<and> year_of off t \<le> 9999"
proof -
  define z where "z = (t div 1000000000 + off) div 86400 + 719468"
  define e where "e = z div 146097"
  define d where "d = z mod 146097"
  define y where "y = (d - d div 1460 + d div 36524 - d div 146096) div 365"
  have "0 \<le> t div 1000000000 \<and> t div 1000000000 \<le> 172800000000"
    using assms(1,2) by (intro div_between) (simp_all add: horizon_def duration_defs)
  then have "- 1 \<le> (t div 1000000000 + off) div 86400 \<and> (t div 1000000000 + off) div 86400 \<le> 2000001"
    using assms(3) by (intro div_between) (simp_all add: abs_less_iff)
  then have e: "4 \<le> e \<and> e \<le> 18" unfolding e_def z_def by (intro div_between) simp_all
  have d: "0 \<le> d" "d < 146097" unfolding d_def by simp_all
  have "0 \<le> d div 36524 \<and> d div 36524 \<le> 4" using d by (intro div_between) simp_all
  moreover have "0 \<le> d div 146096 \<and> d div 146096 \<le> 1" using d by (intro div_between) simp_all
  moreover have "0 \<le> d div 1460 \<and> d div 1460 \<le> 101" using d by (intro div_between) simp_all
  moreover have "- 1 \<le> (d - r + p - q) div 365 \<and> (d - r + p - q) div 365 \<le> 401"
    if "0 \<le> p \<and> p \<le> 4" "0 \<le> q \<and> q \<le> 1" "0 \<le> r \<and> r \<le> 101" for p q r :: int
    using d that by (intro div_between) simp_all
  ultimately have y: "- 1 \<le> y \<and> y \<le> 401" unfolding y_def by blast
  have "\<exists>b. year_of off t = y + e * 400 + (if b then 1 else 0)"
    unfolding year_of_def civil_def Let_def fst_conv z_def [symmetric] e_def [symmetric] d_def [symmetric] y_def [symmetric]
    by (rule exI, rule refl)
  with e y show ?thesis by auto
qed

lemma Time_MarshalJSON_ok:
  "0 \<le> t \<Longrightarrow> t \<le> horizon \<Longrightarrow> \<bar>off\<bar> < 86400 \<Longrightarrow> Time_MarshalJSON off t = Some (JStr (RFC3339Nano off t))"
  using year_bounds [of t off] by (simp add: Time_MarshalJSON_def)

section \<open>Messages\<close>

text \<open>What a client makes of a message, and which messages have a text.\<close>

definition received :: "message \<Rightarrow> msg" where
  "received m = \<lparr>ms_ID = m_ID m, ms_Seq = m_Seq m, ms_Body = m_Body m\<rparr>"

definition writable :: "wire \<Rightarrow> message \<Rightarrow> bool" where
  "writable z m \<longleftrightarrow> valid_utf8 (m_ID m) \<and> valid_utf8 (m_Estate m) \<and> valid_utf8 (m_Station m) \<and> valid_utf8 (m_Dir m) \<and>
     Time_MarshalJSON (zone z (m_At m)) (m_At m) \<noteq> None"

lemma lax_struct_obj: "lax_struct names upd (JObj ms) r = lax_members names upd ms r"
  by (simp add: lax_struct_def)

lemma match_own: "k \<in> set names \<Longrightarrow> match_field names k = Some k"
  by (simp add: match_field_def)

lemma match_none:
  "match_field [''id'', ''seq'', ''body''] ''estate'' = None" "match_field [''id'', ''seq'', ''body''] ''station'' = None"
  "match_field [''id'', ''seq'', ''body''] ''dir'' = None" "match_field [''id'', ''seq'', ''body''] ''at'' = None"
  "match_field [''service'', ''implementation'', ''version'', ''source''] ''docs'' = None"
  "match_field [''service'', ''implementation'', ''version'', ''source''] ''what'' = None"
  by code_simp+

lemmas matching = match_own match_none lax_struct_obj or_old_def

lemma dec_JStr [simp]: "dec_string (JStr s) old = Some s"
  by (simp add: dec_string_def)

lemma body_json_read: "lax_bytes (body_json nil b) [] = (b, True)"
  by (simp add: body_json_def lax_bytes_def lax_slice_def or_old_def b64_roundtrip)

lemma body_json_fits: "fits n (body_json nil b)"
  by (simp add: body_json_def b64_encode_valid)

lemma message_read:
  assumes "writable z m"
  obtains j where "message_json z m = Some j" "fits 1 j" "msg_lax j zero_msg = (received m, True)"
proof -
  obtain a where a: "Time_MarshalJSON (zone z (m_At m)) (m_At m) = Some (JStr a)" "valid_utf8 a"
    using assms RFC3339Nano_valid by (auto simp: writable_def Time_MarshalJSON_def split: if_splits)
  let ?j = "JObj [(''id'', JStr (m_ID m)), (''estate'', JStr (m_Estate m)), (''station'', JStr (m_Station m)),
         (''dir'', JStr (m_Dir m)), (''seq'', JNum (show_nat (unat (m_Seq m)))), (''body'', body_json (nil_body z m) (m_Body m)),
         (''at'', JStr a)]"
  have names: "valid_utf8 ''id''" "valid_utf8 ''estate''" "valid_utf8 ''station''" "valid_utf8 ''dir''" "valid_utf8 ''seq''"
    "valid_utf8 ''body''" "valid_utf8 ''at''"
    by (rule valid_utf8_ascii; simp add: in_range_def)+
  show thesis
  proof (rule that)
    show "message_json z m = Some ?j" using a by (simp add: message_json_def)
    show "fits 1 ?j" using assms a(2) names body_json_fits fits_num [of 0] by (simp add: writable_def)
    show "msg_lax ?j zero_msg = (received m, True)"
      by (simp add: msg_lax_def matching zero_msg_def received_def dec_u64_def ParseUint_show_nat body_json_read)
  qed
qed

lemma messages_read:
  assumes "\<forall>m \<in> set ms. writable z m"
  obtains js where "messages_json z ms = Some js" "\<forall>j \<in> set js. fits 1 j" "lax_elems msg_lax zero_msg js = (map received ms, True)"
  using assms
proof (induction ms arbitrary: thesis)
  case (Cons m ms)
  obtain j where j: "message_json z m = Some j" "fits 1 j" "msg_lax j zero_msg = (received m, True)"
    using Cons.prems(2) by (auto elim: message_read)
  obtain js where js: "messages_json z ms = Some js" "\<forall>j \<in> set js. fits 1 j" "lax_elems msg_lax zero_msg js = (map received ms, True)"
    using Cons.IH Cons.prems(2) by auto
  show thesis by (rule Cons.prems(1) [of "j # js"]) (use j js in simp_all)
qed simp

lemma deep: "(3::nat) < max_depth"
  by (simp add: max_depth_def)

lemma messages_answer_read:
  assumes "\<forall>m \<in> set ms. writable z m" "rs_payload r = Messages ms"
  shows "Unmarshal msgs_lax (response_body z r) old = (map received ms, True)"
proof -
  obtain js where js: "messages_json z ms = Some js" "\<forall>j \<in> set js. fits 1 j" "lax_elems msg_lax zero_msg js = (map received ms, True)"
    by (rule messages_read [OF assms(1)])
  then have "fits 2 (JArr js)" by simp
  from json_line_unmarshal [OF this] have "json_unmarshal (encode_line (JArr js)) = Some (JArr js)" using deep by simp
  with js assms(2) show ?thesis by (simp add: Unmarshal_def response_body_def Encode_def msgs_lax_def lax_slice_def)
qed

lemma lease_answer_read:
  assumes "\<forall>m \<in> set (l_Messages l). writable z m" "rs_payload r = LeaseObject l" "valid_utf8 (l_ID l)"
  shows "Unmarshal lease_lax (response_body z r) no_lease =
    (\<lparr>lr_Lease = l_ID l, lr_Until = (if IsZero (l_Until l) then '''' else RFC3339Nano (zone z (l_Until l)) (l_Until l)),
      lr_Messages = map received (l_Messages l)\<rparr>, True)"
proof -
  obtain js where js: "messages_json z (l_Messages l) = Some js" "\<forall>j \<in> set js. fits 1 j" "lax_elems msg_lax zero_msg js = (map received (l_Messages l), True)"
    by (rule messages_read [OF assms(1)])
  define u where "u = (if IsZero (l_Until l) then '''' else RFC3339Nano (zone z (l_Until l)) (l_Until l))"
  let ?j = "JObj [(''lease'', JStr (l_ID l)), (''until'', JStr u), (''messages'', JArr js)]"
  have names: "valid_utf8 ''lease''" "valid_utf8 ''until''" "valid_utf8 ''messages''" "valid_utf8 ''''"
    by (rule valid_utf8_ascii; simp add: in_range_def)+
  have "valid_utf8 u" using RFC3339Nano_valid names(4) by (simp add: u_def)
  then have "fits 3 ?j" using js(2) names assms(3) by simp
  then have "json_unmarshal (encode_line ?j) = Some ?j" using deep by (rule json_line_unmarshal)
  with js assms(2) show ?thesis
    unfolding u_def [symmetric]
    by (simp add: Unmarshal_def response_body_def Encode_def Lease_MarshalJSON_def Let_def u_def [symmetric] lease_lax_def matching
        msgs_lax_def lax_slice_def no_lease_def)
qed

section \<open>The other answers\<close>

lemma json_answer: "fits 2 j \<Longrightarrow> rs_payload r = Json j \<Longrightarrow> Unmarshal f (response_body z r) x = f j x"
  using deep by (simp add: Unmarshal_def response_body_def Encode_def json_line_unmarshal [of 2])

lemma refusal_read:
  assumes "valid_utf8 a" "valid_utf8 c" "rs_payload r = Json (JObj [(''error'', JStr a), (''reason'', JStr c)])"
  shows "Unmarshal refusal_lax (response_body z r) no_refusal = (\<lparr>rf_Error = a, rf_Reason = c\<rparr>, True)"
proof -
  have "valid_utf8 ''error''" "valid_utf8 ''reason''" by (rule valid_utf8_ascii; simp add: in_range_def)+
  then have "fits 2 (JObj [(''error'', JStr a), (''reason'', JStr c)])" using assms by simp
  from json_answer [OF this assms(3), of refusal_lax z no_refusal] show ?thesis by (simp add: refusal_lax_def matching no_refusal_def)
qed

lemma deleted_read:
  assumes "rs_payload r = Json (JObj [(''deleted'', JNum (show_nat n))])" "int n < 2 ^ 63"
  shows "Unmarshal deleted_lax (response_body z r) 0 = (int n, True)"
proof -
  have "valid_utf8 ''deleted''" by (rule valid_utf8_ascii; simp add: in_range_def)
  then have "fits 2 (JObj [(''deleted'', JNum (show_nat n))])" using fits_num [of 1] by simp
  from json_answer [OF this assms(1), of deleted_lax z 0] show ?thesis
    using ParseInt_FormatInt [of "int n"] assms(2) by (simp add: deleted_lax_def matching dec_i64_def FormatInt_10)
qed

lemma health_read:
  assumes "valid_utf8 (reportedHash s)" "valid_utf8 (reportedVersion s)"
  shows "Unmarshal health_lax (response_body z (health s)) x =
    (\<lparr>he_OK = True, he_Version = reportedVersion s, he_Hash = reportedHash s, he_Durable = Some (Durable (sv_store s))\<rparr>, True)"
proof -
  let ?j = "JObj [(''durable'', JBool (Durable (sv_store s))), (''hash'', JStr (reportedHash s)), (''ok'', JBool True), (''version'', JStr (reportedVersion s))]"
  have "valid_utf8 ''durable''" "valid_utf8 ''hash''" "valid_utf8 ''ok''" "valid_utf8 ''version''" by (rule valid_utf8_ascii; simp add: in_range_def)+
  then have f: "fits 2 ?j" using assms by simp
  have "rs_payload (health s) = Json ?j" by (simp add: health_def writeJSON_def)
  from json_answer [OF f this, of health_lax z x] show ?thesis by (simp add: health_lax_def matching dec_bool_def lax_bool_ptr_def)
qed

lemma identity_read:
  assumes "valid_utf8 (reportedVersion s)" "\<not> contains_str (hr_Accept hr) ''text/html''" "r = version s \<or> r = root hr s"
  shows "Unmarshal identity_lax (response_body z r) x =
    (\<lparr>id_Service = ''heliograph-relay'', id_Implementation = ''go'', id_Version = reportedVersion s, id_Source = sourceURL\<rparr>, True)"
proof -
  let ?j = "JObj [(''implementation'', JStr ''go''), (''service'', JStr ''heliograph-relay''), (''source'', JStr sourceURL), (''version'', JStr (reportedVersion s))]"
  let ?k = "JObj [(''docs'', JStr docsURL), (''implementation'', JStr ''go''), (''service'', JStr ''heliograph-relay''),
        (''source'', JStr sourceURL), (''version'', JStr (reportedVersion s)), (''what'', JStr whatItIs)]"
  have v: "valid_utf8 ''implementation''" "valid_utf8 ''service''" "valid_utf8 ''source''" "valid_utf8 ''version''" "valid_utf8 ''docs''" "valid_utf8 ''what''"
    "valid_utf8 ''go''" "valid_utf8 ''heliograph-relay''" "valid_utf8 sourceURL" "valid_utf8 docsURL" "valid_utf8 whatItIs"
    by (rule valid_utf8_ascii; simp add: in_range_def)+
  then have f: "fits 2 ?j" "fits 2 ?k" using assms(1) by simp_all
  have p: "rs_payload (version s) = Json ?j" "rs_payload (root hr s) = Json ?k" using assms(2) by (simp_all add: version_def root_def writeJSON_def)
  from assms(3) json_answer [OF f(1) p(1), of identity_lax z x] json_answer [OF f(2) p(2), of identity_lax z x]
  show ?thesis by (elim disjE) (simp_all add: identity_lax_def matching)
qed

section \<open>The shape of every answer\<close>

text \<open>
  A refusal says why in a sentence and in a word, and its status is the word's; everything else that has a body is a 200, and a 202 has none.
\<close>

definition refusal_shape :: "response \<Rightarrow> bool" where
  "refusal_shape r \<longleftrightarrow> (\<exists>why reason. why \<noteq> '''' \<and> reason \<noteq> '''' \<and> rs_status r = reason_status reason \<and>
     rs_payload r = Json (JObj [(''error'', JStr why), (''reason'', JStr reason)]))"

definition typed_answer :: "response \<Rightarrow> bool" where
  "typed_answer r \<longleftrightarrow>
     (case rs_payload r of
        NoPayload \<Rightarrow> rs_status r = 202
      | Json j \<Rightarrow> rs_status r = 200 \<or> refusal_shape r
      | _ \<Rightarrow> rs_status r = 200)"

lemma typed_refuse [simp]: "typed_answer (refuse g)" "typed_answer (refuse_with r detail)"
proof -
  have d: "reason_detail r \<noteq> ''''" for r by (simp add: reason_detail_def)
  have "refusal_shape (refuse g)" for g
    unfolding refusal_shape_def
    by (intro exI [of _ "if g_Detail g = '''' then reason_detail (if g_Reason g = ReasonAllowed then ReasonBadCredential else g_Reason g) else g_Detail g"]
        exI [of _ "if g_Reason g = ReasonAllowed then ReasonBadCredential else g_Reason g"]) (auto simp: refuse_def Let_def d)
  then have "typed_answer (refuse g)" for g unfolding typed_answer_def by (simp add: refuse_def Let_def)
  then show "typed_answer (refuse g)" "typed_answer (refuse_with r detail)" by (simp_all only: refuse_with_def)
qed

lemma typed_given [simp]:
  "typed_answer \<lparr>rs_status = 202, rs_payload = NoPayload\<rparr>" "typed_answer (writeJSON j)" "typed_answer (put_refusal err)" "typed_answer (health s)"
  "typed_answer (version s)" "typed_answer (root hr s)" "typed_answer (fst (answer au e req g ms s))" "typed_answer (fst (answer_lease au e req g l s))"
proof -
  show w: "typed_answer (writeJSON j)" for j by (simp add: typed_answer_def writeJSON_def)
  show "typed_answer (health s)" "typed_answer (version s)" "typed_answer (root hr s)"
    using w by (simp_all add: health_def version_def root_def) (simp add: typed_answer_def)
qed (simp_all add: typed_answer_def [of "\<lparr>rs_status = s, rs_payload = p\<rparr>" for s p] put_refusal_def answer_def answer_lease_def)

lemma typed_put: "typed_answer (fst (Server_put au e hr s))"
  by (auto simp: Server_put_def Server_put_store_def Let_def split_beta split: sum.split read_error.split)

lemma typed_start: "Server_get_start au e hr s = (Inl r, s') \<Longrightarrow> typed_answer r"
  by (auto simp: Server_get_start_def getLeased_start_def park_def Let_def split_beta apfst_def map_prod_def split: sum.splits if_splits)

lemma typed_resume: "typed_answer (fst (Server_get_resume au e c h s))"
  by (auto simp: Server_get_resume_def getLeased_resume_def Let_def split_beta split: sum.split)

lemma typed_get: "typed_answer (fst (Server_get au e ev e2 hr s))"
proof (cases "Server_get_start au e hr s")
  case (Pair x s1)
  then show ?thesis using typed_start [of au e hr s _ s1] typed_resume by (cases x) (simp_all add: Server_get_def Let_def split_beta)
qed

lemma typed_ack: "typed_answer (fst (Server_ack au e hr s))"
  by (auto simp: Server_ack_def Let_def split_beta split: sum.split)

section \<open>Properties\<close>

text \<open>
  Property C23. Every answer has the shape the client expects. Whatever the request, the authoriser and the state, an answer of the relay's handlers is a 202
  without a body, a 200 with one, or a refusal: an object with a sentence and a reason, neither empty, whose status is the one that belongs to the reason.
\<close>

theorem every_answer_typed: "typed_answer (fst (handle au e ev e2 ep hr s))"
  using typed_put typed_get typed_ack by (cases ep) (simp_all add: handle_def)

text \<open>
  Property C28. A collection reaches the client as it was stored. For messages whose names are valid UTF-8 and whose arrival the calendar of the text can
  write, in any zone of less than a day, the text of the answer to a collection, with a lease or without, is read back by the suite's client as those messages, in order, each with its id, sequence number
  and body byte for byte, and with the name of the lease.
\<close>

theorem collection_read_back:
  assumes "\<forall>m \<in> set ms. valid_utf8 (m_ID m) \<and> valid_utf8 (m_Estate m) \<and> valid_utf8 (m_Station m) \<and> valid_utf8 (m_Dir m) \<and> 0 \<le> m_At m \<and> m_At m \<le> horizon"
    and "\<forall>t. \<bar>zone z t\<bar> < 86400" "valid_utf8 i"
  shows "Unmarshal msgs_lax (response_body z \<lparr>rs_status = 200, rs_payload = Messages ms\<rparr>) [] =
      (map (\<lambda>m. \<lparr>ms_ID = m_ID m, ms_Seq = m_Seq m, ms_Body = m_Body m\<rparr>) ms, True) \<and>
    (\<exists>u. Unmarshal lease_lax (response_body z \<lparr>rs_status = 200, rs_payload = LeaseObject \<lparr>l_ID = i, l_Until = t, l_Messages = ms\<rparr>\<rparr>) no_lease =
      (\<lparr>lr_Lease = i, lr_Until = u, lr_Messages = map (\<lambda>m. \<lparr>ms_ID = m_ID m, ms_Seq = m_Seq m, ms_Body = m_Body m\<rparr>) ms\<rparr>, True))"
proof -
  have w: "\<forall>m \<in> set ms. writable z m" using assms(1,2) Time_MarshalJSON_ok by (fastforce simp: writable_def)
  have r: "received = (\<lambda>m. \<lparr>ms_ID = m_ID m, ms_Seq = m_Seq m, ms_Body = m_Body m\<rparr>)" by (simp add: received_def fun_eq_iff)
  show ?thesis
    using messages_answer_read [OF w, of "\<lparr>rs_status = 200, rs_payload = Messages ms\<rparr>" "[]"]
      lease_answer_read [of "\<lparr>l_ID = i, l_Until = t, l_Messages = ms\<rparr>" z "\<lparr>rs_status = 200, rs_payload = LeaseObject \<lparr>l_ID = i, l_Until = t, l_Messages = ms\<rparr>\<rparr>"]
      w assms(3) by (simp add: r)
qed

theorem collection_read_back_witness:
  "\<exists>u. Unmarshal lease_lax (response_body \<lparr>zone = (\<lambda>_. 3600), nil_body = (\<lambda>_. False)\<rparr>
      \<lparr>rs_status = 200, rs_payload = LeaseObject \<lparr>l_ID = ''l-1'', l_Until = 1700000030 * Second,
        l_Messages = [\<lparr>m_ID = ''7'', m_Estate = ''e1'', m_Station = ''st'', m_Dir = c2s, m_Seq = 3, m_Body = [CHR 0x00, CHR 0xFF], m_At = 1700000000 * Second,
          m_file = '''', m_lease = ''l-1'', m_leaseUntil = 1700000030 * Second\<rparr>]\<rparr>\<rparr>) no_lease =
    (\<lparr>lr_Lease = ''l-1'', lr_Until = u, lr_Messages = [\<lparr>ms_ID = ''7'', ms_Seq = 3, ms_Body = [CHR 0x00, CHR 0xFF]\<rparr>]\<rparr>, True)"
  (is "\<exists>u. Unmarshal lease_lax (response_body ?z \<lparr>rs_status = 200, rs_payload = LeaseObject \<lparr>l_ID = ?i, l_Until = ?t, l_Messages = ?ms\<rparr>\<rparr>) no_lease = _")
proof -
  have v: "valid_utf8 ''7''" "valid_utf8 ''e1''" "valid_utf8 ''st''" "valid_utf8 c2s" "valid_utf8 ''l-1''" by (rule valid_utf8_ascii; simp add: in_range_def)+
  have "\<forall>m \<in> set ?ms. valid_utf8 (m_ID m) \<and> valid_utf8 (m_Estate m) \<and> valid_utf8 (m_Station m) \<and> valid_utf8 (m_Dir m) \<and> 0 \<le> m_At m \<and> m_At m \<le> horizon"
    using v by (simp add: horizon_def duration_defs)
  from collection_read_back [OF this _ v(5), of ?z ?t] show ?thesis by simp
qed

end
