(* ===== verification/Relay_Verify.thy ===== *)
theory Relay_Verify
  imports Go_Base64 Relay_Auth
begin

text \<open>
  The verification key of authorisation leases, \<^verbatim>\<open>src/verify.go\<close>: reading it from the configuration and the verifier made
  of it. The signature scheme itself, \<^verbatim>\<open>crypto/ed25519.Verify\<close>, is the parameter \<open>ed\<close>: key, message and signature to
  a verdict. Nothing is assumed of it.
\<close>

section \<open>Definitions\<close>

definition PublicKeySize :: nat where "PublicKeySize = 32"
definition PrivateKeySize :: nat where "PrivateKeySize = 64"
definition SignatureSize :: nat where "SignatureSize = 64"

type_synonym ed25519 = "bytes \<Rightarrow> bytes \<Rightarrow> bytes \<Rightarrow> bool"
type_synonym verifier = "string \<Rightarrow> string \<Rightarrow> bool"

definition Ed25519Verifier :: "ed25519 \<Rightarrow> bytes \<Rightarrow> verifier" where
  "Ed25519Verifier ed pub =
     (if length pub \<noteq> PublicKeySize then (\<lambda>_ _. False)
      else (\<lambda>payload signature. if length signature \<noteq> SignatureSize then False else ed pub payload signature))"

definition isHex :: "string \<Rightarrow> bool" where
  "isHex s \<longleftrightarrow> list_all (\<lambda>c. (CHR ''0'' \<le> c \<and> c \<le> CHR ''9'') \<or> (CHR ''a'' \<le> c \<and> c \<le> CHR ''f'') \<or>
     (CHR ''A'' \<le> c \<and> c \<le> CHR ''F'')) s"

text \<open>\<^verbatim>\<open>hex.DecodeString\<close> on a string of hexadecimal digits: an odd one at the end is an error.\<close>

definition nibble :: "char \<Rightarrow> nat" where
  "nibble c = (if ord c \<le> 57 then ord c - 48 else if ord c \<le> 70 then ord c - 55 else ord c - 87)"

fun hex_decode :: "string \<Rightarrow> bytes option" where
  "hex_decode [] = Some []"
| "hex_decode [a] = None"
| "hex_decode (a # b # rest) = map_option (Cons (byte (nibble a * 16 + nibble b))) (hex_decode rest)"

datatype key_error = NoKeyConfigured | NotHexOrBase64 | PrivateKeyGiven | WrongKeySize nat

definition ParseEd25519PublicKey :: "string \<Rightarrow> key_error + bytes" where
  "ParseEd25519PublicKey s0 =
     (let s = TrimSpace s0
      in if s = '''' then Inl NoKeyConfigured
         else case (if length s = PublicKeySize * 2 \<and> isHex s then hex_decode s
                    else (case StdEncoding_Decode s of Some raw \<Rightarrow> Some raw | None \<Rightarrow> RawURLEncoding_Decode s)) of
                None \<Rightarrow> Inl NotHexOrBase64
              | Some raw \<Rightarrow>
                  if length raw = PrivateKeySize then Inl PrivateKeyGiven
                  else if length raw \<noteq> PublicKeySize then Inl (WrongKeySize (length raw))
                  else Inr raw)"

section \<open>Lemmas\<close>

lemma b64_encode_chars: "set (b64_encode url pad bs) \<subseteq> set (b64_alphabet url) \<union> {CHR ''=''}"
proof -
  have c: "n < 64 \<Longrightarrow> b64_char url n \<in> set (b64_alphabet url)" for url n
    unfolding b64_char_def by (rule nth_mem) (simp add: b64_alphabet_def)
  show ?thesis
    by (induction url pad bs rule: b64_encode.induct) (auto simp: c sextet_bounds)
qed

lemma TrimSpace_b64: "TrimSpace (b64_encode url pad bs) = b64_encode url pad bs"
proof (rule TrimSpace_id)
  have "\<forall>c \<in> set (b64_alphabet url) \<union> {CHR ''=''}. c \<notin> set (concat space_runes)"
    by (cases url) (simp_all add: b64_alphabet_def space_runes_def)
  then show "\<forall>c \<in> set (b64_encode url pad bs). c \<notin> set (concat space_runes)"
    using b64_encode_chars by blast
qed

lemma encode_length_pad: "length (b64_encode url True bs) = 4 * ((length bs + 2) div 3)"
proof (induction url True bs rule: b64_encode.induct)
  case (4 url a b c rest)
  have "(length (a # b # c # rest) + 2) div 3 = (length rest + 2) div 3 + 1" by simp
  moreover have "length (b64_encode url True (a # b # c # rest)) = 4 + 4 * ((length rest + 2) div 3)" using 4 by simp
  ultimately show ?case by (simp only: distrib_left mult_1_right)
qed simp_all

lemma encode_length_raw: "length (b64_encode url False bs) = (4 * length bs + 2) div 3"
proof (induction url False bs rule: b64_encode.induct)
  case (4 url a b c rest)
  have "(4 * length rest + 14) div 3 = (4 * length rest + 2) div 3 + 4" by presburger
  with 4 show ?case by simp
qed simp_all

lemma groups_pad_length: "b64_groups url True s = Some bs \<Longrightarrow> length s mod 4 = 0"
  by (induction url True s arbitrary: bs rule: b64_groups.induct) (auto split: if_splits option.splits)

definition hex_good :: "nat \<Rightarrow> bool" where
  "hex_good n \<longleftrightarrow> nibble (digit_char n) = n \<and> isHex [digit_char n] \<and> digit_char n \<notin> set (concat space_runes)"

lemma hex_table: "list_all hex_good [0..<16]"
  by code_simp

lemma hex_digits:
  assumes "n < 16"
  shows "nibble (digit_char n) = n" "isHex [digit_char n]" "digit_char n \<notin> set (concat space_runes)"
proof -
  have "hex_good n" using hex_table assms by (simp add: list_all_iff)
  then show "nibble (digit_char n) = n" "isHex [digit_char n]" "digit_char n \<notin> set (concat space_runes)"
    unfolding hex_good_def by blast+
qed

lemma ord_parts: "ord c div 16 < 16" "ord c mod 16 < 16" "ord c div 16 * 16 + ord c mod 16 = ord c"
  using parts_less by simp_all

lemma hex_encode_facts:
  "hex_decode (hex_encode bs) = Some bs" "length (hex_encode bs) = 2 * length bs" "isHex (hex_encode bs)"
  "\<forall>c \<in> set (hex_encode bs). c \<notin> set (concat space_runes)"
proof -
  note d = hex_digits [OF ord_parts(1)] hex_digits [OF ord_parts(2)]
  have step: "hex_encode (c # cs) = digit_char (ord c div 16) # digit_char (ord c mod 16) # hex_encode cs" for c cs
    by (simp add: hex_encode_def ord_def)
  have nil: "hex_encode [] = []" by (simp add: hex_encode_def)
  show "hex_decode (hex_encode bs) = Some bs" by (induction bs) (simp_all add: step nil d ord_parts)
  show "length (hex_encode bs) = 2 * length bs" by (induction bs) (simp_all add: step nil)
  show "isHex (hex_encode bs)" using d by (induction bs) (simp_all add: step nil isHex_def)
  show "\<forall>c \<in> set (hex_encode bs). c \<notin> set (concat space_runes)"
    using d by (induction bs) (simp_all add: step nil del: set_concat)
qed

lemma hex_decode_length: "hex_decode s = Some bs \<Longrightarrow> length s = 2 * length bs"
  by (induction s arbitrary: bs rule: hex_decode.induct) auto

section \<open>Properties\<close>

text \<open>
  The configured key is read in all three spellings. For every 32-byte key, its
  hexadecimal, standard base64 and unpadded URL base64 texts all parse to that key.
\<close>

theorem key_spellings:
  assumes "length k = PublicKeySize"
  shows "ParseEd25519PublicKey (hex_encode k) = Inr k \<and> ParseEd25519PublicKey (StdEncoding_Encode k) = Inr k \<and>
    ParseEd25519PublicKey (RawURLEncoding_Encode k) = Inr k"
proof -
  have k: "length k = 32" using assms by (simp add: PublicKeySize_def)
  have std: "length (StdEncoding_Encode k) = 44" "length (RawURLEncoding_Encode k) = 43"
    using k by (simp_all add: encode_length_pad encode_length_raw)
  have "StdEncoding_Decode (RawURLEncoding_Encode k) = None"
  proof (rule ccontr)
    assume "StdEncoding_Decode (RawURLEncoding_Encode k) \<noteq> None"
    then obtain bs where "b64_groups False True (filter (\<lambda>c. c \<noteq> CHR 0x0A \<and> c \<noteq> CHR 0x0D) (RawURLEncoding_Encode k)) = Some bs"
      by (auto simp: b64_decode_def)
    moreover have "filter (\<lambda>c. c \<noteq> CHR 0x0A \<and> c \<noteq> CHR 0x0D) (RawURLEncoding_Encode k) = RawURLEncoding_Encode k"
      using encode_clean by (auto simp: filter_id_conv)
    ultimately show False using groups_pad_length std(2) by fastforce
  qed
  note url = this
  have sizes: "length k \<noteq> PrivateKeySize" "length k = PublicKeySize" using k by (simp_all add: PrivateKeySize_def PublicKeySize_def)
  have hne: "hex_encode k \<noteq> ''''" using k hex_encode_facts(2) [of k] by auto
  have "ParseEd25519PublicKey (hex_encode k) = Inr k"
    using k sizes hex_encode_facts(2) [of k] hne unfolding ParseEd25519PublicKey_def Let_def TrimSpace_id [OF hex_encode_facts(4)]
    by (auto simp: hex_encode_facts(1-3) PublicKeySize_def)
  moreover have "ParseEd25519PublicKey (StdEncoding_Encode k) = Inr k"
    using sizes std(1) unfolding ParseEd25519PublicKey_def Let_def TrimSpace_b64
    by (auto simp: b64_roundtrip PublicKeySize_def)
  moreover have "ParseEd25519PublicKey (RawURLEncoding_Encode k) = Inr k"
    using sizes std(2) url unfolding ParseEd25519PublicKey_def Let_def TrimSpace_b64
    by (auto simp: b64_roundtrip PublicKeySize_def)
  ultimately show ?thesis by blast
qed

definition sample_key :: bytes where "sample_key = replicate 32 (CHR ''k'')"

theorem key_spellings_witness:
  "ParseEd25519PublicKey (hex_encode sample_key) = Inr sample_key"
  using key_spellings [of sample_key] by (simp add: sample_key_def PublicKeySize_def)

text \<open>
  A misconfigured key never widens what is trusted. Whatever text is configured, either
  it parses to exactly 32 bytes or it is an error, a 64-byte private key is never accepted, and a verifier made of bytes
  of any other length, or shown a signature that is not 64 bytes, refuses.
\<close>

theorem verifier_fails_closed:
  "(case ParseEd25519PublicKey s of Inl _ \<Rightarrow> True | Inr k \<Rightarrow> length k = 32) \<and>
   (length pub \<noteq> 32 \<or> length signature \<noteq> 64 \<longrightarrow> \<not> Ed25519Verifier ed pub payload signature)"
  by (auto simp: ParseEd25519PublicKey_def Let_def PublicKeySize_def SignatureSize_def Ed25519Verifier_def
      split: option.splits)

theorem verifier_fails_closed_witness:
  "\<not> Ed25519Verifier (\<lambda>_ _ _. True) ''short'' ''payload'' (replicate 64 (CHR ''s''))"
  using verifier_fails_closed [of "''''" "''short''" "replicate 64 (CHR ''s'')" "\<lambda>_ _ _. True" "''payload''"] by simp

end
