(* ===== verification/Relay_Scope.thy ===== *)
theory Relay_Scope
  imports Relay_Auth
begin

text \<open>
  Per-station authorisation, \<^verbatim>\<open>src/scope.go\<close>: \<open>scoped_auth\<close> holds one scope per credential digest,
  \<open>ScopedAuth_Admit\<close> enforces it, \<open>Hosted_Admit\<close> wraps any authoriser and refuses what is not
  scoped to named stations, and \<open>ParseStationScopes\<close> reads the configuration string. The
  lemmas show that what is admitted is exactly what the entries of the configuration list, when
  every credential stays within one estate, and what happens when one does not.
\<close>

section \<open>Definitions\<close>

subsection \<open>ScopedAuth\<close>

record scoped_auth =
  sca_scope :: "(digest, scope) gomap"

definition NewScopedAuth :: scoped_auth where
  "NewScopedAuth = \<lparr>sca_scope = []\<rparr>"

definition ScopedAuth_Add :: "sha \<Rightarrow> string \<Rightarrow> scope \<Rightarrow> scoped_auth \<Rightarrow> scoped_auth" where
  "ScopedAuth_Add sha credential s a = a\<lparr>sca_scope := AList.update (sha credential) s (sca_scope a)\<rparr>"

definition ScopedAuth_Remove :: "sha \<Rightarrow> string \<Rightarrow> scoped_auth \<Rightarrow> scoped_auth" where
  "ScopedAuth_Remove sha credential a = a\<lparr>sca_scope := AList.delete (sha credential) (sca_scope a)\<rparr>"

definition ScopedAuth_Scope :: "sha \<Rightarrow> scoped_auth \<Rightarrow> string \<Rightarrow> scope \<times> bool" where
  "ScopedAuth_Scope sha a credential =
     (case map_of (sca_scope a) (sha credential) of
        None \<Rightarrow> (zero_scope, False) | Some s \<Rightarrow> (s, True))"

definition ScopedAuth_Admit :: "sha \<Rightarrow> scoped_auth admit" where
  "ScopedAuth_Admit sha a req =
     (if r_Credential req = '''' then (refusal ReasonNoCredential, a)
      else let (s, known) = ScopedAuth_Scope sha a (r_Credential req)
           in if \<not> known then (refusal ReasonBadCredential, a)
              else if permits s (r_Estate req) (r_Station req) (r_Dir req) (r_Op req)
              then (allowing s, a)
              else (refusal ReasonOutOfScope, a))"

subsection \<open>Hosted\<close>

definition Hosted_Admit :: "'st admit \<Rightarrow> 'st admit" where
  "Hosted_Admit inner st req =
     (let (g, st') = inner st req
      in if \<not> g_Allow g \<or> stationScoped (g_Scope g) then (g, st')
         else (zero_grant\<lparr>g_Reason := ReasonEstateWide,
                 g_Detail := (if sc_AllStations (g_Scope g)
                   then ''this tenant refuses estate-wide credentials, because one account may hold several customers''
                   else ''this tenant requires a credential scoped to named stations, and this grant named none'')\<rparr>,
               st'))"

subsection \<open>ParseStationScopes\<close>

datatype scope_error =
    NotFourParts string
  | LeavesEmpty string
  | BadRole string string
  | BothSides string string
  | NoScopes

text \<open>The directions a role reads and writes.\<close>

definition role_dirs :: "string \<Rightarrow> (string list \<times> string list) option" where
  "role_dirs role =
     (if role = ''station'' then Some ([c2s], [s2c])
      else if role = ''control'' then Some ([s2c], [c2s])
      else None)"

text \<open>
  The state of the loop: the authoriser being built, the roles seen for each credential and the
  number of entries read.
\<close>

record scope_loop =
  sl_auth :: scoped_auth
  sl_roles :: "(string, string list) gomap"
  sl_n :: nat

definition scope_entry :: "sha \<Rightarrow> scope_loop \<Rightarrow> string \<Rightarrow> scope_error + scope_loop" where
  "scope_entry sha l raw =
     (let entry = TrimSpace raw
      in if entry = '''' then Inr l
         else (case split_on (CHR '':'') entry of
           [estate, station, role, credential] \<Rightarrow>
             if estate = '''' \<or> station = '''' \<or> credential = '''' then Inl (LeavesEmpty entry)
             else (case role_dirs role of
               None \<Rightarrow> Inl (BadRole entry role)
             | Some (rd, wr) \<Rightarrow>
                 let seen = lookup_or [] (sl_roles l) credential
                 in (case find (\<lambda>other. other \<noteq> role) seen of
                   Some other \<Rightarrow> Inl (BothSides entry other)
                 | None \<Rightarrow>
                     let (s, known) = ScopedAuth_Scope sha (sl_auth l) credential;
                         s' = s\<lparr>sc_Estate := estate, sc_Read := rd, sc_Write := wr\<rparr>;
                         s'' = (if station \<in> set (sc_Stations s') then s'
                                else s'\<lparr>sc_Stations := sc_Stations s' @ [station]\<rparr>)
                     in Inr \<lparr>sl_auth = ScopedAuth_Add sha credential s'' (sl_auth l),
                             sl_roles = AList.update credential (List.insert role seen) (sl_roles l),
                             sl_n = Suc (sl_n l)\<rparr>))
         | _ \<Rightarrow> Inl (NotFourParts entry)))"

definition ParseStationScopes :: "sha \<Rightarrow> string \<Rightarrow> scope_error + scoped_auth" where
  "ParseStationScopes sha spec =
     (case fold_sum (scope_entry sha) \<lparr>sl_auth = NewScopedAuth, sl_roles = [], sl_n = 0\<rparr>
            (split_on (CHR '','') spec) of
        Inl e \<Rightarrow> Inl e
      | Inr l \<Rightarrow> if sl_n l = 0 then Inl NoScopes else Inr (sl_auth l))"

section \<open>ScopedAuth and Hosted meet the contracts\<close>

lemma ScopedAuth_Admit_state [simp]: "snd (ScopedAuth_Admit sha a req) = a"
  by (simp add: ScopedAuth_Admit_def Let_def split: prod.splits)

lemma ScopedAuth_Admit_allow:
  "g_Allow (fst (ScopedAuth_Admit sha a req)) \<longleftrightarrow>
   r_Credential req \<noteq> '''' \<and>
   (\<exists>s. map_of (sca_scope a) (sha (r_Credential req)) = Some s \<and>
        permits s (r_Estate req) (r_Station req) (r_Dir req) (r_Op req))"
  by (simp add: ScopedAuth_Admit_def ScopedAuth_Scope_def split: option.splits)

interpretation scoped: scoped_admission "ScopedAuth_Admit sha" for sha
  by unfold_locales
    (auto simp: ScopedAuth_Admit_def ScopedAuth_Scope_def split: option.splits if_splits)

lemma admission_Hosted:
  assumes "admission f"
  shows "admission (Hosted_Admit f)"
proof unfold_locales
  fix st req
  show "g_Allow (fst (Hosted_Admit f st req)) \<Longrightarrow> r_Credential req \<noteq> ''''"
    using admission.allow_needs_credential [OF assms, of st req]
    by (auto simp: Hosted_Admit_def zero_grant_def split: prod.splits if_splits)
  show "\<not> g_Allow (fst (Hosted_Admit f st req)) \<Longrightarrow> g_Reason (fst (Hosted_Admit f st req)) \<noteq> ReasonAllowed"
    using admission.refusal_has_reason [OF assms, of st req]
    by (auto simp: Hosted_Admit_def zero_grant_def split: prod.splits if_splits)
qed

lemma Hosted_allow:
  "g_Allow (fst (Hosted_Admit f st req)) \<longleftrightarrow>
   g_Allow (fst (f st req)) \<and> stationScoped (g_Scope (fst (f st req)))"
  "g_Allow (fst (Hosted_Admit f st req)) \<Longrightarrow> fst (Hosted_Admit f st req) = fst (f st req)"
  by (auto simp: Hosted_Admit_def zero_grant_def split: prod.splits if_splits)

lemma scoped_admission_Hosted:
  assumes "scoped_admission f"
  shows "scoped_admission (Hosted_Admit f)"
proof -
  have "admission f" using assms by (rule scoped_admission.axioms(1))
  then have adm: "admission (Hosted_Admit f)" by (rule admission_Hosted)
  show ?thesis
  proof (intro scoped_admission.intro adm scoped_admission_axioms.intro)
    fix st req
    assume a: "g_Allow (fst (Hosted_Admit f st req))"
    then have "g_Allow (fst (f st req))" by (simp add: Hosted_allow(1))
    then show "permits (g_Scope (fst (Hosted_Admit f st req)))
        (r_Estate req) (r_Station req) (r_Dir req) (r_Op req)"
      using scoped_admission.allow_within_scope [OF assms, of st req] by (simp add: Hosted_allow(2) [OF a])
  qed
qed

interpretation hosted_scoped: scoped_admission "Hosted_Admit (ScopedAuth_Admit sha)" for sha
  by (rule scoped_admission_Hosted) unfold_locales

interpretation hosted_static: scoped_admission "Hosted_Admit (FromAuth (AllowRead sha a) (AllowWrite sha a))" for sha a
  by (rule scoped_admission_Hosted) unfold_locales

section \<open>What a configuration grants\<close>

text \<open>
  The reference reading of a configuration: the set of its four-part entries, and what a role
  may do in a direction.
\<close>

definition entry_tuple :: "string \<Rightarrow> (string \<times> string \<times> string \<times> string) option" where
  "entry_tuple raw = (case split_on (CHR '':'') (TrimSpace raw) of
     [e, s, r, c] \<Rightarrow> Some (e, s, r, c) | _ \<Rightarrow> None)"

definition scope_cfg :: "string list \<Rightarrow> (string \<times> string \<times> string \<times> string) set" where
  "scope_cfg raws = {t. \<exists>raw \<in> set raws. entry_tuple raw = Some t}"

definition configured :: "string \<Rightarrow> (string \<times> string \<times> string \<times> string) set" where
  "configured spec = scope_cfg (split_on (CHR '','') spec)"

definition role_allows :: "string \<Rightarrow> string \<Rightarrow> string \<Rightarrow> bool" where
  "role_allows role dir op \<longleftrightarrow>
     (role = ''station'' \<and> (op = OpRead \<and> dir = c2s \<or> op = OpWrite \<and> dir = s2c)) \<or>
     (role = ''control'' \<and> (op = OpRead \<and> dir = s2c \<or> op = OpWrite \<and> dir = c2s))"

definition merge_scope :: "scope \<Rightarrow> string \<Rightarrow> string \<Rightarrow> string list \<Rightarrow> string list \<Rightarrow> scope" where
  "merge_scope sc e s rd wr = sc\<lparr>sc_Estate := e, sc_Read := rd, sc_Write := wr,
     sc_Stations := (if s \<in> set (sc_Stations sc) then sc_Stations sc else sc_Stations sc @ [s])\<rparr>"

lemma scope_entry_Inr:
  assumes "scope_entry sha l raw = Inr l'"
  obtains (blank) "entry_tuple raw = None" "l' = l"
  | (entry) e s r c rd wr where "entry_tuple raw = Some (e, s, r, c)" "e \<noteq> ''''" "s \<noteq> ''''" "c \<noteq> ''''"
      "role_dirs r = Some (rd, wr)" "\<forall>r' \<in> set (lookup_or [] (sl_roles l) c). r' = r"
      "l' = \<lparr>sl_auth = ScopedAuth_Add sha c
               (merge_scope (fst (ScopedAuth_Scope sha (sl_auth l) c)) e s rd wr) (sl_auth l),
             sl_roles = AList.update c (List.insert r (lookup_or [] (sl_roles l) c)) (sl_roles l),
             sl_n = Suc (sl_n l)\<rparr>"
proof (cases "TrimSpace raw = ''''")
  case True
  with assms show ?thesis by (intro blank) (auto simp: scope_entry_def entry_tuple_def)
next
  case False
  with assms obtain e s r c where sp: "split_on (CHR '':'') (TrimSpace raw) = [e, s, r, c]"
    by (auto simp: scope_entry_def Let_def split: list.splits)
  with assms False obtain rd wr where rd: "role_dirs r = Some (rd, wr)" "e \<noteq> ''''" "s \<noteq> ''''" "c \<noteq> ''''"
    by (auto simp: scope_entry_def Let_def split: if_splits option.splits)
  from assms False sp rd have f: "find (\<lambda>other. other \<noteq> r) (lookup_or [] (sl_roles l) c) = None"
    by (auto simp: scope_entry_def Let_def split: option.splits)
  show ?thesis
  proof (rule entry [OF _ rd(2-4) rd(1)])
    show "entry_tuple raw = Some (e, s, r, c)" by (simp add: entry_tuple_def sp)
    show "\<forall>r' \<in> set (lookup_or [] (sl_roles l) c). r' = r" using f by (auto simp: find_None_iff)
    show "l' = \<lparr>sl_auth = ScopedAuth_Add sha c
               (merge_scope (fst (ScopedAuth_Scope sha (sl_auth l) c)) e s rd wr) (sl_auth l),
             sl_roles = AList.update c (List.insert r (lookup_or [] (sl_roles l) c)) (sl_roles l),
             sl_n = Suc (sl_n l)\<rparr>"
      using assms False sp rd f
      by (auto simp: scope_entry_def Let_def merge_scope_def split: prod.splits)
  qed
qed

lemma scope_cfg_snoc:
  "scope_cfg (ys @ [y]) = scope_cfg ys \<union> (case entry_tuple y of None \<Rightarrow> {} | Some t \<Rightarrow> {t})"
  by (auto simp: scope_cfg_def split: option.splits)

text \<open>The roles the loop has seen are those of the entries read so far, one per credential.\<close>

definition roles_inv :: "(string \<times> string \<times> string \<times> string) set \<Rightarrow> (string, string list) gomap \<Rightarrow> bool" where
  "roles_inv C roles \<longleftrightarrow>
     (\<forall>c. set (lookup_or [] roles c) = {r. \<exists>e s. (e, s, r, c) \<in> C}) \<and>
     (\<forall>e s r c. (e, s, r, c) \<in> C \<longrightarrow> e \<noteq> '''' \<and> s \<noteq> '''' \<and> c \<noteq> '''' \<and> role_dirs r \<noteq> None) \<and>
     (\<forall>e s r e' s' r' c. (e, s, r, c) \<in> C \<longrightarrow> (e', s', r', c) \<in> C \<longrightarrow> r = r')"

lemma roles_inv_loop:
  assumes "fold_sum (scope_entry sha) \<lparr>sl_auth = A, sl_roles = [], sl_n = 0\<rparr> raws = Inr l"
  shows "roles_inv (scope_cfg raws) (sl_roles l)"
  using assms
proof (induction rule: fold_sum_invariant)
  case init
  then show ?case by (simp add: roles_inv_def scope_cfg_def)
next
  case (step ys y t t')
  from step(4) show ?case
  proof (cases rule: scope_entry_Inr)
    case blank
    with step show ?thesis by (simp add: scope_cfg_snoc)
  next
    case (entry e s r c rd wr)
    with step(5) have "\<forall>e' s' r'. (e', s', r', c) \<in> scope_cfg ys \<longrightarrow> r' = r"
      by (auto simp: roles_inv_def)
    with entry step(5) show ?thesis
      unfolding roles_inv_def scope_cfg_snoc by (simp add: set_insert) blast
  qed
qed

text \<open>
  The scope the loop has stored for a credential: exactly the stations its entries list, and the
  estate and directions of each of them, provided they agree on the estate.
\<close>

definition scope_of :: "(string \<times> string \<times> string \<times> string) set \<Rightarrow> string \<Rightarrow> scope option \<Rightarrow> bool" where
  "scope_of C c so \<longleftrightarrow>
     (case so of
        None \<Rightarrow> \<forall>e s r. (e, s, r, c) \<notin> C
      | Some sc \<Rightarrow> (\<exists>e s r. (e, s, r, c) \<in> C) \<and> \<not> sc_AllStations sc \<and>
          set (sc_Stations sc) = {s. \<exists>e r. (e, s, r, c) \<in> C} \<and>
          (\<forall>e s r. (e, s, r, c) \<in> C \<longrightarrow> sc_Estate sc = e \<and> role_dirs r = Some (sc_Read sc, sc_Write sc)))"

lemma scope_of_merge:
  assumes "scope_of C c so" "role_dirs r = Some (rd, wr)"
    and "\<forall>e' s' r'. (e', s', r', c) \<in> C \<longrightarrow> e' = e \<and> r' = r"
  shows "scope_of (C \<union> {(e, s, r, c)}) c
    (Some (merge_scope (case so of None \<Rightarrow> zero_scope | Some sc \<Rightarrow> sc) e s rd wr))"
proof (cases so)
  case None
  with assms show ?thesis by (auto simp: scope_of_def merge_scope_def zero_scope_def)
next
  case (Some sc)
  with assms show ?thesis by (auto simp: scope_of_def merge_scope_def)
qed

lemma scopes_loop:
  assumes run: "fold_sum (scope_entry sha) \<lparr>sl_auth = NewScopedAuth, sl_roles = [], sl_n = 0\<rparr> raws = Inr l"
    and inj: "inj_on sha (insert cred {c. \<exists>e s r. (e, s, r, c) \<in> scope_cfg raws})"
    and one: "\<And>e s r c e' s' r'. (e, s, r, c) \<in> scope_cfg raws \<Longrightarrow> (e', s', r', c) \<in> scope_cfg raws \<Longrightarrow> e = e'"
  shows "scope_of (scope_cfg raws) cred (map_of (sca_scope (sl_auth l)) (sha cred))"
  using run
proof (induction rule: fold_sum_invariant)
  case init
  then show ?case by (simp add: scope_of_def scope_cfg_def NewScopedAuth_def)
next
  case (step ys y t t')
  from step(4) show ?case
  proof (cases rule: scope_entry_Inr)
    case blank
    with step show ?thesis by (simp add: scope_cfg_snoc)
  next
    case (entry e s r c rd wr)
    let ?so = "map_of (sca_scope (sl_auth t)) (sha cred)"
    have sub: "scope_cfg (ys @ [y]) \<subseteq> scope_cfg raws"
      using step(2,3) by (auto simp: scope_cfg_def)
    have cfg: "scope_cfg (ys @ [y]) = scope_cfg ys \<union> {(e, s, r, c)}"
      using entry by (simp add: scope_cfg_snoc)
    show ?thesis
    proof (cases "c = cred")
      case True
      have "e' = e \<and> r' = r" if "(e', s', r', c) \<in> scope_cfg ys" for e' s' r'
      proof
        show "e' = e" using that one sub cfg by blast
        have "r' \<in> set (lookup_or [] (sl_roles t) c)"
          using roles_inv_loop [OF step(1)] that by (auto simp: roles_inv_def)
        with entry show "r' = r" by blast
      qed
      then have "scope_of (scope_cfg ys \<union> {(e, s, r, cred)}) cred
          (Some (merge_scope (case ?so of None \<Rightarrow> zero_scope | Some sc \<Rightarrow> sc) e s rd wr))"
        using True by (intro scope_of_merge [OF step(5) entry(5)]) auto
      with True entry(7) show ?thesis
        by (auto simp: cfg ScopedAuth_Add_def ScopedAuth_Scope_def update_conv split: option.splits)
    next
      case False
      have "c \<in> {c. \<exists>e s r. (e, s, r, c) \<in> scope_cfg raws}" using sub cfg by blast
      then have "sha c \<noteq> sha cred" using inj_onD [OF inj, of c cred] False by blast
      with False step(5) entry(7) show ?thesis
        by (auto simp: cfg ScopedAuth_Add_def update_conv scope_of_def split: option.splits)
    qed
  qed
qed

lemma role_dirs_allows:
  "role_dirs r = Some (rd, wr) \<Longrightarrow>
   role_allows r d op \<longleftrightarrow> (op = OpRead \<and> d \<in> set rd) \<or> (op = OpWrite \<and> d \<in> set wr)"
  by (auto simp: role_dirs_def role_allows_def split: if_splits)

lemma role_allows_validDir: "role_allows r d op \<Longrightarrow> validDir d"
  by (auto simp: role_allows_def validDir_def)

lemma scope_of_permits:
  assumes so: "scope_of C c (Some sc)" and ne: "\<And>e s r c. (e, s, r, c) \<in> C \<Longrightarrow> e \<noteq> '''' \<and> s \<noteq> ''''"
    and one: "\<And>e s r e' s' r'. (e, s, r, c) \<in> C \<Longrightarrow> (e', s', r', c) \<in> C \<Longrightarrow> r = r'"
  shows "permits sc e s d op \<longleftrightarrow> (\<exists>r. (e, s, r, c) \<in> C \<and> role_allows r d op)"
proof -
  obtain e0 s0 r0 where m: "(e0, s0, r0, c) \<in> C" and est: "sc_Estate sc = e0"
    and rd: "role_dirs r0 = Some (sc_Read sc, sc_Write sc)"
    using so by (auto simp: scope_of_def)
  have C: "(e, s, r, c) \<in> C \<longleftrightarrow> e = e0 \<and> r = r0 \<and> s \<in> set (sc_Stations sc)" for e s r
    using so m one est unfolding scope_of_def option.case mem_Collect_eq by blast
  have "e0 \<noteq> ''''" "s \<in> set (sc_Stations sc) \<Longrightarrow> s \<noteq> ''''" for s
    using ne m C by blast+
  then show ?thesis
    using so est role_dirs_allows [OF rd, of d op] role_allows_validDir [of r0 d op]
    by (auto simp: permits_def C scope_of_def)
qed

text \<open>
  Property C19. A per-station configuration grants exactly what it lists. When the configuration
  string parses, the hash does not confuse the presented credential with a configured one, and
  each credential is listed under one estate only, the authoriser admits a request exactly when
  some entry names that estate, station and credential with a role that may do that operation in
  that direction. Nothing is permitted by omission.
\<close>

theorem parse_scopes_exact:
  assumes "ParseStationScopes sha spec = Inr a"
    and "inj_on sha (insert (r_Credential req) {c. \<exists>e s r. (e, s, r, c) \<in> configured spec})"
    and "\<And>e s r c e' s' r'. (e, s, r, c) \<in> configured spec \<Longrightarrow> (e', s', r', c) \<in> configured spec \<Longrightarrow> e = e'"
  shows "g_Allow (fst (ScopedAuth_Admit sha a req)) \<longleftrightarrow>
    (\<exists>role. (r_Estate req, r_Station req, role, r_Credential req) \<in> configured spec \<and>
            role_allows role (r_Dir req) (r_Op req))"
proof -
  let ?raws = "split_on (CHR '','') spec" and ?c = "r_Credential req"
  obtain l where l: "fold_sum (scope_entry sha) \<lparr>sl_auth = NewScopedAuth, sl_roles = [], sl_n = 0\<rparr> ?raws = Inr l"
    and a: "a = sl_auth l"
    using assms(1) by (auto simp: ParseStationScopes_def split: sum.splits if_splits)
  have so: "scope_of (configured spec) ?c (map_of (sca_scope a) (sha ?c))"
    unfolding configured_def a
    using assms(2,3) by (intro scopes_loop [OF l]) (simp_all add: configured_def)
  have inv: "roles_inv (configured spec) (sl_roles l)"
    unfolding configured_def by (rule roles_inv_loop [OF l])
  show ?thesis
  proof (cases "map_of (sca_scope a) (sha ?c)")
    case None
    with so show ?thesis by (auto simp: ScopedAuth_Admit_allow scope_of_def)
  next
    case (Some sc)
    obtain e s r where "(e, s, r, ?c) \<in> configured spec" using so Some by (auto simp: scope_of_def)
    with inv have "?c \<noteq> ''''" unfolding roles_inv_def by blast
    then show ?thesis
      using Some scope_of_permits [OF so [unfolded Some]] inv
      unfolding ScopedAuth_Admit_allow roles_inv_def by auto
  qed
qed

definition sample_spec :: string where
  "sample_spec = ''e1:pump:station:S, e1:pump:control:K, e1:till:control:K''"

lemma sample_spec_configured:
  "configured sample_spec = {(''e1'', ''pump'', ''station'', ''S''),
     (''e1'', ''pump'', ''control'', ''K''), (''e1'', ''till'', ''control'', ''K'')}"
proof -
  have raws: "split_on (CHR '','') sample_spec =
      [''e1:pump:station:S'', '' e1:pump:control:K'', '' e1:till:control:K'']"
    by code_simp
  have "entry_tuple ''e1:pump:station:S'' = Some (''e1'', ''pump'', ''station'', ''S'')"
    "entry_tuple '' e1:pump:control:K'' = Some (''e1'', ''pump'', ''control'', ''K'')"
    "entry_tuple '' e1:till:control:K'' = Some (''e1'', ''till'', ''control'', ''K'')"
    by code_simp+
  then show ?thesis by (auto simp: configured_def scope_cfg_def raws)
qed

lemma sample_spec_parses: "\<exists>a. ParseStationScopes sample_sha sample_spec = Inr a"
proof -
  have "case ParseStationScopes sample_sha sample_spec of Inl _ \<Rightarrow> False | Inr _ \<Rightarrow> True"
    by code_simp
  then show ?thesis by (auto split: sum.splits)
qed

theorem parse_scopes_exact_witness:
  "\<exists>a. ParseStationScopes sample_sha sample_spec = Inr a \<and>
     g_Allow (fst (ScopedAuth_Admit sample_sha a
       \<lparr>r_Credential = ''K'', r_Estate = ''e1'', r_Station = ''till'', r_Dir = c2s, r_Op = OpWrite,
        r_Bytes = 0, r_At = 0\<rparr>))"
proof -
  obtain a where a: "ParseStationScopes sample_sha sample_spec = Inr a"
    using sample_spec_parses by blast
  let ?req = "\<lparr>r_Credential = ''K'', r_Estate = ''e1'', r_Station = ''till'', r_Dir = c2s,
    r_Op = OpWrite, r_Bytes = 0, r_At = 0\<rparr>"
  have creds: "{c. \<exists>e s r. (e, s, r, c) \<in> configured sample_spec} = {''S'', ''K''}"
    unfolding sample_spec_configured by blast
  have inj: "inj_on sample_sha (insert (r_Credential ?req) {c. \<exists>e s r. (e, s, r, c) \<in> configured sample_spec})"
    unfolding creds by code_simp
  have one: "e = e'" if "(e, s, r, c) \<in> configured sample_spec" "(e', s', r', c) \<in> configured sample_spec"
    for e s r c e' s' r'
    using that unfolding sample_spec_configured by auto
  have "(''e1'', ''till'', ''control'', ''K'') \<in> configured sample_spec"
    unfolding sample_spec_configured by blast
  moreover have "role_allows ''control'' c2s OpWrite" by (simp add: role_allows_def)
  ultimately have "g_Allow (fst (ScopedAuth_Admit sample_sha a ?req))"
    using parse_scopes_exact [OF a inj one] by auto
  with a show ?thesis by blast
qed

text \<open>
  Property C39. One credential listed under two estates is merged into a scope nobody configured:
  the last entry's estate replaces the first one's while the stations accumulate. For the
  concrete configuration below the credential is admitted to a station of the second estate that
  no entry lists, and refused at the station of the first estate that an entry does list.
\<close>

theorem two_estates_merge:
  "\<exists>a. ParseStationScopes sample_sha ''eA:pump:control:K,eB:till:control:K'' = Inr a \<and>
     g_Allow (fst (ScopedAuth_Admit sample_sha a
       \<lparr>r_Credential = ''K'', r_Estate = ''eB'', r_Station = ''pump'', r_Dir = c2s, r_Op = OpWrite,
        r_Bytes = 0, r_At = 0\<rparr>)) \<and>
     \<not> g_Allow (fst (ScopedAuth_Admit sample_sha a
       \<lparr>r_Credential = ''K'', r_Estate = ''eA'', r_Station = ''pump'', r_Dir = c2s, r_Op = OpWrite,
        r_Bytes = 0, r_At = 0\<rparr>))"
proof -
  have "case ParseStationScopes sample_sha ''eA:pump:control:K,eB:till:control:K'' of
      Inl _ \<Rightarrow> False
    | Inr a \<Rightarrow> g_Allow (fst (ScopedAuth_Admit sample_sha a
         \<lparr>r_Credential = ''K'', r_Estate = ''eB'', r_Station = ''pump'', r_Dir = c2s, r_Op = OpWrite,
          r_Bytes = 0, r_At = 0\<rparr>)) \<and>
       \<not> g_Allow (fst (ScopedAuth_Admit sample_sha a
         \<lparr>r_Credential = ''K'', r_Estate = ''eA'', r_Station = ''pump'', r_Dir = c2s, r_Op = OpWrite,
          r_Bytes = 0, r_At = 0\<rparr>))"
    by code_simp
  then show ?thesis by (auto split: sum.splits)
qed

text \<open>
  A configuration in which one credential would be both sides is refused: when
  parsing succeeds, all entries of a credential carry the same role, and that role is one of
  control and station.
\<close>

theorem parse_scopes_one_side:
  assumes "ParseStationScopes sha spec = Inr a"
    and "(e, s, r, c) \<in> configured spec" "(e', s', r', c) \<in> configured spec"
  shows "r = r' \<and> (r = ''control'' \<or> r = ''station'')"
proof -
  obtain l where "fold_sum (scope_entry sha) \<lparr>sl_auth = NewScopedAuth, sl_roles = [], sl_n = 0\<rparr>
      (split_on (CHR '','') spec) = Inr l"
    using assms(1) by (auto simp: ParseStationScopes_def split: sum.splits if_splits)
  from roles_inv_loop [OF this] assms(2,3) have "r = r'" "role_dirs r \<noteq> None"
    unfolding roles_inv_def configured_def by blast+
  then show ?thesis by (auto simp: role_dirs_def split: if_splits)
qed

theorem parse_scopes_one_side_witness:
  "\<exists>a. ParseStationScopes sample_sha sample_spec = Inr a \<and>
     (''control'' = ''control'' \<and> (''control'' = ''control'' \<or> ''control'' = ''station''))"
proof -
  obtain a where a: "ParseStationScopes sample_sha sample_spec = Inr a"
    using sample_spec_parses by blast
  have "''control'' = ''control'' \<and> (''control'' = ''control'' \<or> ''control'' = ''station'')"
    by (rule parse_scopes_one_side [OF a, of "''e1''" "''pump''" _ "''K''" "''e1''" "''till''"])
      (simp_all add: sample_spec_configured)
  with a show ?thesis by blast
qed

text \<open>
  A hosted tenant isolates stations. Whatever a hosted per-station authoriser
  allows is allowed by a scope with named stations that contains the requested one, within the
  requested estate; an allow that names no stations, or all of them, becomes an
  estate-wide-credential refusal with status 401.
\<close>

theorem hosted_isolation:
  "(g_Allow (fst (Hosted_Admit (ScopedAuth_Admit sha) a req)) \<longrightarrow>
      (\<exists>sc. map_of (sca_scope a) (sha (r_Credential req)) = Some sc \<and>
        sc_Estate sc = r_Estate req \<and> r_Station req \<in> set (sc_Stations sc) \<and> \<not> sc_AllStations sc)) \<and>
   (g_Allow (fst (ScopedAuth_Admit sha a req)) \<and>
      \<not> g_Allow (fst (Hosted_Admit (ScopedAuth_Admit sha) a req)) \<longrightarrow>
      g_Reason (fst (Hosted_Admit (ScopedAuth_Admit sha) a req)) = ReasonEstateWide \<and>
      reason_status (g_Reason (fst (Hosted_Admit (ScopedAuth_Admit sha) a req))) = 401)"
proof (intro conjI impI)
  assume h: "g_Allow (fst (Hosted_Admit (ScopedAuth_Admit sha) a req))"
  then have al: "g_Allow (fst (ScopedAuth_Admit sha a req))"
    and ss: "stationScoped (g_Scope (fst (ScopedAuth_Admit sha a req)))"
    by (simp_all add: Hosted_allow(1))
  from al obtain sc where sc: "map_of (sca_scope a) (sha (r_Credential req)) = Some sc"
    and pm: "permits sc (r_Estate req) (r_Station req) (r_Dir req) (r_Op req)"
    and c: "r_Credential req \<noteq> ''''"
    by (auto simp: ScopedAuth_Admit_allow)
  then have "g_Scope (fst (ScopedAuth_Admit sha a req)) = sc"
    by (simp add: ScopedAuth_Admit_def ScopedAuth_Scope_def)
  with ss pm sc show "\<exists>sc. map_of (sca_scope a) (sha (r_Credential req)) = Some sc \<and>
      sc_Estate sc = r_Estate req \<and> r_Station req \<in> set (sc_Stations sc) \<and> \<not> sc_AllStations sc"
    by (auto simp: permits_def stationScoped_def split: if_splits)
next
  assume "g_Allow (fst (ScopedAuth_Admit sha a req)) \<and>
    \<not> g_Allow (fst (Hosted_Admit (ScopedAuth_Admit sha) a req))"
  then show "g_Reason (fst (Hosted_Admit (ScopedAuth_Admit sha) a req)) = ReasonEstateWide"
    and "reason_status (g_Reason (fst (Hosted_Admit (ScopedAuth_Admit sha) a req))) = 401"
    by (auto simp: Hosted_Admit_def zero_grant_def reason_status_def split: prod.splits if_splits)
qed

theorem hosted_isolation_witness:
  "\<exists>a req. g_Allow (fst (Hosted_Admit (ScopedAuth_Admit sample_sha) a req)) \<and>
     (\<exists>sc. map_of (sca_scope a) (sample_sha (r_Credential req)) = Some sc \<and> r_Station req \<in> set (sc_Stations sc))"
proof -
  let ?sc = "\<lparr>sc_Estate = ''e1'', sc_Stations = [''pump''], sc_AllStations = False, sc_Read = [c2s], sc_Write = [s2c]\<rparr>"
  let ?a = "ScopedAuth_Add sample_sha ''S'' ?sc NewScopedAuth"
  let ?req = "\<lparr>r_Credential = ''S'', r_Estate = ''e1'', r_Station = ''pump'', r_Dir = c2s, r_Op = OpRead,
     r_Bytes = 0, r_At = 0\<rparr>"
  have al: "g_Allow (fst (Hosted_Admit (ScopedAuth_Admit sample_sha) ?a ?req))" by code_simp
  from hosted_isolation [of sample_sha ?a ?req] al show ?thesis by blast
qed

end
