(* ===== verification/Relay_Authority.thy ===== *)
theory Relay_Authority
  imports Go_Json Relay_Verify Relay_Scope
begin

text \<open>
  Authorisation leases, \<^verbatim>\<open>src/authlease.go\<close>: a signed, scoped and bounded grant presented as the bearer
  credential, encoded by \<open>NewAuthority\<close>, read by \<open>ParseAuthority\<close> and judged by \<open>check\<close> without any call
  outside the relay.

  \<^item> \<open>authority_auth\<close> is the wrapper's state: the state of the inner authoriser, the verifier, the audience, the
    revocation floor per estate and the channels of the held polls. The inner authoriser is
    a parameter of \<open>AuthorityAuth_Admit\<close> and \<open>AuthorityAuth_Watch\<close>; the clock is a parameter too.
  \<^item> A channel made by \<^verbatim>\<open>Watch\<close> is a number, given out in order; what is sent on it is the answer of the
    operation that sends. \<^verbatim>\<open>Watch\<close> judges the lease under the read lock and enters its channel later, under the write
    lock: \<open>AuthorityAuth_Watch_check\<close> and \<open>AuthorityAuth_Watch_register\<close>, two steps other operations may come between, and
    \<open>AuthorityAuth_Watch\<close> when nothing does. The goroutine that waits for expiry is \<open>watch_ends\<close>, the step that takes
    a channel out of the table.
\<close>

section \<open>Definitions\<close>

definition MaxAuthorityLife :: duration where "MaxAuthorityLife = 15 * Minute"

abbreviation authorityPrefix :: string where "authorityPrefix \<equiv> ''hl1''"

datatype authority_error = ErrNotAnAuthority | ErrBadAuthority

record authority =
  a_Scope :: scope
  a_NotBefore :: time
  a_Expires :: time
  a_Epoch :: int
  a_Audience :: string

record authorityPayload =
  p_Est :: string
  p_Stns :: "string list"
  p_All :: bool
  p_Read :: "string list"
  p_Write :: "string list"
  p_NBF :: int
  p_Exp :: int
  p_Epoch :: int
  p_Aud :: string

record signed =
  sg_payload :: string
  sg_signature :: string

subsection \<open>Encoding\<close>

definition payload_of :: "authority \<Rightarrow> authorityPayload" where
  "payload_of a = \<lparr>p_Est = sc_Estate (a_Scope a), p_Stns = sc_Stations (a_Scope a), p_All = sc_AllStations (a_Scope a),
     p_Read = sc_Read (a_Scope a), p_Write = sc_Write (a_Scope a), p_NBF = unix_seconds (a_NotBefore a),
     p_Exp = unix_seconds (a_Expires a), p_Epoch = a_Epoch a, p_Aud = a_Audience a\<rparr>"

definition omit :: "bool \<Rightarrow> string \<Rightarrow> string \<Rightarrow> (string \<times> string) list" where
  "omit zero k t = (if zero then [] else [(k, t)])"

definition payload_json :: "authorityPayload \<Rightarrow> string" where
  "payload_json p = object_text
     ([(''e'', json_quote (p_Est p))] @ omit (p_Stns p = []) ''s'' (strings_text (p_Stns p)) @
      omit (\<not> p_All p) ''a'' ''true'' @ omit (p_Read p = []) ''r'' (strings_text (p_Read p)) @
      omit (p_Write p = []) ''w'' (strings_text (p_Write p)) @
      [(''nbf'', FormatInt 10 (p_NBF p)), (''exp'', FormatInt 10 (p_Exp p))] @
      omit (p_Epoch p = 0) ''ep'' (FormatInt 10 (p_Epoch p)) @ omit (p_Aud p = '''') ''aud'' (json_quote (p_Aud p)))"

definition NewAuthority :: "authority \<Rightarrow> (string \<Rightarrow> string) \<Rightarrow> string" where
  "NewAuthority a sign =
     (let payload = RawURLEncoding_Encode (payload_json (payload_of a))
      in authorityPrefix @ ''.'' @ payload @ ''.'' @ RawURLEncoding_Encode (sign payload))"

subsection \<open>Decoding\<close>

definition payload_fields :: "string list" where
  "payload_fields = [''e'', ''s'', ''a'', ''r'', ''w'', ''nbf'', ''exp'', ''ep'', ''aud'']"

definition payload_update :: "string \<Rightarrow> json \<Rightarrow> authorityPayload \<Rightarrow> authorityPayload option" where
  "payload_update f j p =
     (if f = ''e'' then map_option (\<lambda>x. p\<lparr>p_Est := x\<rparr>) (dec_string j (p_Est p))
      else if f = ''s'' then map_option (\<lambda>x. p\<lparr>p_Stns := x\<rparr>) (dec_strings j (p_Stns p))
      else if f = ''a'' then map_option (\<lambda>x. p\<lparr>p_All := x\<rparr>) (dec_bool j (p_All p))
      else if f = ''r'' then map_option (\<lambda>x. p\<lparr>p_Read := x\<rparr>) (dec_strings j (p_Read p))
      else if f = ''w'' then map_option (\<lambda>x. p\<lparr>p_Write := x\<rparr>) (dec_strings j (p_Write p))
      else if f = ''nbf'' then map_option (\<lambda>x. p\<lparr>p_NBF := x\<rparr>) (dec_i64 j (p_NBF p))
      else if f = ''exp'' then map_option (\<lambda>x. p\<lparr>p_Exp := x\<rparr>) (dec_i64 j (p_Exp p))
      else if f = ''ep'' then map_option (\<lambda>x. p\<lparr>p_Epoch := x\<rparr>) (dec_i64 j (p_Epoch p))
      else map_option (\<lambda>x. p\<lparr>p_Aud := x\<rparr>) (dec_string j (p_Aud p)))"

definition zero_payload :: authorityPayload where
  "zero_payload = \<lparr>p_Est = '''', p_Stns = [], p_All = False, p_Read = [], p_Write = [], p_NBF = 0, p_Exp = 0,
     p_Epoch = 0, p_Aud = ''''\<rparr>"

definition ParseAuthority :: "string \<Rightarrow> authority_error + authority \<times> signed" where
  "ParseAuthority credential =
     (case split_on (CHR ''.'') credential of
        [p0, p1, p2] \<Rightarrow>
          if p0 \<noteq> authorityPrefix then Inl ErrNotAnAuthority
          else (case RawURLEncoding_Decode p1 of
                  None \<Rightarrow> Inl ErrBadAuthority
                | Some raw \<Rightarrow>
                    (case RawURLEncoding_Decode p2 of
                       None \<Rightarrow> Inl ErrBadAuthority
                     | Some sig \<Rightarrow>
                         (case Option.bind (json_unmarshal raw) (\<lambda>j. decode_struct payload_fields payload_update j zero_payload) of
                            None \<Rightarrow> Inl ErrBadAuthority
                          | Some p \<Rightarrow>
                              if p_Exp p = 0 \<or> p_NBF p = 0 then Inl ErrBadAuthority
                              else Inr (\<lparr>a_Scope = \<lparr>sc_Estate = p_Est p, sc_Stations = p_Stns p, sc_AllStations = p_All p,
                                                  sc_Read = p_Read p, sc_Write = p_Write p\<rparr>,
                                         a_NotBefore = time_Unix (p_NBF p), a_Expires = time_Unix (p_Exp p),
                                         a_Epoch = p_Epoch p, a_Audience = p_Aud p\<rparr>,
                                        \<lparr>sg_payload = p1, sg_signature = sig\<rparr>))))
      | _ \<Rightarrow> Inl ErrNotAnAuthority)"

subsection \<open>The authoriser\<close>

record 'st authority_auth =
  aa_Inner :: 'st
  aa_Verify :: "verifier option"
  aa_Audience :: string
  aa_epoch :: "(string, int) gomap"
  aa_watchers :: "(string, nat list) gomap"
  aa_chans :: nat

definition Epoch :: "'st authority_auth \<Rightarrow> string \<Rightarrow> int" where
  "Epoch a estate = lookup_or 0 (aa_epoch a) estate"

abbreviation nul :: char where "nul \<equiv> CHR 0x00"

definition watchKey :: "string \<Rightarrow> string \<Rightarrow> string \<Rightarrow> string" where
  "watchKey estate station dir = estate @ [nul] @ station @ [nul] @ dir"

text \<open>\<^verbatim>\<open>Revoke\<close>, with the channels that are sent \<^verbatim>\<open>authority-revoked\<close>.\<close>

definition Revoke :: "string \<Rightarrow> int \<Rightarrow> 'st authority_auth \<Rightarrow> nat list \<times> 'st authority_auth" where
  "Revoke estate epoch a =
     (let a1 = (if epoch > Epoch a estate then a\<lparr>aa_epoch := AList.update estate epoch (aa_epoch a)\<rparr> else a);
          ends = (\<lambda>(k, chans). has_prefix k (estate @ [nul]))
      in (concat (map snd (filter ends (aa_watchers a1))),
          a1\<lparr>aa_watchers := filter (\<lambda>w. \<not> ends w) (aa_watchers a1)\<rparr>))"

definition check :: "time \<Rightarrow> 'st authority_auth \<Rightarrow> authority \<Rightarrow> signed \<Rightarrow> request \<Rightarrow> grant" where
  "check now a auth s req =
     (if aa_Verify a = None \<or> \<not> the (aa_Verify a) (sg_payload s) (sg_signature s)
      then refusal ReasonAuthorityUnverifiable
      else if aa_Audience a \<noteq> '''' \<and> a_Audience auth \<noteq> aa_Audience a
      then (refusal ReasonAuthorityUnverifiable)\<lparr>g_Detail := ''this lease was minted for a different relay''\<rparr>
      else if time_sub (a_Expires auth) (a_NotBefore auth) > MaxAuthorityLife
      then (refusal ReasonAuthorityExpired)\<lparr>g_Detail := ''this lease is longer than this relay will honour''\<rparr>
      else if now < a_NotBefore auth
      then (refusal ReasonAuthorityExpired)\<lparr>g_Detail := ''this lease is not in force yet''\<rparr>
      else if \<not> now < a_Expires auth then refusal ReasonAuthorityExpired
      else if a_Epoch auth < Epoch a (sc_Estate (a_Scope auth)) then refusal ReasonRevoked
      else if \<not> permits (a_Scope auth) (r_Estate req) (r_Station req) (r_Dir req) (r_Op req)
      then refusal ReasonOutOfScope
      else allowing (a_Scope auth))"

definition ask_inner :: "'st admit \<Rightarrow> 'st authority_auth \<Rightarrow> request \<Rightarrow> grant \<times> 'st authority_auth" where
  "ask_inner inner a req = (let (g, i) = inner (aa_Inner a) req in (g, a\<lparr>aa_Inner := i\<rparr>))"

definition AuthorityAuth_Admit :: "'st admit \<Rightarrow> time \<Rightarrow> 'st authority_auth admit" where
  "AuthorityAuth_Admit inner now a req =
     (case ParseAuthority (r_Credential req) of
        Inl _ \<Rightarrow> ask_inner inner a req
      | Inr (auth, s) \<Rightarrow>
          let g = check now a auth s req
          in if g_Allow g \<or> g_Reason g \<noteq> ReasonOutOfScope then (g, a) else ask_inner inner a req)"

text \<open>
  \<^verbatim>\<open>Watch\<close>: the inner authoriser's channel, or one of its own with the time left until the lease expires. The
  lease is judged first; the channel is made and entered in the table in a critical section of its own.
\<close>

definition AuthorityAuth_Watch_check ::
  "('st \<Rightarrow> request \<Rightarrow> string \<Rightarrow> 'w) \<Rightarrow> time \<Rightarrow> 'st authority_auth \<Rightarrow> request \<Rightarrow> string \<Rightarrow> 'w + authority" where
  "AuthorityAuth_Watch_check inner now a req ref =
     (case ParseAuthority (r_Credential req) of
        Inl _ \<Rightarrow> Inl (inner (aa_Inner a) req ref)
      | Inr (auth, s) \<Rightarrow>
          if \<not> g_Allow (check now a auth s req) then Inl (inner (aa_Inner a) req ref) else Inr auth)"

definition AuthorityAuth_Watch_register ::
  "time \<Rightarrow> authority \<Rightarrow> request \<Rightarrow> 'st authority_auth \<Rightarrow> (nat \<times> duration) \<times> 'st authority_auth" where
  "AuthorityAuth_Watch_register now auth req a =
     (let ch = aa_chans a; k = watchKey (sc_Estate (a_Scope auth)) (r_Station req) (r_Dir req)
      in ((ch, time_sub (a_Expires auth) now),
          a\<lparr>aa_watchers := AList.update k (lookup_or [] (aa_watchers a) k @ [ch]) (aa_watchers a), aa_chans := Suc ch\<rparr>))"

definition AuthorityAuth_Watch ::
  "('st \<Rightarrow> request \<Rightarrow> string \<Rightarrow> 'w) \<Rightarrow> (nat \<Rightarrow> time) \<Rightarrow> 'st authority_auth \<Rightarrow> request \<Rightarrow> string
   \<Rightarrow> (nat \<times> duration + 'w) \<times> 'st authority_auth" where
  "AuthorityAuth_Watch inner clk a req ref =
     (case AuthorityAuth_Watch_check inner (clk 0) a req ref of
        Inl w \<Rightarrow> (Inr w, a)
      | Inr auth \<Rightarrow> apfst Inl (AuthorityAuth_Watch_register (clk 1) auth req a))"

definition watch_ends :: "string \<Rightarrow> nat \<Rightarrow> 'st authority_auth \<Rightarrow> 'st authority_auth" where
  "watch_ends k ch a =
     (let held = remove1 ch (lookup_or [] (aa_watchers a) k)
      in a\<lparr>aa_watchers := (if held = [] then AList.delete k (aa_watchers a) else AList.update k held (aa_watchers a))\<rparr>)"

section \<open>Lemmas\<close>

lemma split_on_last: "c \<notin> set xs \<Longrightarrow> split_on c xs = [xs]"
  by (induction xs) auto

lemma split_on_app: "c \<notin> set xs \<Longrightarrow> split_on c (xs @ c # ys) = xs # split_on c ys"
  by (induction xs) auto

lemma check_allow:
  "g_Allow (check now a auth s req) \<longleftrightarrow>
     (\<exists>v. aa_Verify a = Some v \<and> v (sg_payload s) (sg_signature s)) \<and>
     (aa_Audience a = '''' \<or> a_Audience auth = aa_Audience a) \<and>
     a_Expires auth - a_NotBefore auth \<le> MaxAuthorityLife \<and> a_NotBefore auth \<le> now \<and> now < a_Expires auth \<and>
     Epoch a (sc_Estate (a_Scope auth)) \<le> a_Epoch auth \<and>
     permits (a_Scope auth) (r_Estate req) (r_Station req) (r_Dir req) (r_Op req)"
proof -
  have "time_sub e n > MaxAuthorityLife \<longleftrightarrow> e - n > MaxAuthorityLife" for e n
    by (auto simp: time_sub_def MaxAuthorityLife_def duration_defs)
  then show ?thesis by (auto simp: check_def)
qed

lemma check_scope: "g_Allow (check now a auth s req) \<Longrightarrow> check now a auth s req = allowing (a_Scope auth)"
  by (auto simp: check_def split: if_splits)

lemma check_reason:
  "\<not> g_Allow (check now a auth s req) \<Longrightarrow>
   g_Reason (check now a auth s req) \<in> {ReasonAuthorityUnverifiable, ReasonAuthorityExpired, ReasonRevoked, ReasonOutOfScope}"
  by (auto simp: check_def split: if_splits)

lemma ParseAuthority_nonempty: "ParseAuthority cred = Inr x \<Longrightarrow> cred \<noteq> ''''"
  by (auto simp: ParseAuthority_def)

text \<open>
  Wrapping an authoriser that allows only within the scope it states, with its own credential, gives another
  such authoriser.
\<close>

lemma scoped_admission_Authority:
  assumes "scoped_admission inner"
  shows "scoped_admission (AuthorityAuth_Admit inner now)"
proof -
  note I = admission.allow_needs_credential [OF scoped_admission.axioms(1) [OF assms]]
    admission.refusal_has_reason [OF scoped_admission.axioms(1) [OF assms]]
    scoped_admission.allow_within_scope [OF assms]
  have ask: "fst (ask_inner inner a req) = fst (inner (aa_Inner a) req)" for a :: "'a authority_auth" and req
    by (simp add: ask_inner_def split_beta)
  have cs: "fst (AuthorityAuth_Admit inner now a req) = fst (inner (aa_Inner a) req) \<or>
      (\<exists>auth s. ParseAuthority (r_Credential req) = Inr (auth, s) \<and> fst (AuthorityAuth_Admit inner now a req) = check now a auth s req)"
    for a :: "'a authority_auth" and req
    by (auto simp: AuthorityAuth_Admit_def ask Let_def split: sum.splits)
  show ?thesis
  proof unfold_locales
    fix st :: "'a authority_auth" and req
    show "g_Allow (fst (AuthorityAuth_Admit inner now st req)) \<Longrightarrow> r_Credential req \<noteq> ''''"
      using cs [of st req] I(1) ParseAuthority_nonempty by (metis)
    show "\<not> g_Allow (fst (AuthorityAuth_Admit inner now st req)) \<Longrightarrow>
        g_Reason (fst (AuthorityAuth_Admit inner now st req)) \<noteq> ReasonAllowed"
      using cs [of st req] I(2) check_reason [of now st _ _ req] by fastforce
    show "g_Allow (fst (AuthorityAuth_Admit inner now st req)) \<Longrightarrow>
        permits (g_Scope (fst (AuthorityAuth_Admit inner now st req))) (r_Estate req) (r_Station req) (r_Dir req) (r_Op req)"
      using cs [of st req] I(3) [of "aa_Inner st" req] check_scope [of now st _ _ req] check_allow [of now st _ _ req]
      by (metis allowing_sel(2))
  qed
qed

interpretation authority_scoped: scoped_admission "AuthorityAuth_Admit (ScopedAuth_Admit sha) now" for sha now
  by (rule scoped_admission_Authority) unfold_locales

interpretation authority_hosted: scoped_admission "AuthorityAuth_Admit (Hosted_Admit (ScopedAuth_Admit sha)) now" for sha now
  by (rule scoped_admission_Authority) unfold_locales

subsection \<open>The revocation floor\<close>

lemma Epoch_Revoke: "Epoch (snd (Revoke estate ep a)) e = (if e = estate then max ep (Epoch a e) else Epoch a e)"
  by (simp add: Revoke_def Epoch_def Let_def)

lemma Revoke_ends_key:
  assumes "ch \<in> set (lookup_or [] (aa_watchers a) (watchKey estate st dr))"
  shows "ch \<in> set (fst (Revoke estate ep a))"
proof -
  have "(watchKey estate st dr, lookup_or [] (aa_watchers a) (watchKey estate st dr)) \<in> set (aa_watchers a)"
    using assms by (intro lookup_or_in) auto
  moreover have "has_prefix (watchKey estate st dr) (estate @ [nul])" by (auto simp: watchKey_def has_prefix_iff)
  ultimately show ?thesis using assms by (force simp: Revoke_def Let_def split: if_splits)
qed

inductive authority_step :: "'st authority_auth \<Rightarrow> 'st authority_auth \<Rightarrow> bool" where
  au_revoke: "authority_step a (snd (Revoke estate ep a))"
| au_admit: "authority_step a (snd (AuthorityAuth_Admit inner now a req))"
| au_register: "authority_step a (snd (AuthorityAuth_Watch_register now auth req a))"
| au_end: "authority_step a (watch_ends k ch a)"

lemma authority_step_epoch: "authority_step a a' \<Longrightarrow> Epoch a e \<le> Epoch a' e"
proof (induction rule: authority_step.induct)
  case (au_admit a inner now req)
  then show ?case by (auto simp: AuthorityAuth_Admit_def ask_inner_def Epoch_def split_beta Let_def split: sum.splits)
next
  case (au_register a now auth req)
  then show ?case by (simp add: AuthorityAuth_Watch_register_def Epoch_def Let_def)
next
  case (au_end a k ch)
  then show ?case by (simp add: watch_ends_def Epoch_def Let_def)
qed (simp add: Epoch_Revoke)

lemma Watch_is_step: "authority_step\<^sup>=\<^sup>= a (snd (AuthorityAuth_Watch inner clk a req ref))"
  by (auto simp: AuthorityAuth_Watch_def intro: au_register split: sum.splits)

lemma authority_run_epoch: "authority_step\<^sup>*\<^sup>* a a' \<Longrightarrow> Epoch a e \<le> Epoch a' e"
  by (induction rule: rtranclp_induct) (auto dest: authority_step_epoch intro: order_trans)

section \<open>Properties\<close>

text \<open>
  Property C14. The longest an authorisation lease can outlive its revocation is the number the product
  publishes. A lease this relay honours at some moment is refused at every moment fifteen minutes or more
  later, for every request and whatever the relay has or has not been told meanwhile.
\<close>

theorem max_revocation_delay:
  assumes "g_Allow (check now a auth s req)" "now + 15 * Minute \<le> now'"
  shows "\<not> g_Allow (check now' a' auth s' req')"
  using assms by (auto simp: check_allow MaxAuthorityLife_def)

definition sample_scope :: scope where
  "sample_scope = \<lparr>sc_Estate = ''e1'', sc_Stations = [''pump''], sc_AllStations = False, sc_Read = [c2s], sc_Write = [s2c]\<rparr>"

definition sample_authority :: authority where
  "sample_authority = \<lparr>a_Scope = sample_scope, a_NotBefore = 1700000000 * Second, a_Expires = 1700000600 * Second,
     a_Epoch = 3, a_Audience = ''r1''\<rparr>"

definition sample_request :: request where
  "sample_request = \<lparr>r_Credential = ''S'', r_Estate = ''e1'', r_Station = ''pump'', r_Dir = c2s, r_Op = OpRead, r_Bytes = 0, r_At = 0\<rparr>"

definition sample_auth :: "unit authority_auth" where
  "sample_auth = \<lparr>aa_Inner = (), aa_Verify = Some (\<lambda>p sg. sg = p), aa_Audience = ''r1'', aa_epoch = [(''e1'', 3)],
     aa_watchers = [], aa_chans = 0\<rparr>"

lemma sample_honoured:
  "g_Allow (check (1700000300 * Second) sample_auth sample_authority \<lparr>sg_payload = x, sg_signature = x\<rparr> (sample_request\<lparr>r_Credential := c\<rparr>))"
  by (simp add: check_allow sample_auth_def sample_authority_def sample_scope_def sample_request_def MaxAuthorityLife_def
      duration_defs Epoch_def lookup_or_def permits_def validDir_def)

theorem max_revocation_delay_witness:
  "\<not> g_Allow (check (1700001200 * Second) sample_auth sample_authority \<lparr>sg_payload = ''p'', sg_signature = ''p''\<rparr> sample_request)"
  by (rule max_revocation_delay [OF sample_honoured]) (simp add: duration_defs)

text \<open>
  Property C15. A revocation this relay hears of takes effect at once and is never undone. After \<^verbatim>\<open>Revoke\<close>
  for an estate, whatever is admitted, watched or revoked afterwards and in whatever order, no lease of that estate
  with a lower epoch is honoured again, and every poll registered under a lease of that estate at that moment
  is told (one registered later is not), while the polls of estates that do not start with its name and a NUL are left alone.
\<close>

theorem revocation_permanent:
  assumes "Revoke estate ep a = (ended, a1)" "authority_step\<^sup>*\<^sup>* a1 a2"
    and "sc_Estate (a_Scope auth) = estate" "a_Epoch auth < ep"
  shows "\<not> g_Allow (check now a2 auth s req) \<and>
    (\<forall>st dr ch. ch \<in> set (lookup_or [] (aa_watchers a) (watchKey estate st dr)) \<longrightarrow> ch \<in> set ended) \<and>
    (\<forall>k. \<not> has_prefix k (estate @ [nul]) \<longrightarrow> map_of (aa_watchers a1) k = map_of (aa_watchers a) k)"
proof -
  have "ep \<le> Epoch a1 estate" using Epoch_Revoke [of estate ep a estate] assms(1) by simp
  then have "ep \<le> Epoch a2 estate" using authority_run_epoch [OF assms(2), of estate] by simp
  then have "\<not> g_Allow (check now a2 auth s req)" using assms(3,4) by (auto simp: check_allow)
  moreover have "ch \<in> set ended" if "ch \<in> set (lookup_or [] (aa_watchers a) (watchKey estate st dr))" for st dr ch
    using Revoke_ends_key [OF that, of ep] assms(1) by simp
  moreover have "map_of (aa_watchers a1) k = map_of (aa_watchers a) k" if "\<not> has_prefix k (estate @ [nul])" for k
  proof -
    have "map_of (filter (\<lambda>(k, c). \<not> has_prefix k (estate @ [nul])) m) k = map_of m k" for m :: "(string, nat list) gomap"
      using that by (induction m) auto
    then show ?thesis using assms(1) by (auto simp: Revoke_def Let_def case_prod_unfold split: if_splits)
  qed
  ultimately show ?thesis by blast
qed

theorem revocation_permanent_witness:
  "\<not> g_Allow (check (1700000300 * Second) (snd (Revoke ''e1'' 4 sample_auth)) sample_authority
     \<lparr>sg_payload = ''p'', sg_signature = ''p''\<rparr> sample_request)"
proof -
  obtain ended a1 where r: "Revoke ''e1'' 4 sample_auth = (ended, a1)" by (cases "Revoke ''e1'' 4 sample_auth") auto
  have "sc_Estate (a_Scope sample_authority) = ''e1''" "a_Epoch sample_authority < 4"
    by (simp_all add: sample_authority_def sample_scope_def)
  from revocation_permanent [OF r rtranclp.rtrancl_refl this] r show ?thesis by simp
qed

lemma decode_members_append:
  "decode_members fs upd (xs @ ys) r = Option.bind (decode_members fs upd xs r) (decode_members fs upd ys)"
  by (induction xs arbitrary: r) (auto split: option.splits)

definition omit3 :: "bool \<Rightarrow> string \<Rightarrow> string \<Rightarrow> json \<Rightarrow> (string \<times> string \<times> json) list" where
  "omit3 zero k t v = (if zero then [] else [(k, t, v)])"

lemma omit3_sel [simp]:
  "map (\<lambda>(k, t, v). (k, t)) (omit3 z k t v) = omit z k t"
  "map (\<lambda>(k, t, v). (k, v)) (omit3 z k t v) = (if z then [] else [(k, v)])"
  by (simp_all add: omit3_def omit_def)

definition payload_members :: "authorityPayload \<Rightarrow> (string \<times> string \<times> json) list" where
  "payload_members p =
     [(''e'', json_quote (p_Est p), JStr (p_Est p))] @
     omit3 (p_Stns p = []) ''s'' (strings_text (p_Stns p)) (JArr (map JStr (p_Stns p))) @
     omit3 (\<not> p_All p) ''a'' ''true'' (JBool True) @
     omit3 (p_Read p = []) ''r'' (strings_text (p_Read p)) (JArr (map JStr (p_Read p))) @
     omit3 (p_Write p = []) ''w'' (strings_text (p_Write p)) (JArr (map JStr (p_Write p))) @
     [(''nbf'', FormatInt 10 (p_NBF p), JNum (FormatInt 10 (p_NBF p))), (''exp'', FormatInt 10 (p_Exp p), JNum (FormatInt 10 (p_Exp p)))] @
     omit3 (p_Epoch p = 0) ''ep'' (FormatInt 10 (p_Epoch p)) (JNum (FormatInt 10 (p_Epoch p))) @
     omit3 (p_Aud p = '''') ''aud'' (json_quote (p_Aud p)) (JStr (p_Aud p))"

definition i64 :: "int \<Rightarrow> bool" where "i64 i \<longleftrightarrow> - (2 ^ 63) \<le> i \<and> i < 2 ^ 63"

definition payload_ok :: "authorityPayload \<Rightarrow> bool" where
  "payload_ok p \<longleftrightarrow> valid_utf8 (p_Est p) \<and> list_all valid_utf8 (p_Stns p) \<and> list_all valid_utf8 (p_Read p) \<and>
     list_all valid_utf8 (p_Write p) \<and> valid_utf8 (p_Aud p) \<and> i64 (p_NBF p) \<and> i64 (p_Exp p) \<and> i64 (p_Epoch p)"

lemma payload_names: "list_all valid_utf8 payload_fields"
  by (simp add: payload_fields_def in_range_def valid_utf8_ascii)

lemma payload_unmarshal:
  assumes "payload_ok p"
  shows "json_unmarshal (payload_json p) = Some (JObj (map (\<lambda>(k, t, v). (k, v)) (payload_members p)))"
proof -
  have "\<forall>(k, t, v) \<in> set (payload_members p). valid_utf8 k \<and> reads t v"
    using assms payload_names
    by (auto simp: payload_members_def omit3_def payload_ok_def payload_fields_def list_all_iff reads_true reads_FormatInt
        intro: reads_quote reads_strings split: if_splits)
  moreover have "payload_members p \<noteq> []" by (simp add: payload_members_def)
  moreover have "object_text (map (\<lambda>(k, t, v). (k, t)) (payload_members p)) = payload_json p"
    by (simp add: payload_members_def payload_json_def)
  ultimately show ?thesis using unmarshal_object_text [of "payload_members p"] by simp
qed

lemma match_here: "f \<in> set payload_fields \<Longrightarrow> match_field payload_fields f = Some f"
  by (simp add: match_field_def)

lemma payload_decode:
  assumes "payload_ok p"
  shows "Option.bind (json_unmarshal (payload_json p)) (\<lambda>j. decode_struct payload_fields payload_update j zero_payload) = Some p"
proof -
  have fields: "''e'' \<in> set payload_fields" "''s'' \<in> set payload_fields" "''a'' \<in> set payload_fields" "''r'' \<in> set payload_fields"
    "''w'' \<in> set payload_fields" "''nbf'' \<in> set payload_fields" "''exp'' \<in> set payload_fields" "''ep'' \<in> set payload_fields"
    "''aud'' \<in> set payload_fields"
    by (simp_all add: payload_fields_def)
  have nums: "ParseInt (FormatInt 10 (p_NBF p)) = Some (p_NBF p)" "ParseInt (FormatInt 10 (p_Exp p)) = Some (p_Exp p)"
    "ParseInt (FormatInt 10 (p_Epoch p)) = Some (p_Epoch p)"
    using assms by (simp_all add: payload_ok_def i64_def ParseInt_FormatInt)
  have "decode_members payload_fields payload_update (map (\<lambda>(k, t, v). (k, v)) (payload_members p)) zero_payload = Some p"
    unfolding payload_members_def map_append omit3_sel decode_members_append
    by (simp add: match_here fields payload_update_def dec_string_def dec_strings_def dec_bool_def dec_i64_def nums
        dec_elems_strings zero_payload_def)
  then show ?thesis by (simp add: payload_unmarshal [OF assms] decode_struct_def)
qed

text \<open>The leases the encoding can carry: names in valid UTF-8, whole seconds, not the Unix epoch itself.\<close>

definition whole_second :: "time \<Rightarrow> bool" where
  "whole_second t \<longleftrightarrow> t mod 1000000000 = 0 \<and> t \<noteq> 0 \<and> i64 (unix_seconds t) \<and> i64 (unix_seconds t + 62135596800)"

definition encodable :: "authority \<Rightarrow> bool" where
  "encodable a \<longleftrightarrow> payload_ok (payload_of a) \<and> whole_second (a_NotBefore a) \<and> whole_second (a_Expires a)"

lemma whole_second_Unix: "whole_second t \<Longrightarrow> time_Unix (unix_seconds t) = t \<and> unix_seconds t \<noteq> 0"
  by (auto simp: whole_second_def time_Unix_def i64_def wrap64_id unix_seconds_def)

lemma parse_new:
  assumes "encodable a"
  defines "payload \<equiv> RawURLEncoding_Encode (payload_json (payload_of a))"
  shows "ParseAuthority (NewAuthority a sign) = Inr (a, \<lparr>sg_payload = payload, sg_signature = sign payload\<rparr>)"
proof -
  have nodot: "CHR ''.'' \<notin> set (RawURLEncoding_Encode bs)" for bs using encode_clean by blast
  have "split_on (CHR ''.'') (NewAuthority a sign) = [authorityPrefix, payload, RawURLEncoding_Encode (sign payload)]"
    using nodot split_on_app [of "CHR ''.''" authorityPrefix] split_on_app [of "CHR ''.''" payload]
      split_on_last [of "CHR ''.''"]
    by (simp add: NewAuthority_def Let_def payload_def)
  moreover have "RawURLEncoding_Decode payload = Some (payload_json (payload_of a))"
    unfolding payload_def by (rule b64_roundtrip)
  moreover have "RawURLEncoding_Decode (RawURLEncoding_Encode (sign payload)) = Some (sign payload)" by (rule b64_roundtrip)
  moreover have "payload_ok (payload_of a)" using assms(1) by (simp add: encodable_def)
  note payload_decode [OF this]
  moreover have "time_Unix (p_NBF (payload_of a)) = a_NotBefore a" "time_Unix (p_Exp (payload_of a)) = a_Expires a"
    "p_NBF (payload_of a) \<noteq> 0" "p_Exp (payload_of a) \<noteq> 0"
    using assms(1) whole_second_Unix by (auto simp: encodable_def payload_of_def)
  ultimately show ?thesis by (simp add: ParseAuthority_def) (simp add: payload_of_def)
qed

text \<open>
  Property C29. A lease reads back as it was minted. For every lease with names in valid UTF-8 and
  bounds on whole seconds, reading the encoded credential gives back the scope, the bounds, the epoch and the audience,
  together with exactly the text the signer was given and the signature it returned.
\<close>

theorem authority_roundtrip:
  assumes "encodable a"
  shows "ParseAuthority (NewAuthority a sign) =
    Inr (a, \<lparr>sg_payload = RawURLEncoding_Encode (payload_json (payload_of a)),
             sg_signature = sign (RawURLEncoding_Encode (payload_json (payload_of a)))\<rparr>)"
  using parse_new [OF assms] .

lemma sample_encodable: "encodable sample_authority"
  by (auto simp: encodable_def payload_ok_def payload_of_def sample_authority_def sample_scope_def whole_second_def i64_def
      unix_seconds_def duration_defs in_range_def intro!: valid_utf8_ascii)

theorem authority_roundtrip_witness:
  "\<exists>sg. ParseAuthority (NewAuthority sample_authority (\<lambda>p. p)) = Inr (sample_authority, sg)"
  using authority_roundtrip [OF sample_encodable, of "\<lambda>p. p"] by blast




text \<open>Every channel in the table has been given out.\<close>

definition chans_known :: "'st authority_auth \<Rightarrow> bool" where
  "chans_known a \<longleftrightarrow> (\<forall>(k, chs) \<in> set (aa_watchers a). \<forall>ch \<in> set chs. ch < aa_chans a)"

lemma chans_known_lookup: "chans_known a \<Longrightarrow> ch \<in> set (lookup_or [] (aa_watchers a) k) \<Longrightarrow> ch < aa_chans a"
  using lookup_or_in [of "[]" "aa_watchers a" k] by (fastforce simp: chans_known_def)

lemma chans_known_update:
  assumes "chans_known a" "\<forall>ch \<in> set chs. ch < n" "aa_chans a \<le> n"
  shows "\<forall>(k', cs) \<in> set (AList.update k chs (aa_watchers a)). \<forall>ch \<in> set cs. ch < n"
proof -
  have "set (AList.update k chs m) \<subseteq> insert (k, chs) (set m)" for m :: "(string, nat list) gomap" by (induction m) auto
  then show ?thesis using assms by (fastforce simp: chans_known_def)
qed

lemma chans_known_step: "authority_step a a' \<Longrightarrow> chans_known a \<Longrightarrow> chans_known a'"
proof (induction rule: authority_step.induct)
  case (au_revoke a estate ep)
  then show ?case by (auto simp: chans_known_def Revoke_def Let_def)
next
  case (au_admit a inner now req)
  then show ?case by (auto simp: chans_known_def AuthorityAuth_Admit_def ask_inner_def split_beta Let_def split: sum.splits)
next
  case (au_register a now auth req)
  let ?k = "watchKey (sc_Estate (a_Scope auth)) (r_Station req) (r_Dir req)"
  have "\<forall>ch \<in> set (lookup_or [] (aa_watchers a) ?k @ [aa_chans a]). ch < Suc (aa_chans a)"
    using chans_known_lookup [OF au_register] by (auto intro: less_SucI)
  from chans_known_update [OF au_register this] show ?case
    by (simp add: chans_known_def AuthorityAuth_Watch_register_def Let_def)
next
  case (au_end a k ch)
  have "\<forall>c \<in> set (remove1 ch (lookup_or [] (aa_watchers a) k)). c < aa_chans a"
    using chans_known_lookup [OF au_end] by (auto dest: notin_set_remove1 set_remove1_subset [THEN subsetD])
  from chans_known_update [OF au_end this] have "\<forall>(k', cs) \<in> set (AList.update k (remove1 ch (lookup_or [] (aa_watchers a) k)) (aa_watchers a)).
    \<forall>c \<in> set cs. c < aa_chans a" by simp
  moreover have "set (AList.delete k m) \<subseteq> set m" for m :: "(string, nat list) gomap" by (auto simp: AList.delete_eq)
  ultimately show ?case using au_end by (fastforce simp: chans_known_def watch_ends_def Let_def)
qed

lemma ended_known: "chans_known a \<Longrightarrow> ch \<in> set (fst (Revoke estate ep a)) \<Longrightarrow> ch < aa_chans a"
  by (fastforce simp: chans_known_def Revoke_def Let_def split: if_splits)

lemma register_lookup:
  assumes "AuthorityAuth_Watch_register now auth req a = ((ch, left), a')"
  shows "ch = aa_chans a" "left = time_sub (a_Expires auth) now"
    "ch \<in> set (lookup_or [] (aa_watchers a') (watchKey (sc_Estate (a_Scope auth)) (r_Station req) (r_Dir req)))"
    "Epoch a' e = Epoch a e"
  using assms by (auto simp: AuthorityAuth_Watch_register_def Let_def lookup_or_def update_conv Epoch_def)

text \<open>
  Property C11. A revocation can miss a poll it should end. \<^verbatim>\<open>Watch\<close> judges the lease before it enters the poll's channel in the
  table. When a revocation of the lease's estate falls between the two, the channel is not among those it tells, and it is entered
  afterwards all the same, under a lease that no check honours any more: nothing ends that poll but its own expiry timer, another revocation or
  the end of the request. Entered before the revocation, the same poll is told.
\<close>

theorem revocation_misses_poll:
  assumes "AuthorityAuth_Watch_check inner now a req ref = Inr auth" "a_Epoch auth < ep" "chans_known a"
    and "Revoke (sc_Estate (a_Scope auth)) ep a = (ended, a1)"
    and "AuthorityAuth_Watch_register now' auth req a1 = ((ch, left), a2)"
    and "AuthorityAuth_Watch_register now' auth req a = ((ch', left'), b1)"
  shows "ch \<notin> set ended \<and> left = time_sub (a_Expires auth) now' \<and>
    ch \<in> set (lookup_or [] (aa_watchers a2) (watchKey (sc_Estate (a_Scope auth)) (r_Station req) (r_Dir req))) \<and>
    \<not> g_Allow (check t a2 auth s req') \<and>
    ch' \<in> set (fst (Revoke (sc_Estate (a_Scope auth)) ep b1))"
proof -
  have "aa_chans a1 = aa_chans a" using assms(4) by (auto simp: Revoke_def Let_def split: if_splits)
  then have "ch \<notin> set ended"
    using ended_known [OF assms(3), of ch "sc_Estate (a_Scope auth)" ep] register_lookup(1) [OF assms(5)] assms(4) by auto
  moreover have "ep \<le> Epoch a2 (sc_Estate (a_Scope auth))"
    using Epoch_Revoke [of "sc_Estate (a_Scope auth)" ep a] assms(4) by (simp add: register_lookup(4) [OF assms(5)])
  then have "\<not> g_Allow (check t a2 auth s req')" using assms(2) by (auto simp: check_allow)
  ultimately show ?thesis using register_lookup(2,3) [OF assms(5)] Revoke_ends_key [OF register_lookup(3) [OF assms(6)]] by simp
qed

theorem revocation_misses_poll_witness:
  "\<exists>ended a1 ch left a2. AuthorityAuth_Watch_check (\<lambda>st r ref. ()) (1700000300 * Second) sample_auth
       (sample_request\<lparr>r_Credential := NewAuthority sample_authority (\<lambda>p. p)\<rparr>) ''ref'' = Inr sample_authority \<and>
     Revoke ''e1'' 4 sample_auth = (ended, a1) \<and>
     AuthorityAuth_Watch_register (1700000301 * Second) sample_authority sample_request a1 = ((ch, left), a2) \<and> ch \<notin> set ended"
proof -
  let ?req = "sample_request\<lparr>r_Credential := NewAuthority sample_authority (\<lambda>p. p)\<rparr>"
  have c: "AuthorityAuth_Watch_check (\<lambda>st r ref. ()) (1700000300 * Second) sample_auth ?req ''ref'' = Inr sample_authority"
    using parse_new [OF sample_encodable, of "\<lambda>p. p"] sample_honoured by (simp add: AuthorityAuth_Watch_check_def)
  have e: "sc_Estate (a_Scope sample_authority) = ''e1''" "a_Epoch sample_authority < 4"
    by (simp_all add: sample_authority_def sample_scope_def)
  obtain ended a1 where r: "Revoke ''e1'' 4 sample_auth = (ended, a1)" by (cases "Revoke ''e1'' 4 sample_auth") auto
  obtain ch left a2 where w: "AuthorityAuth_Watch_register (1700000301 * Second) sample_authority ?req a1 = ((ch, left), a2)"
    by (metis prod.collapse)
  obtain ch' left' b1 where b: "AuthorityAuth_Watch_register (1700000301 * Second) sample_authority ?req sample_auth = ((ch', left'), b1)"
    by (metis prod.collapse)
  have "chans_known sample_auth" by (simp add: chans_known_def sample_auth_def)
  from revocation_misses_poll [OF c e(2) this _ w b] r e(1) have "ch \<notin> set ended" by simp
  moreover have "AuthorityAuth_Watch_register (1700000301 * Second) sample_authority sample_request a1 = ((ch, left), a2)"
    using w by (simp add: AuthorityAuth_Watch_register_def)
  ultimately show ?thesis using c r by blast
qed

end
