(* ===== verification/Relay_Remote.thy ===== *)
theory Relay_Remote
  imports Go_Stream Relay_Auth
begin

text \<open>
  The authoriser reached over HTTP, \<^verbatim>\<open>src/remote.go\<close>: one question per request, and a cache of the answers.

  The service is the parameter \<open>post\<close>, from the text of the question to the status and body of its answer, or nothing when
  the call itself fails (a bad address, a timeout, a refused connection). \<open>clk i\<close> is the i-th reading of the clock. The
  question is put outside the lock, so two requests may ask at once; each then stores its own answer, and
  \<open>RemoteAuth_Admit\<close> is one of them.
\<close>

section \<open>Definitions\<close>

record cached =
  ch_grant :: grant
  ch_until :: time

record remote_auth =
  ra_Positive :: duration
  ra_Negative :: duration
  ra_cache :: "(string, cached) gomap"

definition NewRemoteAuth :: remote_auth where
  "NewRemoteAuth = \<lparr>ra_Positive = 30 * Second, ra_Negative = 5 * Second, ra_cache = []\<rparr>"

record decisionRequest =
  dq_Credential :: string
  dq_Estate :: string
  dq_Station :: string
  dq_Dir :: string
  dq_Op :: string
  dq_Bytes :: int

record decisionResponse =
  dr_Allow :: bool
  dr_Reason :: string
  dr_Detail :: string
  dr_Scope :: "scope option"

type_synonym service = "string \<Rightarrow> (nat \<times> http_body) option"

definition decision_key :: "decisionRequest \<Rightarrow> string" where
  "decision_key r = dq_Credential r @ ''|'' @ dq_Estate r @ ''|'' @ dq_Station r @ ''|'' @ dq_Dir r @ ''|'' @ dq_Op r"

definition decision_request :: "request \<Rightarrow> decisionRequest" where
  "decision_request req = \<lparr>dq_Credential = r_Credential req, dq_Estate = r_Estate req, dq_Station = r_Station req,
     dq_Dir = r_Dir req, dq_Op = r_Op req, dq_Bytes = r_Bytes req\<rparr>"

definition decision_json :: "decisionRequest \<Rightarrow> string" where
  "decision_json r = object_text
     [(''credential'', json_quote (dq_Credential r)), (''estate'', json_quote (dq_Estate r)),
      (''station'', json_quote (dq_Station r)), (''dir'', json_quote (dq_Dir r)), (''op'', json_quote (dq_Op r)),
      (''bytes'', FormatInt 10 (dq_Bytes r))]"

definition scope_update :: "string \<Rightarrow> json \<Rightarrow> scope \<Rightarrow> scope option" where
  "scope_update f j s =
     (if f = ''estate'' then map_option (\<lambda>x. s\<lparr>sc_Estate := x\<rparr>) (dec_string j (sc_Estate s))
      else if f = ''stations'' then map_option (\<lambda>x. s\<lparr>sc_Stations := x\<rparr>) (dec_strings j (sc_Stations s))
      else if f = ''allStations'' then map_option (\<lambda>x. s\<lparr>sc_AllStations := x\<rparr>) (dec_bool j (sc_AllStations s))
      else if f = ''read'' then map_option (\<lambda>x. s\<lparr>sc_Read := x\<rparr>) (dec_strings j (sc_Read s))
      else map_option (\<lambda>x. s\<lparr>sc_Write := x\<rparr>) (dec_strings j (sc_Write s)))"

definition dec_scope :: "json \<Rightarrow> scope option \<Rightarrow> scope option option" where
  "dec_scope j old =
     (if j = JNull then Some None
      else map_option Some (decode_struct [''estate'', ''stations'', ''allStations'', ''read'', ''write''] scope_update j
             (case old of None \<Rightarrow> zero_scope | Some s \<Rightarrow> s)))"

definition response_update :: "string \<Rightarrow> json \<Rightarrow> decisionResponse \<Rightarrow> decisionResponse option" where
  "response_update f j r =
     (if f = ''allow'' then map_option (\<lambda>x. r\<lparr>dr_Allow := x\<rparr>) (dec_bool j (dr_Allow r))
      else if f = ''reason'' then map_option (\<lambda>x. r\<lparr>dr_Reason := x\<rparr>) (dec_string j (dr_Reason r))
      else if f = ''detail'' then map_option (\<lambda>x. r\<lparr>dr_Detail := x\<rparr>) (dec_string j (dr_Detail r))
      else map_option (\<lambda>x. r\<lparr>dr_Scope := x\<rparr>) (dec_scope j (dr_Scope r)))"

definition grant_of :: "decisionResponse \<Rightarrow> grant" where
  "grant_of r =
     (let g = zero_grant\<lparr>g_Allow := dr_Allow r, g_Reason := dr_Reason r, g_Detail := dr_Detail r,
                g_Scope := (case dr_Scope r of None \<Rightarrow> zero_scope | Some s \<Rightarrow> s)\<rparr>
      in if \<not> g_Allow g \<and> g_Reason g = ReasonAllowed then g\<lparr>g_Reason := ReasonBadCredential\<rparr> else g)"

definition ask :: "service \<Rightarrow> decisionRequest \<Rightarrow> grant option" where
  "ask post r =
     (case post (decision_json r) of
        None \<Rightarrow> None
      | Some (status, b) \<Rightarrow>
          if status \<noteq> 200 then None
          else (case decode_body (int (length (b_bytes b))) [''allow'', ''reason'', ''detail'', ''scope''] response_update
                       \<lparr>dr_Allow = False, dr_Reason = '''', dr_Detail = '''', dr_Scope = None\<rparr> b of
                  Inl _ \<Rightarrow> None
                | Inr d \<Rightarrow> Some (grant_of d)))"

text \<open>The cached answer to a question that is still in force.\<close>

definition fresh :: "remote_auth \<Rightarrow> string \<Rightarrow> time \<Rightarrow> grant option" where
  "fresh a k now =
     (case map_of (ra_cache a) k of
        Some c \<Rightarrow> if now < ch_until c then Some (ch_grant c) else None
      | None \<Rightarrow> None)"

definition RemoteAuth_Admit :: "service \<Rightarrow> (nat \<Rightarrow> time) \<Rightarrow> remote_auth admit" where
  "RemoteAuth_Admit post clk a req =
     (if r_Credential req = '''' then (refusal ReasonNoCredential, a)
      else let dr = decision_request req; k = decision_key dr
      in (case fresh a k (clk 0) of
            Some g \<Rightarrow> (g, a)
          | None \<Rightarrow>
              (case ask post dr of
                 None \<Rightarrow> (refusal ReasonAuthoriserUnavailable, a)
               | Some g \<Rightarrow>
                   let ttl = (if g_Allow g then ra_Positive a else ra_Negative a)
                   in (g, if ttl > 0
                          then a\<lparr>ra_cache := AList.update k \<lparr>ch_grant = g, ch_until = clk 1 + ttl\<rparr> (ra_cache a)\<rparr>
                          else a))))"

section \<open>The contract, with an invariant of the cache\<close>

text \<open>
  An authoriser that remembers keeps the contract of admission only while its memory is sound: \<open>ok\<close> is that
  condition, which every decision preserves.
\<close>

locale remembering_admission =
  fixes decide :: "'st admit" and ok :: "'st \<Rightarrow> bool"
  assumes ok_decide: "ok st \<Longrightarrow> ok (snd (decide st req))"
    and decide_credential: "ok st \<Longrightarrow> g_Allow (fst (decide st req)) \<Longrightarrow> r_Credential req \<noteq> ''''"
    and decide_reason: "ok st \<Longrightarrow> \<not> g_Allow (fst (decide st req)) \<Longrightarrow> g_Reason (fst (decide st req)) \<noteq> ReasonAllowed"
begin

lemma ok_run: "ok st \<Longrightarrow> ok (fold (\<lambda>req st. snd (decide st req)) reqs st)"
  by (induction reqs arbitrary: st) (simp_all add: ok_decide)

lemma refusal_status_run:
  assumes "ok st" "\<not> g_Allow (fst (decide (fold (\<lambda>req st. snd (decide st req)) reqs st) req))"
  shows "400 \<le> reason_status (g_Reason (fst (decide (fold (\<lambda>req st. snd (decide st req)) reqs st) req)))"
  using decide_reason [OF ok_run [OF assms(1)] assms(2)] reason_status_refuses by blast

end

sublocale admission \<subseteq> forgetful: remembering_admission admit "\<lambda>_. True"
  by unfold_locales (auto dest: allow_needs_credential refusal_has_reason)

definition cache_ok :: "remote_auth \<Rightarrow> bool" where
  "cache_ok a \<longleftrightarrow> (\<forall>k c. map_of (ra_cache a) k = Some c \<longrightarrow> g_Allow (ch_grant c) \<or> g_Reason (ch_grant c) \<noteq> ReasonAllowed)"

lemma ask_reason: "ask post r = Some g \<Longrightarrow> g_Allow g \<or> g_Reason g \<noteq> ReasonAllowed"
  by (auto simp: ask_def grant_of_def Let_def split: option.splits prod.splits if_splits sum.splits)

interpretation remote: remembering_admission "RemoteAuth_Admit post clk" cache_ok for post clk
proof unfold_locales
  fix st req
  assume ok: "cache_ok st"
  have f: "fresh st k t = Some g \<Longrightarrow> g_Allow g \<or> g_Reason g \<noteq> ReasonAllowed" for k t g
    using ok by (auto simp: fresh_def cache_ok_def split: option.splits if_splits)
  show "cache_ok (snd (RemoteAuth_Admit post clk st req))"
    using ok by (auto simp: RemoteAuth_Admit_def Let_def cache_ok_def update_conv dest: ask_reason split: option.splits)
  show "g_Allow (fst (RemoteAuth_Admit post clk st req)) \<Longrightarrow> r_Credential req \<noteq> ''''"
    by (auto simp: RemoteAuth_Admit_def split: if_splits)
  show "\<not> g_Allow (fst (RemoteAuth_Admit post clk st req)) \<Longrightarrow> g_Reason (fst (RemoteAuth_Admit post clk st req)) \<noteq> ReasonAllowed"
    by (auto simp: RemoteAuth_Admit_def Let_def dest: ask_reason f split: if_splits option.splits)
qed

section \<open>Properties\<close>

text \<open>
  Property C21. An outage is reported as one and not remembered. When the answer is not cached and the service gives no
  decision (the call fails, the status is not 200, or the body is not a decision), the request is refused as
  authoriser-unavailable, which answers 503, and the authoriser's memory is left as it was; so as soon as the
  service answers again, its decision is what the next request gets.
\<close>

theorem outage_not_remembered:
  assumes cred: "r_Credential req \<noteq> ''''" and miss: "\<And>t. t \<ge> clk 0 \<Longrightarrow> fresh a (decision_key (decision_request req)) t = None"
    and down: "ask post (decision_request req) = None"
    and up: "ask post' (decision_request req) = Some g" "clk' 0 \<ge> clk 0"
  shows "RemoteAuth_Admit post clk a req = (refusal ReasonAuthoriserUnavailable, a) \<and>
    reason_status (g_Reason (fst (RemoteAuth_Admit post clk a req))) = 503 \<and>
    fst (RemoteAuth_Admit post' clk' (snd (RemoteAuth_Admit post clk a req)) req) = g"
proof -
  have "RemoteAuth_Admit post clk a req = (refusal ReasonAuthoriserUnavailable, a)"
    using cred miss [of "clk 0"] down by (simp add: RemoteAuth_Admit_def Let_def)
  moreover have "fst (RemoteAuth_Admit post' clk' a req) = g"
    using cred miss [of "clk' 0"] up by (simp add: RemoteAuth_Admit_def Let_def)
  ultimately show ?thesis by (simp add: reason_status_def)
qed

text \<open>Services for the witnesses: one that is down, and one that allows exactly one question.\<close>

definition yes_text :: string where "yes_text = ''{\"allow\":true}''"
definition no_text :: string where "no_text = ''{\"allow\":false}''"

definition allows_only :: "decisionRequest \<Rightarrow> service" where
  "allows_only r q = Some (200, \<lparr>b_bytes = (if q = decision_json r then yes_text else no_text), b_broken = False\<rparr>)"

lemma decision_text:
  "decode_body (int (length t)) [''allow'', ''reason'', ''detail'', ''scope''] response_update
     \<lparr>dr_Allow = False, dr_Reason = '''', dr_Detail = '''', dr_Scope = None\<rparr> \<lparr>b_bytes = t, b_broken = False\<rparr> =
   Inr \<lparr>dr_Allow = b, dr_Reason = '''', dr_Detail = '''', dr_Scope = None\<rparr>"
  if "(t, b) = (yes_text, True) \<or> (t, b) = (no_text, False)"
  using that by (elim disjE) (clarsimp, code_simp)+

lemma ask_allows_only:
  "ask (allows_only r) q = Some (if decision_json q = decision_json r then zero_grant\<lparr>g_Allow := True\<rparr>
     else refusal ReasonBadCredential)"
  using decision_text [of yes_text True] decision_text [of no_text False]
  by (simp add: ask_def allows_only_def grant_of_def zero_grant_def refusal_def)

definition sample_remote_request :: request where
  "sample_remote_request = \<lparr>r_Credential = ''A'', r_Estate = ''x|v'', r_Station = ''st'', r_Dir = c2s, r_Op = OpRead, r_Bytes = 0, r_At = 0\<rparr>"

theorem outage_not_remembered_witness:
  "fst (RemoteAuth_Admit (\<lambda>_. None) (\<lambda>_. 0) NewRemoteAuth sample_remote_request) = refusal ReasonAuthoriserUnavailable \<and>
   g_Allow (fst (RemoteAuth_Admit (allows_only (decision_request sample_remote_request)) (\<lambda>_. 1)
     (snd (RemoteAuth_Admit (\<lambda>_. None) (\<lambda>_. 0) NewRemoteAuth sample_remote_request)) sample_remote_request))"
proof -
  have "ask (\<lambda>_. None) (decision_request sample_remote_request) = None" by (simp add: ask_def)
  moreover have "fresh NewRemoteAuth k t = None" for k t by (simp add: fresh_def NewRemoteAuth_def)
  moreover have "r_Credential sample_remote_request \<noteq> ''''" by (simp add: sample_remote_request_def)
  moreover have "ask (allows_only (decision_request sample_remote_request)) (decision_request sample_remote_request) =
      Some (zero_grant\<lparr>g_Allow := True\<rparr>)"
    by (simp add: ask_allows_only)
  ultimately show ?thesis
    using outage_not_remembered [of sample_remote_request "\<lambda>_. 0" NewRemoteAuth "\<lambda>_. None"
        "allows_only (decision_request sample_remote_request)" "zero_grant\<lparr>g_Allow := True\<rparr>" "\<lambda>_. 1"] by auto
qed

text \<open>The states reached by decisions whose clock readings are at most \<open>T\<close>.\<close>

inductive remote_run :: "time \<Rightarrow> remote_auth \<Rightarrow> bool" for T where
  start: "remote_run T NewRemoteAuth"
| decide: "remote_run T a \<Longrightarrow> clk 0 \<le> T \<Longrightarrow> clk 1 \<le> T \<Longrightarrow> remote_run T (snd (RemoteAuth_Admit post clk a req))"

lemma remote_run_until:
  assumes "remote_run T a"
  shows "ra_Positive a = 30 * Second \<and> ra_Negative a = 5 * Second \<and>
    (\<forall>k c. map_of (ra_cache a) k = Some c \<longrightarrow> ch_until c \<le> T + 30 * Second)"
  using assms
proof induction
  case start
  then show ?case by (simp add: NewRemoteAuth_def)
next
  case (decide a clk post req)
  have "clk 1 + 30 * Second \<le> T + 30 * Second" "clk 1 + 5 * Second \<le> T + 30 * Second"
    using decide.hyps(3) by (simp_all add: Second_def)
  with decide.IH show ?case
    by (auto simp: RemoteAuth_Admit_def Let_def update_conv split: option.splits)
qed

text \<open>
  Property C20. A withdrawn permission is remembered for at most thirty seconds. Starting from a new authoriser, after any
  sequence of decisions whose clock readings are at most \<open>T\<close>, every request made thirty seconds or more after \<open>T\<close> is
  decided by asking the service again, whatever was decided before.
\<close>

theorem remembered_at_most_thirty_seconds:
  assumes "remote_run T a" "r_Credential req \<noteq> ''''" "clk 0 \<ge> T + 30 * Second"
  shows "fst (RemoteAuth_Admit post clk a req) =
    (case ask post (decision_request req) of None \<Rightarrow> refusal ReasonAuthoriserUnavailable | Some g \<Rightarrow> g)"
proof -
  have "fresh a k (clk 0) = None" for k
    using remote_run_until [OF assms(1)] assms(3) by (force simp: fresh_def split: option.splits)
  then show ?thesis using assms(2) by (simp add: RemoteAuth_Admit_def Let_def split: option.splits)
qed

theorem remembered_at_most_thirty_seconds_witness:
  "g_Allow (fst (RemoteAuth_Admit (allows_only (decision_request sample_remote_request)) (\<lambda>_. 0) NewRemoteAuth sample_remote_request)) \<and>
   fst (RemoteAuth_Admit (\<lambda>_. None) (\<lambda>_. 30 * Second)
     (snd (RemoteAuth_Admit (allows_only (decision_request sample_remote_request)) (\<lambda>_. 0) NewRemoteAuth sample_remote_request))
     sample_remote_request) = refusal ReasonAuthoriserUnavailable"
proof -
  have c: "r_Credential sample_remote_request \<noteq> ''''" by (simp add: sample_remote_request_def)
  have "remote_run 0 (snd (RemoteAuth_Admit (allows_only (decision_request sample_remote_request)) (\<lambda>_. 0) NewRemoteAuth sample_remote_request))"
    by (intro remote_run.intros) simp_all
  from remembered_at_most_thirty_seconds [OF this c, of "\<lambda>_. 30 * Second" "\<lambda>_. None"]
  show ?thesis using c by (simp add: ask_def) (simp add: RemoteAuth_Admit_def Let_def fresh_def NewRemoteAuth_def ask_allows_only)
qed

text \<open>
  Property C35. Two different questions can share one answer. The fields of a question are joined with an unescaped bar to
  make the cache's key, so an allow for credential \<open>A\<close> on estate \<open>x|v\<close> answers for credential \<open>A|x\<close> on estate \<open>v\<close>: the second
  request is allowed out of the cache although the service refuses it.
\<close>

theorem cached_allow_for_another_estate:
  "\<exists>post clk req a. RemoteAuth_Admit post clk NewRemoteAuth sample_remote_request = (zero_grant\<lparr>g_Allow := True\<rparr>, a) \<and>
     r_Estate req = ''v'' \<and> r_Credential req = ''A|x'' \<and>
     ask post (decision_request req) = Some (refusal ReasonBadCredential) \<and>
     g_Allow (fst (RemoteAuth_Admit post clk a req))"
proof -
  let ?post = "allows_only (decision_request sample_remote_request)"
  let ?req = "sample_remote_request\<lparr>r_Credential := ''A|x'', r_Estate := ''v''\<rparr>"
  let ?k = "decision_key (decision_request sample_remote_request)"
  let ?a = "NewRemoteAuth\<lparr>ra_cache := [(?k, \<lparr>ch_grant = zero_grant\<lparr>g_Allow := True\<rparr>, ch_until = 30 * Second\<rparr>)]\<rparr>"
  have first: "RemoteAuth_Admit ?post (\<lambda>_. 0) NewRemoteAuth sample_remote_request = (zero_grant\<lparr>g_Allow := True\<rparr>, ?a)"
  proof -
    have "r_Credential sample_remote_request \<noteq> ''''" by (simp add: sample_remote_request_def)
    moreover have "fresh NewRemoteAuth k t = None" "ra_Positive NewRemoteAuth = 30 * Second" "ra_cache NewRemoteAuth = []" for k t
      by (simp_all add: fresh_def NewRemoteAuth_def)
    ultimately show ?thesis
      by (simp add: RemoteAuth_Admit_def Let_def ask_allows_only duration_defs)
  qed
  have "decision_key (decision_request ?req) = ?k" by code_simp
  then have second: "g_Allow (fst (RemoteAuth_Admit ?post (\<lambda>_. 0) ?a ?req))"
    by (simp add: RemoteAuth_Admit_def Let_def fresh_def duration_defs)
  have "decision_json (decision_request ?req) \<noteq> decision_json (decision_request sample_remote_request)" by code_simp
  then have "ask ?post (decision_request ?req) = Some (refusal ReasonBadCredential)" by (simp add: ask_allows_only)
  with first second show ?thesis
    by (intro exI [of _ ?post] exI [of _ "\<lambda>_. 0"] exI [of _ ?req] exI [of _ ?a]) simp
qed

end
