(* ===== verification/Relay_Main.thy ===== *)
theory Relay_Main
  imports Relay_Authority Relay_Remote Relay_Server
begin

text \<open>
  The binary, \<^verbatim>\<open>src/cmd/heliograph-relay/main.go\<close>: how the environment chooses the authoriser, how the authorisers
  are wrapped, and how the store is opened before the server is built. An exit with an error is a value of
  \<open>exit_error\<close>. The hash of the executable, the listener, the signals and the hourly ticker are the operating
  system's; the ticker's \<^verbatim>\<open>Sweep\<close> is a step of the concurrent model.

  The three possible authorisers at the bottom are one type here, \<open>inner_auth\<close>, with one decision
  function; above it stand \<open>Hosted_Admit\<close>, when configured, and always \<open>AuthorityAuth_Admit\<close>.
\<close>

section \<open>Definitions\<close>

datatype exit_error =
    PrintedVersion
  | Usage
  | StationsCombined
  | BadStations scope_error
  | NothingConfigured
  | NotEstate string
  | SameToken string
  | BadLeaseKey key_error
  | BadSpool string

record environ =
  ev_ESTATES :: string
  ev_AUTHORISER :: string
  ev_STATIONS :: string
  ev_HOSTED :: string
  ev_LEASE_KEY :: string
  ev_SPOOL :: string

text \<open>\<^verbatim>\<open>strings.ToLower\<close> maps no other letter to one of the four words, so the ASCII letters are enough here.\<close>

definition truthy :: "string \<Rightarrow> bool" where
  "truthy v \<longleftrightarrow> ToLower (TrimSpace v) \<in> {''1'', ''true'', ''yes'', ''on''}"

definition main_args :: "string list \<Rightarrow> exit_error option" where
  "main_args args =
     (case args of
        _ # a # _ \<Rightarrow> Some (if a = ''version'' \<or> a = ''--version'' then PrintedVersion else Usage)
      | _ \<Rightarrow> None)"

datatype inner_auth = InnerScoped scoped_auth | InnerRemote remote_auth | InnerStatic static_auth

fun inner_Admit :: "sha \<Rightarrow> service \<Rightarrow> (nat \<Rightarrow> time) \<Rightarrow> inner_auth admit" where
  "inner_Admit sha post clk (InnerScoped a) req = apsnd InnerScoped (ScopedAuth_Admit sha a req)"
| "inner_Admit sha post clk (InnerRemote a) req = apsnd InnerRemote (RemoteAuth_Admit post clk a req)"
| "inner_Admit sha post clk (InnerStatic a) req = (authAdapter_Admit (AllowRead sha a) (AllowWrite sha a) req, InnerStatic a)"

record wiring =
  wr_hosted :: bool
  wr_leases :: "inner_auth authority_auth"

definition wired_inner :: "sha \<Rightarrow> service \<Rightarrow> (nat \<Rightarrow> time) \<Rightarrow> bool \<Rightarrow> inner_auth admit" where
  "wired_inner sha post clk hosted =
     (if hosted then Hosted_Admit (inner_Admit sha post clk) else inner_Admit sha post clk)"

text \<open>Each reading of the clock is its own: the lease check has the first, the authoriser below it the later ones.\<close>

definition wired_Admit :: "sha \<Rightarrow> service \<Rightarrow> (nat \<Rightarrow> time) \<Rightarrow> bool \<Rightarrow> inner_auth authority_auth admit" where
  "wired_Admit sha post clk hosted = AuthorityAuth_Admit (wired_inner sha post (\<lambda>i. clk (Suc i)) hosted) (clk 0)"

definition wrap :: "ed25519 \<Rightarrow> environ \<Rightarrow> inner_auth \<Rightarrow> exit_error + wiring" where
  "wrap verify ev a =
     (let leases = \<lparr>aa_Inner = a, aa_Verify = None, aa_Audience = '''', aa_epoch = [], aa_watchers = [], aa_chans = 0\<rparr>;
          key = TrimSpace (ev_LEASE_KEY ev)
      in if key \<noteq> ''''
         then (case ParseEd25519PublicKey key of
                 Inl e \<Rightarrow> Inl (BadLeaseKey e)
               | Inr pub \<Rightarrow> Inr \<lparr>wr_hosted = truthy (ev_HOSTED ev),
                                 wr_leases = leases\<lparr>aa_Verify := Some (Ed25519Verifier verify pub)\<rparr>\<rparr>)
         else Inr \<lparr>wr_hosted = truthy (ev_HOSTED ev), wr_leases = leases\<rparr>)"

definition estate_entry :: "sha \<Rightarrow> static_auth \<Rightarrow> string \<Rightarrow> exit_error + static_auth" where
  "estate_entry sha a e =
     (case split_on (CHR '':'') (TrimSpace e) of
        [p0, p1, p2] \<Rightarrow>
          if p0 = '''' \<or> p1 = '''' \<or> p2 = '''' then Inl (NotEstate e)
          else if p1 = p2 then Inl (SameToken p0)
          else Inr (SetStation sha p0 p2 (SetControl sha p0 p1 a))
      | _ \<Rightarrow> Inl (NotEstate e))"

definition parse_estates :: "sha \<Rightarrow> string \<Rightarrow> exit_error + static_auth" where
  "parse_estates sha spec = fold_sum (estate_entry sha) NewStaticAuth (split_on (CHR '','') spec)"

text \<open>What \<^verbatim>\<open>main\<close> hands to \<^verbatim>\<open>serve\<close>: the wrapped authoriser and the number of estates.\<close>

definition configure :: "ed25519 \<Rightarrow> sha \<Rightarrow> environ \<Rightarrow> exit_error + wiring \<times> nat" where
  "configure verify sha ev =
     (let spec = ev_ESTATES ev; authoriser = TrimSpace (ev_AUTHORISER ev); stations = TrimSpace (ev_STATIONS ev);
          served = (\<lambda>a n. case wrap verify ev a of Inl e \<Rightarrow> Inl e | Inr wr \<Rightarrow> Inr (wr, n))
      in if stations \<noteq> '''' then
           if authoriser \<noteq> '''' \<or> TrimSpace spec \<noteq> '''' then Inl StationsCombined
           else (case ParseStationScopes sha stations of
                   Inl e \<Rightarrow> Inl (BadStations e)
                 | Inr a \<Rightarrow> served (InnerScoped a) 0)
         else if authoriser \<noteq> '''' then served (InnerRemote NewRemoteAuth) 0
         else if TrimSpace spec = '''' then Inl NothingConfigured
         else (case parse_estates sha spec of
                 Inl e \<Rightarrow> Inl e
               | Inr a \<Rightarrow> served (InnerStatic a) (length (split_on (CHR '','') spec))))"

definition newServer :: "string \<Rightarrow> string \<Rightarrow> store \<Rightarrow> disk \<Rightarrow> 'st \<Rightarrow> 'st server" where
  "newServer version_name self_hash st d a =
     (NewAuthorisingServer st d a)\<lparr>sv_Version := version_name, sv_Hash := self_hash\<rparr>"

definition open_store :: "io \<Rightarrow> time \<Rightarrow> environ \<Rightarrow> disk \<Rightarrow> exit_error + store \<times> disk" where
  "open_store w t ev d =
     (let dir = TrimSpace (ev_SPOOL ev)
      in if dir \<noteq> ''''
         then (case OpenSpool w dir (NewStore t) d of
                 (Inl err, _, _) \<Rightarrow> Inl (BadSpool err)
               | (Inr report, st, d') \<Rightarrow> Inr (st, d'))
         else Inr (NewStore t, d))"

definition serve :: "string \<Rightarrow> string \<Rightarrow> io \<Rightarrow> time \<Rightarrow> environ \<Rightarrow> disk \<Rightarrow> 'st \<Rightarrow> exit_error + 'st server" where
  "serve version_name self_hash w t ev d a =
     (case open_store w t ev d of
        Inl e \<Rightarrow> Inl e
      | Inr (st, d') \<Rightarrow> Inr (newServer version_name self_hash st d' a))"

text \<open>
  The authoriser the server is given. \<^verbatim>\<open>AuthorityAuth\<close> embeds \<^verbatim>\<open>NoAccounting\<close>, so nothing is settled below it, and the
  authorisers below have no sessions of their own.
\<close>

definition wired_authoriser ::
  "sha \<Rightarrow> service \<Rightarrow> (nat \<Rightarrow> time) \<Rightarrow> bool \<Rightarrow> (inner_auth authority_auth, nat \<times> duration + string list option) authoriser" where
  "wired_authoriser sha post clk hosted =
     \<lparr>au_Admit = wired_Admit sha post clk hosted, au_Settle = NoAccounting_Settle,
      au_Watch = AuthorityAuth_Watch NoSessions_Watch clk\<rparr>"

text \<open>
  The states the authoriser of a running relay can be in: any decisions, with any service and clock, any polls registered
  and ended, and any revocations.
\<close>

inductive wired_run :: "sha \<Rightarrow> wiring \<Rightarrow> inner_auth authority_auth \<Rightarrow> bool" for sha wr where
  start: "wired_run sha wr (wr_leases wr)"
| admit: "wired_run sha wr a \<Longrightarrow> wired_run sha wr (snd (wired_Admit sha post clk (wr_hosted wr) a req))"
| register: "wired_run sha wr a \<Longrightarrow> wired_run sha wr (snd (AuthorityAuth_Watch_register now auth req a))"
| ends: "wired_run sha wr a \<Longrightarrow> wired_run sha wr (watch_ends k ch a)"
| revoke: "wired_run sha wr a \<Longrightarrow> wired_run sha wr (snd (Revoke estate epoch a))"

text \<open>What the configuration fixed is still there: everything but the remote authoriser's memory.\<close>

fun same_inner :: "inner_auth \<Rightarrow> inner_auth \<Rightarrow> bool" where
  "same_inner (InnerRemote _) (InnerRemote _) \<longleftrightarrow> True"
| "same_inner a b \<longleftrightarrow> a = b"

section \<open>Lemmas\<close>

lemma wrap_fields:
  assumes "wrap verify ev a = Inr wr"
  shows "aa_Inner (wr_leases wr) = a" "wr_hosted wr = truthy (ev_HOSTED ev)"
    "aa_Verify (wr_leases wr) = None \<longleftrightarrow> TrimSpace (ev_LEASE_KEY ev) = ''''"
  using assms by (auto simp: wrap_def Let_def split: if_splits sum.splits)

lemma configure_cases:
  assumes "configure verify sha ev = Inr (wr, n)"
  obtains (stations) a where "TrimSpace (ev_STATIONS ev) \<noteq> ''''" "TrimSpace (ev_AUTHORISER ev) = ''''" "TrimSpace (ev_ESTATES ev) = ''''"
      "ParseStationScopes sha (TrimSpace (ev_STATIONS ev)) = Inr a" "wrap verify ev (InnerScoped a) = Inr wr"
  | (remote) "TrimSpace (ev_STATIONS ev) = ''''" "TrimSpace (ev_AUTHORISER ev) \<noteq> ''''" "wrap verify ev (InnerRemote NewRemoteAuth) = Inr wr"
  | (estates) a where "TrimSpace (ev_STATIONS ev) = ''''" "TrimSpace (ev_AUTHORISER ev) = ''''" "TrimSpace (ev_ESTATES ev) \<noteq> ''''"
      "parse_estates sha (ev_ESTATES ev) = Inr a" "wrap verify ev (InnerStatic a) = Inr wr"
  using assms by (auto simp: configure_def Let_def split: if_splits sum.splits)

lemma unverified_admit:
  assumes "aa_Verify a = None" "g_Allow (fst (AuthorityAuth_Admit inner now a req))"
  shows "fst (AuthorityAuth_Admit inner now a req) = fst (inner (aa_Inner a) req)"
proof -
  have "\<not> g_Allow (check now a auth s req) \<and> g_Reason (check now a auth s req) \<noteq> ReasonOutOfScope" for auth s
    using assms(1) by (simp add: check_def)
  with assms(2) show ?thesis
    by (auto simp: AuthorityAuth_Admit_def ask_inner_def split_beta Let_def split: sum.splits)
qed

lemma hosted_allow: "g_Allow (fst (Hosted_Admit f st req)) \<Longrightarrow>
  fst (Hosted_Admit f st req) = fst (f st req) \<and> stationScoped (g_Scope (fst (f st req)))"
  by (auto simp: Hosted_Admit_def zero_grant_def split_beta Let_def split: if_splits)

lemma same_inner_refl [simp]: "same_inner a a" by (cases a) auto

lemma same_inner_trans: "same_inner a b \<Longrightarrow> same_inner b c \<Longrightarrow> same_inner a c"
  by (cases a; cases b; cases c) auto

lemma inner_Admit_same: "same_inner a (snd (inner_Admit sha post clk a req))"
  by (cases a) (auto simp: ScopedAuth_Admit_def split_beta)

lemma wired_inner_same: "same_inner a (snd (wired_inner sha post clk hosted a req))"
  using inner_Admit_same by (auto simp: wired_inner_def Hosted_Admit_def split_beta Let_def)

lemma authority_steps_same:
  "aa_Verify (snd (AuthorityAuth_Admit f now a req)) = aa_Verify a"
  "aa_Inner (snd (AuthorityAuth_Admit f now a req)) \<in> {aa_Inner a, snd (f (aa_Inner a) req)}"
  "aa_Verify (snd (AuthorityAuth_Watch_register now auth req a)) = aa_Verify a"
  "aa_Inner (snd (AuthorityAuth_Watch_register now auth req a)) = aa_Inner a"
  "aa_Verify (watch_ends k ch a) = aa_Verify a" "aa_Inner (watch_ends k ch a) = aa_Inner a"
  "aa_Verify (snd (Revoke estate epoch a)) = aa_Verify a" "aa_Inner (snd (Revoke estate epoch a)) = aa_Inner a"
  "aa_Audience (snd (AuthorityAuth_Admit f now a req)) = aa_Audience a"
  "aa_Audience (snd (AuthorityAuth_Watch_register now auth req a)) = aa_Audience a"
  "aa_Audience (watch_ends k ch a) = aa_Audience a" "aa_Audience (snd (Revoke estate epoch a)) = aa_Audience a"
  by (auto simp: AuthorityAuth_Admit_def ask_inner_def AuthorityAuth_Watch_register_def watch_ends_def Revoke_def Let_def split_beta split: sum.splits)

lemma wired_run_same:
  assumes "wired_run sha wr a"
  shows "aa_Verify a = aa_Verify (wr_leases wr) \<and> aa_Audience a = aa_Audience (wr_leases wr) \<and>
    same_inner (aa_Inner (wr_leases wr)) (aa_Inner a)"
  using assms
proof induction
  case (admit a post clk req)
  let ?b = "snd (wired_Admit sha post clk (wr_hosted wr) a req)"
  have "same_inner (aa_Inner a) (aa_Inner ?b)"
    using authority_steps_same(2) [of "wired_inner sha post (\<lambda>i. clk (Suc i)) (wr_hosted wr)" "clk 0" a req] wired_inner_same
    by (auto simp: wired_Admit_def)
  with admit.IH show ?case by (auto simp: wired_Admit_def authority_steps_same intro: same_inner_trans)
qed (simp_all add: authority_steps_same)

section \<open>Properties\<close>

text \<open>
  Property C16. A hosted relay with no lease key keeps its tenants apart, whatever else is configured and however long it
  has run. Everything such a relay admits is admitted under a scope of named stations; when the scopes come from its own
  configuration the requested station is one of them; and a hosted relay configured with one token pair per estate
  admits nobody at all.
\<close>

theorem hosted_relay_isolation:
  assumes conf: "configure verify sha ev = Inr (wr, n)" and host: "truthy (ev_HOSTED ev)" and nokey: "TrimSpace (ev_LEASE_KEY ev) = ''''"
    and run: "wired_run sha wr a" and allow: "g_Allow (fst (wired_Admit sha post clk (wr_hosted wr) a req))"
  shows "stationScoped (g_Scope (fst (wired_Admit sha post clk (wr_hosted wr) a req))) \<and>
    (case aa_Inner (wr_leases wr) of
       InnerScoped _ \<Rightarrow> r_Station req \<in> set (sc_Stations (g_Scope (fst (wired_Admit sha post clk (wr_hosted wr) a req)))) \<and>
         sc_Estate (g_Scope (fst (wired_Admit sha post clk (wr_hosted wr) a req))) = r_Estate req
     | InnerRemote _ \<Rightarrow> True
     | InnerStatic _ \<Rightarrow> False)"
proof -
  let ?in = "inner_Admit sha post (\<lambda>i. clk (Suc i))" and ?a = "aa_Inner a"
  have w: "wr_hosted wr" "aa_Verify a = None"
    using conf host nokey wired_run_same [OF run] by (cases rule: configure_cases; simp add: wrap_fields)+
  have same: "same_inner (aa_Inner (wr_leases wr)) ?a" using wired_run_same [OF run] by simp
  have g: "fst (wired_Admit sha post clk (wr_hosted wr) a req) = fst (Hosted_Admit ?in ?a req)"
    using unverified_admit [OF w(2)] allow w(1) by (simp add: wired_Admit_def wired_inner_def)
  then have h: "fst (Hosted_Admit ?in ?a req) = fst (?in ?a req)" "stationScoped (g_Scope (fst (?in ?a req)))" "g_Allow (fst (?in ?a req))"
    using allow hosted_allow [of ?in ?a req] by simp_all
  have "(case aa_Inner (wr_leases wr) of
       InnerScoped _ \<Rightarrow> r_Station req \<in> set (sc_Stations (g_Scope (fst (?in ?a req)))) \<and> sc_Estate (g_Scope (fst (?in ?a req))) = r_Estate req
     | InnerRemote _ \<Rightarrow> True | InnerStatic _ \<Rightarrow> False)"
  proof (cases "aa_Inner (wr_leases wr)")
    case (InnerScoped b)
    then have b: "?a = InnerScoped b" using same by simp
    then have "permits (g_Scope (fst (ScopedAuth_Admit sha b req))) (r_Estate req) (r_Station req) (r_Dir req) (r_Op req)"
      using scoped.allow_within_scope [of sha b req] h(3) by simp
    with InnerScoped b h(2) show ?thesis by (auto simp: permits_def stationScoped_def split: if_splits)
  next
    case (InnerStatic b)
    then have "?a = InnerStatic b" using same by simp
    with h(2,3) show ?thesis
      by (auto simp: authAdapter_Admit_def Let_def wide_scope_def stationScoped_def split: if_splits)
  qed simp
  with h(2) show ?thesis unfolding g h(1) by (rule conjI)
qed

definition spec_tokens :: "string \<Rightarrow> string list" where
  "spec_tokens spec = concat (map (\<lambda>e. drop 1 (split_on (CHR '':'') (TrimSpace e))) (split_on (CHR '','') spec))"

definition two_sided :: "sha \<Rightarrow> string set \<Rightarrow> static_auth \<Rightarrow> bool" where
  "two_sided sha toks a \<longleftrightarrow> (\<forall>e.
     (map_of (sa_control a) e = None \<and> map_of (sa_station a) e = None) \<or>
     (\<exists>c s. c \<noteq> s \<and> c \<in> toks \<and> s \<in> toks \<and> map_of (sa_control a) e = Some (sha c) \<and> map_of (sa_station a) e = Some (sha s)))"

lemma estate_entry_two_sided:
  assumes "estate_entry sha a e = Inr a'" "two_sided sha toks a" "set (drop 1 (split_on (CHR '':'') (TrimSpace e))) \<subseteq> toks"
  shows "two_sided sha toks a'"
proof -
  from assms(1) obtain p0 p1 p2 where p: "split_on (CHR '':'') (TrimSpace e) = [p0, p1, p2]" "p1 \<noteq> p2"
    "a' = SetStation sha p0 p2 (SetControl sha p0 p1 a)"
    by (auto simp: estate_entry_def split: list.splits if_splits)
  then have "p1 \<in> toks" "p2 \<in> toks" using assms(3) by simp_all
  with p assms(2) show ?thesis by (auto simp: two_sided_def SetStation_def SetControl_def update_conv)
qed

lemma no_token_for_both:
  assumes "parse_estates sha spec = Inr a" "inj_on sha (set (spec_tokens spec))"
  shows "\<not> (AllowWrite sha a tok e st c2s \<and> AllowWrite sha a tok e st' s2c)"
proof -
  have "two_sided sha (set (spec_tokens spec)) a"
    using assms(1) unfolding parse_estates_def
  proof (induction rule: fold_sum_invariant)
    case init
    then show ?case by (simp add: two_sided_def NewStaticAuth_def)
  next
    case (step ys y t t')
    have "set (drop 1 (split_on (CHR '':'') (TrimSpace y))) \<subseteq> set (spec_tokens spec)"
      using step.hyps by (auto simp: spec_tokens_def)
    with step show ?case using estate_entry_two_sided by blast
  qed
  then have "(map_of (sa_control a) e = None \<and> map_of (sa_station a) e = None) \<or>
     (\<exists>c s. c \<noteq> s \<and> c \<in> set (spec_tokens spec) \<and> s \<in> set (spec_tokens spec) \<and>
        map_of (sa_control a) e = Some (sha c) \<and> map_of (sa_station a) e = Some (sha s))"
    unfolding two_sided_def by (rule spec)
  then consider "map_of (sa_control a) e = None" | c s where "c \<noteq> s" "c \<in> set (spec_tokens spec)" "s \<in> set (spec_tokens spec)"
      "map_of (sa_control a) e = Some (sha c)" "map_of (sa_station a) e = Some (sha s)"
    by (elim disjE exE conjE)
  then show ?thesis
  proof cases
    case 1
    then show ?thesis by (simp add: static_auth_defs lookup_or_def)
  next
    case (2 c s)
    then have "sha c \<noteq> sha s" using assms(2) by (metis inj_onD)
    with 2 show ?thesis by (auto simp: static_auth_defs lookup_or_def)
  qed
qed

text \<open>
  In a configured list of estates no token acts for both sides. When the list parses and the hash tells its
  tokens apart, there is no token that may both queue a request and publish a reply of the same estate, even when
  an estate is listed more than once and the later entry replaces the earlier.
\<close>

theorem estates_separated:
  assumes "parse_estates sha spec = Inr a" "inj_on sha (set (spec_tokens spec))"
  shows "\<not> (AllowWrite sha a tok e st c2s \<and> AllowWrite sha a tok e st' s2c)"
  using assms by (rule no_token_for_both)

definition sample_estates_spec :: string where "sample_estates_spec = ''e1:c:s,e1:d:c''"

lemma sample_estates:
  "\<exists>a. parse_estates sample_sha sample_estates_spec = Inr a \<and> AllowWrite sample_sha a ''d'' ''e1'' ''st'' c2s" "inj_on sample_sha (set (spec_tokens sample_estates_spec))"
proof -
  have "(case parse_estates sample_sha sample_estates_spec of Inl _ \<Rightarrow> False | Inr a \<Rightarrow> AllowWrite sample_sha a ''d'' ''e1'' ''st'' c2s)" by code_simp
  then show "\<exists>a. parse_estates sample_sha sample_estates_spec = Inr a \<and> AllowWrite sample_sha a ''d'' ''e1'' ''st'' c2s"
    by (cases "parse_estates sample_sha sample_estates_spec") simp_all
  have "set (spec_tokens sample_estates_spec) = {''c'', ''s'', ''d''}" by code_simp
  moreover have "distinct (map sample_sha [''c'', ''s'', ''d''])" by code_simp
  ultimately show "inj_on sample_sha (set (spec_tokens sample_estates_spec))" by (simp add: distinct_map)
qed

theorem estates_separated_witness:
  "\<exists>a. parse_estates sample_sha sample_estates_spec = Inr a \<and> AllowWrite sample_sha a ''d'' ''e1'' ''st'' c2s \<and>
     \<not> AllowWrite sample_sha a ''d'' ''e1'' ''st'' s2c"
proof -
  obtain a where a: "parse_estates sample_sha sample_estates_spec = Inr a" "AllowWrite sample_sha a ''d'' ''e1'' ''st'' c2s"
    using sample_estates(1) by blast
  from estates_separated [OF a(1) sample_estates(2), of "''d''" "''e1''" "''st''" "''st''"] a show ?thesis by blast
qed

definition sample_environ :: environ where
  "sample_environ = \<lparr>ev_ESTATES = '''', ev_AUTHORISER = '''', ev_STATIONS = ''e1:st:station:tok'', ev_HOSTED = ''Yes'',
     ev_LEASE_KEY = '''', ev_SPOOL = ''''\<rparr>"

definition sample_read :: request where
  "sample_read = \<lparr>r_Credential = ''tok'', r_Estate = ''e1'', r_Station = ''st'', r_Dir = c2s, r_Op = OpRead, r_Bytes = 0, r_At = 0\<rparr>"

theorem hosted_relay_isolation_witness:
  "\<exists>wr n. configure (\<lambda>_ _ _. False) sample_sha sample_environ = Inr (wr, n) \<and>
     stationScoped (g_Scope (fst (wired_Admit sample_sha (\<lambda>_. None) (\<lambda>_. 0) (wr_hosted wr) (wr_leases wr) sample_read)))"
proof -
  have "(case configure (\<lambda>_ _ _. False) sample_sha sample_environ of Inl _ \<Rightarrow> False
    | Inr (wr, n) \<Rightarrow> g_Allow (fst (wired_Admit sample_sha (\<lambda>_. None) (\<lambda>_. 0) (wr_hosted wr) (wr_leases wr) sample_read)))"
    by code_simp
  then obtain wr n where c: "configure (\<lambda>_ _ _. False) sample_sha sample_environ = Inr (wr, n)"
    and g: "g_Allow (fst (wired_Admit sample_sha (\<lambda>_. None) (\<lambda>_. 0) (wr_hosted wr) (wr_leases wr) sample_read))"
    by (auto split: sum.splits)
  have "truthy (ev_HOSTED sample_environ)" "TrimSpace (ev_LEASE_KEY sample_environ) = ''''" by code_simp+
  from hosted_relay_isolation [OF c this wired_run.start g] c show ?thesis by blast
qed

lemma wrap_verifier:
  assumes "wrap verify ev b = Inr wr" "ParseEd25519PublicKey (TrimSpace (ev_LEASE_KEY ev)) = Inr pub"
  shows "aa_Verify (wr_leases wr) = Some (Ed25519Verifier verify pub)" "aa_Audience (wr_leases wr) = ''''"
proof -
  have "TrimSpace '''' = ''''" by code_simp
  then have "ParseEd25519PublicKey '''' = Inl NoKeyConfigured" by (simp add: ParseEd25519PublicKey_def)
  then have "TrimSpace (ev_LEASE_KEY ev) \<noteq> ''''" using assms(2) by force
  then show "aa_Verify (wr_leases wr) = Some (Ed25519Verifier verify pub)" "aa_Audience (wr_leases wr) = ''''"
    using assms by (auto simp: wrap_def Let_def)
qed

text \<open>A lease in force within the wired relay: the conditions of \<open>check\<close> other than the signature.\<close>

definition in_force :: "'st authority_auth \<Rightarrow> time \<Rightarrow> authority \<Rightarrow> request \<Rightarrow> bool" where
  "in_force a now l req \<longleftrightarrow> a_Expires l - a_NotBefore l \<le> MaxAuthorityLife \<and> a_NotBefore l \<le> now \<and> now < a_Expires l \<and>
     Epoch a (sc_Estate (a_Scope l)) \<le> a_Epoch l \<and>
     permits (a_Scope l) (r_Estate req) (r_Station req) (r_Dir req) (r_Op req)"

text \<open>
  Property C36. The hosted restriction does not reach authorisation leases. Take any configuration the binary starts with that asks for
  \<^verbatim>\<open>HELIOGRAPH_RELAY_HOSTED\<close> and names a lease key, in any state its authoriser can come to. A lease for a whole estate that verifies under that key
  and is in force is admitted, with a scope that names no station, by the relay told to refuse every credential that is not scoped to named
  stations. Whatever the same relay admits on a credential that is not a lease has a scope of named stations: the lease check stands
  outside the wrapper that enforces the rule.
\<close>

theorem hosted_admits_estate_wide_lease:
  assumes conf: "configure verify sha ev = Inr (wr, n)" and host: "truthy (ev_HOSTED ev)"
    and key: "ParseEd25519PublicKey (TrimSpace (ev_LEASE_KEY ev)) = Inr pub" and run: "wired_run sha wr a"
    and lease: "encodable l" "sc_AllStations (a_Scope l)" "r_Credential req = NewAuthority l sign" "in_force a (clk 0) l req"
    and signed: "length (sign (RawURLEncoding_Encode (payload_json (payload_of l)))) = 64"
      "verify pub (RawURLEncoding_Encode (payload_json (payload_of l))) (sign (RawURLEncoding_Encode (payload_json (payload_of l))))"
  shows "g_Allow (fst (wired_Admit sha post clk (wr_hosted wr) a req)) \<and>
    \<not> stationScoped (g_Scope (fst (wired_Admit sha post clk (wr_hosted wr) a req))) \<and>
    (isl (ParseAuthority (r_Credential other)) \<and> g_Allow (fst (wired_Admit sha post clk (wr_hosted wr) a other)) \<longrightarrow>
      stationScoped (g_Scope (fst (wired_Admit sha post clk (wr_hosted wr) a other))))"
proof -
  obtain b where b: "wrap verify ev b = Inr wr" using conf by (cases rule: configure_cases) auto
  have w: "aa_Verify a = Some (Ed25519Verifier verify pub)" "aa_Audience a = ''''" "wr_hosted wr"
    using wrap_verifier [OF b key] wired_run_same [OF run] wrap_fields(2) [OF b] host by simp_all
  have "length pub = PublicKeySize" using key by (auto simp: ParseEd25519PublicKey_def Let_def split: option.splits if_splits)
  then have "g_Allow (check (clk 0) a l \<lparr>sg_payload = RawURLEncoding_Encode (payload_json (payload_of l)),
      sg_signature = sign (RawURLEncoding_Encode (payload_json (payload_of l)))\<rparr> req)"
    using w signed lease(4) by (simp add: check_allow in_force_def Ed25519Verifier_def SignatureSize_def)
  then have "wired_Admit sha post clk (wr_hosted wr) a req = (allowing (a_Scope l), a)"
    using parse_new [OF lease(1), of sign] lease(3) by (simp add: wired_Admit_def AuthorityAuth_Admit_def check_scope)
  moreover have "stationScoped (g_Scope (fst (wired_Admit sha post clk (wr_hosted wr) a other)))"
    if o: "isl (ParseAuthority (r_Credential other))" "g_Allow (fst (wired_Admit sha post clk (wr_hosted wr) a other))"
  proof -
    have "fst (wired_Admit sha post clk (wr_hosted wr) a other) = fst (Hosted_Admit (inner_Admit sha post (\<lambda>i. clk (Suc i))) (aa_Inner a) other)"
      using o(1) w(3) by (cases "ParseAuthority (r_Credential other)")
        (simp_all add: wired_Admit_def wired_inner_def AuthorityAuth_Admit_def ask_inner_def split_beta)
    then show ?thesis using o(2) hosted_allow [of "inner_Admit sha post (\<lambda>i. clk (Suc i))" "aa_Inner a" other] by simp
  qed
  ultimately show ?thesis using lease(2) by (simp add: stationScoped_def)
qed

definition keyed_environ :: environ where
  "keyed_environ = sample_environ\<lparr>ev_LEASE_KEY := hex_encode sample_key\<rparr>"

definition pad_sign :: "string \<Rightarrow> string" where
  "pad_sign p = take 64 (p @ replicate 64 (CHR ''s''))"

definition wide_lease :: authority where
  "wide_lease = sample_authority\<lparr>a_Scope := sample_scope\<lparr>sc_Stations := [], sc_AllStations := True\<rparr>\<rparr>"

definition wide_request :: request where
  "wide_request = sample_request\<lparr>r_Credential := NewAuthority wide_lease pad_sign\<rparr>"

theorem hosted_admits_estate_wide_lease_witness:
  "\<exists>wr n. configure (\<lambda>pub p sg. sg = pad_sign p) sample_sha keyed_environ = Inr (wr, n) \<and>
     g_Allow (fst (wired_Admit sample_sha (\<lambda>_. None) (\<lambda>_. 1700000300 * Second) (wr_hosted wr) (wr_leases wr) wide_request)) \<and>
     \<not> stationScoped (g_Scope (fst (wired_Admit sample_sha (\<lambda>_. None) (\<lambda>_. 1700000300 * Second) (wr_hosted wr) (wr_leases wr) wide_request)))"
proof -
  have "\<not> isl (configure (\<lambda>pub p sg. sg = pad_sign p) sample_sha keyed_environ)" by code_simp
  then obtain wr n where c: "configure (\<lambda>pub p sg. sg = pad_sign p) sample_sha keyed_environ = Inr (wr, n)"
    by (cases "configure (\<lambda>pub p sg. sg = pad_sign p) sample_sha keyed_environ") auto
  have h: "truthy (ev_HOSTED keyed_environ)" by code_simp
  have "TrimSpace (ev_LEASE_KEY keyed_environ) = hex_encode sample_key" by code_simp
  moreover have "ParseEd25519PublicKey (hex_encode sample_key) = Inr sample_key" by code_simp
  ultimately have k: "ParseEd25519PublicKey (TrimSpace (ev_LEASE_KEY keyed_environ)) = Inr sample_key" by simp
  have e: "encodable wide_lease"
    by (auto simp: wide_lease_def encodable_def payload_ok_def payload_of_def sample_authority_def sample_scope_def whole_second_def i64_def
        unix_seconds_def duration_defs in_range_def intro!: valid_utf8_ascii)
  obtain b where "wrap (\<lambda>pub p sg. sg = pad_sign p) keyed_environ b = Inr wr" using c by (cases rule: configure_cases) auto
  then have "aa_epoch (wr_leases wr) = []" by (auto simp: wrap_def Let_def split: if_splits sum.splits)
  then have f: "in_force (wr_leases wr) (1700000300 * Second) wide_lease wide_request"
    by (simp add: in_force_def wide_lease_def wide_request_def sample_authority_def sample_scope_def sample_request_def
        MaxAuthorityLife_def duration_defs Epoch_def lookup_or_def permits_def validDir_def)
  have a: "sc_AllStations (a_Scope wide_lease)" "r_Credential wide_request = NewAuthority wide_lease pad_sign"
    by (simp_all add: wide_lease_def wide_request_def)
  have "length (pad_sign p) = 64" for p by (simp add: pad_sign_def)
  from hosted_admits_estate_wide_lease [OF c h k wired_run.start e a, of "\<lambda>_. 1700000300 * Second" "\<lambda>_. None", OF f this refl] c
  show ?thesis by blast
qed

end
