(* ===== verification/Relay_Bench.thy ===== *)
theory Relay_Bench
  imports Relay_Contract Relay_Answers Relay_Main
begin

text \<open>
  The Go relay under test: a server, a clock and a network, as a \<open>lab\<close> of the conformance suite.

  \<^item> \<open>bench\<close> collects what the relay is given from outside: the hash, the remote authoriser, the zone and the rest of \<open>wire\<close>, the
    platform's conversion, the disk, and how long a request takes on its way. Every request is handled
    at one instant and answered some moments later; a poll that is held without anything arriving is
    answered after the twenty-five seconds of \<open>NewAuthorisingServer\<close>.
  \<^item> \<open>arrives\<close> is the way of a request from the client's \<^verbatim>\<open>net/http\<close> to the server's, for URLs without escapes.
  \<^item> \<open>portrays\<close> says that a store is in the abstract state of \<open>relay_contract\<close>; the lemmas after it are the laws of that
    contract on the store's own operations.
\<close>

section \<open>The bench\<close>

record world =
  wo_server :: "inner_auth authority_auth server"
  wo_now :: time

record bench =
  be_sha :: sha
  be_post :: service
  be_hosted :: bool
  be_wire :: wire
  be_oor :: "float64 \<Rightarrow> int"
  be_io :: io
  be_lag :: "creq \<Rightarrow> time \<Rightarrow> duration"

definition query_pair :: "string \<Rightarrow> string \<times> string" where
  "query_pair p = (takeWhile (\<lambda>c. c \<noteq> CHR ''='') p, drop 1 (dropWhile (\<lambda>c. c \<noteq> CHR ''='') p))"

definition query_pairs :: "string \<Rightarrow> (string \<times> string) list" where
  "query_pairs q = (if q = '''' then [] else map query_pair (split_on (CHR ''&'') q))"

definition header :: "string option \<Rightarrow> string" where
  "header h = (case h of None \<Rightarrow> '''' | Some v \<Rightarrow> v)"

definition arrives :: "string \<Rightarrow> creq \<Rightarrow> string list \<times> http_request" where
  "arrives base q =
     (let u = drop (length base) (cq_url q); body = header (cq_body q)
      in (split_on (CHR ''/'') (drop 1 (takeWhile (\<lambda>c. c \<noteq> CHR ''?'') u)),
          \<lparr>hr_estate = '''', hr_station = '''', hr_dir = '''', hr_Authorization = header (cq_Authorization q),
           hr_Accept = header (cq_Accept q), hr_query = query_pairs (drop 1 (dropWhile (\<lambda>c. c \<noteq> CHR ''?'') u)),
           hr_ContentLength = int (length body), hr_body = \<lparr>b_bytes = body, b_broken = False\<rparr>\<rparr>))"

definition env_at :: "bench \<Rightarrow> time \<Rightarrow> env" where
  "env_at b now = \<lparr>e_io = be_io b, e_clk = (\<lambda>_. now), e_started = now, e_settled = now, e_oor = be_oor b\<rparr>"

definition auth_at :: "bench \<Rightarrow> time \<Rightarrow> (inner_auth authority_auth, nat \<times> duration + string list option) authoriser" where
  "auth_at b now = wired_authoriser (be_sha b) (be_post b) (\<lambda>_. now) (be_hosted b)"

definition waits :: "('st, 'w) authoriser \<Rightarrow> env \<Rightarrow> string \<Rightarrow> string list \<Rightarrow> http_request \<Rightarrow> 'st server \<Rightarrow> bool" where
  "waits au e meth segs hr s =
     (case route meth segs of
        Some (EGet es st d) \<Rightarrow> \<not> isl (fst (Server_get_start au e (at_route es st d hr) s))
      | _ \<Rightarrow> False)"

definition reply_of :: "http_response \<Rightarrow> creply" where
  "reply_of h = \<lparr>cr_status = hs_status h, cr_type = hs_type h, cr_body = hs_body h\<rparr>"

definition bench_Do :: "bench \<Rightarrow> string \<Rightarrow> creq \<Rightarrow> world \<Rightarrow> creply option \<times> world" where
  "bench_Do b base q w =
     (let (segs, hr) = arrives base q; now = wo_now w; s = wo_server w;
          till = (if waits (auth_at b now) (env_at b now) (cq_method q) segs hr s then now + 25 * Second else now);
          (h, s') = serve_http (be_wire b) (auth_at b now) (env_at b now) TimedOut (env_at b till) (cq_method q) segs hr s
      in (Some (reply_of h), \<lparr>wo_server = s', wo_now = till + be_lag b q till\<rparr>))"

text \<open>
  Two requests at the same time, on one schedule: the first is a poll that is registered before the second request is sent, as the suite intends
  with its pause between them, and that goes on as soon as it is woken. The schedules on which a wake-up is lost are those of
  \<open>sys_step\<close>; no statement about the suite covers them.
\<close>

definition bench_Beside ::
  "bench \<Rightarrow> string \<Rightarrow> creq \<Rightarrow> duration \<Rightarrow> creq \<Rightarrow> world \<Rightarrow> (creply option option \<times> creply option) \<times> world" where
  "bench_Beside b base p dt q w =
     (let (segs, hr) = arrives base p; now = wo_now w;
          alone = (let (x, w1) = bench_Do b base p w; (y, w2) = bench_Do b base q (w1\<lparr>wo_now := wo_now w1 + dt\<rparr>) in ((Some x, y), w2))
      in (case route (cq_method p) segs of
            Some (EGet es st d) \<Rightarrow>
              (case Server_get_start (auth_at b now) (env_at b now) (at_route es st d hr) (wo_server w) of
                 (Inr c, s1) \<Rightarrow>
                   let k = route_key (c_req c); (ch, s2) = hold_begin k s1;
                       (y, w3) = bench_Do b base q \<lparr>wo_server = s2, wo_now = now + dt\<rparr>;
                       s3 = wo_server w3; woken = ((ch, True) \<in> set (lookup_or [] (sv_waiters s3) k));
                       till = (if woken then wo_now w3 else max (wo_now w3) (now + 25 * Second));
                       (r, s4) = Server_get_resume (auth_at b till) (env_at b till) c (hold_result (if woken then Woken else TimedOut)) (hold_end k ch s3)
                   in ((Some (Some \<lparr>cr_status = rs_status r, cr_type = content_type r, cr_body = response_body (be_wire b) r\<rparr>), y),
                       \<lparr>wo_server = s4, wo_now = till + be_lag b p till\<rparr>)
               | (Inl _, _) \<Rightarrow> alone)
          | _ \<Rightarrow> alone))"

definition bench_lab :: "bench \<Rightarrow> string \<Rightarrow> world lab" where
  "bench_lab b base =
     \<lparr>lab_Do = bench_Do b base, lab_Now = (\<lambda>w. (wo_now w, w)), lab_Sleep = (\<lambda>dt w. w\<lparr>wo_now := wo_now w + dt\<rparr>),
      lab_Beside = bench_Beside b base\<rparr>"

section \<open>Abstract states of a store\<close>

definition view :: "message \<Rightarrow> held_msg" where
  "view m = \<lparr>v_ID = m_ID m, v_Seq = m_Seq m, v_Body = m_Body m, v_At = m_At m, v_Lease = m_lease m, v_Until = m_leaseUntil m\<rparr>"

definition mine :: "string \<Rightarrow> string \<Rightarrow> string \<Rightarrow> time \<Rightarrow> message \<Rightarrow> bool" where
  "mine E st dr T m \<longleftrightarrow> m_Estate m = E \<and> m_Station m = st \<and> m_Dir m = dr \<and> (\<exists>n. m_ID m = id_name n) \<and> 0 \<le> m_At m \<and> m_At m \<le> T"

definition portrays :: "string \<Rightarrow> time \<Rightarrow> store \<Rightarrow> (nat \<Rightarrow> string) \<Rightarrow> queues \<Rightarrow> bool" where
  "portrays E T s nm H \<longleftrightarrow>
     s_ttl s = DefaultTTL \<and> s_max s = DefaultMaxQueue \<and> s_spool s = None \<and> list_all path_char (s_epoch s) \<and> length (s_epoch s) < 900 \<and>
     nm = (\<lambda>i. lease_name (s_epoch s) (unat (s_leases s + 1 + of_nat i))) \<and>
     (\<forall>st dr. path_name st \<and> a_dir dr \<longrightarrow>
        H (st, dr) = map view (queue s (key E st dr)) \<and> list_all (mine E st dr T) (queue s (key E st dr)))"

lemma a_dir_valid: "a_dir d \<longleftrightarrow> validDir d"
  by (simp add: a_dir_def validDir_def)

lemma path_no_slash: "path_name st \<Longrightarrow> CHR ''/'' \<notin> set st"
  by (auto simp: path_name_def list_all_iff path_char_def Let_def is_digit_def less_eq_char_def)

lemma path_route: "path_name e \<Longrightarrow> path_name st \<Longrightarrow> a_dir d \<Longrightarrow> validRoute e st d"
  by (simp add: route_simps path_name_def a_dir_valid)

lemma portrays_queue:
  assumes "portrays E T s nm H" "path_name st" "a_dir dr"
  shows "H (st, dr) = map view (queue s (key E st dr))" "\<forall>m \<in> set (queue s (key E st dr)). mine E st dr T m"
  using assms by (auto simp: portrays_def list_all_iff)

text \<open>Replacing one queue of a store.\<close>

lemma portrays_upd:
  assumes "portrays E T s nm H" "path_name st" "a_dir dr"
    and "s_ttl s' = s_ttl s" "s_max s' = s_max s" "s_spool s' = s_spool s" "s_epoch s' = s_epoch s"
    and "\<And>k. k \<noteq> key E st dr \<Longrightarrow> queue s' k = queue s k"
    and "\<forall>m \<in> set (queue s' (key E st dr)). mine E st dr T m" "vs = map view (queue s' (key E st dr))"
    and "nm' = (\<lambda>i. lease_name (s_epoch s) (unat (s_leases s' + 1 + of_nat i)))"
  shows "portrays E T s' nm' (H((st, dr) := vs))"
proof -
  have "(H((st, dr) := vs)) (st', dr') = map view (queue s' (key E st' dr')) \<and> list_all (mine E st' dr' T) (queue s' (key E st' dr'))"
    if p: "path_name st'" "a_dir dr'" for st' dr'
  proof (cases "(st', dr') = (st, dr)")
    case True
    then show ?thesis using assms(9,10) by (simp add: list_all_iff)
  next
    case False
    then have "key E st' dr' \<noteq> key E st dr"
      using key_inj [of E st' dr' E st dr] p assms(2,3) path_no_slash by (auto simp: a_dir_valid)
    then show ?thesis using assms(1,8) False p by (auto simp: portrays_def)
  qed
  then show ?thesis using assms(1,4-7,11) by (simp add: portrays_def)
qed

lemma mine_later: "mine E st dr T m \<Longrightarrow> T \<le> T' \<Longrightarrow> mine E st dr T' m"
  by (auto simp: mine_def)

lemma portrays_later: "portrays E T s nm H \<Longrightarrow> T \<le> T' \<Longrightarrow> portrays E T' s nm H"
  unfolding portrays_def by (blast intro: list.pred_mono_strong mine_later)

lemma view_sel [simp]:
  "v_ID (view m) = m_ID m" "v_Seq (view m) = m_Seq m" "v_Body (view m) = m_Body m" "v_At (view m) = m_At m"
  "v_Lease (view m) = m_lease m" "v_Until (view m) = m_leaseUntil m"
  by (simp_all add: view_def)

lemma view_release: "view (release T m) = lapse T (view m)"
  by (auto simp: view_def release_def lapse_def)

lemma view_free: "unheld (view m) = free m"
  by (simp add: unheld_def free_def)

lemma mine_release: "mine E st dr T m \<Longrightarrow> mine E st dr T (release T' m)"
  by (simp add: mine_def release_def)

text \<open>In a queue of young messages nothing expires but leases.\<close>

lemma young_live:
  assumes "young T (map view ms)"
  shows "live DefaultTTL T ms = ms" "stale DefaultTTL T ms = []"
proof -
  have "\<forall>m \<in> set ms. \<not> m_At m < T - DefaultTTL"
    using assms by (auto simp: young_def list_all_iff DefaultTTL_def duration_defs)
  then show "stale DefaultTTL T ms = []" by (cases ms) (simp_all add: stale_def)
  then show "live DefaultTTL T ms = ms" by (rule live_id)
qed

lemma lapse_At [simp]: "v_At (lapse T v) = v_At v"
  by (simp add: lapse_def)

lemma young_lapse [simp]: "young T (map (lapse T') vs) = young T vs"
  by (simp add: young_def list.pred_map comp_def)

lemma portrays_refreshed:
  assumes "portrays E T s nm H" "path_name st" "a_dir dr" "young T (H (st, dr))"
  shows "map view (refreshed (\<lambda>_. T) s (key E st dr)) = map (lapse T) (H (st, dr))"
    and "\<forall>m \<in> set (refreshed (\<lambda>_. T) s (key E st dr)). mine E st dr T m"
    and "refreshed (\<lambda>_. T) s (key E st dr) = map (release T) (queue s (key E st dr))"
proof -
  note q = portrays_queue [OF assms(1-3)]
  have "s_ttl s = DefaultTTL" using assms(1) by (simp add: portrays_def)
  then show r: "refreshed (\<lambda>_. T) s (key E st dr) = map (release T) (queue s (key E st dr))"
    using young_live(1) assms(4) unfolding q(1) by (simp add: refreshed_def)
  show "map view (refreshed (\<lambda>_. T) s (key E st dr)) = map (lapse T) (H (st, dr))"
    unfolding r q(1) by (simp add: view_release)
  show "\<forall>m \<in> set (refreshed (\<lambda>_. T) s (key E st dr)). mine E st dr T m"
    unfolding r using q(2) by (auto intro: mine_release)
qed

section \<open>The operations of the store\<close>

lemma portrays_Put:
  assumes k: "portrays E T s nm H" and n: "path_name E" "path_name st" "a_dir dr" and y: "young T (H (st, dr))" and "0 \<le> T"
    and m: "m_Estate m = E" "m_Station m = st" "m_Dir m = dr" "length (m_Body m) \<le> 4096"
  obtains s' d' i where "Put w (\<lambda>_. T) m s d = (Inr (), s', d')"
    "portrays E T s' nm (H((st, dr) := H (st, dr) @ [view (m\<lparr>m_At := T, m_ID := id_name i\<rparr>)]))"
proof -
  let ?k = "key E st dr" and ?i = "unat (s_ids s + 1)"
  let ?m = "m\<lparr>m_At := T, m_ID := id_name ?i\<rparr>" and ?s1 = "fst (expireLocked w T (key E st dr) s d)"
  note q = portrays_queue [OF k n(2,3)]
  have f: "s_ttl s = DefaultTTL" "s_max s = DefaultMaxQueue" "s_spool s = None" using k by (simp_all add: portrays_def)
  have live: "live (s_ttl s) T (queue s ?k) = queue s ?k" "int (length (queue s ?k)) < s_max s"
    using y young_live(1) [of T "queue s ?k"] unfolding q(1) f by (auto simp: young_def DefaultMaxQueue_def)
  have P: "Put w (\<lambda>_. T) m s d = (Inr (), set_queue ?k (queue s ?k @ [?m]) (?s1\<lparr>s_ids := s_ids s + 1\<rparr>), snd (expireLocked w T ?k s d))"
    using Put_eq [of m ?k w "\<lambda>_. T" s d] path_route [OF n] live m by (simp add: f(3) nextID_name MaxBodyBytes_def)
  show thesis
  proof (rule that [OF P])
    show "portrays E T (set_queue ?k (queue s ?k @ [?m]) (?s1\<lparr>s_ids := s_ids s + 1\<rparr>)) nm (H((st, dr) := H (st, dr) @ [view ?m]))"
      by (rule portrays_upd [OF k n(2,3)]) (use assms(6) m q k in \<open>auto simp: mine_def portrays_def\<close>)
  qed
qed

lemma kept_unlimited: "kept_from 0 n ms = filter (\<lambda>m. \<not> free m) ms"
  by (induction ms arbitrary: n) simp_all

lemma avail_unlimited: "avail 0 ms = filter free ms"
  by (simp add: avail_from_def)

lemma map_view_filter: "map view (filter (\<lambda>m. P (view m)) ms) = filter P (map view ms)"
  by (induction ms) simp_all

lemma portrays_Take:
  assumes k: "portrays E T s nm H" and n: "path_name E" "path_name st" "a_dir dr" and y: "young T (H (st, dr))"
  obtains ms s' d' where "Take w (\<lambda>_. T) E st dr 0 s d = (Inr ms, s', d')" "\<forall>m \<in> set ms. mine E st dr T m"
    "map view ms = filter unheld (map (lapse T) (H (st, dr)))"
    "portrays E T s' nm (H((st, dr) := filter (\<lambda>v. \<not> unheld v) (map (lapse T) (H (st, dr)))))"
proof -
  let ?k = "key E st dr" and ?q = "refreshed (\<lambda>_. T) s (key E st dr)"
  note r = portrays_refreshed [OF k n(2,3) y]
  obtain ms s' d' where R: "Take w (\<lambda>_. T) E st dr 0 s d = (Inr ms, s', d')" "ms = avail 0 ?q"
    "s' = (if avail 0 ?q = [] then after_refresh w (\<lambda>_. T) ?k s d else set_queue ?k (kept 0 ?q) (after_refresh w (\<lambda>_. T) ?k s d))"
    using Take_eq [OF path_route [OF n], of w "\<lambda>_. T" 0 s d] by (simp add: Let_def)
  have ms: "ms = filter (\<lambda>m. unheld (view m)) ?q" using R(2) by (simp add: avail_unlimited view_free)
  have kept: "kept 0 ?q = filter (\<lambda>m. \<not> unheld (view m)) ?q" by (simp add: kept_unlimited view_free)
  have q': "queue s' ?k = filter (\<lambda>m. \<not> unheld (view m)) ?q"
    using R(2,3) ms kept by (auto simp: filter_empty_conv intro!: filter_True [symmetric])
  show thesis
  proof (rule that [OF R(1)])
    show "\<forall>m \<in> set ms. mine E st dr T m" using r(2) ms by simp
    show "map view ms = filter unheld (map (lapse T) (H (st, dr)))" unfolding ms map_view_filter r(1) ..
    show "portrays E T s' nm (H((st, dr) := filter (\<lambda>v. \<not> unheld v) (map (lapse T) (H (st, dr)))))"
    proof (rule portrays_upd [OF k n(2,3)])
      show "\<forall>m \<in> set (queue s' ?k). mine E st dr T m" using r(2) q' by simp
      show "filter (\<lambda>v. \<not> unheld v) (map (lapse T) (H (st, dr))) = map view (queue s' ?k)"
        using map_view_filter [of "\<lambda>v. \<not> unheld v" ?q] unfolding q' r(1) [symmetric] by simp
    qed (use R(3) k in \<open>auto simp: portrays_def\<close>)
  qed
qed

lemma lease_loop_unlimited: "snd (lease_loop i u 0 held ms) = map (\<lambda>m. if free m then lock i u m else m) ms"
  by (induction ms arbitrary: held) (simp_all add: split_beta Let_def free_def lock_def)

lemma view_lock: "view (if free m then lock i u m else m) = grant_lease i u (view m)"
  by (simp add: grant_lease_def unheld_def free_def view_def lock_def)

lemma sent_lock: "sent (view (lock i u m)) = sent (view m)"
  by (simp add: sent_def)

lemma mine_lock: "mine E st dr T m \<Longrightarrow> mine E st dr T (lock i u m)"
  by (simp add: mine_def)

lemma portrays_TakeLeased:
  assumes k: "portrays E T s nm H" and n: "path_name E" "path_name st" "a_dir dr" and y: "young T (H (st, dr))"
    and dt: "0 < dt" "dt \<le> MaxLease"
  defines "q \<equiv> map (lapse T) (H (st, dr))"
  obtains l s' d' where "TakeLeased w (\<lambda>_. T) E st dr 0 dt s d = (Inr l, s', d')" "\<forall>m \<in> set (l_Messages l). mine E st dr T m"
    "map (\<lambda>m. sent (view m)) (l_Messages l) = map sent (filter unheld q)"
    "if filter unheld q = [] then l = empty_lease else l_ID l = nm 0 \<and> l_Until l = T + dt"
    "portrays E T s' (\<lambda>i. nm (Suc i)) (H((st, dr) := map (grant_lease (nm 0) (T + dt)) q))"
proof -
  let ?k = "key E st dr" and ?q = "refreshed (\<lambda>_. T) s (key E st dr)" and ?TL = "TakeLeased w (\<lambda>_. T) E st dr 0 dt s d"
  note r = portrays_refreshed [OF k n(2,3) y] and TE = TakeLeased_eq [OF path_route [OF n] dt, of w "\<lambda>_. T" 0 s d, unfolded nextLease_name avail_unlimited lease_loop_unlimited]
  have nm: "nm = (\<lambda>i. lease_name (s_epoch s) (unat (s_leases s + 1 + of_nat i)))" using k by (simp add: portrays_def)
  then have i: "lease_name (s_epoch s) (unat (s_leases s + 1)) = nm 0" by simp
  note TE = TE [unfolded i]
  obtain l s' d' where R: "?TL = (Inr l, s', d')"
    "l = (if filter free ?q = [] then empty_lease else \<lparr>l_ID = nm 0, l_Until = T + dt, l_Messages = map (lock (nm 0) (T + dt)) (filter free ?q)\<rparr>)"
    "s' = fst (snd ?TL)"
  proof -
    obtain x s' d' where x: "?TL = (x, s', d')" by (rule prod_cases3)
    show thesis by (rule that [of _ s' d']) (use TE(1) x in simp_all)
  qed
  have fq: "map view (filter free ?q) = filter unheld q"
    using map_view_filter [of unheld ?q] unfolding q_def r(1) [symmetric] by (simp add: view_free)
  then have none: "filter free ?q = [] \<longleftrightarrow> filter unheld q = []" by (metis map_is_Nil_conv)
  have qk: "queue s' ?k = map (\<lambda>m. if free m then lock (nm 0) (T + dt) m else m) ?q" unfolding R(3) TE(2) by simp
  show thesis
  proof (rule that [OF R(1)])
    show "\<forall>m \<in> set (l_Messages l). mine E st dr T m" using r(2) R(2) by (auto simp: empty_lease_def intro: mine_lock)
    show "map (\<lambda>m. sent (view m)) (l_Messages l) = map sent (filter unheld q)"
      unfolding fq [symmetric] using R(2) by (simp add: empty_lease_def comp_def sent_lock)
    show "if filter unheld q = [] then l = empty_lease else l_ID l = nm 0 \<and> l_Until l = T + dt" using R(2) none by simp
    show "portrays E T s' (\<lambda>i. nm (Suc i)) (H((st, dr) := map (grant_lease (nm 0) (T + dt)) q))"
    proof (rule portrays_upd [OF k n(2,3)])
      show "\<forall>m \<in> set (queue s' ?k). mine E st dr T m" unfolding qk using r(2) by (auto intro: mine_lock)
      show "map (grant_lease (nm 0) (T + dt)) q = map view (queue s' ?k)"
        unfolding qk q_def r(1) [symmetric] by (simp add: view_lock del: if_image_distrib)
      show "queue s' k' = queue s k'" if "k' \<noteq> ?k" for k' unfolding R(3) TE(2) using that by simp
      show "(\<lambda>i. nm (Suc i)) = (\<lambda>i. lease_name (s_epoch s) (unat (s_leases s' + 1 + of_nat i)))"
        unfolding R(3) TakeLeased_fields nm using path_route [OF n] dt by (simp add: add.assoc)
    qed (simp_all add: R(3) TakeLeased_fields)
  qed
qed

lemma portrays_Ack:
  assumes k: "portrays E T s nm H" and n: "path_name E" "path_name st" "a_dir dr" and y: "young T (H (st, dr))" and i: "TrimSpace i = i" "i \<noteq> ''''"
  defines "q \<equiv> map (lapse T) (H (st, dr))"
  obtains s' d' where "Ack w (\<lambda>_. T) E st dr i s d =
      (if filter (\<lambda>v. v_Lease v = i) q = [] then Inl ErrNoSuchLease else Inr (length (filter (\<lambda>v. v_Lease v = i) q)), s', d')"
    "portrays E T s' nm (H((st, dr) := filter (\<lambda>v. v_Lease v \<noteq> i) q))"
proof -
  let ?k = "key E st dr" and ?q = "refreshed (\<lambda>_. T) s (key E st dr)"
  let ?acked = "filter (\<lambda>m. m_lease m = i) ?q" and ?s2 = "after_refresh w (\<lambda>_. T) (key E st dr) s d"
  let ?s' = "if ?acked = [] then ?s2 else set_queue ?k (filter (\<lambda>m. m_lease m \<noteq> i) ?q) ?s2"
  note r = portrays_refreshed [OF k n(2,3) y]
  have acked: "map view ?acked = filter (\<lambda>v. v_Lease v = i) q"
    using map_view_filter [of "\<lambda>v. v_Lease v = i" ?q] unfolding q_def r(1) [symmetric] by simp
  then have e: "?acked = [] \<longleftrightarrow> filter (\<lambda>v. v_Lease v = i) q = []" "length ?acked = length (filter (\<lambda>v. v_Lease v = i) q)"
    by (metis map_is_Nil_conv, metis length_map)
  have qk: "queue ?s' ?k = filter (\<lambda>m. m_lease m \<noteq> i) ?q"
    by (auto simp: filter_empty_conv intro!: filter_True [symmetric])
  show thesis
  proof (rule that)
    show "Ack w (\<lambda>_. T) E st dr i s d =
        (if filter (\<lambda>v. v_Lease v = i) q = [] then Inl ErrNoSuchLease else Inr (length (filter (\<lambda>v. v_Lease v = i) q)), ?s',
         dropDurableLocked w ?acked s (snd (expireLocked w T ?k s d)))"
      using Ack_eq [OF path_route [OF n], of i w "\<lambda>_. T" s d] i e by (simp add: Let_def)
    show "portrays E T ?s' nm (H((st, dr) := filter (\<lambda>v. v_Lease v \<noteq> i) q))"
    proof (rule portrays_upd [OF k n(2,3)])
      show "\<forall>m \<in> set (queue ?s' ?k). mine E st dr T m" unfolding qk using r(2) by simp
      show "filter (\<lambda>v. v_Lease v \<noteq> i) q = map view (queue ?s' ?k)"
        using map_view_filter [of "\<lambda>v. v_Lease v \<noteq> i" ?q] unfolding qk q_def r(1) [symmetric] by simp
    qed (use k in \<open>auto simp: portrays_def\<close>)
  qed
qed

end
