(* ===== verification/Relay_Transport.thy ===== *)
theory Relay_Transport
  imports Relay_Bench
begin

text \<open>
  The way of a request through the bench: what the server makes of a client's URL and credential, and which handler answers. Then what each
  handler does when the authoriser decides without changing, which is what a table of tokens does.
\<close>

section \<open>From the client's request to the handler\<close>

definition arrived :: "string \<Rightarrow> string \<Rightarrow> string option \<Rightarrow> http_request" where
  "arrived tok q body = \<lparr>hr_estate = '''', hr_station = '''', hr_dir = '''', hr_Authorization = (if tok \<noteq> '''' then ''Bearer '' @ tok else ''''),
     hr_Accept = '''', hr_query = query_pairs q, hr_ContentLength = int (length (header body)),
     hr_body = \<lparr>b_bytes = header body, b_broken = False\<rparr>\<rparr>"

abbreviation handed :: "string \<Rightarrow> string \<Rightarrow> string \<Rightarrow> string \<Rightarrow> string \<Rightarrow> string option \<Rightarrow> http_request" where
  "handed e st d tok q body \<equiv> at_route e st d (arrived tok q body)"

lemma path_char_plain: "path_name s \<Longrightarrow> CHR ''/'' \<notin> set s \<and> CHR ''?'' \<notin> set s"
  by (auto simp: path_name_def list_all_iff path_char_def Let_def is_digit_def less_eq_char_def)

lemma header_sel [simp]: "header None = ''''" "header (Some x) = x"
  by (simp_all add: header_def)

lemma split_path:
  assumes "CHR ''/'' \<notin> set e" "CHR ''/'' \<notin> set st" "CHR ''/'' \<notin> set d"
  shows "split_on (CHR ''/'') (''v1/'' @ e @ ''/'' @ st @ ''/'' @ d) = [''v1'', e, st, d]"
    and "split_on (CHR ''/'') (''v1/'' @ e @ ''/'' @ st @ ''/'' @ d @ ''/ack'') = [''v1'', e, st, d, ''ack'']"
  using assms by (simp_all add: split_on_app split_on_last)

lemma takeWhile_path: "CHR ''?'' \<notin> set p \<Longrightarrow> takeWhile (\<lambda>c. c \<noteq> CHR ''?'') (p @ (if q \<noteq> '''' then ''?'' @ q else '''')) = p"
  by (induction p) auto

lemma dropWhile_path: "CHR ''?'' \<notin> set p \<Longrightarrow> drop 1 (dropWhile (\<lambda>c. c \<noteq> CHR ''?'') (p @ (if q \<noteq> '''' then ''?'' @ q else ''''))) = q"
  by (induction p) auto

lemma drop_base: "drop (length base) (base @ u) = u"
  by simp

lemma arrives_path:
  assumes "CHR ''?'' \<notin> set p"
  shows "arrives base (client_request meth (base @ p @ (if q \<noteq> '''' then ''?'' @ q else '''')) tok body) = (split_on (CHR ''/'') (drop 1 p), arrived tok q body)"
  unfolding arrives_def client_request_def creq.simps Let_def drop_base takeWhile_path [OF assms] dropWhile_path [OF assms]
  by (simp add: arrived_def header_def)

lemma arrives_queue:
  assumes "path_name e" "path_name st" "path_name d"
  shows "arrives (base_url t) (client_request meth (target_url t e st d q) tok body) = ([''v1'', e, st, d], arrived tok q body)"
proof -
  note n = path_char_plain [OF assms(1)] path_char_plain [OF assms(2)] path_char_plain [OF assms(3)]
  have "CHR ''?'' \<notin> set (''/v1/'' @ e @ ''/'' @ st @ ''/'' @ d)" using n by simp
  from arrives_path [OF this, of "base_url t" meth q tok body] show ?thesis
    using split_path(1) [of e st d] n by (simp add: target_url_def)
qed

lemma arrives_ack:
  assumes "path_name e" "path_name st" "path_name d"
  shows "arrives (base_url t) (client_request meth (base_url t @ ''/v1/'' @ e @ ''/'' @ st @ ''/'' @ d @ ''/ack'') tok body) =
    ([''v1'', e, st, d, ''ack''], arrived tok '''' body)"
proof -
  note n = path_char_plain [OF assms(1)] path_char_plain [OF assms(2)] path_char_plain [OF assms(3)]
  have "CHR ''?'' \<notin> set (''/v1/'' @ e @ ''/'' @ st @ ''/'' @ d @ ''/ack'')" using n by simp
  from arrives_path [OF this, of "base_url t" meth "''''" tok body] show ?thesis
    using split_path(2) [of e st d] n by simp
qed

lemma token_arrived [simp]: "token (handed e st d tok q body) = TrimSpace tok"
proof -
  have "TrimSpace '''' = ''''" by code_simp
  then show ?thesis by (simp add: token_def at_route_def arrived_def trim_prefix_def has_prefix_def)
qed

lemma handed_sel [simp]:
  "hr_estate (handed e st d tok q body) = e" "hr_station (handed e st d tok q body) = st" "hr_dir (handed e st d tok q body) = d"
  "hr_query (handed e st d tok q body) = query_pairs q" "hr_body (handed e st d tok q body) = \<lparr>b_bytes = header body, b_broken = False\<rparr>"
  "query_get (handed e st d tok q body) k = lookup_or '''' (query_pairs q) k"
  by (simp_all add: at_route_def arrived_def query_get_def)

lemma a_dir_path: "a_dir d \<Longrightarrow> path_name d"
  by (auto simp: a_dir_def path_name_def path_char_def Let_def is_digit_def less_eq_char_def)

section \<open>From the handler's answer to the client\<close>

definition answer_of :: "bench \<Rightarrow> response \<Rightarrow> creply" where
  "answer_of b r = \<lparr>cr_status = rs_status r, cr_type = content_type r, cr_body = response_body (be_wire b) r\<rparr>"

lemma answer_sel [simp]:
  "cr_status (answer_of b r) = rs_status r" "cr_type (answer_of b r) = content_type r" "cr_body (answer_of b r) = response_body (be_wire b) r"
  by (simp_all add: answer_of_def)

lemma bench_put:
  assumes "path_name e" "path_name st" "path_name d" "wo_now w = T"
    and "Server_put (auth_at b T) (env_at b T) (handed e st d tok '''' (Some x)) (wo_server w) = (r, s')"
  shows "\<exists>q. bench_Do b (base_url t) (client_request ''POST'' (target_url t e st d '''') tok (Some x)) w =
    (Some (answer_of b r), \<lparr>wo_server = s', wo_now = T + be_lag b q T\<rparr>)"
proof -
  have "route ''POST'' [''v1'', e, st, d] = Some (EPut e st d)" using assms(1-3) by (simp add: route_def path_name_def)
  then show ?thesis
    using assms(4,5) unfolding bench_Do_def arrives_queue [OF assms(1-3)] prod.case
    by (simp add: Let_def waits_def serve_http_def handle_def client_request_def reply_of_def answer_of_def) blast
qed

lemma bench_get:
  assumes "path_name e" "path_name st" "path_name d" "wo_now w = T"
    and "Server_get_start (auth_at b T) (env_at b T) (handed e st d tok q None) (wo_server w) = (Inl r, s')"
  shows "\<exists>q'. bench_Do b (base_url t) (client_request ''GET'' (target_url t e st d q) tok None) w =
    (Some (answer_of b r), \<lparr>wo_server = s', wo_now = T + be_lag b q' T\<rparr>)"
proof -
  have "route ''GET'' [''v1'', e, st, d] = Some (EGet e st d)" using assms(1-3) by (simp add: route_def path_name_def)
  then show ?thesis
    using assms(4,5) unfolding bench_Do_def arrives_queue [OF assms(1-3)] prod.case
    by (simp add: Let_def waits_def serve_http_def handle_def Server_get_def client_request_def reply_of_def answer_of_def) blast
qed

lemma bench_ack:
  assumes "path_name e" "path_name st" "path_name d" "wo_now w = T"
    and "Server_ack (auth_at b T) (env_at b T) (handed e st d tok '''' (Some x)) (wo_server w) = (r, s')"
  shows "\<exists>q. bench_Do b (base_url t) (client_request ''POST'' (base_url t @ ''/v1/'' @ e @ ''/'' @ st @ ''/'' @ d @ ''/ack'') tok (Some x)) w =
    (Some (answer_of b r), \<lparr>wo_server = s', wo_now = T + be_lag b q T\<rparr>)"
proof -
  have "route ''POST'' [''v1'', e, st, d, ''ack''] = Some (EAck e st d)" using assms(1-3) by (simp add: route_def path_name_def)
  then show ?thesis
    using assms(4,5) unfolding bench_Do_def arrives_ack [OF assms(1-3)] prod.case
    by (simp add: Let_def waits_def serve_http_def handle_def client_request_def reply_of_def answer_of_def) blast
qed

text \<open>A path outside \<^verbatim>\<open>/v1\<close>.\<close>

lemma bench_info:
  assumes "arrives (base_url t) q = (segs, hr)" "cq_method q = ''GET''" "route ''GET'' segs = Some ep"
    and "ep = EHealth \<and> r = health (wo_server w) \<or> ep = EVersion \<and> r = version (wo_server w) \<or> ep = ERoot \<and> r = root hr (wo_server w)"
  shows "bench_Do b (base_url t) q w = (Some (answer_of b r), w\<lparr>wo_now := wo_now w + be_lag b q (wo_now w)\<rparr>)"
  using assms by (auto simp: bench_Do_def Let_def waits_def serve_http_def handle_def reply_of_def answer_of_def)

section \<open>Handlers whose authoriser does not change\<close>

lemma auth_at_Settle [simp]: "settle (auth_at b now) e req g n k oc s = s"
  by (simp add: settle_def auth_at_def wired_authoriser_def NoAccounting_Settle_def)

lemma settle_delivery_at [simp]: "settle_delivery (auth_at b now) e req g ms s = s"
  by (simp add: settle_delivery_def)

definition asked :: "string \<Rightarrow> string \<Rightarrow> string \<Rightarrow> string \<Rightarrow> string \<Rightarrow> int \<Rightarrow> time \<Rightarrow> request" where
  "asked tok e st d op n T = \<lparr>r_Credential = TrimSpace tok, r_Estate = e, r_Station = st, r_Dir = d, r_Op = op, r_Bytes = n, r_At = T\<rparr>"

lemma asked_sel [simp]:
  "r_Credential (asked tok e st d op n T) = TrimSpace tok" "r_Estate (asked tok e st d op n T) = e" "r_Station (asked tok e st d op n T) = st"
  "r_Dir (asked tok e st d op n T) = d" "r_Op (asked tok e st d op n T) = op"
  by (simp_all add: asked_def)

lemma request_handed: "request_of (handed e st d tok q body) op n T = asked tok e st d op n T"
  by (simp add: request_of_def asked_def)

lemma env_sel [simp]: "e_io (env_at b T) = be_io b" "e_clk (env_at b T) = (\<lambda>_. T)" "e_started (env_at b T) = T" "e_oor (env_at b T) = be_oor b"
  by (simp_all add: env_at_def)

definition decides :: "bench \<Rightarrow> time \<Rightarrow> inner_auth authority_auth \<Rightarrow> request \<Rightarrow> grant \<Rightarrow> bool" where
  "decides b T a req g \<longleftrightarrow> wired_Admit (be_sha b) (be_post b) (\<lambda>_. T) (be_hosted b) a req = (g, a)"

lemma decides_admit:
  assumes "decides b T (sv_auth s) req g"
  shows "sv_admit (auth_at b T) req s = (g, s)"
  using assms by (simp add: decides_def sv_admit_def auth_at_def wired_authoriser_def)

lemma put_refused_run:
  assumes "validDir d" "\<And>n. decides b T (sv_auth s) (asked tok e st d OpWrite n T) g" "\<not> g_Allow g"
  shows "Server_put (auth_at b T) (env_at b T) (handed e st d tok q body) s = (refuse g, s)"
  using assms(1,3) by (simp add: Server_put_def Server_put_store_def request_handed decides_admit [OF assms(2)] Let_def wake_all_def)

lemma astray_run:
  assumes "\<not> validDir d"
  shows "Server_put (auth_at b T) (env_at b T) (handed e st d tok q body) s = (refuse (refusal ReasonBadRoute), s)"
  using assms by (simp add: Server_put_def Server_put_store_def wake_all_def)

lemma get_refused_run:
  assumes "validDir d" "\<And>n. decides b T (sv_auth s) (asked tok e st d OpRead n T) g" "\<not> g_Allow g"
  shows "Server_get_start (auth_at b T) (env_at b T) (handed e st d tok q body) s = (Inl (refuse g), s)"
  using assms(1,3) by (simp add: Server_get_start_def request_handed decides_admit [OF assms(2)] Let_def)

lemma ack_refused_run:
  assumes "validDir d" "\<And>n. decides b T (sv_auth s) (asked tok e st d OpRead n T) g" "\<not> g_Allow g"
  shows "Server_ack (auth_at b T) (env_at b T) (handed e st d tok q body) s = (refuse g, s)"
  using assms(1,3) by (simp add: Server_ack_def request_handed decides_admit [OF assms(2)] Let_def)

lemma put_accepted_run:
  assumes "validDir d" "\<And>n. decides b T (sv_auth s) (asked tok e st d OpWrite n T) g" "g_Allow g" "g_MaxBytes g = 0" "length body \<le> 4096"
    and "Put (be_io b) (\<lambda>_. T) \<lparr>m_ID = '''', m_Estate = e, m_Station = st, m_Dir = d, m_Seq = sq, m_Body = body, m_At = zero_time, m_file = '''', m_lease = '''',
      m_leaseUntil = zero_time\<rparr> (sv_store s) (sv_disk s) = (Inr (), st', d')"
  shows "Server_put (auth_at b T) (env_at b T) (handed e st d tok '''' (Some (put_text sq body))) s =
    (\<lparr>rs_status = 202, rs_payload = NoPayload\<rparr>, wake (key e st d) (s\<lparr>sv_store := st', sv_disk := d'\<rparr>))"
proof -
  let ?hr = "handed e st d tok '''' (Some (put_text sq body))"
  have l: "put_limit g = MaxBodyBytes" using assms(4) by (simp add: put_limit_def)
  have "length (put_text sq body) \<le> 6000" using put_text_length [of sq body] assms(5) by simp
  then have dec: "put_decode g ?hr = Inr \<lparr>in_Seq = sq, in_Body = body\<rparr>"
    by (intro put_text_decode [where x = False]) (simp_all add: l MaxBodyBytes_def)
  have "\<not> int (length body) > put_limit g" using assms(5) by (simp add: l MaxBodyBytes_def)
  then show ?thesis
    using assms(1,3,6) dec
    by (simp add: Server_put_def Server_put_store_def request_handed decides_admit [OF assms(2)] Let_def on_store_def put_message_def wake_all_def
        route_key_def)
qed

lemma ParseLease_none: "ParseLease oor '''' = Inr 0" "ParseLease oor ''0'' = Inr 0"
proof -
  have "TrimSpace '''' = ''''" "TrimSpace ''0'' = ''0''" by code_simp+
  then show "ParseLease oor '''' = Inr 0" "ParseLease oor ''0'' = Inr 0" by (simp_all add: ParseLease_def)
qed

text \<open>A collection without a lease, answered at once or parked.\<close>

lemma take_run:
  assumes "validDir d" "\<And>n. decides b T (sv_auth s) (asked tok e st d OpRead n T) g" "g_Allow g"
    and "ParseLease (be_oor b) (lookup_or '''' (query_pairs q) ''lease'') = Inr 0" "lookup_or '''' (query_pairs q) ''limit'' = ''''"
    and "Take (be_io b) (\<lambda>_. T) e st d 0 (sv_store s) (sv_disk s) = (Inr ms, st', d')"
  shows "Server_get_start (auth_at b T) (env_at b T) (handed e st d tok q None) s =
    (if ms = [] \<and> lookup_or '''' (query_pairs q) ''wait'' \<noteq> ''0'' then park (auth_at b T) (asked tok e st d OpRead 0 T) g 0 0 (s\<lparr>sv_store := st', sv_disk := d'\<rparr>)
     else (Inl \<lparr>rs_status = 200, rs_payload = Messages ms\<rparr>, s\<lparr>sv_store := st', sv_disk := d'\<rparr>))"
  using assms(1,3-6)
  by (simp add: Server_get_start_def request_handed decides_admit [OF assms(2)] Let_def sv_Take_def on_store_def answer_def)

lemma lease_run:
  assumes "validDir d" "\<And>n. decides b T (sv_auth s) (asked tok e st d OpRead n T) g" "g_Allow g"
    and "ParseLease (be_oor b) (lookup_or '''' (query_pairs q) ''lease'') = Inr dt" "0 < dt" "lookup_or '''' (query_pairs q) ''limit'' = ''''"
    and "TakeLeased (be_io b) (\<lambda>_. T) e st d 0 dt (sv_store s) (sv_disk s) = (Inr l, st', d')"
  shows "Server_get_start (auth_at b T) (env_at b T) (handed e st d tok q None) s =
    (if l_Messages l = [] \<and> lookup_or '''' (query_pairs q) ''wait'' \<noteq> ''0'' then park (auth_at b T) (asked tok e st d OpRead 0 T) g 0 dt (s\<lparr>sv_store := st', sv_disk := d'\<rparr>)
     else (Inl \<lparr>rs_status = 200, rs_payload = LeaseObject l\<rparr>, s\<lparr>sv_store := st', sv_disk := d'\<rparr>))"
  using assms(1,3-7)
  by (simp add: Server_get_start_def getLeased_start_def request_handed decides_admit [OF assms(2)] Let_def sv_TakeLeased_def on_store_def answer_lease_def)

lemma bad_lease_run:
  assumes "validDir d" "\<And>n. decides b T (sv_auth s) (asked tok e st d OpRead n T) g" "g_Allow g"
    and "ParseLease (be_oor b) (lookup_or '''' (query_pairs q) ''lease'') = Inl err"
  shows "Server_get_start (auth_at b T) (env_at b T) (handed e st d tok q None) s = (Inl (refuse_with ReasonBadLease err), s)"
  using assms(1,3,4) by (simp add: Server_get_start_def request_handed decides_admit [OF assms(2)] Let_def)

lemma ack_decode:
  assumes "path_name i" "length i < 1000"
  shows "decode_body 4096 [''lease''] ack_update '''' \<lparr>b_bytes = ack_text i, b_broken = x\<rparr> = Inr i"
proof -
  have plain: "list_all plain_char i" using assms(1) by (auto simp: path_name_def list_all_iff path_char_def Let_def is_digit_def less_eq_char_def plain_char_def in_range_def)
  then have v: "valid_utf8 i" by (intro valid_utf8_ascii) (auto simp: list_all_iff intro: plain_char_ascii)
  have "valid_utf8 ''lease''" by (rule valid_utf8_ascii) (simp add: in_range_def)
  with v have f: "fits 1 (JObj [(''lease'', JStr i)])" by simp
  have "json_quote ''lease'' = dquote # ''lease'' @ [dquote]" by (rule json_quote_plain) code_simp
  then have "length (ack_text i) = length i + 12" using json_quote_plain [OF plain] by (simp add: ack_text_def object_text_def)
  then have "int (length (json_text (JObj [(''lease'', JStr i)]))) \<le> 4096" using assms(2) by (simp add: ack_text_def)
  from json_text_unmarshal(2) [OF f _ _ this, of x] show ?thesis
    by (simp add: decode_body_def decode_struct_def match_field_def ack_update_def ack_text_def max_depth_def dec_string_def)
qed

lemma ack_run:
  assumes "validDir d" "\<And>n. decides b T (sv_auth s) (asked tok e st d OpRead n T) g" "g_Allow g" "path_name i" "length i < 1000"
    and "Ack (be_io b) (\<lambda>_. T) e st d i (sv_store s) (sv_disk s) = (r, st', d')" "r = Inl ErrNoSuchLease \<or> r = Inr n"
  shows "Server_ack (auth_at b T) (env_at b T) (handed e st d tok '''' (Some (ack_text i))) s =
    (if r = Inl ErrNoSuchLease then refuse (refusal ReasonNoSuchLease) else writeJSON (JObj [(''deleted'', JNum (show_nat n))]),
     s\<lparr>sv_store := st', sv_disk := d'\<rparr>)"
  using assms(1,3,6,7) ack_decode [OF assms(4,5)]
  by (auto simp: Server_ack_def request_handed decides_admit [OF assms(2)] Let_def on_store_def)

end
