(* ===== verification/Relay_Conformance.thy ===== *)
theory Relay_Conformance
  imports Relay_Transport
begin

text \<open>
  The Go relay keeps the contract of the conformance suite.

  \<^item> \<open>relay_bench\<close> is a relay configured with a table of tokens, set up the way the suite expects: two estates with
    their tokens, a hash that tells the tokens apart, no spool and no lever. It is a \<open>relay_contract\<close>.
  \<^item> \<open>signed_bench\<close> also trusts the harness's signing key, and is a \<open>signed_contract\<close>.

  The laws are proved from the handlers (\<open>Relay_Server\<close>), the routes and texts (\<open>Relay_Wire\<close>, \<open>Relay_Answers\<close>) and the store
  (\<open>Relay_Bench\<close>); the run of the suite is then a consequence of \<open>Relay_Contract\<close>.
\<close>

section \<open>Decisions\<close>

definition static_grant :: "sha \<Rightarrow> static_auth \<Rightarrow> inner_auth authority_auth \<Rightarrow> time \<Rightarrow> string \<Rightarrow> string \<Rightarrow> string \<Rightarrow> string \<Rightarrow> string \<Rightarrow> grant" where
  "static_grant sha sa a T tok e st d op =
     (let req = asked tok e st d op 0 T; plain = authAdapter_Admit (AllowRead sha sa) (AllowWrite sha sa) req
      in case ParseAuthority (TrimSpace tok) of
           Inl _ \<Rightarrow> plain
         | Inr (auth, s) \<Rightarrow> let g = check T a auth s req in if g_Allow g \<or> g_Reason g \<noteq> ReasonOutOfScope then g else plain)"

definition verdict_of :: "grant \<Rightarrow> string" where
  "verdict_of g = (if g_Allow g then '''' else if g_Reason g = '''' then ReasonBadCredential else g_Reason g)"

lemma plain_any_size: "authAdapter_Admit R W (asked tok e st d op n T) = authAdapter_Admit R W (asked tok e st d op 0 T)"
  by (simp add: authAdapter_Admit_def wide_scope_def Let_def)

lemma check_any_size: "check T a auth s (asked tok e st d op n T') = check T a auth s (asked tok e st d op 0 T')"
  by (simp add: check_def)

lemma static_decides:
  assumes "aa_Inner a = InnerStatic sa" "\<not> be_hosted b"
  shows "decides b T a (asked tok e st d op n T) (static_grant (be_sha b) sa a T tok e st d op)"
  using assms
  by (auto simp: decides_def wired_Admit_def wired_inner_def AuthorityAuth_Admit_def ask_inner_def static_grant_def Let_def
      plain_any_size [of _ _ _ _ _ _ _ n] check_any_size [of _ _ _ _ _ _ _ _ _ n] split: sum.splits)

text \<open>The words of a refusal: all of them are known, and none is empty.\<close>

definition refusal_reasons :: "string list" where
  "refusal_reasons = [ReasonNoCredential, ReasonBadCredential, ReasonWrongDirection, ReasonAuthorityUnverifiable, ReasonAuthorityExpired, ReasonRevoked]"

definition refusal_details :: "string list" where
  "refusal_details = ['''', ''this lease was minted for a different relay'', ''this lease is longer than this relay will honour'', ''this lease is not in force yet'']"

lemma refusal_words: "list_all (\<lambda>r. r \<noteq> '''' \<and> ascii_text r \<and> list_all (\<lambda>d. (if d = '''' then reason_detail r else d) \<noteq> '''' \<and>
    ascii_text (if d = '''' then reason_detail r else d)) refusal_details) refusal_reasons"
  by code_simp

lemma static_grant_cases:
  "(g_Allow (static_grant sha sa a T tok e st d op) \<and> g_MaxBytes (static_grant sha sa a T tok e st d op) = 0) \<or>
   (\<not> g_Allow (static_grant sha sa a T tok e st d op) \<and> g_Reason (static_grant sha sa a T tok e st d op) \<in> set refusal_reasons \<and>
    g_Detail (static_grant sha sa a T tok e st d op) \<in> set refusal_details)"
proof -
  let ?req = "asked tok e st d op 0 T"
  have p: "(g_Allow g \<and> g_MaxBytes g = 0) \<or> (\<not> g_Allow g \<and> g_Reason g \<in> set refusal_reasons \<and> g_Detail g \<in> set refusal_details)"
    if "g = authAdapter_Admit (AllowRead sha sa) (AllowWrite sha sa) ?req" for g
    using that by (auto simp: authAdapter_Admit_def Let_def refusal_reasons_def refusal_details_def)
  have c: "(g_Allow g \<and> g_MaxBytes g = 0) \<or> (\<not> g_Allow g \<and> g_Reason g \<in> set refusal_reasons \<and> g_Detail g \<in> set refusal_details)"
    if "g = check T a auth s ?req" "g_Allow g \<or> g_Reason g \<noteq> ReasonOutOfScope" for g auth s
    using that by (auto simp: check_def refusal_reasons_def refusal_details_def split: if_splits)
  show ?thesis
    unfolding static_grant_def Let_def using p [OF refl] c [OF refl] by (simp split: sum.splits prod.splits)
qed

lemma refuse_static:
  fixes z :: wire
  assumes "g = static_grant sha sa a T tok e st d op" "\<not> g_Allow g"
  shows "rs_status (refuse g) = reason_status (verdict_of g)" "verdict_of g \<noteq> ''''"
    "\<exists>x. fst (Unmarshal refusal_lax (response_body z (refuse g)) no_refusal) = x \<and> rf_Reason x = verdict_of g \<and> rf_Error x \<noteq> ''''"
proof -
  let ?d = "if g_Detail g = '''' then reason_detail (g_Reason g) else g_Detail g"
  have k: "g_Reason g \<in> set refusal_reasons" "g_Detail g \<in> set refusal_details"
    using static_grant_cases [of sha sa a T tok e st d op] assms by auto
  then have w: "g_Reason g \<noteq> ''''" "ascii_text (g_Reason g)" "?d \<noteq> ''''" "ascii_text ?d"
    using refusal_words unfolding list_all_iff by blast+
  then have v: "verdict_of g = g_Reason g" using assms(2) by (simp add: verdict_of_def)
  show "rs_status (refuse g) = reason_status (verdict_of g)" "verdict_of g \<noteq> ''''" using w(1) v by simp_all
  have "rs_payload (refuse g) = Json (JObj [(''error'', JStr ?d), (''reason'', JStr (g_Reason g))])" using w(1) by (simp add: refuse_def Let_def)
  from refusal_read [OF valid_utf8_ascii [OF w(4)] valid_utf8_ascii [OF w(2)] this, of z]
  show "\<exists>x. fst (Unmarshal refusal_lax (response_body z (refuse g)) no_refusal) = x \<and> rf_Reason x = verdict_of g \<and> rf_Error x \<noteq> ''''"
    using w(3) v by simp
qed

section \<open>The states of the bench\<close>

definition bench_state :: "inner_auth authority_auth \<Rightarrow> string \<Rightarrow> nat \<Rightarrow> world \<Rightarrow> time \<Rightarrow> (nat \<Rightarrow> string) \<Rightarrow> queues \<Rightarrow> bool" where
  "bench_state a E n w T nm H \<longleftrightarrow>
     wo_now w = T \<and> Hour \<le> T \<and> T + int n * (2 * Minute) \<le> horizon \<and> sv_auth (wo_server w) = a \<and>
     valid_utf8 (sv_Version (wo_server w)) \<and> valid_utf8 (sv_Hash (wo_server w)) \<and> portrays E T (sv_store (wo_server w)) nm H"

lemma bench_fewer: "bench_state a E (Suc n) w T nm H \<Longrightarrow> bench_state a E n w T nm H"
  by (simp add: bench_state_def algebra_simps duration_defs)

lemma bench_next:
  assumes "bench_state a E (Suc n) w T nm H" "0 \<le> dt" "dt \<le> 2 * Minute" "sv_auth s' = a" "sv_Version s' = sv_Version (wo_server w)"
    "sv_Hash s' = sv_Hash (wo_server w)" "portrays E T' (sv_store s') nm' H'" "T' \<le> T + dt"
  shows "bench_state a E n \<lparr>wo_server = s', wo_now = T + dt\<rparr> (T + dt) nm' H'"
  using assms portrays_later [OF assms(7,8)] by (simp add: bench_state_def algebra_simps)

lemma bench_wait:
  assumes "bench_state a E (Suc n) w T nm H" "0 \<le> dt" "dt \<le> 2 * Minute"
  shows "bench_state a E n (w\<lparr>wo_now := T + dt\<rparr>) (T + dt) nm H"
  using assms portrays_later [of E T "sv_store (wo_server w)" nm H "T + dt"] by (simp add: bench_state_def algebra_simps)

lemma portrays_names:
  assumes "portrays E T s nm H"
  shows "path_name (nm i) \<and> length (nm i) < 1000 \<and> nm i \<noteq> nm (Suc i)"
proof -
  let ?k = "\<lambda>i. unat (s_leases s + 1 + of_nat i)"
  have e: "list_all path_char (s_epoch s)" "length (s_epoch s) < 900" and nm: "nm = (\<lambda>i. lease_name (s_epoch s) (?k i))"
    using assms by (simp_all add: portrays_def)
  have "?k i < 10 ^ 20" using unsigned_less [of "s_leases s + 1 + of_nat i", where ?'a = nat] by simp
  then have "length (show_nat (?k i)) \<le> 20" by (rule show_nat_length) simp
  moreover have "list_all path_char (show_nat (?k i))"
    using show_nat_digits [of "?k i"] by (auto simp: list_all_iff path_char_def Let_def)
  moreover have "?k i \<noteq> ?k (Suc i)" by (simp add: word_unat_eq_iff [symmetric] add.assoc)
  ultimately show ?thesis using e by (simp add: nm path_name_def lease_name_def path_char_def Let_def)
qed

text \<open>Messages of the bench have a text, and the client reads it back.\<close>

lemma path_valid: "path_name s \<Longrightarrow> valid_utf8 s"
  by (rule valid_utf8_ascii) (auto simp: path_name_def list_all_iff path_char_def Let_def is_digit_def less_eq_char_def in_range_def)

lemma mine_writable:
  assumes "mine E st dr T m" "path_name E" "path_name st" "a_dir dr" "T \<le> horizon" "\<And>t. \<bar>zone z t\<bar> < 86400"
  shows "writable z m"
proof -
  obtain n where m: "m_Estate m = E" "m_Station m = st" "m_Dir m = dr" "m_ID m = id_name n" "0 \<le> m_At m" "m_At m \<le> T"
    using assms(1) by (auto simp: mine_def)
  have "path_name (id_name n)" using show_nat_digits [of n] by (auto simp: id_name_def path_name_def list_all_iff path_char_def Let_def)
  then show ?thesis
    using m assms path_valid a_dir_path Time_MarshalJSON_ok [of "m_At m" "zone z (m_At m)"] by (simp add: writable_def)
qed

lemma received_sent: "received m = sent (view m)"
  by (simp add: received_def sent_def)

lemma path_nonempty: "path_name s \<Longrightarrow> s \<noteq> ''''"
  by (simp add: path_name_def)

lemma path_trim: assumes that: "path_name s" shows "TrimSpace s = s"
proof -
  have "\<forall>c \<in> set (concat space_runes). \<not> path_char c" by code_simp
  with that show ?thesis by (intro TrimSpace_id) (auto simp: path_name_def list_all_iff)
qed

section \<open>The relay as the suite expects it\<close>

definition forged_payload :: string where
  "forged_payload = ''eyJlIjoiZTEiLCJzIjpbInN0MSJdLCJyIjpbImMycyJdLCJ3IjpbInMyYyJdLCJuYmYiOjEsImV4cCI6OTk5OTk5OTk5OX0''"

definition plain_token :: "string \<Rightarrow> bool" where
  "plain_token tok \<longleftrightarrow> tok \<noteq> '''' \<and> TrimSpace tok = tok \<and> isl (ParseAuthority tok)"

lemma forged_trim: "TrimSpace forged_lease = forged_lease"
  by code_simp

text \<open>A lease whatever the order of its fields.\<close>

lemma ParseAuthority_text:
  assumes "fits 2 (JObj ms)" "ms \<noteq> []" "decode_struct payload_fields payload_update (JObj ms) zero_payload = Some p" "p_Exp p \<noteq> 0" "p_NBF p \<noteq> 0"
  shows "ParseAuthority (''hl1.'' @ RawURLEncoding_Encode (json_text (JObj ms)) @ ''.'' @ RawURLEncoding_Encode sg) =
    Inr (\<lparr>a_Scope = \<lparr>sc_Estate = p_Est p, sc_Stations = p_Stns p, sc_AllStations = p_All p, sc_Read = p_Read p, sc_Write = p_Write p\<rparr>,
          a_NotBefore = time_Unix (p_NBF p), a_Expires = time_Unix (p_Exp p), a_Epoch = p_Epoch p, a_Audience = p_Aud p\<rparr>,
         \<lparr>sg_payload = RawURLEncoding_Encode (json_text (JObj ms)), sg_signature = sg\<rparr>)"
proof -
  have dot: "CHR ''.'' \<notin> set (RawURLEncoding_Encode x)" for x
    using b64_encode_chars [of True False x] by (auto simp: b64_alphabet_def)
  have "split_on (CHR ''.'') (''hl1.'' @ RawURLEncoding_Encode (json_text (JObj ms)) @ ''.'' @ RawURLEncoding_Encode sg) =
      [''hl1'', RawURLEncoding_Encode (json_text (JObj ms)), RawURLEncoding_Encode sg]"
    using split_on_app [OF dot] split_on_last [OF dot] by (simp del: json_text.simps)
  moreover have "json_unmarshal (json_text (JObj ms)) = Some (JObj ms)"
    using assms(2) by (intro json_text_unmarshal(1) [OF assms(1)]) (simp_all add: max_depth_def)
  ultimately show ?thesis using assms(3-5) by (simp add: ParseAuthority_def b64_roundtrip del: json_text.simps)
qed

definition forged_members :: "(string \<times> json) list" where
  "forged_members = [(''e'', JStr ''e1''), (''s'', JArr [JStr ''st1'']), (''r'', JArr [JStr ''c2s'']), (''w'', JArr [JStr ''s2c'']), (''nbf'', JNum ''1''),
     (''exp'', JNum ''9999999999'')]"

lemma forged_text: "forged_payload = RawURLEncoding_Encode (json_text (JObj forged_members))" "forged_lease = ''hl1.'' @ forged_payload @ ''.'' @ RawURLEncoding_Encode ''not-a-signature''"
  by code_simp+

lemma forged_parse:
  obtains auth where "ParseAuthority forged_lease = Inr (auth, \<lparr>sg_payload = forged_payload, sg_signature = ''not-a-signature''\<rparr>)"
proof -
  let ?p = "zero_payload\<lparr>p_Est := ''e1'', p_Stns := [''st1''], p_Read := [c2s], p_Write := [s2c], p_NBF := 1, p_Exp := 9999999999\<rparr>"
  have "byte 49 = CHR ''1''" "byte 57 = CHR ''9''" by code_simp+
  then have n: "''1'' = FormatInt 10 1" "''9999999999'' = FormatInt 10 9999999999" by (simp_all add: FormatInt_10 show_nat_rec digit_char_def)
  have v: "valid_utf8 s" if "s \<in> {''e'', ''s'', ''r'', ''w'', ''nbf'', ''exp'', ''e1'', ''st1'', c2s, s2c}" for s
    using that by (auto intro!: valid_utf8_ascii simp: in_range_def)
  have "fits 2 (JObj forged_members)" using v n by (auto simp: forged_members_def)
  moreover have "decode_struct payload_fields payload_update (JObj forged_members) zero_payload = Some ?p"
    by (simp add: forged_members_def decode_struct_def payload_fields_def match_field_def payload_update_def dec_string_def dec_strings_def dec_i64_def n
        ParseInt_FormatInt zero_payload_def)
  ultimately have "\<exists>auth. ParseAuthority forged_lease = Inr (auth, \<lparr>sg_payload = forged_payload, sg_signature = ''not-a-signature''\<rparr>)"
    using ParseAuthority_text [of forged_members ?p "''not-a-signature''"] unfolding forged_text by (simp add: forged_members_def zero_payload_def del: json_text.simps)
  then show thesis using that by blast
qed

locale relay_bench =
  fixes b :: bench and t :: "world target" and a :: "inner_auth authority_auth" and sa :: static_auth
  assumes estate: "path_name (tg_Estate t)"
    and static: "aa_Inner a = InnerStatic sa" and self_hosted: "\<not> be_hosted b"
    and zones: "\<bar>zone (be_wire b) T\<bar> < 86400"
    and lags: "0 \<le> be_lag b q T \<and> be_lag b q T \<le> slack"
    and no_restart: "tg_Disrupt t = None"
    and tokens: "plain_token (tg_Control t)" "plain_token (tg_StationTok t)"
    and own_tokens: "map_of (sa_control sa) (tg_Estate t) = Some (be_sha b (tg_Control t))"
      "map_of (sa_station sa) (tg_Estate t) = Some (be_sha b (tg_StationTok t))"
    and told_apart: "distinct [zero_digest, be_sha b (tg_Control t), be_sha b (tg_StationTok t)]"
    and stranger_unknown: "be_sha b wrong_token \<notin> ran (map_of (sa_control sa)) \<union> ran (map_of (sa_station sa))"
    and other_tokens: "tg_OtherEstate t \<noteq> '''' \<Longrightarrow> path_name (tg_OtherEstate t) \<and>
      {be_sha b (tg_Control t), be_sha b (tg_StationTok t)} \<inter>
        set (map (\<lambda>m. lookup_or zero_digest m (tg_OtherEstate t)) [sa_control sa, sa_station sa]) = {}"
    and unlisted: "map_of (sa_control sa) ''estate-that-does-not-exist'' = None" "map_of (sa_station sa) ''estate-that-does-not-exist'' = None"
    and forged_refused: "aa_Verify a = Some v \<Longrightarrow> \<not> v forged_payload ''not-a-signature''"
begin

abbreviation E :: string where "E \<equiv> tg_Estate t"
abbreviation the_lab :: "world lab" where "the_lab \<equiv> bench_lab b (base_url t)"
abbreviation state :: "nat \<Rightarrow> world \<Rightarrow> time \<Rightarrow> (nat \<Rightarrow> string) \<Rightarrow> queues \<Rightarrow> bool" where "state \<equiv> bench_state a E"

definition the_grant :: "time \<Rightarrow> string \<Rightarrow> string \<Rightarrow> string \<Rightarrow> string \<Rightarrow> string \<Rightarrow> grant" where
  "the_grant T tok e st d op = static_grant (be_sha b) sa a T tok e st d op"

definition the_verdict :: "time \<Rightarrow> string \<Rightarrow> string \<Rightarrow> string \<Rightarrow> string \<Rightarrow> string \<Rightarrow> string" where
  "the_verdict T tok e st d op = verdict_of (the_grant T tok e st d op)"

lemma grant_decides: "decides b T a (asked tok e st d op n T) (the_grant T tok e st d op)"
  unfolding the_grant_def by (rule static_decides [OF static self_hosted])

lemma verdict_allow: "the_verdict T tok e st d op = '''' \<Longrightarrow> g_Allow (the_grant T tok e st d op) \<and> g_MaxBytes (the_grant T tok e st d op) = 0"
  using refuse_static(2) [of "the_grant T tok e st d op" "be_sha b" sa a T tok e st d op]
    static_grant_cases [of "be_sha b" sa a T tok e st d op] by (auto simp: the_verdict_def the_grant_def)

lemma verdict_refuse: "the_verdict T tok e st d op \<noteq> '''' \<Longrightarrow> \<not> g_Allow (the_grant T tok e st d op)"
  by (auto simp: the_verdict_def verdict_of_def)

lemma lag: "0 \<le> be_lag b q T" "be_lag b q T \<le> slack" "be_lag b q T \<le> 2 * Minute" "later T (T + be_lag b q T)"
  using lags [of q T] by (simp_all add: later_def slack_def duration_defs)

text \<open>What the tokens may do.\<close>

lemma plain_verdict:
  assumes "plain_token tok"
  shows "the_grant T tok e st d op = authAdapter_Admit (AllowRead (be_sha b) sa) (AllowWrite (be_sha b) sa) (asked tok e st d op 0 T)"
  using assms by (auto simp: the_grant_def static_grant_def Let_def plain_token_def split: sum.splits)

lemma digests:
  "lookup_or zero_digest (sa_control sa) E = be_sha b (tg_Control t)" "lookup_or zero_digest (sa_station sa) E = be_sha b (tg_StationTok t)"
  using own_tokens by (simp_all add: lookup_or_def)

lemma estate_nonempty: "E \<noteq> ''''" "path_name st \<Longrightarrow> st \<noteq> ''''"
  using estate by (auto simp: path_name_def)

lemmas token_rules = the_verdict_def verdict_of_def authAdapter_Admit_def Let_def AllowRead_def AllowWrite_def match_def validDir_def

lemma digest_facts:
  "be_sha b (tg_Control t) \<noteq> zero_digest" "be_sha b (tg_StationTok t) \<noteq> zero_digest"
  "be_sha b (tg_Control t) \<noteq> be_sha b (tg_StationTok t)" "be_sha b (tg_StationTok t) \<noteq> be_sha b (tg_Control t)"
  using told_apart by auto

lemma no_access:
  assumes p: "plain_token tok"
    and "\<not> match (lookup_or zero_digest (sa_control sa) e) (be_sha b tok)" "\<not> match (lookup_or zero_digest (sa_station sa) e) (be_sha b tok)"
  shows "the_verdict T tok e st d op = ReasonBadCredential"
proof -
  have tok: "TrimSpace tok = tok" "tok \<noteq> ''''" using p by (simp_all add: plain_token_def)
  have "\<not> AllowRead (be_sha b) sa tok e st d" "\<not> AllowWrite (be_sha b) sa tok e st d"
    using assms(2,3) by (simp_all add: AllowRead_def AllowWrite_def)
  then show ?thesis using tok by (simp add: the_verdict_def verdict_of_def plain_verdict [OF p] authAdapter_Admit_def)
qed

lemma token_verdicts:
  assumes "path_name st"
  shows "the_verdict T (tg_Control t) E st c2s OpWrite = ''''" "the_verdict T (tg_Control t) E st s2c OpWrite = ReasonWrongDirection"
    "a_dir dr \<Longrightarrow> the_verdict T (tg_Control t) E st dr OpRead = ''''" "the_verdict T (tg_StationTok t) E st s2c OpWrite = ''''"
    "the_verdict T (tg_StationTok t) E st c2s OpWrite = ReasonWrongDirection" "a_dir dr \<Longrightarrow> the_verdict T (tg_StationTok t) E st dr OpRead = ''''"
  using tokens digest_facts estate_nonempty(1) estate_nonempty(2) [OF assms]
  by (simp_all add: token_rules plain_verdict [OF tokens(1)] plain_verdict [OF tokens(2)] digests plain_token_def a_dir_valid)

lemma nobody_verdict: "the_verdict T '''' e st dr op = ReasonNoCredential"
proof -
  have "TrimSpace '''' = ''''" "isl (ParseAuthority '''')" by code_simp+
  then show ?thesis by (auto simp: the_verdict_def verdict_of_def the_grant_def static_grant_def authAdapter_Admit_def Let_def split: sum.splits)
qed

lemma wrong_plain: "plain_token wrong_token"
  unfolding plain_token_def by code_simp

lemma stranger_verdict: "the_verdict T wrong_token e st dr op = ReasonBadCredential"
proof (rule no_access [OF wrong_plain])
  show "\<not> match (lookup_or zero_digest (sa_control sa) e) (be_sha b wrong_token)"
    using stranger_unknown by (auto simp: match_iff lookup_or_def ran_def split: option.splits)
  show "\<not> match (lookup_or zero_digest (sa_station sa) e) (be_sha b wrong_token)"
    using stranger_unknown by (auto simp: match_iff lookup_or_def ran_def split: option.splits)
qed

lemma forger_verdict: "the_verdict T forged_lease e st dr op = ReasonAuthorityUnverifiable"
proof -
  obtain auth where p: "ParseAuthority forged_lease = Inr (auth, \<lparr>sg_payload = forged_payload, sg_signature = ''not-a-signature''\<rparr>)"
    by (rule forged_parse)
  have "check T a auth \<lparr>sg_payload = forged_payload, sg_signature = ''not-a-signature''\<rparr> req = refusal ReasonAuthorityUnverifiable" for req
    using forged_refused by (cases "aa_Verify a") (simp_all add: check_def)
  then show ?thesis by (simp add: the_verdict_def verdict_of_def the_grant_def static_grant_def Let_def forged_trim p)
qed

lemma elsewhere_verdict:
  assumes "tok = tg_Control t \<or> tok = tg_StationTok t"
    and "be_sha b tok \<notin> {lookup_or zero_digest (sa_control sa) e, lookup_or zero_digest (sa_station sa) e}"
  shows "the_verdict T tok e st dr op = ReasonBadCredential"
proof -
  have p: "plain_token tok" using assms(1) tokens by auto
  then show ?thesis by (rule no_access) (use assms(2) in \<open>auto simp: match_iff\<close>)
qed

text \<open>Requests of the suite's client, answered.\<close>

lemma does_putR:
  assumes "bench_Do b (base_url t) (client_request ''POST'' (target_url t e st d '''') tok (Some (put_text sq body))) w = (Some r, w')"
  shows "does (putR the_lab t e st d tok sq body) w (cr_status r, fst (Unmarshal refusal_lax (cr_body r) no_refusal)) w'"
  using assms by (simp add: does_def putR_def target_do_def bench_lab_def)

lemma does_take:
  assumes "bench_Do b (base_url t) (client_request ''GET'' (target_url t e st d ''wait=0'') tok None) w = (Some r, w')"
  shows "does (take_msgs the_lab t e st d tok) w (cr_status r, fst (Unmarshal msgs_lax (cr_body r) [])) w'"
  using assms by (simp add: does_def take_msgs_def target_do_def bench_lab_def)

lemma does_lease:
  assumes "bench_Do b (base_url t) (client_request ''GET'' (target_url t e st d (''wait=0&lease='' @ v)) tok None) w = (Some r, w')"
  shows "does (takeLeased the_lab t e st d tok v) w (cr_status r, fst (Unmarshal lease_lax (cr_body r) no_lease)) w'"
  using assms by (simp add: does_def takeLeased_def target_do_def bench_lab_def)

lemma does_ack:
  assumes "bench_Do b (base_url t) (client_request ''POST'' (base_url t @ ''/v1/'' @ e @ ''/'' @ st @ ''/'' @ d @ ''/ack'') tok (Some (ack_text i))) w = (Some r, w')"
  shows "does (target_ack the_lab t e st d tok i) w (cr_status r, fst (Unmarshal deleted_lax (cr_body r) 0)) w'"
  using assms by (simp add: does_def target_ack_def target_do_def bench_lab_def)

lemma state_facts:
  assumes "state n w T nm H"
  shows "wo_now w = T" "sv_auth (wo_server w) = a" "0 \<le> T" "T \<le> horizon" "portrays E T (sv_store (wo_server w)) nm H" "Hour \<le> T"
  using assms by (simp_all add: bench_state_def duration_defs)

text \<open>A request that leaves the server as it was takes a moment.\<close>

lemma moment:
  assumes "state (Suc n) w T nm H" "\<exists>q. x = (r, \<lparr>wo_server = wo_server w, wo_now = T + be_lag b q T\<rparr>)"
  obtains w' T' where "x = (r, w')" "later T T'" "state n w' T' nm H"
proof -
  obtain q where q: "x = (r, \<lparr>wo_server = wo_server w, wo_now = T + be_lag b q T\<rparr>)" using assms(2) ..
  note f = state_facts [OF assms(1)]
  show thesis
    by (rule that [OF q]) (use lag(4) bench_next [OF assms(1) lag(1,3) f(2) refl refl f(5), of q T] lag(1) in simp_all)
qed

text \<open>A request that changes the store.\<close>

lemma moment_store:
  assumes "state (Suc n) w T nm H" "\<exists>q. x = (r, \<lparr>wo_server = s', wo_now = T + be_lag b q T\<rparr>)"
    and "sv_auth s' = sv_auth (wo_server w)" "sv_Version s' = sv_Version (wo_server w)" "sv_Hash s' = sv_Hash (wo_server w)" "portrays E T (sv_store s') nm' H'"
  obtains w' T' where "x = (r, w')" "later T T'" "state n w' T' nm' H'"
proof -
  obtain q where q: "x = (r, \<lparr>wo_server = s', wo_now = T + be_lag b q T\<rparr>)" using assms(2) ..
  note f = state_facts [OF assms(1)]
  show thesis
    by (rule that [OF q]) (use lag(4) bench_next [OF assms(1) lag(1,3) _ assms(4,5,6), of q T] lag(1) f(2) assms(3) in simp_all)
qed

lemma law_put_refused:
  assumes "state (Suc n) w T nm H" "path_name e" "path_name st" "a_dir dr" "the_verdict T tok e st dr OpWrite = r" "r \<noteq> ''''"
  shows "\<exists>w' T' x. does (putR the_lab t e st dr tok sq body) w x w' \<and> refused r x \<and> later T T' \<and> state n w' T' nm H"
proof -
  let ?g = "the_grant T tok e st dr OpWrite"
  note f = state_facts [OF assms(1)]
  have g: "\<not> g_Allow ?g" using assms(5,6) verdict_refuse by blast
  have "Server_put (auth_at b T) (env_at b T) (handed e st dr tok '''' (Some (put_text sq body))) (wo_server w) = (refuse ?g, wo_server w)"
    using assms(4) g grant_decides f(2) by (intro put_refused_run) (simp_all add: a_dir_valid)
  note run = bench_put [OF assms(2,3) a_dir_path [OF assms(4)] f(1) this, of t]
  obtain w' T' where 1: "bench_Do b (base_url t) (client_request ''POST'' (target_url t e st dr '''') tok (Some (put_text sq body))) w = (Some (answer_of b (refuse ?g)), w')"
      "later T T'" "state n w' T' nm H" by (rule moment [OF assms(1) run])
  note w = refuse_static [OF the_grant_def g]
  have "refused r (cr_status (answer_of b (refuse ?g)), fst (Unmarshal refusal_lax (cr_body (answer_of b (refuse ?g))) no_refusal))"
    using w(1) w(3) [of "be_wire b"] assms(5) by (auto simp: refused_def the_verdict_def)
  with does_putR [OF 1(1)] 1(2,3) show ?thesis by blast
qed

lemma law_put_astray:
  assumes "state (Suc n) w T nm H" "path_name e" "path_name st" "path_name dr" "\<not> a_dir dr"
  shows "\<exists>w' T' x. does (putR the_lab t e st dr tok sq body) w x w' \<and> refused ReasonBadRoute x \<and> later T T' \<and> state n w' T' nm H"
proof -
  let ?r = "refuse (refusal ReasonBadRoute)"
  note f = state_facts [OF assms(1)]
  have "Server_put (auth_at b T) (env_at b T) (handed e st dr tok '''' (Some (put_text sq body))) (wo_server w) = (?r, wo_server w)"
    using assms(5) by (intro astray_run) (simp add: a_dir_valid)
  note run = bench_put [OF assms(2,3,4) f(1) this, of t]
  obtain w' T' where 1: "bench_Do b (base_url t) (client_request ''POST'' (target_url t e st dr '''') tok (Some (put_text sq body))) w = (Some (answer_of b ?r), w')"
      "later T T'" "state n w' T' nm H" by (rule moment [OF assms(1) run])
  have d: "reason_detail ReasonBadRoute = ''a message must name an estate, a station and a direction of c2s or s2c''" by code_simp
  have "rs_payload ?r = Json (JObj [(''error'', JStr (reason_detail ReasonBadRoute)), (''reason'', JStr ReasonBadRoute)])" by (simp add: refuse_def Let_def)
  from refusal_read [OF _ _ this, of "be_wire b"] have "refused ReasonBadRoute (rs_status ?r, fst (Unmarshal refusal_lax (response_body (be_wire b) ?r) no_refusal))"
    unfolding d by (simp add: refused_def valid_utf8_ascii in_range_def)
  with does_putR [OF 1(1)] 1(2,3) show ?thesis by (auto simp del: refuse_status)
qed

lemma put_step:
  assumes "portrays E T (sv_store s) nm H" "sv_auth s = a" "0 \<le> T" "path_name st" "a_dir dr" "the_verdict T tok E st dr OpWrite = ''''" "length body \<le> 4096"
    "young T (H (st, dr))"
  obtains st' d' v q where
    "bench_Do b (base_url t) (client_request ''POST'' (target_url t E st dr '''') tok (Some (put_text sq body))) \<lparr>wo_server = s, wo_now = T\<rparr> =
      (Some (answer_of b \<lparr>rs_status = 202, rs_payload = NoPayload\<rparr>), \<lparr>wo_server = wake (key E st dr) (s\<lparr>sv_store := st', sv_disk := d'\<rparr>), wo_now = T + be_lag b q T\<rparr>)"
    "v_ID v \<noteq> ''''" "v_Seq v = sq" "v_Body v = body" "v_At v = T" "v_Lease v = ''''" "portrays E T st' nm (H((st, dr) := H (st, dr) @ [v]))"
proof -
  let ?g = "the_grant T tok E st dr OpWrite" and ?ok = "\<lparr>rs_status = 202, rs_payload = NoPayload\<rparr>" and ?w = "\<lparr>wo_server = s, wo_now = T\<rparr>"
  let ?m = "\<lparr>m_ID = '''', m_Estate = E, m_Station = st, m_Dir = dr, m_Seq = sq, m_Body = body, m_At = zero_time, m_file = '''', m_lease = '''', m_leaseUntil = zero_time\<rparr>"
  obtain st' d' i where P: "Put (be_io b) (\<lambda>_. T) ?m (sv_store s) (sv_disk s) = (Inr (), st', d')"
    "portrays E T st' nm (H((st, dr) := H (st, dr) @ [view (?m\<lparr>m_At := T, m_ID := id_name i\<rparr>)]))"
    by (rule portrays_Put [OF assms(1) estate assms(4,5,8,3), of ?m "be_io b" "sv_disk s"]) (use assms(7) in simp_all)
  have g: "g_Allow ?g" "g_MaxBytes ?g = 0" using verdict_allow [OF assms(6)] by simp_all
  have "Server_put (auth_at b T) (env_at b T) (handed E st dr tok '''' (Some (put_text sq body))) (wo_server ?w) =
      (?ok, wake (key E st dr) (s\<lparr>sv_store := st', sv_disk := d'\<rparr>))"
    unfolding world.simps using assms(2,5,7) g grant_decides P(1) by (intro put_accepted_run) (simp_all add: a_dir_valid)
  note run = bench_put [OF estate assms(4) a_dir_path [OF assms(5)] _ this, of t]
  then obtain q where "bench_Do b (base_url t) (client_request ''POST'' (target_url t E st dr '''') tok (Some (put_text sq body))) ?w =
      (Some (answer_of b ?ok), \<lparr>wo_server = wake (key E st dr) (s\<lparr>sv_store := st', sv_disk := d'\<rparr>), wo_now = T + be_lag b q T\<rparr>)" by auto
  then show thesis by (rule that [OF _ _ _ _ _ _ P(2)]) (simp_all add: id_name_def)
qed

lemma law_put_accepted:
  assumes "state (Suc n) w T nm H" "path_name st" "a_dir dr" "the_verdict T tok E st dr OpWrite = ''''" "length body \<le> 4096" "young T (H (st, dr))"
  shows "\<exists>w' T' v. does (putR the_lab t E st dr tok sq body) w (202, no_refusal) w' \<and> later T T' \<and>
    v_ID v \<noteq> '''' \<and> v_Seq v = sq \<and> v_Body v = body \<and> v_At v = T \<and> v_Lease v = '''' \<and> state n w' T' nm (H((st, dr) := H (st, dr) @ [v]))"
proof -
  let ?s = "wo_server w" and ?ok = "\<lparr>rs_status = 202, rs_payload = NoPayload\<rparr>"
  note f = state_facts [OF assms(1)]
  have w: "\<lparr>wo_server = ?s, wo_now = T\<rparr> = w" using f(1) by simp
  obtain st' d' v q where 1: "bench_Do b (base_url t) (client_request ''POST'' (target_url t E st dr '''') tok (Some (put_text sq body))) \<lparr>wo_server = ?s, wo_now = T\<rparr> =
      (Some (answer_of b ?ok), \<lparr>wo_server = wake (key E st dr) (?s\<lparr>sv_store := st', sv_disk := d'\<rparr>), wo_now = T + be_lag b q T\<rparr>)"
    "v_ID v \<noteq> ''''" "v_Seq v = sq" "v_Body v = body" "v_At v = T" "v_Lease v = ''''" "portrays E T st' nm (H((st, dr) := H (st, dr) @ [v]))"
    by (rule put_step [OF f(5,2,3) assms(2-6), of sq])
  let ?s' = "wake (key E st dr) (?s\<lparr>sv_store := st', sv_disk := d'\<rparr>)"
  have k: "sv_auth ?s' = sv_auth ?s" "sv_Version ?s' = sv_Version ?s" "sv_Hash ?s' = sv_Hash ?s" "sv_store ?s' = st'" by (simp_all add: wake_def)
  have kk: "portrays E T (sv_store ?s') nm (H((st, dr) := H (st, dr) @ [v]))" unfolding k(4) by (rule 1)
  have run: "\<exists>q. bench_Do b (base_url t) (client_request ''POST'' (target_url t E st dr '''') tok (Some (put_text sq body))) w =
      (Some (answer_of b ?ok), \<lparr>wo_server = ?s', wo_now = T + be_lag b q T\<rparr>)"
    using 1(1) [unfolded w] by blast
  obtain w' T' where 2: "bench_Do b (base_url t) (client_request ''POST'' (target_url t E st dr '''') tok (Some (put_text sq body))) w = (Some (answer_of b ?ok), w')"
      "later T T'" "state n w' T' nm (H((st, dr) := H (st, dr) @ [v]))"
    by (rule moment_store [OF assms(1) run k(1-3) kk])
  have "json_unmarshal '''' = None" by code_simp
  then have "fst (Unmarshal refusal_lax (cr_body (answer_of b ?ok)) no_refusal) = no_refusal" by (simp add: response_body_def Unmarshal_def)
  with does_putR [OF 2(1)] have "does (putR the_lab t E st dr tok sq body) w (202, no_refusal) w'" by simp
  then show ?thesis using 1 2(2,3) by (intro exI [of _ w'] exI [of _ T'] exI [of _ v]) simp
qed

text \<open>Collections.\<close>

lemma query_wait:
  "lookup_or '''' (query_pairs ''wait=0'') ''wait'' = ''0''" "lookup_or '''' (query_pairs ''wait=0'') ''lease'' = ''''" "lookup_or '''' (query_pairs ''wait=0'') ''limit'' = ''''"
  "lookup_or '''' (query_pairs ''wait=0&lease=0'') ''wait'' = ''0''" "lookup_or '''' (query_pairs ''wait=0&lease=0'') ''lease'' = ''0''"
  "lookup_or '''' (query_pairs ''wait=0&lease=0'') ''limit'' = ''''" "query_pairs '''' = []"
  "lookup_or '''' (query_pairs ''lease=30s'') ''wait'' = ''''" "lookup_or '''' (query_pairs ''lease=30s'') ''lease'' = ''30s''" "lookup_or '''' (query_pairs ''lease=30s'') ''limit'' = ''''"
  by code_simp+

lemma texts: "\<forall>m \<in> set ms. mine E st dr T m \<Longrightarrow> path_name st \<Longrightarrow> a_dir dr \<Longrightarrow> T \<le> horizon \<Longrightarrow> \<forall>m \<in> set ms. writable (be_wire b) m"
  using mine_writable [OF _ estate] zones by blast

lemma messages_client:
  assumes "\<forall>m \<in> set ms. mine E st dr T m" "path_name st" "a_dir dr" "T \<le> horizon"
  shows "Unmarshal msgs_lax (response_body (be_wire b) \<lparr>rs_status = 200, rs_payload = Messages ms\<rparr>) [] = (map (\<lambda>m. sent (view m)) ms, True)"
  using messages_answer_read [OF texts [OF assms], of "\<lparr>rs_status = 200, rs_payload = Messages ms\<rparr>" "[]"] by (simp add: received_sent)

lemma collect_run:
  assumes "state (Suc n) w T nm H" "path_name st" "a_dir dr" "the_verdict T tok E st dr OpRead = ''''" "young T (H (st, dr))"
    and q: "ParseLease (be_oor b) (lookup_or '''' (query_pairs q) ''lease'') = Inr 0" "lookup_or '''' (query_pairs q) ''limit'' = ''''" "lookup_or '''' (query_pairs q) ''wait'' = ''0''"
  obtains w' T' r where "bench_Do b (base_url t) (client_request ''GET'' (target_url t E st dr q) tok None) w = (Some r, w')" "cr_status r = 200"
    "Unmarshal msgs_lax (cr_body r) [] = (map sent (filter unheld (map (lapse T) (H (st, dr)))), True)" "later T T'"
    "state n w' T' nm (H((st, dr) := filter (\<lambda>v. \<not> unheld v) (map (lapse T) (H (st, dr)))))"
proof -
  let ?g = "the_grant T tok E st dr OpRead" and ?s = "wo_server w"
  note f = state_facts [OF assms(1)]
  obtain ms st' d' where P: "Take (be_io b) (\<lambda>_. T) E st dr 0 (sv_store ?s) (sv_disk ?s) = (Inr ms, st', d')" "\<forall>m \<in> set ms. mine E st dr T m"
    "map view ms = filter unheld (map (lapse T) (H (st, dr)))"
    "portrays E T st' nm (H((st, dr) := filter (\<lambda>v. \<not> unheld v) (map (lapse T) (H (st, dr)))))"
    by (rule portrays_Take [OF f(5) estate assms(2,3,5), of "be_io b" "sv_disk ?s"])
  let ?s' = "?s\<lparr>sv_store := st', sv_disk := d'\<rparr>" and ?r = "\<lparr>rs_status = 200, rs_payload = Messages ms\<rparr>"
  have g: "g_Allow ?g" using verdict_allow [OF assms(4)] by simp
  have "Server_get_start (auth_at b T) (env_at b T) (handed E st dr tok q None) ?s = (Inl ?r, ?s')"
    using take_run [of dr b T ?s tok E st ?g q ms st' d'] assms(3) g grant_decides f(2) P(1) q by (simp add: a_dir_valid)
  note run = bench_get [OF estate assms(2) a_dir_path [OF assms(3)] f(1) this, of t]
  have k: "sv_auth ?s' = sv_auth ?s" "sv_Version ?s' = sv_Version ?s" "sv_Hash ?s' = sv_Hash ?s"
    "portrays E T (sv_store ?s') nm (H((st, dr) := filter (\<lambda>v. \<not> unheld v) (map (lapse T) (H (st, dr)))))" using P(4) by simp_all
  obtain w' T' where 1: "bench_Do b (base_url t) (client_request ''GET'' (target_url t E st dr q) tok None) w = (Some (answer_of b ?r), w')" "later T T'"
    "state n w' T' nm (H((st, dr) := filter (\<lambda>v. \<not> unheld v) (map (lapse T) (H (st, dr)))))"
    by (rule moment_store [OF assms(1) run k])
  have "map (\<lambda>m. sent (view m)) ms = map sent (filter unheld (map (lapse T) (H (st, dr))))" unfolding P(3) [symmetric] by simp
  then show thesis using that [OF 1(1) _ _ 1(2,3)] messages_client [OF P(2) assms(2,3) f(4)] by simp
qed

lemma law_take_allowed:
  assumes "state (Suc n) w T nm H" "path_name st" "a_dir dr" "the_verdict T tok E st dr OpRead = ''''" "young T (H (st, dr))"
  shows "\<exists>w' T'. does (take_msgs the_lab t E st dr tok) w (200, map sent (filter unheld (map (lapse T) (H (st, dr))))) w' \<and> later T T' \<and>
    state n w' T' nm (H((st, dr) := filter (\<lambda>v. \<not> unheld v) (map (lapse T) (H (st, dr)))))"
proof -
  have q: "ParseLease (be_oor b) (lookup_or '''' (query_pairs ''wait=0'') ''lease'') = Inr 0" by (simp add: query_wait ParseLease_none)
  obtain w' T' r where 1: "bench_Do b (base_url t) (client_request ''GET'' (target_url t E st dr ''wait=0'') tok None) w = (Some r, w')" "cr_status r = 200"
    "Unmarshal msgs_lax (cr_body r) [] = (map sent (filter unheld (map (lapse T) (H (st, dr)))), True)" "later T T'"
    "state n w' T' nm (H((st, dr) := filter (\<lambda>v. \<not> unheld v) (map (lapse T) (H (st, dr)))))"
    by (rule collect_run [OF assms q query_wait(3,1)])
  with does_take [OF 1(1)] show ?thesis by auto
qed

lemma law_plain_lease:
  assumes "state (Suc n) w T nm H" "path_name st" "H (st, c2s) = []"
  shows "\<exists>w' T' r. lab_Do the_lab (client_request ''GET'' (target_url t E st c2s ''wait=0&lease=0'') (tg_StationTok t) None) w = (Some r, w') \<and>
    snd (Unmarshal msgs_lax (cr_body r) []) \<and> later T T' \<and> state n w' T' nm H"
proof -
  have q: "ParseLease (be_oor b) (lookup_or '''' (query_pairs ''wait=0&lease=0'') ''lease'') = Inr 0" by (simp add: query_wait ParseLease_none)
  have d: "a_dir c2s" "the_verdict T (tg_StationTok t) E st c2s OpRead = ''''" "young T (H (st, c2s))" "H((st, c2s) := []) = H"
    using token_verdicts(6) [OF assms(2), of c2s T] assms(3) by (auto simp: a_dir_def young_def)
  obtain w' T' r where 1: "bench_Do b (base_url t) (client_request ''GET'' (target_url t E st c2s ''wait=0&lease=0'') (tg_StationTok t) None) w = (Some r, w')" "cr_status r = 200"
    "Unmarshal msgs_lax (cr_body r) [] = (map sent (filter unheld (map (lapse T) (H (st, c2s)))), True)" "later T T'"
    "state n w' T' nm (H((st, c2s) := filter (\<lambda>v. \<not> unheld v) (map (lapse T) (H (st, c2s)))))"
    by (rule collect_run [OF assms(1,2) d(1-3) q query_wait(6,4)])
  then show ?thesis using d(4) assms(3) by (auto simp: bench_lab_def)
qed

lemma law_take_refused:
  assumes "state (Suc n) w T nm H" "path_name e" "path_name st" "a_dir dr" "the_verdict T tok e st dr OpRead = r" "r \<noteq> ''''"
  shows "\<exists>w' T' got. does (take_msgs the_lab t e st dr tok) w (reason_status r, got) w' \<and> later T T' \<and> state n w' T' nm H"
proof -
  let ?g = "the_grant T tok e st dr OpRead"
  note f = state_facts [OF assms(1)]
  have g: "\<not> g_Allow ?g" using assms(5,6) verdict_refuse by blast
  have "Server_get_start (auth_at b T) (env_at b T) (handed e st dr tok ''wait=0'' None) (wo_server w) = (Inl (refuse ?g), wo_server w)"
    using assms(4) g grant_decides f(2) by (intro get_refused_run) (simp_all add: a_dir_valid)
  note run = bench_get [OF assms(2,3) a_dir_path [OF assms(4)] f(1) this, of t]
  obtain w' T' where 1: "bench_Do b (base_url t) (client_request ''GET'' (target_url t e st dr ''wait=0'') tok None) w = (Some (answer_of b (refuse ?g)), w')"
    "later T T'" "state n w' T' nm H" by (rule moment [OF assms(1) run])
  have "rs_status (refuse ?g) = reason_status r" using refuse_static(1) [OF the_grant_def g] assms(5) by (simp only: the_verdict_def)
  with does_take [OF 1(1)] 1(2,3) show ?thesis by (auto simp del: refuse_status)
qed

lemma law_ack_refused:
  assumes "state (Suc n) w T nm H" "path_name e" "path_name st" "the_verdict T tok e st c2s OpRead = r" "r \<noteq> ''''"
  shows "\<exists>w' T' k. does (target_ack the_lab t e st c2s tok i) w (reason_status r, k) w' \<and> later T T' \<and> state n w' T' nm H"
proof -
  let ?g = "the_grant T tok e st c2s OpRead"
  note f = state_facts [OF assms(1)]
  have d: "a_dir c2s" by (simp add: a_dir_def)
  have g: "\<not> g_Allow ?g" using assms(4,5) verdict_refuse by blast
  have "Server_ack (auth_at b T) (env_at b T) (handed e st c2s tok '''' (Some (ack_text i))) (wo_server w) = (refuse ?g, wo_server w)"
    using d g grant_decides f(2) by (intro ack_refused_run) (simp_all add: a_dir_valid)
  note run = bench_ack [OF assms(2,3) a_dir_path [OF d] f(1) this, of t]
  obtain w' T' where 1: "bench_Do b (base_url t) (client_request ''POST'' (base_url t @ ''/v1/'' @ e @ ''/'' @ st @ ''/'' @ c2s @ ''/ack'') tok (Some (ack_text i))) w = (Some (answer_of b (refuse ?g)), w')"
    "later T T'" "state n w' T' nm H" by (rule moment [OF assms(1) run])
  have "rs_status (refuse ?g) = reason_status r" using refuse_static(1) [OF the_grant_def g] assms(4) by (simp only: the_verdict_def)
  with does_ack [OF 1(1)] 1(2,3) show ?thesis by (auto simp del: refuse_status)
qed

lemma law_acknowledged:
  assumes "state (Suc n) w T nm H" "path_name st" "path_name i" "length i < 1000" "q = map (lapse T) (H (st, c2s))" "young T q"
    "acked = filter (\<lambda>v. v_Lease v = i) q"
  shows "\<exists>w' T' k. does (target_ack the_lab t E st c2s (tg_StationTok t) i) w (if acked = [] then 410 else 200, k) w' \<and> (acked = [] \<or> k = int (length acked)) \<and>
    later T T' \<and> state n w' T' nm (H((st, c2s) := filter (\<lambda>v. v_Lease v \<noteq> i) q))"
proof -
  let ?g = "the_grant T (tg_StationTok t) E st c2s OpRead" and ?s = "wo_server w"
  note f = state_facts [OF assms(1)]
  have d: "a_dir c2s" and y: "young T (H (st, c2s))" using assms(5,6) by (simp_all add: a_dir_def)
  obtain st' d' where P: "Ack (be_io b) (\<lambda>_. T) E st c2s i (sv_store ?s) (sv_disk ?s) = (if acked = [] then Inl ErrNoSuchLease else Inr (length acked), st', d')"
    "portrays E T st' nm (H((st, c2s) := filter (\<lambda>v. v_Lease v \<noteq> i) q))"
    unfolding assms(5,7) by (rule portrays_Ack [OF f(5) estate assms(2) d y path_trim [OF assms(3)] path_nonempty [OF assms(3)], of "be_io b" "sv_disk ?s"])
  let ?r = "if acked = [] then refuse (refusal ReasonNoSuchLease) else writeJSON (JObj [(''deleted'', JNum (show_nat (length acked)))])"
  let ?s' = "?s\<lparr>sv_store := st', sv_disk := d'\<rparr>"
  have g: "g_Allow ?g" using verdict_allow [OF token_verdicts(6) [OF assms(2) d]] by simp
  have "Server_ack (auth_at b T) (env_at b T) (handed E st c2s (tg_StationTok t) '''' (Some (ack_text i))) ?s = (?r, ?s')"
    using ack_run [where n = "length acked", OF _ _ g assms(3,4) P(1)] d grant_decides f(2) by (auto simp: a_dir_valid)
  note run = bench_ack [OF estate assms(2) a_dir_path [OF d] f(1) this, of t]
  have k: "sv_auth ?s' = sv_auth ?s" "sv_Version ?s' = sv_Version ?s" "sv_Hash ?s' = sv_Hash ?s"
    "portrays E T (sv_store ?s') nm (H((st, c2s) := filter (\<lambda>v. v_Lease v \<noteq> i) q))" using P(2) by simp_all
  obtain w' T' where 1: "bench_Do b (base_url t) (client_request ''POST'' (base_url t @ ''/v1/'' @ E @ ''/'' @ st @ ''/'' @ c2s @ ''/ack'') (tg_StationTok t) (Some (ack_text i))) w =
      (Some (answer_of b ?r), w')" "later T T'" "state n w' T' nm (H((st, c2s) := filter (\<lambda>v. v_Lease v \<noteq> i) q))"
    by (rule moment_store [OF assms(1) run k])
  have len: "length acked < 100" using assms(5-7) by (auto simp: young_def intro: le_less_trans [OF length_filter_le])
  have c: "rs_status ?r = (if acked = [] then 410 else 200)" by (simp add: writeJSON_def reason_status_def)
  have d: "acked = [] \<or> fst (Unmarshal deleted_lax (response_body (be_wire b) ?r) 0) = int (length acked)"
    using deleted_read [of ?r "length acked" "be_wire b"] len by (cases "acked = []") (simp_all add: writeJSON_def)
  show ?thesis using does_ack [OF 1(1), unfolded answer_sel c] d 1(2,3) by blast
qed

end

end
