(* ===== verification/Relay_System.thy ===== *)
theory Relay_System
  imports Relay_Server
begin

text \<open>
  Requests that run at the same time. The handlers of \<^verbatim>\<open>src/server.go\<close> share the store and the table of waiters, each
  behind a mutex, so what interleaves are their critical sections: a step of \<open>sys_step\<close> is one of them.

  \<^item> A collection that found nothing is \<open>Collected\<close> until it has put its channel in the table, \<open>Holding\<close> while
    its channel is there, and \<open>Returned\<close> from \<^verbatim>\<open>hold\<close> until it resumes. The list in \<open>Holding\<close> is not part of the program: it
    is the ids the queue had when the poll was registered, kept to state what a wake-up is owed for.
  \<^item> A write that the store took still has to wake the waiters: its key is in \<open>y_wakes\<close> until it does.
  \<^item> The authoriser's state may change at any moment, and the sweep may run at any moment.
\<close>

section \<open>Definitions\<close>

datatype 'w task =
    Collected "'w collection"
  | Holding "'w collection" nat "string list"
  | Returned "'w collection" "bool \<times> string"

record ('st, 'w) system =
  y_server :: "'st server"
  y_tasks :: "'w task list"
  y_wakes :: "string list"

abbreviation waiting :: "'st server \<Rightarrow> string \<Rightarrow> (nat \<times> bool) list" where
  "waiting s k \<equiv> lookup_or [] (sv_waiters s) k"

inductive sys_step :: "('st, 'w) authoriser \<Rightarrow> ('st, 'w) system \<Rightarrow> ('st, 'w) system \<Rightarrow> bool" for au where
  put: "Server_put_store au e hr (y_server y) = (r, k, s) \<Longrightarrow>
    sys_step au y (y\<lparr>y_server := s, y_wakes := (case k of None \<Rightarrow> y_wakes y | Some k \<Rightarrow> k # y_wakes y)\<rparr>)"
| wake: "k \<in> set (y_wakes y) \<Longrightarrow>
    sys_step au y (y\<lparr>y_server := wake k (y_server y), y_wakes := remove1 k (y_wakes y)\<rparr>)"
| get: "Server_get_start au e hr (y_server y) = (Inl r, s) \<Longrightarrow> sys_step au y (y\<lparr>y_server := s\<rparr>)"
| park: "Server_get_start au e hr (y_server y) = (Inr c, s) \<Longrightarrow>
    sys_step au y (y\<lparr>y_server := s, y_tasks := Collected c # y_tasks y\<rparr>)"
| register: "y_tasks y = ts @ Collected c # us \<Longrightarrow> hold_begin (route_key (c_req c)) (y_server y) = (ch, s) \<Longrightarrow>
    sys_step au y (y\<lparr>y_server := s,
      y_tasks := ts @ Holding c ch (map m_ID (queue (sv_store s) (route_key (c_req c)))) # us\<rparr>)"
| select: "y_tasks y = ts @ Holding c ch seen # us \<Longrightarrow>
    ev = Woken \<longrightarrow> (ch, True) \<in> set (waiting (y_server y) (route_key (c_req c))) \<Longrightarrow>
    sys_step au y (y\<lparr>y_server := hold_end (route_key (c_req c)) ch (y_server y),
      y_tasks := ts @ Returned c (hold_result ev) # us\<rparr>)"
| resume: "y_tasks y = ts @ Returned c h # us \<Longrightarrow> Server_get_resume au e c h (y_server y) = (r, s) \<Longrightarrow>
    sys_step au y (y\<lparr>y_server := s, y_tasks := ts @ us\<rparr>)"
| ack: "Server_ack au e hr (y_server y) = (r, s) \<Longrightarrow> sys_step au y (y\<lparr>y_server := s\<rparr>)"
| sweep: "on_store (Sweep w clk) (y_server y) = (n, s) \<Longrightarrow> sys_step au y (y\<lparr>y_server := s\<rparr>)"
| authority: "sys_step au y (y\<lparr>y_server := (y_server y)\<lparr>sv_auth := a\<rparr>\<rparr>)"

definition fresh_system :: "'st server \<Rightarrow> ('st, 'w) system" where
  "fresh_system s = \<lparr>y_server = s, y_tasks = [], y_wakes = []\<rparr>"

abbreviation reachable :: "('st, 'w) authoriser \<Rightarrow> 'st server \<Rightarrow> ('st, 'w) system \<Rightarrow> bool" where
  "reachable au s0 y \<equiv> (sys_step au)\<^sup>*\<^sup>* (fresh_system s0) y"

text \<open>The polls that hold a channel: its key, the channel and the ids of the queue at registration.\<close>

fun held_by :: "'w task \<Rightarrow> (string \<times> nat \<times> string list) list" where
  "held_by (Holding c ch seen) = [(route_key (c_req c), ch, seen)]"
| "held_by _ = []"

definition holds :: "'w task list \<Rightarrow> (string \<times> nat \<times> string list) list" where
  "holds ts = concat (map held_by ts)"

definition wf_table :: "(string, (nat \<times> bool) list) gomap \<Rightarrow> bool" where
  "wf_table ws \<longleftrightarrow> distinct (mkeys ws) \<and> [] \<notin> snd ` set ws"

definition chans_ok :: "nat \<Rightarrow> (string \<Rightarrow> (nat \<times> bool) list) \<Rightarrow> (string \<times> nat \<times> string list) list \<Rightarrow> bool" where
  "chans_ok n W hs \<longleftrightarrow> (\<forall>k. distinct (map fst (W k))) \<and>
     (\<forall>k ch. ch \<in> fst ` set (W k) \<longleftrightarrow> (\<exists>seen. (k, ch, seen) \<in> set hs)) \<and>
     distinct (map (fst \<circ> snd) hs) \<and> (\<forall>h \<in> set hs. fst (snd h) < n)"

definition owed :: "('st, 'w) system \<Rightarrow> bool" where
  "owed y \<longleftrightarrow> (\<forall>k ch seen i. (k, ch, seen) \<in> set (holds (y_tasks y)) \<longrightarrow> i \<in> queue_ids (y_server y) k \<longrightarrow>
     i \<in> set seen \<or> (ch, True) \<in> set (waiting (y_server y) k) \<or> k \<in> set (y_wakes y))"

definition sys_inv :: "('st, 'w) system \<Rightarrow> bool" where
  "sys_inv y \<longleftrightarrow> wf_table (sv_waiters (y_server y)) \<and>
     chans_ok (sv_chans (y_server y)) (waiting (y_server y)) (holds (y_tasks y)) \<and> owed y"

section \<open>The handlers and the waiters\<close>

lemma holds_simps [simp]:
  "holds [] = []" "holds (t # ts) = held_by t @ holds ts" "holds (ts @ us) = holds ts @ holds us"
  by (simp_all add: holds_def)

text \<open>What a step outside \<^verbatim>\<open>hold\<close> and \<^verbatim>\<open>wake\<close> leaves alone.\<close>

definition quiet :: "'st server \<Rightarrow> 'st server \<Rightarrow> bool" where
  "quiet s s' \<longleftrightarrow> sv_waiters s' = sv_waiters s \<and> sv_chans s' = sv_chans s \<and> (\<forall>k. queue_ids s' k \<subseteq> queue_ids s k)"

lemma quiet_refl [simp]: "quiet s s"
  by (simp add: quiet_def)

lemma quiet_trans: "quiet s t \<Longrightarrow> quiet t u \<Longrightarrow> quiet s u"
  by (fastforce simp: quiet_def)

lemma quiet_auth [simp]: "quiet (s\<lparr>sv_auth := a\<rparr>) t = quiet s t" "quiet s (t\<lparr>sv_auth := a\<rparr>) = quiet s t"
  by (simp_all add: quiet_def)

lemma quiet_settle [simp]: "quiet s (settle au e req g b n oc t) = quiet s t"
  by (simp add: quiet_def)

lemma quiet_answer [simp]:
  "quiet s (snd (answer au e req g ms t)) = quiet s t" "quiet s (snd (answer_lease au e req g l t)) = quiet s t"
  "quiet s (snd (park au req g n h t)) = quiet s t"
  by (simp_all add: answer_def answer_lease_def settle_delivery_def park_eq)

lemma quiet_Take: "quiet s (snd (sv_Take e req n s))" "quiet s (snd (sv_TakeLeased e req n h s))"
  using sv_Take_ids(1) [of e req n s] sv_Take_ids(2) [of e req n h s]
  by (simp_all add: quiet_def) (simp_all add: sv_Take_def sv_TakeLeased_def on_store_eq)

lemma quiet_Ack: "quiet s (snd (on_store (Ack w clk est st dr i) s))"
  using store_mailbox.confirm_frame [of w clk est st dr i "(sv_store s, sv_disk s)"] by (simp add: quiet_def on_store_eq)

lemma quiet_Sweep: "quiet s (snd (on_store (Sweep w clk) s))"
proof -
  have live: "m_ID ` set (live ttl t ms) \<subseteq> m_ID ` set ms" for ttl t ms using subseq_set [OF live_subseq] by blast
  have "m_ID ` set (queue (fst (fold (\<lambda>k (s1, d1). expireLocked w (clk k) k s1 d1) ks (st, d))) k)
      \<subseteq> m_ID ` set (queue st k)" for ks st d k
  proof (induction ks arbitrary: st d)
    case (Cons j ks)
    obtain st1 d1 where x: "expireLocked w (clk j) j st d = (st1, d1)" by force
    then have "m_ID ` set (queue st1 k) \<subseteq> m_ID ` set (queue st k)"
      using queue_expireLocked [of w "clk j" j st d k] live by (simp split: if_splits)
    with Cons.IH [of st1 d1] x show ?case by simp
  qed simp
  then show ?thesis by (simp add: quiet_def on_store_eq Sweep_def Let_def split_beta)
qed

lemma quiet_getLeased_start: "quiet s (snd (getLeased_start au e hr req g n h s))"
proof (cases "sv_TakeLeased e req n h s")
  case (Pair x s1)
  then have "quiet s s1" using quiet_Take(2) [of s e req n h] by simp
  with Pair show ?thesis by (cases x) (simp_all add: getLeased_start_def apfst_def map_prod_def split_beta)
qed

lemma quiet_get_start: "quiet s (snd (Server_get_start au e hr s))"
proof -
  let ?req = "request_of hr OpRead 0 (e_started e)"
  let ?s = "s\<lparr>sv_auth := snd (au_Admit au (sv_auth s) ?req)\<rparr>"
  have "quiet ?s (snd (case sv_Take e ?req n ?s of
      (Inl err, s2) \<Rightarrow> (Inl (refuse_with ReasonBadRoute err), settle au e ?req g 0 0 OutcomeRefused s2)
    | (Inr ms, s2) \<Rightarrow> if ms = [] \<and> b then park au ?req g n 0 s2 else apfst Inl (answer au e ?req g ms s2)))" for n g b
  proof (cases "sv_Take e ?req n ?s")
    case (Pair x s1)
    then have "quiet ?s s1" using quiet_Take(1) [of ?s e ?req n] by simp
    with Pair show ?thesis by (cases x) (simp_all add: apfst_def map_prod_def split_beta)
  qed
  moreover have "quiet ?s (snd (getLeased_start au e hr ?req g n h ?s))" for g n h by (rule quiet_getLeased_start)
  ultimately show ?thesis
    unfolding quiet_auth(1) Server_get_start_def Let_def admit_eq
    by (simp split: sum.split)
qed

lemma quiet_get_resume: "quiet s (snd (Server_get_resume au e c h s))"
proof -
  obtain woken revoked where h: "h = (woken, revoked)" by force
  obtain x s1 where x: "sv_Take e (c_req c) (c_limit c) s = (x, s1)" by force
  obtain y s2 where y: "sv_TakeLeased e (c_req c) (c_limit c) (c_held c) s = (y, s2)" by force
  have "quiet s s1" "quiet s s2"
    using quiet_Take(1) [of s e "c_req c" "c_limit c"] quiet_Take(2) [of s e "c_req c" "c_limit c" "c_held c"] x y by simp_all
  with x y show ?thesis
    by (cases x; cases y) (simp_all add: h Server_get_resume_def getLeased_resume_def)
qed

lemma quiet_ack: "quiet s (snd (Server_ack au e hr s))"
proof -
  let ?s = "s\<lparr>sv_auth := snd (au_Admit au (sv_auth s) (request_of hr OpRead 0 (e_started e)))\<rparr>"
  have "quiet s s2" if "on_store (Ack (e_io e) (e_clk e) (hr_estate hr) (hr_station hr) (hr_dir hr) i) ?s = (x, s2)" for i x s2
    using quiet_Ack [of ?s "e_io e" "e_clk e" "hr_estate hr" "hr_station hr" "hr_dir hr" i] that by simp
  then show ?thesis by (simp add: Server_ack_def Let_def admit_eq split: sum.splits prod.splits)
qed

text \<open>A write adds a message only to its own queue, and then it is going to wake that queue's waiters.\<close>

lemma put_store_effect:
  assumes run: "Server_put_store au e hr s = (r, k, s')"
  shows "sv_waiters s' = sv_waiters s \<and> sv_chans s' = sv_chans s \<and> (\<forall>j. k = Some j \<or> queue_ids s' j \<subseteq> queue_ids s j)"
proof -
  let ?req = "request_of hr OpWrite (hr_ContentLength hr) (e_started e)"
  let ?g = "fst (au_Admit au (sv_auth s) ?req)"
  have key: "route_key ?req = msg_key (put_message hr i)" for i by (simp add: route_key_def request_of_def msg_key_def put_message_def)
  have frame: "queue_ids (snd (on_store (Put (e_io e) (e_clk e) (put_message hr i)) (s\<lparr>sv_auth := a\<rparr>))) j \<subseteq> queue_ids s j"
    if "j \<noteq> route_key ?req \<or> (\<exists>err. fst (Put (e_io e) (e_clk e) (put_message hr i) (sv_store s) (sv_disk s)) = Inl err)" for i j a
    using store_mailbox.put_frame [of j "put_message hr i" "e_io e" "e_clk e" "(sv_store s, sv_disk s)"] that
    by (simp add: on_store_eq key [of i])
  show ?thesis
  proof (cases "validDir (hr_dir hr) \<and> g_Allow ?g")
    case False
    then show ?thesis using run by (auto simp: Server_put_store_def Let_def admit_eq split: if_splits)
  next
    case True
    then have adm: "validDir (hr_dir hr)" "g_Allow ?g" by auto
    show ?thesis
    proof (cases rule: put_admitted_cases [OF adm])
      case (1 r1)
      then show ?thesis using run by auto
    next
      case (2 i err)
      then have "k = None" "sv_waiters s' = sv_waiters s" "sv_chans s' = sv_chans s"
        "sv_store s' = sv_store (snd (on_store (Put (e_io e) (e_clk e) (put_message hr i)) (s\<lparr>sv_auth := snd (au_Admit au (sv_auth s) ?req)\<rparr>)))"
        using run by (auto simp: on_store_eq)
      with frame [of _ i] 2(2) show ?thesis by simp
    next
      case (3 i)
      then have "k = Some (route_key ?req)" "sv_waiters s' = sv_waiters s" "sv_chans s' = sv_chans s"
        "sv_store s' = sv_store (snd (on_store (Put (e_io e) (e_clk e) (put_message hr i)) (s\<lparr>sv_auth := snd (au_Admit au (sv_auth s) ?req)\<rparr>)))"
        using run by (auto simp: on_store_eq)
      moreover have "queue_ids s' j \<subseteq> queue_ids s j" if "k \<noteq> Some j" for j
        using frame [of j i] that calculation(1,4) by simp
      ultimately show ?thesis by blast
    qed
  qed
qed

section \<open>Invariants\<close>

lemma lookup_wake: "waiting (wake k s) k' = (if k' = k then map (\<lambda>(ch, full). (ch, True)) (waiting s k) else waiting s k')"
  by (cases "map_of (sv_waiters s) k") (simp_all add: wake_def lookup_or_def map_of_map_entry)

lemma lookup_hold_begin:
  "waiting (snd (hold_begin k s)) k' = (if k' = k then waiting s k @ [(sv_chans s, False)] else waiting s k')"
  by (simp add: hold_begin_def Let_def)

lemma remove_channel:
  "distinct (map fst w) \<Longrightarrow>
   (case find (\<lambda>x. fst x = ch) w of None \<Rightarrow> w | Some x \<Rightarrow> remove1 x w) = filter (\<lambda>x. fst x \<noteq> ch) w"
proof (induction w)
  case (Cons a w)
  show ?case
  proof (cases "fst a = ch")
    case True
    with Cons.prems have "\<forall>x \<in> set w. fst x \<noteq> ch"
      by (metis distinct.simps(2) image_eqI list.set_map list.simps(9))
    then have "filter (\<lambda>x. fst x \<noteq> ch) w = w" by (simp add: filter_id_conv)
    with True show ?thesis by simp
  next
    case False
    have "fst x = ch" if "find (\<lambda>x. fst x = ch) w = Some x" for x using that by (auto simp: find_Some_iff)
    with False have "x \<noteq> a" if "find (\<lambda>x. fst x = ch) w = Some x" for x using that by blast
    with False Cons show ?thesis by (cases "find (\<lambda>x. fst x = ch) w") auto
  qed
qed simp

lemma lookup_hold_end:
  "distinct (map fst (waiting s k)) \<Longrightarrow>
   waiting (hold_end k ch s) k' = (if k' = k then filter (\<lambda>x. fst x \<noteq> ch) (waiting s k) else waiting s k')"
  by (simp add: hold_end_def Let_def remove_channel)

lemma map_entry_nonempty: "[] \<notin> snd ` set m \<Longrightarrow> [] \<notin> snd ` set (AList.map_entry k (map f) m)"
  by (induction m) auto

lemma update_nonempty: "[] \<notin> snd ` set m \<Longrightarrow> v \<noteq> [] \<Longrightarrow> [] \<notin> snd ` set (AList.update k v m)"
  by (induction m) auto

lemma delete_nonempty: "[] \<notin> snd ` set m \<Longrightarrow> [] \<notin> snd ` set (AList.delete k m)"
  by (auto simp: AList.delete_eq)

lemma wf_table_ops:
  assumes "wf_table (sv_waiters s)"
  shows "wf_table (sv_waiters (wake k s))" "wf_table (sv_waiters (snd (hold_begin k s)))" "wf_table (sv_waiters (hold_end k ch s))"
  using assms
  by (simp_all add: wf_table_def wake_def hold_begin_def hold_end_def Let_def map_entry_nonempty update_nonempty
      delete_nonempty distinct_update distinct_delete distinct_map_entry)

lemma chans_ok_wake: "chans_ok n (waiting s) hs \<Longrightarrow> chans_ok n (waiting (wake k s)) hs"
proof -
  have f: "map fst (waiting (wake k s) j) = map fst (waiting s j)" for j by (simp add: lookup_wake comp_def split_beta)
  then have "fst ` set (waiting (wake k s) j) = fst ` set (waiting s j)" for j by (metis list.set_map)
  with f show "chans_ok n (waiting s) hs \<Longrightarrow> ?thesis" by (simp add: chans_ok_def)
qed

lemma chans_ok_register:
  assumes ok: "chans_ok n W (hs @ gs)"
  shows "chans_ok (Suc n) (W(k := W k @ [(n, False)])) (hs @ (k, n, seen) # gs)"
proof -
  have new: "n \<noteq> c" if "(j, c, x) \<in> set (hs @ gs)" for j c x
    using ok that unfolding chans_ok_def by (metis fst_conv snd_conv less_irrefl)
  have fresh: "n \<notin> fst ` set (W j)" for j using ok new unfolding chans_ok_def by metis
  have "distinct (map fst ((W(k := W k @ [(n, False)])) j))" for j
    using ok fresh [of k] by (simp add: chans_ok_def)
  moreover have "c \<in> fst ` set ((W(k := W k @ [(n, False)])) j) \<longleftrightarrow> (\<exists>x. (j, c, x) \<in> set (hs @ (k, n, seen) # gs))" for j c
  proof -
    have "c \<in> fst ` set (W j) \<longleftrightarrow> (\<exists>x. (j, c, x) \<in> set (hs @ gs))" using ok by (simp add: chans_ok_def)
    then show ?thesis by auto
  qed
  moreover have "distinct (map (fst \<circ> snd) (hs @ (k, n, seen) # gs))"
  proof -
    have "n \<notin> (fst \<circ> snd) ` set (hs @ gs)" using new by force
    then show ?thesis using ok by (auto simp: chans_ok_def)
  qed
  moreover have "\<forall>h \<in> set (hs @ (k, n, seen) # gs). fst (snd h) < Suc n" using ok by (auto simp: chans_ok_def less_Suc_eq)
  ultimately show ?thesis unfolding chans_ok_def by blast
qed

lemma chans_ok_release:
  assumes ok: "chans_ok n W (hs @ (k, c, seen) # gs)"
  shows "chans_ok n (W(k := filter (\<lambda>x. fst x \<noteq> c) (W k))) (hs @ gs)"
proof -
  let ?W = "W(k := filter (\<lambda>x. fst x \<noteq> c) (W k))"
  have other: "d \<noteq> c" if "(j, d, x) \<in> set (hs @ gs)" for j d x
  proof -
    have "c \<notin> (fst \<circ> snd) ` set (hs @ gs)" using ok by (auto simp: chans_ok_def)
    moreover have "d \<in> (fst \<circ> snd) ` set (hs @ gs)" using image_eqI [OF _ that, of d "fst \<circ> snd"] by simp
    ultimately show ?thesis by blast
  qed
  have "distinct (map fst (?W j))" for j using ok by (simp add: chans_ok_def distinct_map_filter)
  moreover have "d \<in> fst ` set (?W j) \<longleftrightarrow> (\<exists>x. (j, d, x) \<in> set (hs @ gs))" for j d
  proof -
    have in_W: "d \<in> fst ` set (W j) \<longleftrightarrow> (\<exists>x. (j, d, x) \<in> set (hs @ (k, c, seen) # gs))" using ok by (simp add: chans_ok_def)
    have "d \<in> fst ` set (?W j) \<longleftrightarrow> d \<in> fst ` set (W j) \<and> (j = k \<longrightarrow> d \<noteq> c)" by force
    moreover have "(\<exists>x. (j, d, x) \<in> set (hs @ (k, c, seen) # gs)) \<and> (j = k \<longrightarrow> d \<noteq> c) \<longleftrightarrow> (\<exists>x. (j, d, x) \<in> set (hs @ gs))"
      using other by (simp only: set_append list.set Un_iff insert_iff prod.inject) blast
    ultimately show ?thesis using in_W by blast
  qed
  moreover have "distinct (map (fst \<circ> snd) (hs @ gs))" "\<forall>h \<in> set (hs @ gs). fst (snd h) < n" using ok by (auto simp: chans_ok_def)
  ultimately show ?thesis unfolding chans_ok_def by blast
qed

lemma owedI:
  assumes "\<And>k ch seen i. (k, ch, seen) \<in> set (holds (y_tasks y)) \<Longrightarrow> i \<in> queue_ids (y_server y) k \<Longrightarrow>
    i \<in> set seen \<or> (ch, True) \<in> set (waiting (y_server y) k) \<or> k \<in> set (y_wakes y)"
  shows "owed y"
  using assms unfolding owed_def by blast

lemma owedD:
  "owed y \<Longrightarrow> (k, ch, seen) \<in> set (holds (y_tasks y)) \<Longrightarrow> i \<in> queue_ids (y_server y) k \<Longrightarrow>
   i \<in> set seen \<or> (ch, True) \<in> set (waiting (y_server y) k) \<or> k \<in> set (y_wakes y)"
  unfolding owed_def by blast

text \<open>A quiet step keeps the invariant, whatever it does to the polls that hold no channel.\<close>

lemma sys_inv_quiet:
  assumes inv: "sys_inv y" and q: "quiet (y_server y) s" and h: "holds ts = holds (y_tasks y)"
  shows "sys_inv (y\<lparr>y_server := s, y_tasks := ts\<rparr>)"
proof -
  have w: "waiting s = waiting (y_server y)" "sv_chans s = sv_chans (y_server y)" "sv_waiters s = sv_waiters (y_server y)"
    using q by (simp_all add: quiet_def)
  have "owed (y\<lparr>y_server := s, y_tasks := ts\<rparr>)"
  proof (rule owedI)
    fix k ch seen i
    assume "(k, ch, seen) \<in> set (holds (y_tasks (y\<lparr>y_server := s, y_tasks := ts\<rparr>)))" and "i \<in> queue_ids (y_server (y\<lparr>y_server := s, y_tasks := ts\<rparr>)) k"
    then have "(k, ch, seen) \<in> set (holds (y_tasks y))" "i \<in> queue_ids (y_server y) k" using q h by (auto simp: quiet_def)
    with inv owedD [of y k ch seen i] w
    show "i \<in> set seen \<or> (ch, True) \<in> set (waiting (y_server (y\<lparr>y_server := s, y_tasks := ts\<rparr>)) k) \<or> k \<in> set (y_wakes (y\<lparr>y_server := s, y_tasks := ts\<rparr>))"
      by (simp add: sys_inv_def)
  qed
  with inv w h show ?thesis by (simp add: sys_inv_def)
qed

lemma sys_inv_put:
  assumes inv: "sys_inv y" and run: "Server_put_store au e hr (y_server y) = (r, k, s)"
  shows "sys_inv (y\<lparr>y_server := s, y_wakes := (case k of None \<Rightarrow> y_wakes y | Some k \<Rightarrow> k # y_wakes y)\<rparr>)"
    (is "sys_inv ?y")
proof -
  note eff = put_store_effect [OF run]
  have "owed ?y"
  proof (rule owedI)
    fix j ch seen i
    assume h: "(j, ch, seen) \<in> set (holds (y_tasks ?y))" and i: "i \<in> queue_ids (y_server ?y) j"
    show "i \<in> set seen \<or> (ch, True) \<in> set (waiting (y_server ?y) j) \<or> j \<in> set (y_wakes ?y)"
    proof (cases "k = Some j")
      case False
      with eff i have "i \<in> queue_ids (y_server y) j" by auto
      then have "i \<in> set seen \<or> (ch, True) \<in> set (waiting (y_server y) j) \<or> j \<in> set (y_wakes y)"
        using owedD [of y j ch seen i] inv h by (simp add: sys_inv_def)
      with eff show ?thesis by (auto split: option.splits)
    qed simp
  qed
  with inv eff show ?thesis by (simp add: sys_inv_def)
qed

lemma sys_inv_wake:
  assumes inv: "sys_inv y"
  shows "sys_inv (y\<lparr>y_server := wake k (y_server y), y_wakes := remove1 k (y_wakes y)\<rparr>)" (is "sys_inv ?y")
proof -
  have "owed ?y"
  proof (rule owedI)
    fix j ch seen i
    assume h: "(j, ch, seen) \<in> set (holds (y_tasks ?y))" and i: "i \<in> queue_ids (y_server ?y) j"
    show "i \<in> set seen \<or> (ch, True) \<in> set (waiting (y_server ?y) j) \<or> j \<in> set (y_wakes ?y)"
    proof (cases "j = k")
      case True
      have "ch \<in> fst ` set (waiting (y_server y) k)" using inv h True by (auto simp: sys_inv_def chans_ok_def)
      then have "(ch, True) \<in> set (waiting (wake k (y_server y)) k)" by (force simp: lookup_wake)
      with True show ?thesis by simp
    next
      case False
      have "i \<in> set seen \<or> (ch, True) \<in> set (waiting (y_server y) j) \<or> j \<in> set (y_wakes y)"
        using owedD [of y j ch seen i] inv h i by (simp add: sys_inv_def)
      with False show ?thesis by (simp add: lookup_wake)
    qed
  qed
  with inv show ?thesis by (simp add: sys_inv_def wf_table_ops chans_ok_wake)
qed

lemma sys_inv_register:
  assumes inv: "sys_inv y" and ts: "y_tasks y = ts @ Collected c # us" and b: "hold_begin (route_key (c_req c)) (y_server y) = (ch, s)"
  shows "sys_inv (y\<lparr>y_server := s, y_tasks := ts @ Holding c ch (map m_ID (queue (sv_store s) (route_key (c_req c)))) # us\<rparr>)"
    (is "sys_inv ?y")
proof -
  let ?k = "route_key (c_req c)"
  have s: "s = snd (hold_begin ?k (y_server y))" "ch = sv_chans (y_server y)" using b hold_begin_sel(4) [of ?k "y_server y"] by simp_all
  have c: "sv_chans s = Suc ch" by (simp add: s hold_begin_def Let_def)
  have w: "waiting s = (waiting (y_server y))(?k := waiting (y_server y) ?k @ [(ch, False)])"
    unfolding s by (rule ext) (simp add: lookup_hold_begin)
  have "chans_ok ch (waiting (y_server y)) (holds ts @ holds us)" using inv by (simp add: sys_inv_def ts s(2))
  from chans_ok_register [OF this, of ?k "map m_ID (queue (sv_store s) ?k)"]
  have "chans_ok (sv_chans s) (waiting s) (holds (y_tasks ?y))" unfolding c w by (simp add: fun_upd_def)
  moreover have "owed ?y"
  proof (rule owedI)
    fix j d seen i
    assume h: "(j, d, seen) \<in> set (holds (y_tasks ?y))" and i: "i \<in> queue_ids (y_server ?y) j"
    have st: "sv_store s = sv_store (y_server y)" using s by simp
    consider "(j, d, seen) = (?k, ch, map m_ID (queue (sv_store s) ?k))" | "(j, d, seen) \<in> set (holds (y_tasks y))"
      using h by (auto simp: ts)
    then show "i \<in> set seen \<or> (d, True) \<in> set (waiting (y_server ?y) j) \<or> j \<in> set (y_wakes ?y)"
    proof cases
      case 2
      then have "i \<in> set seen \<or> (d, True) \<in> set (waiting (y_server y) j) \<or> j \<in> set (y_wakes y)"
        using owedD [of y j d seen i] inv i st by (simp add: sys_inv_def)
      then show ?thesis using w by auto
    qed (use i in auto)
  qed
  ultimately show ?thesis using inv s by (simp add: sys_inv_def wf_table_ops)
qed

lemma sys_inv_select:
  assumes inv: "sys_inv y" and ts: "y_tasks y = ts @ Holding c ch seen # us"
  shows "sys_inv (y\<lparr>y_server := hold_end (route_key (c_req c)) ch (y_server y), y_tasks := ts @ Returned c h # us\<rparr>)" (is "sys_inv ?y")
proof -
  let ?k = "route_key (c_req c)"
  have ok: "chans_ok (sv_chans (y_server y)) (waiting (y_server y)) (holds ts @ (?k, ch, seen) # holds us)"
    using inv by (simp add: sys_inv_def ts)
  then have d: "distinct (map fst (waiting (y_server y) ?k))" by (simp add: chans_ok_def)
  have w: "waiting (hold_end ?k ch (y_server y)) =
      (waiting (y_server y))(?k := filter (\<lambda>x. fst x \<noteq> ch) (waiting (y_server y) ?k))"
    by (rule ext) (simp add: lookup_hold_end [OF d])
  have "owed ?y"
  proof (rule owedI)
    fix j d sn i
    assume h: "(j, d, sn) \<in> set (holds (y_tasks ?y))" and i: "i \<in> queue_ids (y_server ?y) j"
    have "d \<in> (fst \<circ> snd) ` set (holds ts @ holds us)" using h image_eqI [of d "fst \<circ> snd" "(j, d, sn)"] by simp
    then have "d \<noteq> ch" using ok by (auto simp: chans_ok_def)
    moreover have "i \<in> set sn \<or> (d, True) \<in> set (waiting (y_server y) j) \<or> j \<in> set (y_wakes y)"
      using owedD [of y j d sn i] inv h i by (simp add: sys_inv_def ts)
    ultimately show "i \<in> set sn \<or> (d, True) \<in> set (waiting (y_server ?y) j) \<or> j \<in> set (y_wakes ?y)"
      using w by auto
  qed
  moreover have "chans_ok (sv_chans (y_server ?y)) (waiting (y_server ?y)) (holds (y_tasks ?y))"
    using chans_ok_release [OF ok] by (simp add: w [symmetric])
  ultimately show ?thesis using inv by (simp add: sys_inv_def wf_table_ops)
qed

lemma sys_inv_step: "sys_step au y y' \<Longrightarrow> sys_inv y \<Longrightarrow> sys_inv y'"
proof (induction rule: sys_step.induct)
  case (get e hr y r s)
  then show ?case using sys_inv_quiet [of y s "y_tasks y"] quiet_get_start [of "y_server y" au e hr] by simp
next
  case (park e hr y c s)
  then show ?case using sys_inv_quiet [of y s "Collected c # y_tasks y"] quiet_get_start [of "y_server y" au e hr] by simp
next
  case (resume y ts c h us e r s)
  then show ?case using sys_inv_quiet [of y s "ts @ us"] quiet_get_resume [of "y_server y" au e c h] by simp
next
  case (ack e hr y r s)
  then show ?case using sys_inv_quiet [of y s "y_tasks y"] quiet_ack [of "y_server y" au e hr] by simp
next
  case (sweep w clk y n s)
  then show ?case using sys_inv_quiet [of y s "y_tasks y"] quiet_Sweep [of "y_server y" w clk] by simp
next
  case (authority y a)
  then show ?case using sys_inv_quiet [of y "(y_server y)\<lparr>sv_auth := a\<rparr>" "y_tasks y"] by simp
qed (blast intro: sys_inv_put sys_inv_wake sys_inv_register sys_inv_select)+

lemma sys_inv_reachable: "reachable au s0 y \<Longrightarrow> sv_waiters s0 = [] \<Longrightarrow> sys_inv y"
proof (induction rule: rtranclp_induct)
  case base
  then show ?case by (simp add: sys_inv_def fresh_system_def wf_table_def chans_ok_def owed_def)
next
  case (step y z)
  then show ?case using sys_inv_step by blast
qed

lemma no_holds_no_waiters:
  assumes inv: "sys_inv y" and none: "holds (y_tasks y) = []"
  shows "sv_waiters (y_server y) = []"
proof (rule ccontr)
  assume "sv_waiters (y_server y) \<noteq> []"
  then obtain k w ws where ws: "sv_waiters (y_server y) = (k, w) # ws" by (metis list.exhaust surj_pair)
  then have "w \<noteq> []" using inv by (auto simp: sys_inv_def wf_table_def)
  then obtain x where "x \<in> set (waiting (y_server y) k)" by (cases w) (auto simp: ws lookup_or_def)
  then have "\<exists>seen. (k, fst x, seen) \<in> set (holds (y_tasks y))" using inv unfolding sys_inv_def chans_ok_def by blast
  with none show False by simp
qed

section \<open>Properties\<close>

text \<open>
  Property C10. The table of waiters is exactly the polls that are held. However requests interleave,
  the channels filed under a key are those of the polls held on that key, each once, and when no poll is held the table is
  empty: nothing a client does leaves an entry behind.
\<close>

theorem waiters_exact:
  assumes "reachable au s0 y" "sv_waiters s0 = []"
  shows "(\<forall>k ch. ch \<in> fst ` set (waiting (y_server y) k) \<longleftrightarrow>
      (\<exists>c seen. Holding c ch seen \<in> set (y_tasks y) \<and> route_key (c_req c) = k)) \<and>
    (\<forall>k. distinct (map fst (waiting (y_server y) k))) \<and>
    (holds (y_tasks y) = [] \<longrightarrow> sv_waiters (y_server y) = [])"
proof -
  have inv: "sys_inv y" using sys_inv_reachable [OF assms] .
  have mem: "(\<exists>seen. (k, ch, seen) \<in> set (holds ts)) \<longleftrightarrow> (\<exists>c seen. Holding c ch seen \<in> set ts \<and> route_key (c_req c) = k)"
    for k ch and ts :: "'b task list"
  proof (induction ts)
    case (Cons t ts)
    then show ?case by (cases t) auto
  qed simp
  have "sv_waiters (y_server y) = []" if "holds (y_tasks y) = []" using no_holds_no_waiters [OF inv that] .
  with inv mem show ?thesis by (simp add: sys_inv_def chans_ok_def)
qed

text \<open>
  Property C9. Once registered, a poll misses no message. In every reachable state, a message in the queue of a
  held poll was already there when the poll was registered, or the poll's channel holds a signal, or the write that
  brought the message has not yet done its wake-up; and that wake-up, when it runs, puts the signal into the channel.
\<close>

theorem registered_poll_is_woken:
  assumes "reachable au s0 y" "sv_waiters s0 = []" and poll: "Holding c ch seen \<in> set (y_tasks y)"
    and m: "m \<in> set (queue (sv_store (y_server y)) (route_key (c_req c)))"
  shows "(m_ID m \<in> set seen \<or> (ch, True) \<in> set (waiting (y_server y) (route_key (c_req c))) \<or>
      route_key (c_req c) \<in> set (y_wakes y)) \<and>
    (ch, True) \<in> set (waiting (wake (route_key (c_req c)) (y_server y)) (route_key (c_req c)))"
proof -
  let ?k = "route_key (c_req c)"
  have inv: "sys_inv y" using sys_inv_reachable [OF assms(1,2)] .
  have h: "(?k, ch, seen) \<in> set (holds (y_tasks y))" using poll by (force simp: holds_def)
  then have "ch \<in> fst ` set (waiting (y_server y) ?k)" using inv unfolding sys_inv_def chans_ok_def by blast
  then have "(ch, True) \<in> set (waiting (wake ?k (y_server y)) ?k)" by (force simp: lookup_wake)
  moreover have "m_ID m \<in> set seen \<or> (ch, True) \<in> set (waiting (y_server y) ?k) \<or> ?k \<in> set (y_wakes y)"
    using owedD [OF _ h, of "m_ID m"] inv m by (simp add: sys_inv_def)
  ultimately show ?thesis by blast
qed

text \<open>The run behind the next property and the witnesses.\<close>

definition sample_collection :: "unit collection" where
  "sample_collection = \<lparr>c_req = request_of sample_http OpRead 0 (sample_clock 0),
     c_grant = allowing (wide_scope (request_of sample_http OpRead 0 (sample_clock 0))), c_limit = 0, c_held = 0, c_watch = ()\<rparr>"

lemma sample_get_start: "Server_get_start recording sample_env sample_http sample_server = (Inr sample_collection, sample_server)"
proof -
  have q: "query_get sample_http k = ''''" for k by (simp add: query_get_def sample_http_def)
  have "ParseLease (e_oor sample_env) '''' = Inr 0" by (simp add: ParseLease_def TrimSpace_def trim_left_def trim_right_def)
  moreover have "sv_Take sample_env (request_of sample_http OpRead 0 t) 0 sample_server = (Inr [], sample_server)" for t
  proof -
    have "Take io_fine sample_clock ''e1'' ''st'' c2s 0 (NewStore 0) empty_disk = (Inr [], NewStore 0, empty_disk)"
      by (simp add: Take_def route_simps validDir_def Let_def expireLocked_def expireLeasesLocked_def queue_def NewStore_def)
    then show ?thesis
      by (simp add: sv_Take_def on_store_eq request_of_def sample_http_def sample_env_def sample_server_def NewAuthorisingServer_def)
  qed
  moreover have "e_started sample_env = sample_clock 0" by (simp add: sample_env_def)
  moreover have "au_Watch recording st r f = ((), st)" for st r f by (simp add: recording_def)
  ultimately show ?thesis
    using sample_dir
    by (simp add: Server_get_start_def Let_def q admit_eq sample_admit park_eq sample_collection_def)
qed

lemma sample_route_key: "route_key (c_req sample_collection) = key ''e1'' ''st'' c2s"
  by (simp add: sample_collection_def route_key_def request_of_def sample_http_def)

lemma lost_wakeup_run:
  "\<exists>y seen m. reachable recording sample_server y \<and> y_tasks y = [Holding sample_collection 0 seen] \<and> y_wakes y = [] \<and>
     queue (sv_store (y_server y)) (key ''e1'' ''st'' c2s) = [m] \<and> free m \<and>
     waiting (y_server y) (key ''e1'' ''st'' c2s) = [(0, False)]"
proof -
  let ?k = "key ''e1'' ''st'' c2s"
  obtain m s2 where s2: "Server_put_store recording sample_env sample_http sample_server =
      (\<lparr>rs_status = 202, rs_payload = NoPayload\<rparr>, Some ?k, s2)"
    and st: "sv_store s2 = set_queue ?k [m] (NewStore 0\<lparr>s_ids := 1\<rparr>)" "free m" "sv_waiters s2 = []"
    using sample_put_run by blast
  have ch: "sv_chans s2 = 0" using put_store_effect [OF s2] by (simp add: sample_server_def NewAuthorisingServer_def)
  let ?y0 = "fresh_system sample_server :: (settlement list, unit) system"
  let ?y1 = "?y0\<lparr>y_server := sample_server, y_tasks := [Collected sample_collection]\<rparr>"
  let ?y2 = "?y1\<lparr>y_server := s2, y_wakes := [?k]\<rparr>"
  let ?y3 = "?y2\<lparr>y_server := wake ?k s2, y_wakes := []\<rparr>"
  let ?s4 = "snd (hold_begin ?k (wake ?k s2))"
  let ?y4 = "?y3\<lparr>y_server := ?s4, y_tasks := [Holding sample_collection 0 (map m_ID (queue (sv_store ?s4) ?k))]\<rparr>"
  have "sys_step recording ?y0 ?y1"
    using sys_step.park [of recording sample_env sample_http ?y0 sample_collection sample_server] sample_get_start
    by (simp add: fresh_system_def)
  moreover have "sys_step recording ?y1 ?y2"
    using sys_step.put [of recording sample_env sample_http ?y1 _ "Some ?k" s2] s2 by (simp add: fresh_system_def)
  moreover have "sys_step recording ?y2 ?y3" using sys_step.wake [of ?k ?y2 recording] by simp
  moreover have "sys_step recording ?y3 ?y4"
  proof -
    have b: "hold_begin ?k (wake ?k s2) = (0, ?s4)" using hold_begin_sel(4) [of ?k "wake ?k s2"] ch by (simp add: prod_eq_iff)
    show ?thesis
      using sys_step.register [of ?y3 "[]" sample_collection "[]" 0 ?s4 recording] b by (simp add: sample_route_key)
  qed
  ultimately have "reachable recording sample_server ?y4" by (meson converse_rtranclp_into_rtranclp rtranclp.rtrancl_refl)
  moreover have "waiting ?s4 ?k = [(0, False)]" unfolding lookup_hold_begin lookup_wake using st ch by simp
  ultimately show ?thesis using st by (intro exI [of _ ?y4]) simp
qed

text \<open>
  Property C33. Before it is registered, a poll can miss one. A collection looks at its queue and puts its channel in the table
  in two critical sections; when a write and its wake-up fall between them, the poll is held with an
  empty channel and no wake-up to come while a free message lies in its queue, and when its time is up
  it answers that there is nothing.
\<close>

theorem lost_wakeup:
  "\<exists>y c ch seen m r s'. reachable recording sample_server y \<and> y_tasks y = [Holding c ch seen] \<and> y_wakes y = [] \<and>
     m \<in> set (queue (sv_store (y_server y)) (route_key (c_req c))) \<and> free m \<and>
     waiting (y_server y) (route_key (c_req c)) = [(ch, False)] \<and>
     Server_get_resume recording sample_env c (hold_result TimedOut) (hold_end (route_key (c_req c)) ch (y_server y)) = (r, s') \<and>
     rs_payload r = Messages [] \<and> m \<in> set (queue (sv_store s') (route_key (c_req c)))"
proof -
  obtain y seen m where y: "reachable recording sample_server y" "y_tasks y = [Holding sample_collection 0 seen]" "y_wakes y = []"
    "queue (sv_store (y_server y)) (key ''e1'' ''st'' c2s) = [m]" "free m"
    "waiting (y_server y) (key ''e1'' ''st'' c2s) = [(0, False)]"
    using lost_wakeup_run by blast
  let ?t = "hold_end (key ''e1'' ''st'' c2s) 0 (y_server y)"
  have "Server_get_resume recording sample_env sample_collection (hold_result TimedOut) ?t =
      answer recording sample_env (c_req sample_collection) (c_grant sample_collection) [] ?t"
    by (simp add: Server_get_resume_def) (simp add: sample_collection_def)
  with y show ?thesis
    by (intro exI [of _ y] exI [of _ sample_collection] exI [of _ "0 :: nat"] exI [of _ seen] exI [of _ m])
      (simp add: sample_route_key answer_def settle_delivery_def)
qed

theorem waiters_exact_witness:
  "\<exists>y :: (settlement list, unit) system. reachable recording sample_server y \<and>
     0 \<in> fst ` set (waiting (y_server y) (key ''e1'' ''st'' c2s))"
proof -
  have w: "sv_waiters sample_server = []" by (simp add: sample_server_def NewAuthorisingServer_def)
  obtain y seen where y: "reachable recording sample_server y" "y_tasks y = [Holding sample_collection 0 seen]"
    using lost_wakeup_run by blast
  from waiters_exact [OF y(1) w] y show ?thesis by (metis list.set_intros(1) sample_route_key)
qed

theorem registered_poll_is_woken_witness:
  "\<exists>y :: (settlement list, unit) system. reachable recording sample_server y \<and>
     (0, True) \<in> set (waiting (wake (key ''e1'' ''st'' c2s) (y_server y)) (key ''e1'' ''st'' c2s))"
proof -
  have w: "sv_waiters sample_server = []" by (simp add: sample_server_def NewAuthorisingServer_def)
  obtain y seen m where y: "reachable recording sample_server y" "y_tasks y = [Holding sample_collection 0 seen]"
    "queue (sv_store (y_server y)) (key ''e1'' ''st'' c2s) = [m]"
    using lost_wakeup_run by blast
  then have "Holding sample_collection 0 seen \<in> set (y_tasks y)"
    "m \<in> set (queue (sv_store (y_server y)) (route_key (c_req sample_collection)))" by (simp_all add: sample_route_key)
  from registered_poll_is_woken [OF y(1) w this] y(1) show ?thesis by (auto simp: sample_route_key)
qed

end
