(* ===== verification/Relay_Polls.thy ===== *)
theory Relay_Polls
  imports Relay_Conformance Relay_System
begin

text \<open>
  The rest of the contract's laws on the bench: collections under a lease, the relay's own pages, and polls that are held until a message
  arrives.
\<close>

section \<open>Collections under a lease\<close>

lemma lease_texts:
  "ParseLease oor ''30s'' = Inr (30 * Second)" "ParseLease oor ''1s'' = Inr Second" "ParseLease oor ''30'' = Inr (30 * Second)"
  "ParseLease oor ''500ms'' = Inr (500 * Millisecond)" "ParseLease oor ''2m'' = Inr (2 * Minute)"
proof -
  have d: "show_nat 30 = ''30''" "show_nat (Suc 0) = ''1''" "show_nat 500 = ''500''" "show_nat 2 = ''2''" by code_simp+
  show "ParseLease oor ''30s'' = Inr (30 * Second)" "ParseLease oor ''1s'' = Inr Second" "ParseLease oor ''30'' = Inr (30 * Second)"
    "ParseLease oor ''500ms'' = Inr (500 * Millisecond)" "ParseLease oor ''2m'' = Inr (2 * Minute)"
    using ParseLease_whole [of "''s''" Second 30 oor] ParseLease_whole [of "''s''" Second 1 oor] ParseLease_whole [of "''''" Second 30 oor]
      ParseLease_whole [of "''ms''" Millisecond 500 oor] ParseLease_whole [of "''m''" Minute 2 oor]
    by (simp_all add: d lease_units_def duration_defs MaxLease_def)
qed

lemma lease_texts_refused:
  "isl (ParseLease oor ''nonsense'')" "isl (ParseLease oor ''1h'')" "isl (ParseLease oor ''600'')" "isl (ParseLease oor ''1m30s'')" "isl (ParseLease oor ''-5s'')"
proof -
  have d: "show_nat (Suc 0) = ''1''" "show_nat 600 = ''600''" by code_simp+
  show "isl (ParseLease oor ''1h'')" "isl (ParseLease oor ''600'')"
    using ParseLease_whole [of "''h''" Hour 1 oor] ParseLease_whole [of "''''" Second 600 oor]
    by (simp_all add: d lease_units_def duration_defs MaxLease_def)
  have "TrimSpace ''nonsense'' = ''nonsense''" "TrimSpace ''1m30s'' = ''1m30s''" "TrimSpace ''-5s'' = ''-5s''" "ParseFloat ''1m30'' = None" by code_simp+
  then show "isl (ParseLease oor ''nonsense'')" "isl (ParseLease oor ''1m30s'')" "isl (ParseLease oor ''-5s'')"
    by (simp_all add: ParseLease_def has_suffix_def has_prefix_def trim_suffix_def contains_any_def)
qed

lemma lease_form_cases:
  assumes "(v, d) \<in> set lease_forms"
  shows "case d of None \<Rightarrow> \<exists>err. ParseLease oor v = Inl err | Some dt \<Rightarrow> ParseLease oor v = Inr dt \<and> 0 < dt \<and> dt \<le> MaxLease \<and> dt \<le> 2 * Minute"
  using assms lease_texts [of oor] lease_texts_refused [of oor]
  by (auto simp: lease_forms_def isl_def duration_defs MaxLease_def)

lemma lease_query:
  assumes "(v, d) \<in> set lease_forms"
  shows "lookup_or '''' (query_pairs (''wait=0&lease='' @ v)) ''lease'' = v" "lookup_or '''' (query_pairs (''wait=0&lease='' @ v)) ''wait'' = ''0''"
    "lookup_or '''' (query_pairs (''wait=0&lease='' @ v)) ''limit'' = ''''"
proof -
  have "list_all (\<lambda>(v, d). let q = query_pairs (''wait=0&lease='' @ v)
    in lookup_or '''' q ''lease'' = v \<and> lookup_or '''' q ''wait'' = ''0'' \<and> lookup_or '''' q ''limit'' = '''') lease_forms" by code_simp
  then show "lookup_or '''' (query_pairs (''wait=0&lease='' @ v)) ''lease'' = v" "lookup_or '''' (query_pairs (''wait=0&lease='' @ v)) ''wait'' = ''0''"
    "lookup_or '''' (query_pairs (''wait=0&lease='' @ v)) ''limit'' = ''''"
    using assms by (auto simp: list_all_iff Let_def)
qed

lemma until_text: "RFC3339Nano off t \<noteq> ''''"
  by (simp add: RFC3339Nano_def Let_def split: prod.splits)

section \<open>Polls\<close>

text \<open>A poll of a plain token, parked.\<close>

lemma park_plain:
  assumes "plain_token tok"
  shows "\<exists>wt. park (auth_at b T) (asked tok e st d op n T) g lim held s =
    (Inr \<lparr>c_req = asked tok e st d op n T, c_grant = g, c_limit = lim, c_held = held, c_watch = wt\<rparr>, s)"
  using assms by (auto simp: park_def auth_at_def wired_authoriser_def AuthorityAuth_Watch_def AuthorityAuth_Watch_check_def plain_token_def split: sum.splits)

text \<open>While the poll is parked another request stores a message and wakes it.\<close>

lemma beside_woken:
  assumes "path_name e" "path_name st" "path_name d" "wo_now w = T"
    and "Server_get_start (auth_at b T) (env_at b T) (handed e st d tok q None) (wo_server w) = (Inr c, s1)" "route_key (c_req c) = k"
    and put: "bench_Do b (base_url t) p \<lparr>wo_server = snd (hold_begin k s1), wo_now = T + dt\<rparr> =
      (y, \<lparr>wo_server = wake k (snd (hold_begin k s1)\<lparr>sv_store := st', sv_disk := d'\<rparr>), wo_now = T2\<rparr>)"
    and "Server_get_resume (auth_at b T2) (env_at b T2) c (True, ReasonAllowed)
      (hold_end k (sv_chans s1) (wake k (snd (hold_begin k s1)\<lparr>sv_store := st', sv_disk := d'\<rparr>))) = (r, s4)"
  shows "\<exists>q'. bench_Beside b (base_url t) (client_request ''GET'' (target_url t e st d q) tok None) dt p w =
    ((Some (Some (answer_of b r)), y), \<lparr>wo_server = s4, wo_now = T2 + be_lag b q' T2\<rparr>)"
proof -
  have route: "route ''GET'' [''v1'', e, st, d] = Some (EGet e st d)" using assms(1-3) by (simp add: route_def path_name_def)
  have h: "hold_begin k s1 = (sv_chans s1, snd (hold_begin k s1))" by (rule prod_eqI) simp_all
  have "lookup_or [] (sv_waiters (snd (hold_begin k s1)\<lparr>sv_store := st', sv_disk := d'\<rparr>)) k = lookup_or [] (sv_waiters s1) k @ [(sv_chans s1, False)]"
    by (simp add: hold_begin_def Let_def)
  then have woken: "(sv_chans s1, True) \<in> set (lookup_or [] (sv_waiters (wake k (snd (hold_begin k s1)\<lparr>sv_store := st', sv_disk := d'\<rparr>))) k)"
    unfolding lookup_wake by simp
  show ?thesis
    unfolding bench_Beside_def arrives_queue [OF assms(1-3)]
    using assms(4,5,6,8) route h put woken by (auto simp: Let_def client_request_def answer_of_def split_beta)
qed

lemma after_hold:
  assumes "s = hold_end k ch (wake k (snd (hold_begin k s1)\<lparr>sv_store := st', sv_disk := d'\<rparr>))"
  shows "sv_store s = st'" "sv_disk s = d'" "sv_auth s = sv_auth s1" "sv_Version s = sv_Version s1" "sv_Hash s = sv_Hash s1"
  unfolding assms by (simp_all add: hold_end_def wake_def hold_begin_def Let_def)

lemma take_resume:
  assumes "Take (be_io b) (\<lambda>_. T) e st d 0 (sv_store s) (sv_disk s) = (Inr ms, st', d')"
  shows "Server_get_resume (auth_at b T) (env_at b T) \<lparr>c_req = asked tok e st d op n T0, c_grant = g, c_limit = 0, c_held = 0, c_watch = wt\<rparr>
    (True, ReasonAllowed) s = (\<lparr>rs_status = 200, rs_payload = Messages ms\<rparr>, s\<lparr>sv_store := st', sv_disk := d'\<rparr>)"
  using assms by (simp add: Server_get_resume_def sv_Take_def on_store_def answer_def)

lemma lease_resume:
  assumes "TakeLeased (be_io b) (\<lambda>_. T) e st d 0 dt (sv_store s) (sv_disk s) = (Inr l, st', d')" "0 < dt"
  shows "Server_get_resume (auth_at b T) (env_at b T) \<lparr>c_req = asked tok e st d op n T0, c_grant = g, c_limit = 0, c_held = dt, c_watch = wt\<rparr>
    (True, ReasonAllowed) s = (\<lparr>rs_status = 200, rs_payload = LeaseObject l\<rparr>, s\<lparr>sv_store := st', sv_disk := d'\<rparr>)"
  using assms by (simp add: Server_get_resume_def getLeased_resume_def sv_TakeLeased_def on_store_def answer_lease_def)

context relay_bench
begin

lemma lease_client:
  assumes "\<forall>m \<in> set (l_Messages l). mine E st dr T m" "path_name st" "a_dir dr" "T \<le> horizon" "l = empty_lease \<or> path_name (l_ID l) \<and> 0 \<le> l_Until l"
  obtains u where "Unmarshal lease_lax (response_body (be_wire b) \<lparr>rs_status = 200, rs_payload = LeaseObject l\<rparr>) no_lease =
      (\<lparr>lr_Lease = l_ID l, lr_Until = u, lr_Messages = map (\<lambda>m. sent (view m)) (l_Messages l)\<rparr>, True)"
    "u = '''' \<longleftrightarrow> l = empty_lease"
proof -
  have e: "valid_utf8 ''''" by code_simp
  have v: "valid_utf8 (l_ID l)" using assms(5) path_valid e by (auto simp: empty_lease_def)
  have z: "IsZero (l_Until l) \<longleftrightarrow> l = empty_lease" using assms(5) by (auto simp: empty_lease_def IsZero_def zero_time_def)
  show thesis
    by (rule that [OF lease_answer_read [OF texts [OF assms(1-4)] _ v, of "\<lparr>rs_status = 200, rs_payload = LeaseObject l\<rparr>", unfolded received_sent]])
      (simp_all add: z until_text)
qed

lemma law_lease_taken:
  assumes "state (Suc n) w T nm H" "path_name st" "(v, Some dt) \<in> set lease_forms" "q = map (lapse T) (H (st, c2s))" "young T q"
  shows "\<exists>w' T' r. does (takeLeased the_lab t E st c2s (tg_StationTok t) v) w (200, r) w' \<and> later T T' \<and>
    (if filter unheld q = [] then r = no_lease \<and> state n w' T' (\<lambda>i. nm (Suc i)) (H((st, c2s) := q))
     else lr_Lease r = nm 0 \<and> lr_Until r \<noteq> '''' \<and> lr_Messages r = map sent (filter unheld q) \<and>
       state n w' T' (\<lambda>i. nm (Suc i)) (H((st, c2s) := map (grant_lease (nm 0) (T + dt)) q)))"
proof -
  let ?g = "the_grant T (tg_StationTok t) E st c2s OpRead" and ?s = "wo_server w"
  note f = state_facts [OF assms(1)]
  have d: "a_dir c2s" and y: "young T (H (st, c2s))" using assms(4,5) by (simp_all add: a_dir_def)
  have p: "ParseLease (be_oor b) (lookup_or '''' (query_pairs (''wait=0&lease='' @ v)) ''lease'') = Inr dt" and dt: "0 < dt" "dt \<le> MaxLease"
    using lease_form_cases [OF assms(3), of "be_oor b"] lease_query(1) [OF assms(3)] by simp_all
  obtain l st' d' where P: "TakeLeased (be_io b) (\<lambda>_. T) E st c2s 0 dt (sv_store ?s) (sv_disk ?s) = (Inr l, st', d')" "\<forall>m \<in> set (l_Messages l). mine E st c2s T m"
    "map (\<lambda>m. sent (view m)) (l_Messages l) = map sent (filter unheld q)" "if filter unheld q = [] then l = empty_lease else l_ID l = nm 0 \<and> l_Until l = T + dt"
    "portrays E T st' (\<lambda>i. nm (Suc i)) (H((st, c2s) := map (grant_lease (nm 0) (T + dt)) q))"
    unfolding assms(4) by (rule portrays_TakeLeased [OF f(5) estate assms(2) d y dt, of "be_io b" "sv_disk ?s"])
  let ?s' = "?s\<lparr>sv_store := st', sv_disk := d'\<rparr>" and ?r = "\<lparr>rs_status = 200, rs_payload = LeaseObject l\<rparr>"
  have g: "g_Allow ?g" using verdict_allow [OF token_verdicts(6) [OF assms(2) d]] by simp
  have "Server_get_start (auth_at b T) (env_at b T) (handed E st c2s (tg_StationTok t) (''wait=0&lease='' @ v) None) ?s = (Inl ?r, ?s')"
    using lease_run [OF _ _ g p dt(1) lease_query(3) [OF assms(3)] P(1)] lease_query(2) [OF assms(3)] d grant_decides f(2) by (simp add: a_dir_valid)
  note run = bench_get [OF estate assms(2) a_dir_path [OF d] f(1) this, of t]
  have k: "sv_auth ?s' = sv_auth ?s" "sv_Version ?s' = sv_Version ?s" "sv_Hash ?s' = sv_Hash ?s"
    "portrays E T (sv_store ?s') (\<lambda>i. nm (Suc i)) (H((st, c2s) := map (grant_lease (nm 0) (T + dt)) q))" using P(5) by simp_all
  obtain w' T' where 1: "bench_Do b (base_url t) (client_request ''GET'' (target_url t E st c2s (''wait=0&lease='' @ v)) (tg_StationTok t) None) w = (Some (answer_of b ?r), w')"
    "later T T'" "state n w' T' (\<lambda>i. nm (Suc i)) (H((st, c2s) := map (grant_lease (nm 0) (T + dt)) q))"
    by (rule moment_store [OF assms(1) run k])
  have l: "l = empty_lease \<or> path_name (l_ID l) \<and> 0 \<le> l_Until l"
    using P(4) portrays_names [OF f(5), of 0] f(3) dt(1) by (auto split: if_splits)
  obtain u where u: "Unmarshal lease_lax (response_body (be_wire b) ?r) no_lease =
      (\<lparr>lr_Lease = l_ID l, lr_Until = u, lr_Messages = map (\<lambda>m. sent (view m)) (l_Messages l)\<rparr>, True)" "u = '''' \<longleftrightarrow> l = empty_lease"
    by (rule lease_client [OF P(2) assms(2) d f(4) l])
  have D: "does (takeLeased the_lab t E st c2s (tg_StationTok t) v) w (200, \<lparr>lr_Lease = l_ID l, lr_Until = u, lr_Messages = map sent (filter unheld q)\<rparr>) w'"
    using does_lease [OF 1(1)] u(1) P(3) by simp
  show ?thesis
  proof (cases "filter unheld q = []")
    case True
    then have "map (grant_lease (nm 0) (T + dt)) q = q" by (auto simp: filter_empty_conv grant_lease_def intro!: map_idI)
    with True P(4) u(2) D 1(2,3) show ?thesis by (auto simp: empty_lease_def no_lease_def)
  next
    case False
    then have "l_ID l = nm 0" "u \<noteq> ''''" using P(4) u(2) portrays_names [OF f(5), of 0] by (auto simp: empty_lease_def path_name_def)
    with False D 1(2,3) show ?thesis
      by (intro exI [of _ w'] exI [of _ T'] exI [of _ "\<lparr>lr_Lease = l_ID l, lr_Until = u, lr_Messages = map sent (filter unheld q)\<rparr>"]) simp
  qed
qed

lemma law_lease_not_understood:
  assumes "state (Suc n) w T nm H" "path_name st" "(v, None) \<in> set lease_forms"
  shows "\<exists>w' T' r. does (takeLeased the_lab t E st c2s (tg_StationTok t) v) w (400, r) w' \<and> later T T' \<and> state n w' T' nm H"
proof -
  let ?g = "the_grant T (tg_StationTok t) E st c2s OpRead" and ?s = "wo_server w"
  note f = state_facts [OF assms(1)]
  have d: "a_dir c2s" by (simp add: a_dir_def)
  obtain err where p: "ParseLease (be_oor b) (lookup_or '''' (query_pairs (''wait=0&lease='' @ v)) ''lease'') = Inl err"
    using lease_form_cases [OF assms(3), of "be_oor b"] lease_query(1) [OF assms(3)] by auto
  let ?r = "refuse_with ReasonBadLease err"
  have g: "g_Allow ?g" using verdict_allow [OF token_verdicts(6) [OF assms(2) d]] by simp
  have "Server_get_start (auth_at b T) (env_at b T) (handed E st c2s (tg_StationTok t) (''wait=0&lease='' @ v) None) ?s = (Inl ?r, ?s)"
    by (rule bad_lease_run [OF _ _ g p]) (use d grant_decides f(2) in \<open>simp_all add: a_dir_valid\<close>)
  note run = bench_get [OF estate assms(2) a_dir_path [OF d] f(1) this, of t]
  obtain w' T' where 1: "bench_Do b (base_url t) (client_request ''GET'' (target_url t E st c2s (''wait=0&lease='' @ v)) (tg_StationTok t) None) w = (Some (answer_of b ?r), w')"
    "later T T'" "state n w' T' nm H" by (rule moment [OF assms(1) run])
  have "rs_status ?r = 400" by (simp add: refuse_with_def reason_status_def)
  with does_lease [OF 1(1)] 1(2,3) show ?thesis by (auto simp del: refuse_status)
qed

text \<open>The request that arrives while a poll is parked, on any server that keeps the state.\<close>

lemma put_meanwhile:
  assumes "portrays E T (sv_store s) nm H" "sv_auth s = a" "0 \<le> T" "path_name st" "H (st, c2s) = []" "length body \<le> 4096"
  obtains st' d' v q where
    "bench_Do b (base_url t) (client_request ''POST'' (target_url t E st c2s '''') (tg_Control t) (Some (put_text sq body))) \<lparr>wo_server = s, wo_now = T\<rparr> =
      (Some (answer_of b \<lparr>rs_status = 202, rs_payload = NoPayload\<rparr>), \<lparr>wo_server = wake (key E st c2s) (s\<lparr>sv_store := st', sv_disk := d'\<rparr>), wo_now = T + be_lag b q T\<rparr>)"
    "v_At v = T" "v_Lease v = ''''" "portrays E T st' nm (H((st, c2s) := [v]))"
proof -
  have d: "a_dir c2s" "young T (H (st, c2s))" using assms(5) by (simp_all add: a_dir_def young_def)
  show thesis
    by (rule put_step [OF assms(1,2) assms(3,4) d(1) token_verdicts(1) [OF assms(4)] assms(6) d(2), of sq])
      (rule that, assumption+, simp add: assms(5))
qed

lemma awake:
  assumes "state (Suc n) w T nm H" "0 \<le> lag1" "lag1 \<le> slack" "0 \<le> lag2" "lag2 \<le> slack" "portrays E T2 (sv_store s) nm' H'" "sv_auth s = a"
    "sv_Version s = sv_Version (wo_server w)" "sv_Hash s = sv_Hash (wo_server w)" "T2 = T + 400 * Millisecond + lag1"
  shows "state n \<lparr>wo_server = s, wo_now = T2 + lag2\<rparr> (T2 + lag2) nm' H'"
  using bench_next [OF assms(1) _ _ assms(7-9,6), of "400 * Millisecond + lag1 + lag2"] assms(2-5,10) by (simp add: slack_def duration_defs add.assoc)

text \<open>
  A poll that is parked over an empty queue: while it waits the control's message arrives, and what the resumed handler answers is the answer
  of the poll.
\<close>

lemma poll_meets:
  assumes "state (Suc n) w T nm H" "path_name st" "H (st, c2s) = []" "length body \<le> 4096"
    and start: "Server_get_start (auth_at b T) (env_at b T) (handed E st c2s (tg_StationTok t) q None) (wo_server w) =
      (Inr c, wo_server w\<lparr>sv_store := st0, sv_disk := d0\<rparr>)" "route_key (c_req c) = key E st c2s" "portrays E T st0 nm0 H"
  obtains T2 v s3 where "v_At v \<le> T2" "T2 \<le> v_At v + slack" "T \<le> T2" "T2 \<le> horizon" "v_Lease v = ''''" "portrays E T2 (sv_store s3) nm0 (H((st, c2s) := [v]))"
    "\<forall>r st2 d2 nm' H'. Server_get_resume (auth_at b T2) (env_at b T2) c (True, ReasonAllowed) s3 = (r, s3\<lparr>sv_store := st2, sv_disk := d2\<rparr>) \<and>
      portrays E T2 st2 nm' H' \<longrightarrow> (\<exists>x w' T'. lab_Beside the_lab (client_request ''GET'' (target_url t E st c2s q) (tg_StationTok t) None) (400 * Millisecond)
        (client_request ''POST'' (target_url t E st c2s '''') (tg_Control t) (Some (put_text sq body))) w = ((Some (Some (answer_of b r)), x), w') \<and>
        later T2 T' \<and> state n w' T' nm' H')"
proof -
  let ?s1 = "wo_server w\<lparr>sv_store := st0, sv_disk := d0\<rparr>" and ?k = "key E st c2s" and ?T1 = "T + 400 * Millisecond"
  note f = state_facts [OF assms(1)]
  let ?s2 = "snd (hold_begin ?k ?s1)"
  have s2: "portrays E ?T1 (sv_store ?s2) nm0 H" "sv_auth ?s2 = a" "0 \<le> ?T1"
    using portrays_later [OF start(3), of ?T1] f(2,3) by (simp_all add: duration_defs)
  obtain st1 d1 v qq where 1: "bench_Do b (base_url t) (client_request ''POST'' (target_url t E st c2s '''') (tg_Control t) (Some (put_text sq body)))
        \<lparr>wo_server = ?s2, wo_now = ?T1\<rparr> = (Some (answer_of b \<lparr>rs_status = 202, rs_payload = NoPayload\<rparr>),
        \<lparr>wo_server = wake ?k (?s2\<lparr>sv_store := st1, sv_disk := d1\<rparr>), wo_now = ?T1 + be_lag b qq ?T1\<rparr>)"
    "v_At v = ?T1" "v_Lease v = ''''" "portrays E ?T1 st1 nm0 (H((st, c2s) := [v]))"
    by (rule put_meanwhile [OF s2 assms(2-4), of sq])
  define T2 where "T2 = ?T1 + be_lag b qq ?T1"
  define s3 where "s3 = hold_end ?k (sv_chans ?s1) (wake ?k (?s2\<lparr>sv_store := st1, sv_disk := d1\<rparr>))"
  note a = after_hold [OF s3_def]
  have T2: "v_At v \<le> T2" "T2 \<le> v_At v + slack" "T \<le> T2" "T2 \<le> horizon"
    using 1(2) assms(1) lag(1,2) [of qq ?T1] by (simp_all add: T2_def slack_def duration_defs bench_state_def)
  have k1: "portrays E T2 (sv_store s3) nm0 (H((st, c2s) := [v]))" unfolding a by (rule portrays_later [OF 1(4)]) (simp add: T2_def lag)
  show thesis
  proof (rule that [OF T2 1(3) k1], intro allI impI, elim conjE)
    fix r st2 d2 nm' H'
    assume res: "Server_get_resume (auth_at b T2) (env_at b T2) c (True, ReasonAllowed) s3 = (r, s3\<lparr>sv_store := st2, sv_disk := d2\<rparr>)" and k2: "portrays E T2 st2 nm' H'"
    let ?s4 = "s3\<lparr>sv_store := st2, sv_disk := d2\<rparr>"
    obtain q' where B: "bench_Beside b (base_url t) (client_request ''GET'' (target_url t E st c2s q) (tg_StationTok t) None) (400 * Millisecond)
        (client_request ''POST'' (target_url t E st c2s '''') (tg_Control t) (Some (put_text sq body))) w =
        ((Some (Some (answer_of b r)), Some (answer_of b \<lparr>rs_status = 202, rs_payload = NoPayload\<rparr>)), \<lparr>wo_server = ?s4, wo_now = T2 + be_lag b q' T2\<rparr>)"
      using beside_woken [OF estate assms(2) _ f(1) start(1,2) 1(1) [folded T2_def] res [unfolded s3_def]] a_dir_path [of c2s] unfolding s3_def
      by (auto simp: a_dir_def)
    have S: "state n \<lparr>wo_server = ?s4, wo_now = T2 + be_lag b q' T2\<rparr> (T2 + be_lag b q' T2) nm' H'"
      by (rule awake [OF assms(1) lag(1,2) lag(1,2) _ _ _ _ T2_def]) (use k2 a f(2) in simp_all)
    show "\<exists>x w' T'. lab_Beside the_lab (client_request ''GET'' (target_url t E st c2s q) (tg_StationTok t) None) (400 * Millisecond)
        (client_request ''POST'' (target_url t E st c2s '''') (tg_Control t) (Some (put_text sq body))) w = ((Some (Some (answer_of b r)), x), w') \<and>
        later T2 T' \<and> state n w' T' nm' H'"
      using B S lag(4) [of T2 q'] by (intro exI [of _ "Some (answer_of b \<lparr>rs_status = 202, rs_payload = NoPayload\<rparr>)"]
        exI [of _ "\<lparr>wo_server = ?s4, wo_now = T2 + be_lag b q' T2\<rparr>"] exI [of _ "T2 + be_lag b q' T2"]) (simp add: bench_lab_def)
  qed
qed

lemma law_poll_woken:
  assumes "state (Suc n) w T nm H" "path_name st" "H (st, c2s) = []" "length body \<le> 4096"
  shows "\<exists>w' T' r x v. lab_Beside the_lab (client_request ''GET'' (target_url t E st c2s '''') (tg_StationTok t) None) (400 * Millisecond)
      (client_request ''POST'' (target_url t E st c2s '''') (tg_Control t) (Some (put_text sq body))) w = ((Some (Some r), x), w') \<and>
    cr_status r = 200 \<and> fst (Unmarshal msgs_lax (cr_body r) []) = [sent v] \<and> T \<le> T' \<and> state n w' T' nm H"
proof -
  let ?g = "the_grant T (tg_StationTok t) E st c2s OpRead" and ?s = "wo_server w"
  note f = state_facts [OF assms(1)]
  have d: "a_dir c2s" and y: "young T (H (st, c2s))" and H: "H((st, c2s) := []) = H" using assms(3) by (auto simp: a_dir_def young_def)
  have g: "g_Allow ?g" using verdict_allow [OF token_verdicts(6) [OF assms(2) d]] by simp
  obtain ms0 st0 d0 where 0: "Take (be_io b) (\<lambda>_. T) E st c2s 0 (sv_store ?s) (sv_disk ?s) = (Inr ms0, st0, d0)" "\<forall>m \<in> set ms0. mine E st c2s T m"
    "map view ms0 = filter unheld (map (lapse T) (H (st, c2s)))" "portrays E T st0 nm (H((st, c2s) := filter (\<lambda>v. \<not> unheld v) (map (lapse T) (H (st, c2s)))))"
    by (rule portrays_Take [OF f(5) estate assms(2) d y, of "be_io b" "sv_disk ?s"])
  let ?s1 = "?s\<lparr>sv_store := st0, sv_disk := d0\<rparr>"
  obtain wt where pk: "park (auth_at b T) (asked (tg_StationTok t) E st c2s OpRead 0 T) ?g 0 0 ?s1 =
      (Inr \<lparr>c_req = asked (tg_StationTok t) E st c2s OpRead 0 T, c_grant = ?g, c_limit = 0, c_held = 0, c_watch = wt\<rparr>, ?s1)"
    (is "_ = (Inr ?c, _)") using park_plain [OF tokens(2)] by blast
  have q0: "lookup_or '''' (query_pairs '''') x = ''''" for x by (simp add: query_wait)
  have start: "Server_get_start (auth_at b T) (env_at b T) (handed E st c2s (tg_StationTok t) '''' None) ?s = (Inr ?c, ?s1)"
    using take_run [of c2s b T ?s "tg_StationTok t" E st ?g "''''" ms0 st0 d0] d g grant_decides f(2) 0(1,3) assms(3) pk
    by (simp add: a_dir_valid q0 ParseLease_none)
  have k: "route_key (c_req ?c) = key E st c2s" "portrays E T st0 nm H" using 0(4) H assms(3) by (simp_all add: route_key_def)
  obtain T2 v s3 where 1: "v_At v \<le> T2" "T2 \<le> v_At v + slack" "T \<le> T2" "T2 \<le> horizon" "v_Lease v = ''''" "portrays E T2 (sv_store s3) nm (H((st, c2s) := [v]))"
    and go: "\<forall>r st2 d2 nm' H'. Server_get_resume (auth_at b T2) (env_at b T2) ?c (True, ReasonAllowed) s3 = (r, s3\<lparr>sv_store := st2, sv_disk := d2\<rparr>) \<and>
      portrays E T2 st2 nm' H' \<longrightarrow> (\<exists>x w' T'. lab_Beside the_lab (client_request ''GET'' (target_url t E st c2s '''') (tg_StationTok t) None) (400 * Millisecond)
        (client_request ''POST'' (target_url t E st c2s '''') (tg_Control t) (Some (put_text sq body))) w = ((Some (Some (answer_of b r)), x), w') \<and>
        later T2 T' \<and> state n w' T' nm' H')"
    by (rule poll_meets [OF assms start k, of sq])
  have y1: "young T2 ((H((st, c2s) := [v])) (st, c2s))" using 1(2) by (simp add: young_def slack_def duration_defs)
  obtain ms st2 d2 where 2: "Take (be_io b) (\<lambda>_. T2) E st c2s 0 (sv_store s3) (sv_disk s3) = (Inr ms, st2, d2)" "\<forall>m \<in> set ms. mine E st c2s T2 m"
    "map view ms = filter unheld (map (lapse T2) ((H((st, c2s) := [v])) (st, c2s)))"
    "portrays E T2 st2 nm ((H((st, c2s) := [v]))((st, c2s) := filter (\<lambda>v. \<not> unheld v) (map (lapse T2) ((H((st, c2s) := [v])) (st, c2s)))))"
    by (rule portrays_Take [OF 1(6) estate assms(2) d y1, of "be_io b" "sv_disk s3"])
  have "map view ms = [v]" and k2: "portrays E T2 st2 nm H" using 2(3,4) 1(5) H by (simp_all add: lapse_def unheld_def)
  then have ms: "map (\<lambda>m. sent (view m)) ms = [sent v]" by auto
  obtain x w' T' where B: "lab_Beside the_lab (client_request ''GET'' (target_url t E st c2s '''') (tg_StationTok t) None) (400 * Millisecond)
        (client_request ''POST'' (target_url t E st c2s '''') (tg_Control t) (Some (put_text sq body))) w =
        ((Some (Some (answer_of b \<lparr>rs_status = 200, rs_payload = Messages ms\<rparr>)), x), w')" "later T2 T'" "state n w' T' nm H"
    using go take_resume [OF 2(1)] k2 by blast
  have "T \<le> T'" "fst (Unmarshal msgs_lax (cr_body (answer_of b \<lparr>rs_status = 200, rs_payload = Messages ms\<rparr>)) []) = [sent v]"
    "cr_status (answer_of b \<lparr>rs_status = 200, rs_payload = Messages ms\<rparr>) = 200"
    using messages_client [OF 2(2) assms(2) d 1(4)] ms B(2) 1(3) by (simp_all add: later_def)
  then show ?thesis using B(1,3) by blast
qed

lemma law_leased_poll_woken:
  assumes "state (Suc n) w T nm H" "path_name st" "H (st, c2s) = []" "length body \<le> 4096"
  shows "\<exists>w' T' nm' r x v u. lab_Beside the_lab (client_request ''GET'' (target_url t E st c2s ''lease=30s'') (tg_StationTok t) None) (400 * Millisecond)
      (client_request ''POST'' (target_url t E st c2s '''') (tg_Control t) (Some (put_text sq body))) w = ((Some (Some r), x), w') \<and>
    cr_status r = 200 \<and> fst (Unmarshal lease_lax (cr_body r) no_lease) = \<lparr>lr_Lease = v_Lease v, lr_Until = u, lr_Messages = [sent v]\<rparr> \<and>
    T \<le> T' \<and> path_name (v_Lease v) \<and> length (v_Lease v) < 1000 \<and> T' + 20 * Second \<le> v_Until v \<and> T' - v_At v \<le> Minute \<and>
    state n w' T' nm' (H((st, c2s) := [v]))"
proof -
  let ?g = "the_grant T (tg_StationTok t) E st c2s OpRead" and ?s = "wo_server w" and ?dt = "30 * Second"
  note f = state_facts [OF assms(1)]
  have d: "a_dir c2s" and y: "young T (H (st, c2s))" and H: "H((st, c2s) := []) = H" and dt: "0 < ?dt" "?dt \<le> MaxLease"
    using assms(3) by (auto simp: a_dir_def young_def duration_defs MaxLease_def)
  have g: "g_Allow ?g" using verdict_allow [OF token_verdicts(6) [OF assms(2) d]] by simp
  have p: "ParseLease (be_oor b) (lookup_or '''' (query_pairs ''lease=30s'') ''lease'') = Inr ?dt" unfolding query_wait by (rule lease_texts)
  obtain l0 st0 d0 where 0: "TakeLeased (be_io b) (\<lambda>_. T) E st c2s 0 ?dt (sv_store ?s) (sv_disk ?s) = (Inr l0, st0, d0)" "\<forall>m \<in> set (l_Messages l0). mine E st c2s T m"
    "map (\<lambda>m. sent (view m)) (l_Messages l0) = map sent (filter unheld (map (lapse T) (H (st, c2s))))"
    "if filter unheld (map (lapse T) (H (st, c2s))) = [] then l0 = empty_lease else l_ID l0 = nm 0 \<and> l_Until l0 = T + ?dt"
    "portrays E T st0 (\<lambda>i. nm (Suc i)) (H((st, c2s) := map (grant_lease (nm 0) (T + ?dt)) (map (lapse T) (H (st, c2s)))))"
    by (rule portrays_TakeLeased [OF f(5) estate assms(2) d y dt, of "be_io b" "sv_disk ?s"])
  let ?s1 = "?s\<lparr>sv_store := st0, sv_disk := d0\<rparr>"
  obtain wt where pk: "park (auth_at b T) (asked (tg_StationTok t) E st c2s OpRead 0 T) ?g 0 ?dt ?s1 =
      (Inr \<lparr>c_req = asked (tg_StationTok t) E st c2s OpRead 0 T, c_grant = ?g, c_limit = 0, c_held = ?dt, c_watch = wt\<rparr>, ?s1)"
    (is "_ = (Inr ?c, _)") using park_plain [OF tokens(2)] by blast
  have start: "Server_get_start (auth_at b T) (env_at b T) (handed E st c2s (tg_StationTok t) ''lease=30s'' None) ?s = (Inr ?c, ?s1)"
    using lease_run [OF _ _ g p dt(1) query_wait(10) 0(1)] d grant_decides f(2) 0(4) assms(3) pk by (simp add: a_dir_valid query_wait empty_lease_def)
  have k: "route_key (c_req ?c) = key E st c2s" "portrays E T st0 (\<lambda>i. nm (Suc i)) H" using 0(5) H assms(3) by (simp_all add: route_key_def)
  obtain T2 v s3 where 1: "v_At v \<le> T2" "T2 \<le> v_At v + slack" "T \<le> T2" "T2 \<le> horizon" "v_Lease v = ''''" "portrays E T2 (sv_store s3) (\<lambda>i. nm (Suc i)) (H((st, c2s) := [v]))"
    and go: "\<forall>r st2 d2 nm' H'. Server_get_resume (auth_at b T2) (env_at b T2) ?c (True, ReasonAllowed) s3 = (r, s3\<lparr>sv_store := st2, sv_disk := d2\<rparr>) \<and>
      portrays E T2 st2 nm' H' \<longrightarrow> (\<exists>x w' T'. lab_Beside the_lab (client_request ''GET'' (target_url t E st c2s ''lease=30s'') (tg_StationTok t) None) (400 * Millisecond)
        (client_request ''POST'' (target_url t E st c2s '''') (tg_Control t) (Some (put_text sq body))) w = ((Some (Some (answer_of b r)), x), w') \<and>
        later T2 T' \<and> state n w' T' nm' H')"
    by (rule poll_meets [OF assms start k, of sq])
  let ?H1 = "H((st, c2s) := [v])" and ?i = "nm (Suc 0)"
  have y1: "young T2 (?H1 (st, c2s))" using 1(2) by (simp add: young_def slack_def duration_defs)
  obtain l st2 d2 where 2: "TakeLeased (be_io b) (\<lambda>_. T2) E st c2s 0 ?dt (sv_store s3) (sv_disk s3) = (Inr l, st2, d2)" "\<forall>m \<in> set (l_Messages l). mine E st c2s T2 m"
    "map (\<lambda>m. sent (view m)) (l_Messages l) = map sent (filter unheld (map (lapse T2) (?H1 (st, c2s))))"
    "if filter unheld (map (lapse T2) (?H1 (st, c2s))) = [] then l = empty_lease else l_ID l = ?i \<and> l_Until l = T2 + ?dt"
    "portrays E T2 st2 (\<lambda>i. nm (Suc (Suc i))) (?H1((st, c2s) := map (grant_lease ?i (T2 + ?dt)) (map (lapse T2) (?H1 (st, c2s)))))"
    by (rule portrays_TakeLeased [OF 1(6) estate assms(2) d y1 dt, of "be_io b" "sv_disk s3"])
  let ?v = "v\<lparr>v_Lease := ?i, v_Until := T2 + ?dt\<rparr>"
  have ms: "map (\<lambda>m. sent (view m)) (l_Messages l) = [sent ?v]" and l: "l_ID l = ?i" "l_Until l = T2 + ?dt"
    and k2: "portrays E T2 st2 (\<lambda>i. nm (Suc (Suc i))) (H((st, c2s) := [?v]))"
    using 2(3-5) 1(5) by (simp_all add: lapse_def unheld_def sent_def grant_lease_def)
  note i = portrays_names [OF f(5), of "Suc 0"]
  obtain u where u: "Unmarshal lease_lax (response_body (be_wire b) \<lparr>rs_status = 200, rs_payload = LeaseObject l\<rparr>) no_lease =
      (\<lparr>lr_Lease = l_ID l, lr_Until = u, lr_Messages = map (\<lambda>m. sent (view m)) (l_Messages l)\<rparr>, True)" "u = '''' \<longleftrightarrow> l = empty_lease"
    by (rule lease_client [OF 2(2) assms(2) d 1(4)]) (use l i f(3) 1(3) in \<open>simp_all add: duration_defs\<close>)
  obtain x w' T' where B: "lab_Beside the_lab (client_request ''GET'' (target_url t E st c2s ''lease=30s'') (tg_StationTok t) None) (400 * Millisecond)
        (client_request ''POST'' (target_url t E st c2s '''') (tg_Control t) (Some (put_text sq body))) w =
        ((Some (Some (answer_of b \<lparr>rs_status = 200, rs_payload = LeaseObject l\<rparr>)), x), w')" "later T2 T'" "state n w' T' (\<lambda>i. nm (Suc (Suc i))) (H((st, c2s) := [?v]))"
    using go lease_resume [OF 2(1) dt(1)] k2 by blast
  show ?thesis
    by (intro exI [of _ w'] exI [of _ T'] exI [of _ "\<lambda>i. nm (Suc (Suc i))"] exI [of _ "answer_of b \<lparr>rs_status = 200, rs_payload = LeaseObject l\<rparr>"] exI [of _ x]
        exI [of _ ?v] exI [of _ u] conjI)
      (use B i u(1) ms l 1(1-3) in \<open>simp_all add: later_def slack_def duration_defs\<close>)
qed

end

end
