(* ===== verification/Relay_Checks.thy ===== *)
theory Relay_Checks
  imports Relay_Contract
begin

text \<open>
  What a run of the conformance suite records, whatever the relay under test answers (\<^verbatim>\<open>src/conformance/conformance.go\<close>).

  \<^item> \<open>grows S m\<close>: the part \<open>m\<close> takes back nothing recorded before it, and what it records as skipped has a name in \<open>S\<close>.
  \<^item> \<open>records Q N m\<close>: unless the part records a failure, it records every check named in \<open>N\<close> as passed and its answer meets \<open>Q\<close>. So a
    run without a failure has made each of these checks; none can have been left out on the way.
  \<^item> \<open>contract_checks\<close> are the checks of the sections that need no lever of the harness, \<open>unattempted\<close> what the suite records in place of
    the three authoriser sections when it has no lever, and \<open>unasked\<close> the two assertions of durability that it then skips.
\<close>

section \<open>Reports only grow\<close>

definition grows :: "string set \<Rightarrow> ('w, 'a) act \<Rightarrow> bool" where
  "grows S m \<longleftrightarrow> (\<forall>w out. \<exists>more. snd (snd (run_state m (w, out))) = out @ more \<and> (\<forall>r \<in> set more. re_Skipped r \<longrightarrow> re_Name r \<in> S))"

named_theorems growing

lemma grows_bind [growing]:
  assumes "grows S m" "\<And>x. grows S (f x)"
  shows "grows S (m \<bind> f)"
  unfolding grows_def
proof (intro allI)
  fix w out
  obtain x w1 out1 where 1: "run_state m (w, out) = (x, (w1, out1))" by (metis prod.exhaust)
  obtain y where "out1 = out @ y" "\<forall>r \<in> set y. re_Skipped r \<longrightarrow> re_Name r \<in> S" using assms(1) 1 unfolding grows_def by (metis snd_conv)
  moreover obtain z where "snd (snd (run_state (f x) (w1, out1))) = out1 @ z" "\<forall>r \<in> set z. re_Skipped r \<longrightarrow> re_Name r \<in> S"
    using assms(2) unfolding grows_def by blast
  ultimately show "\<exists>more. snd (snd (run_state (m \<bind> f) (w, out))) = out @ more \<and> (\<forall>r \<in> set more. re_Skipped r \<longrightarrow> re_Name r \<in> S)"
    using 1 by (auto intro!: exI [of _ "y @ z"])
qed

lemma grows_base [growing]: "grows S (act g)" "grows S (done_with x)" "grows S (ok n b)"
  by (simp_all add: grows_def)

lemma grows_skip: "n \<in> S \<Longrightarrow> grows S (skip n)"
  by (simp add: grows_def)

lemma grows_if [growing]: "grows S m \<Longrightarrow> grows S m' \<Longrightarrow> grows S (if c then m else m')"
  by simp

lemma grows_cases [growing]:
  "(\<And>x y. p = (x, y) \<Longrightarrow> grows S (f x y)) \<Longrightarrow> grows S (case p of (x, y) \<Rightarrow> f x y)"
  "grows S m \<Longrightarrow> (\<And>x. grows S (h x)) \<Longrightarrow> grows S (case r of None \<Rightarrow> m | Some x \<Rightarrow> h x)"
  "grows S m \<Longrightarrow> (\<And>y ys. grows S (g y ys)) \<Longrightarrow> grows S (case xs of [] \<Rightarrow> m | y # ys \<Rightarrow> g y ys)"
  by (simp_all split: prod.split option.split list.split)

lemma grows_loop [growing]: "(\<And>x b. grows S (f x b)) \<Longrightarrow> grows S (loop f xs b)"
  by (induction xs arbitrary: b) (auto intro!: growing)

lemma grows_client [growing]:
  "grows S (putR l t e st d tok sq body)" "grows S (put l t e st d tok sq body)" "grows S (take_msgs l t e st d tok)" "grows S (takeLeased l t e st d tok v)"
  "grows S (target_ack l t e st d tok i)" "grows S (target_do l m u tok x)"
  unfolding put_def putR_def take_msgs_def takeLeased_def target_ack_def target_do_def by (auto intro!: growing)

definition unasked :: "string list" where
  "unasked =
    [''a message accepted before the relay restarts is still there after it'',
     ''a message collected before the relay restarts does not come back after it'']"

lemma grows_leasing:
  "grows S (plain_part l t uniq)" "grows S (held_part l t uniq)" "grows S (ack_part l t uniq x)" "grows S (expiry_part l t uniq)"
  "grows S (leased_poll_part l t uniq)" "grows S (grammar_part l t uniq)"
proof -
  show "grows S (plain_part l t uniq)" "grows S (held_part l t uniq)" "grows S (ack_part l t uniq x)" "grows S (expiry_part l t uniq)"
    "grows S (leased_poll_part l t uniq)"
    unfolding plain_part_def held_part_def ack_part_def expiry_part_def leased_poll_part_def Let_def by (intro growing)+
  have "grows S (refused_form l t bad x y)" "grows S (accepted_form l t bad x y)" for bad x y
    unfolding refused_form_def accepted_form_def by (intro growing)+
  then show "grows S (grammar_part l t uniq)" unfolding grammar_part_def Let_def by (intro growing)
qed

lemma grows_sections [growing]:
  "grows S (health_section l t)" "grows S (identity_section l t)" "grows S (message_section l t uniq)" "grows S (split_section l t uniq)"
  "grows S (credential_section l t uniq)" "grows S (reason_section l t uniq)" "grows S (outage_section l t uniq)" "grows S (sentinel_section l t uniq)"
  "grows S (tenancy_section l t)" "grows S (unverifiable_section l t uniq)" "grows S (signed_section l t uniq)"
  "grows S (route_section l t uniq)" "grows S (body_section l t uniq)" "grows S (order_section l t uniq)" "grows S (poll_section l t uniq)" "grows S (wait_section l t uniq)"
  "grows S (leasing l t uniq)"
proof -
  have "grows S (body_put l t uniq x y)" "grows S (identity_check l t p)" "grows S (crossing l t c z)" for x y p c z
    unfolding body_put_def identity_check_def crossing_def Let_def split_beta by (intro growing)+
  note b = this
  show "grows S (health_section l t)" unfolding health_section_def Let_def split_beta by (intro growing)
  show "grows S (identity_section l t)" unfolding identity_section_def by (intro growing b)
  show "grows S (message_section l t uniq)" unfolding message_section_def by (intro growing)
  show "grows S (split_section l t uniq)" unfolding split_section_def by (intro growing)
  show "grows S (credential_section l t uniq)" unfolding credential_section_def by (intro growing)
  show "grows S (reason_section l t uniq)" unfolding reason_section_def by (intro growing)
  show "grows S (outage_section l t uniq)" unfolding outage_section_def by (intro growing)
  show "grows S (sentinel_section l t uniq)" unfolding sentinel_section_def Let_def by (intro growing)
  show "grows S (tenancy_section l t)" unfolding tenancy_section_def by (intro growing b)
  show "grows S (unverifiable_section l t uniq)" unfolding unverifiable_section_def by (intro growing)
  show "grows S (signed_section l t uniq)" unfolding signed_section_def Let_def by (intro growing)
  show "grows S (route_section l t uniq)" unfolding route_section_def by (intro growing)
  show "grows S (body_section l t uniq)" unfolding body_section_def by (intro growing b)
  show "grows S (order_section l t uniq)" unfolding order_section_def by (intro growing)
  show "grows S (poll_section l t uniq)" unfolding poll_section_def Let_def by (intro growing)
  show "grows S (wait_section l t uniq)" unfolding wait_section_def by (intro growing)
  show "grows S (leasing l t uniq)" unfolding leasing_def by (intro growing grows_leasing)
qed

lemma grows_durability [growing]: "set unasked \<subseteq> S \<Longrightarrow> grows S (durability l t uniq)"
  unfolding durability_def Let_def unasked_def by (intro growing grows_skip; simp)

lemma grows_failed: "grows S m \<Longrightarrow> \<not> passed out \<Longrightarrow> \<not> passed (snd (snd (run_state m (w, out))))"
  unfolding grows_def by (metis passed_simps(3))

section \<open>The checks a run without a failure has made\<close>

text \<open>The names, section by section; in the two parts that give up after a failed write, without the name recorded then.\<close>

definition health_checks :: "string list" where
  "health_checks =
    [''health answers without a token'',
     ''health still says ok'',
     ''health names the version that is serving'',
     ''health names the hash of what is serving'',
     ''health says whether this deployment is durable'']"

definition identity_checks :: "string \<Rightarrow> string list" where
  "identity_checks path =
    [path @ '' answers without a token'',
     path @ '' names the service and the implementation'',
     path @ '' reports a version that is never blank'',
     path @ '' points at the source'']"

definition message_checks :: "string list" where
  "message_checks =
    [''a control token may queue a request'',
     ''a station token may collect it'',
     ''exactly one message came back'',
     ''the body is byte-for-byte what was sent'',
     ''the sequence number is unchanged'',
     ''a collected message is not delivered twice'']"

definition split_checks :: "string list" where
  "split_checks =
    [''a station token may NOT queue a request'',
     ''a control token may NOT publish a status'',
     ''a station token may publish a status'',
     ''a control token may read a status'']"

definition credential_checks :: "string list" where
  "credential_checks =
    [''a put with no token is refused'',
     ''a get with no token is refused'',
     ''a put with a wrong token is refused'']"

definition reason_checks :: "string list" where
  "reason_checks =
    [''a refusal names a machine-readable reason'',
     ''a missing credential and a wrong one are told apart'',
     ''a good credential in the wrong direction is not reported as a bad one'',
     ''a refusal still carries a sentence for a person'']"

definition unverifiable_checks :: "string list" where
  "unverifiable_checks =
    [''a lease nothing can verify is refused'',
     ''and the refusal names the lease rather than the credential'',
     ''a lease nothing can verify cannot collect either'',
     ''an ordinary credential is still not read as a lease'']"

definition signed_checks :: "string list" where
  "signed_checks =
    [''a lease signed by the control plane is honoured'',
     ''a control credential can queue for a leased station'',
     ''a leased station collects its own requests'',
     ''a leased station still may NOT queue a request for itself'',
     ''a lease does not reach a station it does not name'',
     ''an expired lease is refused'',
     ''and says it expired rather than blaming the credential'',
     ''a lease signed by the wrong key is refused'',
     ''and the refusal names the lease rather than the credential'',
     ''a lease widened after signing no longer verifies'']"

definition route_checks :: "string list" where
  "route_checks =
    [''one estate's token cannot write into another'',
     ''one estate's token cannot read another'',
     ''an unconfigured estate is refused'',
     ''a direction other than c2s or s2c is refused'']"

definition body_checks :: "string list" where
  "body_checks =
    [''any body is accepted, including one that is not JSON or UTF-8'']"

definition order_checks :: "string list" where
  "order_checks =
    [''sequence numbers are carried, not rewritten'']"

definition poll_checks :: "string list" where
  "poll_checks =
    [''a long poll wakes when a message arrives'']"

definition wait_checks :: "string list" where
  "wait_checks =
    [''wait=0 returns immediately rather than holding the line'']"

definition plain_checks :: "string list" where
  "plain_checks =
    [''a collection without a lease answers with a bare array of messages'',
     ''a collection without a lease still deletes what it returned'',
     ''every message carries an id, leased or not'',
     ''lease=0 answers as a collection with no lease at all'']"

definition held_checks :: "string list" where
  "held_checks =
    [''a leased collection answers with a lease id, a deadline and the messages'',
     ''a leased message is byte for byte what was sent'',
     ''a leased message carries an id'',
     ''a message under a live lease is not handed to a second collector'',
     ''an empty leased collection says so in both fields'',
     ''a message under a live lease is not handed to a collection with no lease'']"

definition ack_checks :: "string list" where
  "ack_checks =
    [''acknowledging a lease deletes what it held'',
     ''an acknowledged message is not delivered again'',
     ''an acknowledgement the relay is not holding is refused with 410'',
     ''an acknowledgement of a lease that never existed is refused with 410'',
     ''an acknowledgement with no token is refused'',
     ''one estate's token cannot acknowledge another's lease'']"

definition expiry_checks :: "string list" where
  "expiry_checks =
    [''an unacknowledged lease returns the messages when it expires'',
     ''a redelivered message keeps the id it had'',
     ''a redelivered message is under a new lease'']"

definition leased_poll_checks :: "string list" where
  "leased_poll_checks =
    [''a long poll that asked for a lease wakes holding one'',
     ''the lease from a long poll can be acknowledged'']"

definition grammar_checks :: "string list" where
  "grammar_checks =
    [''a lease that is unparseable or too long is refused'',
     ''seconds, milliseconds and minutes are all accepted as a lease'']"

definition browser_checks :: "string list" where
  "browser_checks = [''/ gives a browser HTML rather than a file to download'']"

definition leasing_checks :: "string list" where
  "leasing_checks = plain_checks @ held_checks @ ack_checks @ expiry_checks @ leased_poll_checks @ grammar_checks"

definition contract_checks :: "string list" where
  "contract_checks =
     health_checks @ identity_checks ''/'' @ identity_checks ''/version'' @ browser_checks @ message_checks @ split_checks @
     credential_checks @ reason_checks @ unverifiable_checks @ signed_checks @ route_checks @ body_checks @ order_checks @
     poll_checks @ wait_checks @ leasing_checks"

definition unattempted :: "string list" where
  "unattempted =
    [''SKIPPED: the authoriser outage section needs a lever this harness did not supply'',
     ''SKIPPED: the authoriser body check needs a control plane this harness did not supply'',
     ''SKIPPED: the per-station isolation section needs a tenancy this harness did not supply'']"

definition recorded :: "check_result list \<Rightarrow> string set" where
  "recorded rs = re_Name ` {r \<in> set rs. re_OK r \<and> \<not> re_Skipped r}"

lemma recorded_simps [simp]:
  "recorded [] = {}" "recorded (rs @ rs') = recorded rs \<union> recorded rs'"
  "recorded (r # rs) = (if re_OK r \<and> \<not> re_Skipped r then {re_Name r} else {}) \<union> recorded rs"
  by (auto simp: recorded_def)

definition records :: "('a \<Rightarrow> bool) \<Rightarrow> string set \<Rightarrow> ('w, 'a) act \<Rightarrow> bool" where
  "records Q N m \<longleftrightarrow> (\<forall>w out. \<exists>more. snd (snd (run_state m (w, out))) = out @ more \<and>
     (passed more \<longrightarrow> Q (fst (run_state m (w, out))) \<and> N \<subseteq> recorded more))"

lemma grows_more: "grows UNIV m \<Longrightarrow> \<exists>more. snd (snd (run_state m (w, out))) = out @ more"
  unfolding grows_def by blast

lemma records_bind:
  assumes "records Q N m" "\<And>x. grows UNIV (f x)" "\<And>x. Q x \<Longrightarrow> records R M (f x)"
  shows "records R (N \<union> M) (m \<bind> f)"
  unfolding records_def
proof (intro allI)
  fix w out
  obtain x w1 out1 where 1: "run_state m (w, out) = (x, (w1, out1))" by (metis prod.exhaust)
  obtain y where y: "out1 = out @ y" "passed y \<longrightarrow> Q x \<and> N \<subseteq> recorded y"
    using assms(1) 1 unfolding records_def by (metis fst_conv snd_conv)
  obtain z where z: "snd (snd (run_state (f x) (w1, out1))) = out1 @ z"
    "Q x \<longrightarrow> passed z \<longrightarrow> R (fst (run_state (f x) (w1, out1))) \<and> M \<subseteq> recorded z"
    using assms(3) [of x] grows_more [OF assms(2), of x w1 out1] unfolding records_def by (cases "Q x") blast+
  show "\<exists>more. snd (snd (run_state (m \<bind> f) (w, out))) = out @ more \<and>
      (passed more \<longrightarrow> R (fst (run_state (m \<bind> f) (w, out))) \<and> N \<union> M \<subseteq> recorded more)"
    using 1 y z by (intro exI [of _ "y @ z"]) auto
qed

lemma records_grows: "grows UNIV m \<Longrightarrow> records (\<lambda>_. True) {} m"
  using grows_more [of m] unfolding records_def by blast

lemma records_after:
  assumes "grows UNIV m" "\<And>x. records R M (f x)"
  shows "records R M (m \<bind> f)"
proof -
  have "grows UNIV (f x)" for x using assms(2) [of x] unfolding records_def grows_def by fastforce
  from records_bind [OF records_grows [OF assms(1)] this assms(2)] show ?thesis by simp
qed

lemma records_seq:
  assumes "records (\<lambda>_. True) N m" "records R M g"
  shows "records R (N \<union> M) (m \<bind> (\<lambda>_. g))"
proof -
  have "grows UNIV g" using assms(2) unfolding records_def grows_def by fastforce
  then show ?thesis using records_bind [OF assms(1), of "\<lambda>_. g"] assms(2) by simp
qed

lemma records_return: "records (\<lambda>_. True) N m \<Longrightarrow> records (\<lambda>_. True) N (m \<bind> done_with)"
  using records_bind [of "\<lambda>_. True" N m done_with "\<lambda>_. True" "{}"] by (simp add: grows_base(2) records_def)

lemma records_ok: "records (\<lambda>_. b) {n} (ok n b)"
  by (simp add: records_def)

lemma records_ok_last: "records (\<lambda>_. True) (insert n {}) (ok n b)"
  by (simp add: records_def)

lemma records_ok_then:
  assumes "grows UNIV g" "b \<Longrightarrow> records R M g"
  shows "records R (insert n M) (ok n b \<bind> (\<lambda>_. g))"
  using records_bind [OF records_ok, of "\<lambda>_. g" b R M n] assms by simp

lemma records_fail: "records R N (ok n False)"
  by (simp add: records_def)

lemma records_fail_then: "grows UNIV g \<Longrightarrow> records R N (ok n False \<bind> (\<lambda>_. g))"
  using records_bind [OF records_fail [of "\<lambda>_. False" N n], of "\<lambda>_. g" R N] by simp

lemma records_done: "Q x \<Longrightarrow> records Q {} (done_with x)"
  by (simp add: records_def)

lemma records_if: "(c \<Longrightarrow> records R N m) \<Longrightarrow> (\<not> c \<Longrightarrow> records R N m') \<Longrightarrow> records R N (if c then m else m')"
  by simp

lemma records_cases:
  "(\<And>x y. p = (x, y) \<Longrightarrow> records R N (f x y)) \<Longrightarrow> records R N (case p of (x, y) \<Rightarrow> f x y)"
  "(r = None \<Longrightarrow> records R N m) \<Longrightarrow> (\<And>x. r = Some x \<Longrightarrow> records R N (h x)) \<Longrightarrow> records R N (case r of None \<Rightarrow> m | Some x \<Rightarrow> h x)"
  by (simp_all split: prod.split option.split)

lemma records_mono: "records Q N m \<Longrightarrow> N' \<subseteq> N \<Longrightarrow> records Q N' m"
  unfolding records_def by (meson order_trans)

lemmas recording = records_fail_then records_fail records_ok_then records_ok_last records_if records_cases records_done

text \<open>Sections that record one check after another.\<close>

lemma records_plainly:
  "records (\<lambda>_. True) (set health_checks) (health_section l t)"
  "records (\<lambda>_. True) (set (identity_checks path)) (identity_check l t path)"
  "records (\<lambda>_. True) (set split_checks) (split_section l t uniq)"
  "records (\<lambda>_. True) (set credential_checks) (credential_section l t uniq)"
  "records (\<lambda>_. True) (set reason_checks) (reason_section l t uniq)"
  "records (\<lambda>_. True) (set unverifiable_checks) (unverifiable_section l t uniq)"
  "records (\<lambda>_. True) (set order_checks) (order_section l t uniq)"
  "records (\<lambda>_. True) (set poll_checks) (poll_section l t uniq)"
  "records (\<lambda>_. True) (set wait_checks) (wait_section l t uniq)"
  unfolding health_checks_def identity_checks_def split_checks_def credential_checks_def reason_checks_def unverifiable_checks_def
    order_checks_def poll_checks_def wait_checks_def
    health_section_def identity_check_def split_section_def credential_section_def reason_section_def unverifiable_section_def
    order_section_def poll_section_def wait_section_def Let_def split_beta list.set
  by ((rule recording | rule records_after | rule growing)+)

lemma records_identity:
  "records (\<lambda>_. True) (set (identity_checks ''/'') \<union> (set (identity_checks ''/version'') \<union> set browser_checks)) (identity_section l t)"
proof -
  have "records (\<lambda>_. True) (set browser_checks) (act (lab_Do l (browser_request t)) \<bind> (\<lambda>r. ok ''/ gives a browser HTML rather than a file to download''
       (case r of Some r \<Rightarrow> has_prefix (cr_type r) ''text/html'' | None \<Rightarrow> False)))"
    unfolding browser_checks_def list.set by ((rule records_ok_last | rule records_after | rule growing)+)
  note b = this
  have "records (\<lambda>_. True) (set (identity_checks ''/'') \<union> (set (identity_checks ''/version'') \<union> {}))
      (loop (\<lambda>path _. identity_check l t path) [''/'', ''/version''] ())"
    unfolding loop.simps using records_seq [OF records_plainly(2) records_return [OF records_plainly(2)]] by simp
  from records_seq [OF this b] show ?thesis unfolding identity_section_def by (simp only: Un_assoc Un_empty_right)
qed

lemma records_message: "records (\<lambda>_. True) (set message_checks) (message_section l t uniq)"
proof -
  let ?last = "take_msgs l t (tg_Estate t) uniq ''c2s'' (tg_StationTok t) \<bind> (\<lambda>(code, got). ok ''a collected message is not delivered twice'' (got = []))"
  let ?one = "\<lambda>got. case got of [m] \<Rightarrow> ok ''the body is byte-for-byte what was sent'' (ms_Body m = sent_bytes) \<bind>
      (\<lambda>_. ok ''the sequence number is unchanged'' (ms_Seq m = 1)) | _ \<Rightarrow> done_with ()"
  have last: "records (\<lambda>_. True) {''a collected message is not delivered twice''} ?last"
    unfolding split_beta by ((rule records_ok_last | rule records_after | rule growing)+)
  have one: "records (\<lambda>_. True) {''the body is byte-for-byte what was sent'', ''the sequence number is unchanged''} (?one got)" if "length got = 1" for got
  proof -
    obtain m where m: "got = [m]" using \<open>length got = 1\<close> by (cases got) auto
    show ?thesis unfolding m list.case by ((rule records_ok_then | rule records_ok_last | rule growing)+)
  qed
  have "grows UNIV (?one got \<bind> (\<lambda>_. ?last))" for got by (intro growing)
  note g = this
  have tail: "records (\<lambda>_. True) {''the body is byte-for-byte what was sent'', ''the sequence number is unchanged'', ''a collected message is not delivered twice''}
      (?one got \<bind> (\<lambda>_. ?last))" if "length got = 1" for got
    using records_seq [OF one [OF that] last] by (simp only: Un_insert_left Un_empty_left)
  show ?thesis
    unfolding message_section_def message_checks_def list.set
    by ((rule tail, assumption | rule records_ok_then | rule records_after | rule records_cases | rule growing)+)
qed

lemma records_body: "records (\<lambda>_. True) (set body_checks) (body_section l t uniq)"
proof -
  have "grows S (body_put l t uniq x y)" for S x y unfolding body_put_def by (intro growing)
  then show ?thesis
    unfolding body_section_def body_checks_def list.set
    by (intro records_after records_ok_last growing)
qed

lemma records_route:
  assumes "tg_OtherEstate t \<noteq> ''''"
  shows "records (\<lambda>_. True) (set route_checks) (route_section l t uniq)"
proof -
  let ?other = "put l t (tg_OtherEstate t) uniq ''c2s'' (tg_Control t) 1 ''x'' \<bind> (\<lambda>code. ok ''one estate's token cannot write into another'' (code \<noteq> 202) \<bind>
      (\<lambda>_. take_msgs l t (tg_OtherEstate t) uniq ''c2s'' (tg_StationTok t) \<bind> (\<lambda>(code, _). ok ''one estate's token cannot read another'' (code = 401))))"
  let ?rest = "put l t ''estate-that-does-not-exist'' uniq ''c2s'' (tg_Control t) 1 ''x'' \<bind> (\<lambda>code. ok ''an unconfigured estate is refused'' (code \<noteq> 202) \<bind>
      (\<lambda>_. put l t (tg_Estate t) uniq ''sideways'' (tg_Control t) 1 ''x'' \<bind> (\<lambda>code. ok ''a direction other than c2s or s2c is refused'' (code \<noteq> 202))))"
  have "records (\<lambda>_. True) {''one estate's token cannot write into another'', ''one estate's token cannot read another''} ?other"
    "records (\<lambda>_. True) {''an unconfigured estate is refused'', ''a direction other than c2s or s2c is refused''} ?rest"
    unfolding split_beta by ((rule recording | rule records_after | rule growing)+)
  from records_seq [OF this] have "records (\<lambda>_. True) (set route_checks) (?other \<bind> (\<lambda>_. ?rest))"
    by (simp only: route_checks_def list.set Un_insert_left Un_empty_left)
  then show ?thesis unfolding route_section_def using assms by (simp only: if_True not_False_eq_True simp_thms)
qed

lemma records_signed:
  assumes "tg_SignLease t = Some sign"
    and parts: "\<And>st rd wr nb ex. length (split_dots (suite_Lease sign (tg_Estate t) st rd wr nb ex 0)) = 3"
  shows "records (\<lambda>_. True) (set signed_checks) (signed_section l t uniq)"
  unfolding signed_section_def assms(1) option.case signed_checks_def list.set Let_def parts split_beta if_True simp_thms
  by ((rule recording | rule records_after | rule growing)+)

lemma records_levers:
  "tg_ControlPlane t = None \<Longrightarrow> records (\<lambda>_. True) {unattempted ! 0} (outage_section l t uniq)"
  "tg_AuthoriserSaw t = None \<Longrightarrow> records (\<lambda>_. True) {unattempted ! 1} (sentinel_section l t uniq)"
  "\<not> tg_Tenancy t \<Longrightarrow> records (\<lambda>_. True) {unattempted ! 2} (tenancy_section l t)"
  by (simp_all add: outage_section_def sentinel_section_def tenancy_section_def unattempted_def records_def)

text \<open>Leased collection: a part that answers that the next is not to be run has recorded a failure.\<close>

lemma records_plain_part: "records (\<lambda>go. go) (set plain_checks) (plain_part l t uniq)"
  unfolding plain_part_def plain_checks_def list.set Let_def split_beta
  by ((rule recording | rule records_after | rule TrueI | rule growing)+)

lemma records_held_part: "records (\<lambda>x. x \<noteq> None) (set held_checks) (held_part l t uniq)"
  unfolding held_part_def held_checks_def list.set Let_def split_beta
  by ((rule recording | rule records_after | rule option.discI refl | rule growing | erule notE, assumption)+)

lemma records_ack_part:
  assumes "tg_OtherEstate t \<noteq> ''''"
  shows "records (\<lambda>_. True) (set ack_checks) (ack_part l t uniq lease)"
  unfolding ack_part_def ack_checks_def list.set Let_def split_beta using assms
  by (simp only: if_True not_False_eq_True simp_thms) ((rule recording | rule records_after | rule growing)+)

lemma records_expiry_part: "records (\<lambda>go. go) (set expiry_checks) (expiry_part l t uniq)"
proof -
  have "records (\<lambda>_. True) {''a redelivered message keeps the id it had'', ''a redelivered message is under a new lease''}
      (if b then ok ''a redelivered message keeps the id it had'' x \<bind> (\<lambda>_. ok ''a redelivered message is under a new lease'' y) else done_with ())"
    if "b" for b x y
    using that by (simp only: if_True) ((rule recording | rule growing)+)
  from records_seq [OF this records_done [of "\<lambda>go. go" True]]
  have tail: "b \<Longrightarrow> records (\<lambda>go. go) {''a redelivered message keeps the id it had'', ''a redelivered message is under a new lease''}
      ((if b then ok ''a redelivered message keeps the id it had'' x \<bind> (\<lambda>_. ok ''a redelivered message is under a new lease'' y) else done_with ()) \<bind>
       (\<lambda>_. done_with True))" for b x y
    by simp
  show ?thesis
    unfolding expiry_part_def expiry_checks_def list.set Let_def split_beta
    by ((rule tail, assumption | rule recording | rule records_after | rule growing)+)
qed

lemma records_leased_poll_part: "records (\<lambda>_. True) (set leased_poll_checks) (leased_poll_part l t uniq)"
  unfolding leased_poll_part_def leased_poll_checks_def list.set Let_def split_beta
  by ((rule recording | rule records_after | rule growing)+) auto

lemma records_grammar_part: "records (\<lambda>_. True) (set grammar_checks) (grammar_part l t uniq)"
proof -
  have "grows S (refused_form l t bad x y)" "grows S (accepted_form l t bad x y)" for S bad x y
    unfolding refused_form_def accepted_form_def by (intro growing)+
  note f = this
  show ?thesis
    unfolding grammar_part_def grammar_checks_def list.set Let_def split_beta
    by ((rule recording | rule records_after | rule growing | rule f)+)
qed

lemma records_leasing:
  assumes "tg_OtherEstate t \<noteq> ''''"
  shows "records (\<lambda>_. True) (set leasing_checks) (leasing l t uniq)"
  unfolding leasing_def leasing_checks_def set_append
  by ((rule records_bind [OF records_plain_part] | rule records_bind [OF records_held_part] | rule records_seq [OF records_ack_part [OF assms]] |
      rule records_bind [OF records_expiry_part] | rule records_seq [OF records_leased_poll_part] | rule records_grammar_part |
      rule records_if | rule records_cases | rule growing | rule grows_leasing | erule notE, assumption)+)

text \<open>The whole run: every check is there, and only the two assertions of durability may be skipped.\<close>

lemma records_run:
  assumes "tg_ControlPlane t = None" "tg_AuthoriserSaw t = None" "\<not> tg_Tenancy t" "tg_SignLease t = Some sign" "tg_OtherEstate t \<noteq> []"
    and parts: "\<And>st rd wr nb ex. length (split_dots (suite_Lease sign (tg_Estate t) st rd wr nb ex 0)) = 3"
  shows "records (\<lambda>_. True) (set contract_checks \<union> set unattempted) (run_section l t uniq)"
proof -
  have o: "tg_OtherEstate t \<noteq> ''''" using assms(5) by simp
  note P = records_plainly and L = records_levers
  note tail = records_seq [OF P(7) records_seq [OF P(8) records_seq [OF P(9) records_seq [OF records_leasing [OF o]
      records_grows [OF grows_durability [OF subset_UNIV]]]]]]
  note tail = records_seq [OF P(6) records_seq [OF records_signed [OF assms(4) parts] records_seq [OF records_route [OF o] records_seq [OF records_body tail]]]]
  note tail = records_seq [OF L(1) [OF assms(1)] records_seq [OF L(2) [OF assms(2)] records_seq [OF L(3) [OF assms(3)] tail]]]
  note tail = records_seq [OF records_message records_seq [OF P(3) records_seq [OF P(4) records_seq [OF P(5) tail]]]]
  note all = records_seq [OF P(1) records_seq [OF records_identity tail]]
  have "set contract_checks \<union> set unattempted \<subseteq>
    set health_checks \<union> ((set (identity_checks ''/'') \<union> (set (identity_checks ''/version'') \<union> set browser_checks)) \<union>
    (set message_checks \<union> (set split_checks \<union> (set credential_checks \<union> (set reason_checks \<union> ({unattempted ! 0}
    \<union> ({unattempted ! 1} \<union> ({unattempted ! 2} \<union> (set unverifiable_checks \<union> (set signed_checks \<union> (set
    route_checks \<union> (set body_checks \<union> (set order_checks \<union> (set poll_checks \<union> (set wait_checks \<union> (set
    leasing_checks \<union> ({})))))))))))))))))"
    by (auto simp: contract_checks_def unattempted_def)
  then show ?thesis unfolding run_section_def by (rule records_mono [OF all])
qed

text \<open>
  What a run skips when the harness cannot restart the relay: the two assertions of durability, and nothing else.
\<close>

definition skips :: "string list \<Rightarrow> ('w, 'a) act \<Rightarrow> bool" where
  "skips L m \<longleftrightarrow> (\<forall>w out. \<exists>more. snd (snd (run_state m (w, out))) = out @ more \<and> map re_Name (filter re_Skipped more) = L)"

lemma skips_after:
  assumes "grows {} m" "\<And>x. skips L (f x)"
  shows "skips L (m \<bind> f)"
  unfolding skips_def
proof (intro allI)
  fix w out
  obtain x w1 out1 where 1: "run_state m (w, out) = (x, (w1, out1))" by (metis prod.exhaust)
  obtain y where "out1 = out @ y" "\<forall>r \<in> set y. \<not> re_Skipped r" using assms(1) 1 unfolding grows_def by (metis empty_iff snd_conv)
  moreover obtain z where "snd (snd (run_state (f x) (w1, out1))) = out1 @ z" "map re_Name (filter re_Skipped z) = L"
    using assms(2) unfolding skips_def by blast
  ultimately show "\<exists>more. snd (snd (run_state (m \<bind> f) (w, out))) = out @ more \<and> map re_Name (filter re_Skipped more) = L"
    using 1 by (intro exI [of _ "y @ z"]) simp
qed

lemma run_skips: "tg_Disrupt t = None \<Longrightarrow> skips unasked (run_section l t uniq)"
  unfolding run_section_def
  by (intro skips_after growing) (simp add: durability_def unasked_def skips_def)

end
