(* ===== verification/Relay_Certified.thy ===== *)
theory Relay_Certified
  imports Relay_Polls Relay_Checks
begin

text \<open>
  The Go relay passes the sections of the conformance suite that need no lever of the harness; the run of the command that
  gives it one (a control plane to take away, a relay that refuses estate-wide credentials, a command that restarts the relay) is
  not covered.

  The last laws of \<open>relay_contract\<close>, then \<open>relay_bench\<close> as a \<open>relay_contract\<close> and, with the harness's key, as a \<open>signed_contract\<close>; both
  interpreted on the configuration the command documents (estates \<^verbatim>\<open>e1\<close> and \<^verbatim>\<open>e2\<close> with their four tokens), and
  the run of the suite with no lever.
\<close>

section \<open>The relay's own pages\<close>

lemma arrives_page:
  assumes "path \<in> {''/health'', ''/version'', ''/''}"
  shows "\<exists>hr. arrives (base_url t) (client_request ''GET'' (base_url t @ path) '''' None) = ([drop 1 path], hr) \<and> hr_Accept hr = ''''"
proof -
  have "CHR ''?'' \<notin> set path" "split_on (CHR ''/'') (drop 1 path) = [drop 1 path]" using assms by auto
  from arrives_path [OF this(1), of "base_url t" "''GET''" "''''" "''''" None] this(2) show ?thesis by (auto simp: arrived_def)
qed

lemma unknown_valid: "valid_utf8 (sv_Version s) \<Longrightarrow> valid_utf8 (reportedVersion s)" "valid_utf8 (sv_Hash s) \<Longrightarrow> valid_utf8 (reportedHash s)"
  using valid_utf8_ascii [of "''unknown''"] by (simp_all add: reportedVersion_def reportedHash_def in_range_def)

lemma reported: "reportedVersion s \<noteq> ''''" "reportedHash s \<noteq> ''''"
  by (simp_all add: reportedVersion_def reportedHash_def)

context relay_bench
begin

lemma state_names:
  assumes "state n w T nm H"
  shows "valid_utf8 (reportedVersion (wo_server w))" "valid_utf8 (reportedHash (wo_server w))"
  using assms unknown_valid [of "wo_server w"] by (simp_all add: bench_state_def)

lemma page:
  assumes "state (Suc n) w T nm H" "arrives (base_url t) q = (segs, hr)" "cq_method q = ''GET''" "route ''GET'' segs = Some ep"
    and "ep = EHealth \<and> r = health (wo_server w) \<or> ep = EVersion \<and> r = version (wo_server w) \<or> ep = ERoot \<and> r = root hr (wo_server w)"
  obtains w' T' where "lab_Do the_lab q w = (Some (answer_of b r), w')" "later T T'" "state n w' T' nm H"
proof -
  note f = state_facts [OF assms(1)]
  have "w\<lparr>wo_now := wo_now w + be_lag b q (wo_now w)\<rparr> = \<lparr>wo_server = wo_server w, wo_now = T + be_lag b q T\<rparr>" using f(1) by simp
  then have "\<exists>q'. bench_Do b (base_url t) q w = (Some (answer_of b r), \<lparr>wo_server = wo_server w, wo_now = T + be_lag b q' T\<rparr>)"
    using bench_info [OF assms(2-5), of b] by auto
  then show thesis using that by (rule moment [OF assms(1)]) (simp add: bench_lab_def)
qed

lemma law_health_answers:
  assumes "state (Suc n) w T nm H"
  shows "\<exists>w' T' r h. lab_Do the_lab (client_request ''GET'' (base_url t @ ''/health'') '''' None) w = (Some r, w') \<and>
    cr_status r = 200 \<and> Unmarshal health_lax (cr_body r) zero_health = (h, True) \<and>
    he_OK h \<and> he_Version h \<noteq> '''' \<and> he_Hash h \<noteq> '''' \<and> he_Durable h \<noteq> None \<and> later T T' \<and> state n w' T' nm H"
proof -
  let ?s = "wo_server w"
  obtain hr where hr: "arrives (base_url t) (client_request ''GET'' (base_url t @ ''/health'') '''' None) = ([''health''], hr)"
    using arrives_page [of "''/health''" t] by auto
  obtain w' T' where 1: "lab_Do the_lab (client_request ''GET'' (base_url t @ ''/health'') '''' None) w = (Some (answer_of b (health ?s)), w')" "later T T'" "state n w' T' nm H"
    by (rule page [OF assms hr, of EHealth]) (simp_all add: client_request_def route_def)
  have "rs_status (health ?s) = 200" by (simp add: health_def writeJSON_def)
  with 1 health_read [OF state_names(2,1) [OF assms], of "be_wire b" zero_health] show ?thesis
    by (intro exI [of _ w'] exI [of _ T'] exI [of _ "answer_of b (health ?s)"] exI [of _ "\<lparr>he_OK = True, he_Version = reportedVersion ?s,
          he_Hash = reportedHash ?s, he_Durable = Some (Durable (sv_store ?s))\<rparr>"]) (simp add: reported)
qed

lemma law_identity_answers:
  assumes "state (Suc n) w T nm H" "path = ''/'' \<or> path = ''/version''"
  shows "\<exists>w' T' r i. lab_Do the_lab (client_request ''GET'' (base_url t @ path) '''' None) w = (Some r, w') \<and>
    cr_status r = 200 \<and> Unmarshal identity_lax (cr_body r) zero_identity = (i, True) \<and>
    id_Service i = ''heliograph-relay'' \<and> id_Implementation i \<noteq> '''' \<and> id_Version i \<noteq> '''' \<and> id_Source i \<noteq> '''' \<and> later T T' \<and> state n w' T' nm H"
proof -
  let ?s = "wo_server w"
  obtain hr where hr: "arrives (base_url t) (client_request ''GET'' (base_url t @ path) '''' None) = ([drop 1 path], hr)" "hr_Accept hr = ''''"
    using arrives_page [of path t] assms(2) by auto
  define r where "r = (if path = ''/'' then root hr ?s else version ?s)"
  have html: "\<not> contains_str (hr_Accept hr) ''text/html''" unfolding hr(2) by code_simp
  obtain w' T' where 1: "lab_Do the_lab (client_request ''GET'' (base_url t @ path) '''' None) w = (Some (answer_of b r), w')" "later T T'" "state n w' T' nm H"
    by (rule page [OF assms(1) hr(1), of "if path = ''/'' then ERoot else EVersion" r]) (use assms(2) in \<open>auto simp: client_request_def route_def r_def\<close>)
  have "rs_status r = 200" using html by (simp add: r_def version_def root_def writeJSON_def)
  with 1 identity_read [OF state_names(1) [OF assms(1)] html, of r "be_wire b" zero_identity] show ?thesis
    by (intro exI [of _ w'] exI [of _ T'] exI [of _ "answer_of b r"] exI) (auto simp: reported r_def split: if_splits)
qed

lemma law_browser_answered:
  assumes "state (Suc n) w T nm H"
  shows "\<exists>w' T' r. lab_Do the_lab (browser_request t) w = (Some r, w') \<and> has_prefix (cr_type r) ''text/html'' \<and> later T T' \<and> state n w' T' nm H"
proof -
  let ?s = "wo_server w"
  define hr where "hr = snd (arrives (base_url t) (browser_request t))"
  have a: "arrives (base_url t) (browser_request t) = ([''''], hr)" and "hr_Accept hr = ''text/html,application/xhtml+xml,*/*;q=0.8''"
    by (simp_all add: hr_def arrives_def browser_request_def header_def Let_def)
  moreover have "contains_str ''text/html,application/xhtml+xml,*/*;q=0.8'' ''text/html''" by code_simp
  ultimately have p: "content_type (root hr ?s) = ''text/html; charset=utf-8''" by (simp add: root_def content_type_def)
  obtain w' T' where 1: "lab_Do the_lab (browser_request t) w = (Some (answer_of b (root hr ?s)), w')" "later T T'" "state n w' T' nm H"
    by (rule page [OF assms a, of ERoot]) (simp_all add: browser_request_def route_def)
  moreover have "has_prefix ''text/html; charset=utf-8'' ''text/html''" by code_simp
  ultimately show ?thesis using p by auto
qed

lemma law_sleeping:
  assumes "state (Suc n) w T nm H" "0 \<le> dt" "dt \<le> Minute"
  shows "\<exists>T'. later (T + dt) T' \<and> state n (lab_Sleep the_lab dt w) T' nm H"
  using bench_wait [OF assms(1,2)] assms(3) state_facts(1) [OF assms(1)]
  by (intro exI [of _ "T + dt"]) (simp add: bench_lab_def later_def slack_def duration_defs)

lemma law_foreigner:
  assumes "tg_OtherEstate t \<noteq> ''''"
  shows "path_name (tg_OtherEstate t) \<and> (tok = tg_Control t \<or> tok = tg_StationTok t \<longrightarrow> the_verdict T tok (tg_OtherEstate t) st dr op = ReasonBadCredential)"
  using other_tokens [OF assms] elsewhere_verdict [of tok "tg_OtherEstate t"] by auto

lemma law_no_such_estate: "the_verdict T (tg_Control t) ''estate-that-does-not-exist'' st dr op = ReasonBadCredential"
  using digest_facts(1) unlisted by (intro elsewhere_verdict) (simp_all add: lookup_or_def)

lemma law_lease_names: "state n w T nm H \<Longrightarrow> path_name (nm i) \<and> length (nm i) < 1000 \<and> nm i \<noteq> nm (Suc i)"
  by (rule portrays_names [OF state_facts(5)])

lemma law_clock: "state n w T nm H \<Longrightarrow> lab_Now the_lab w = (T, w)"
  using state_facts(1) by (simp add: bench_lab_def)

lemma law_disrupted:
  assumes "state (Suc n) w T nm H" "tg_Disrupt t = Some f"
  shows "\<exists>w' T' nm'. f w = (True, w') \<and> T \<le> T' \<and> T' \<le> T + Minute \<and> state n w' T' nm' (\<lambda>k. map unlease (H k))"
  using no_restart assms(2) by simp

end

sublocale relay_bench \<subseteq> relay_contract the_lab t state the_verdict
  apply unfold_locales
  subgoal by (rule estate)
  subgoal by (rule law_lease_names)
  subgoal by (rule bench_fewer)
  subgoal by (rule law_clock)
  subgoal by (rule law_sleeping)
  subgoal by (rule law_health_answers)
  subgoal by (rule law_identity_answers)
  subgoal by (rule law_browser_answered)
  subgoal by (rule law_put_accepted)
  subgoal by (rule law_put_refused)
  subgoal by (rule law_put_astray)
  subgoal by (rule law_take_allowed)
  subgoal by (rule law_take_refused)
  subgoal by (rule token_verdicts(1))
  subgoal by (rule token_verdicts(2))
  subgoal by (rule token_verdicts(3))
  subgoal by (rule token_verdicts(4))
  subgoal by (rule token_verdicts(5))
  subgoal by (rule token_verdicts(6))
  subgoal by (rule nobody_verdict)
  subgoal by (rule stranger_verdict)
  subgoal by (rule forger_verdict)
  subgoal by (rule law_foreigner)
  subgoal by (rule law_no_such_estate)
  subgoal by (rule law_lease_taken)
  subgoal by (rule law_lease_not_understood)
  subgoal by (rule law_plain_lease)
  subgoal by (rule law_acknowledged)
  subgoal by (rule law_ack_refused)
  subgoal by (rule law_poll_woken)
  subgoal by (rule law_leased_poll_woken)
  subgoal by (rule law_disrupted)
  done

section \<open>The suite's leases\<close>

text \<open>Whole seconds, rounded down as the suite's \<^verbatim>\<open>Unix()\<close> does.\<close>

definition whole :: "time \<Rightarrow> time" where "whole t = unix_seconds t * 1000000000"

lemma whole_bounds: "whole t \<le> t" "t < whole t + Second"
  by (simp_all add: whole_def unix_seconds_def duration_defs minus_mod_eq_div_mult [symmetric])

lemma whole_Unix:
  assumes "Second \<le> t" "t \<le> horizon + Hour"
  shows "time_Unix (unix_seconds t) = whole t" "unix_seconds t \<noteq> 0" "ParseInt (FormatInt 10 (unix_seconds t)) = Some (unix_seconds t)"
proof -
  have "1 \<le> t div 1000000000 \<and> t div 1000000000 \<le> 2 ^ 50"
    using assms by (intro div_between) (simp_all add: horizon_def duration_defs)
  then show "time_Unix (unix_seconds t) = whole t" "unix_seconds t \<noteq> 0" "ParseInt (FormatInt 10 (unix_seconds t)) = Some (unix_seconds t)"
    by (auto simp: time_Unix_def whole_def wrap64_id unix_seconds_def intro!: ParseInt_FormatInt)
qed

definition lease_body :: "string \<Rightarrow> string list \<Rightarrow> string list \<Rightarrow> string list \<Rightarrow> time \<Rightarrow> time \<Rightarrow> string" where
  "lease_body e sts rd wr nb ex = RawURLEncoding_Encode (json_text (JObj (lease_members e sts rd wr nb ex 0)))"

lemma suite_Lease_text: "suite_Lease sign e sts rd wr nb ex 0 = ''hl1.'' @ lease_body e sts rd wr nb ex @ ''.'' @ RawURLEncoding_Encode (sign (lease_body e sts rd wr nb ex))"
  by (simp add: suite_Lease_def lease_body_def Let_def)

definition lease_auth :: "string \<Rightarrow> string list \<Rightarrow> string list \<Rightarrow> string list \<Rightarrow> time \<Rightarrow> time \<Rightarrow> authority" where
  "lease_auth e sts rd wr nb ex =
     \<lparr>a_Scope = \<lparr>sc_Estate = e, sc_Stations = sts, sc_AllStations = False, sc_Read = rd, sc_Write = wr\<rparr>,
      a_NotBefore = whole nb, a_Expires = whole ex, a_Epoch = 0, a_Audience = ''''\<rparr>"

lemma suite_lease_parse:
  assumes "valid_utf8 e" "\<forall>s \<in> set (sts @ rd @ wr). valid_utf8 s" "Second \<le> nb" "nb \<le> horizon + Hour" "Second \<le> ex" "ex \<le> horizon + Hour"
  shows "ParseAuthority (''hl1.'' @ lease_body e sts rd wr nb ex @ ''.'' @ RawURLEncoding_Encode sg) =
    Inr (lease_auth e sts rd wr nb ex, \<lparr>sg_payload = lease_body e sts rd wr nb ex, sg_signature = sg\<rparr>)"
proof -
  let ?p = "\<lparr>p_Est = e, p_Stns = sts, p_All = False, p_Read = rd, p_Write = wr, p_NBF = unix_seconds nb, p_Exp = unix_seconds ex, p_Epoch = 0, p_Aud = ''''\<rparr>"
  let ?ms = "lease_members e sts rd wr nb ex 0"
  note u = whole_Unix [OF assms(3,4)] whole_Unix [OF assms(5,6)]
  have names: "list_all valid_utf8 [''e'', ''exp'', ''nbf'', ''r'', ''s'', ''w'']" "{''e'', ''exp'', ''nbf'', ''r'', ''s'', ''w''} \<subseteq> set payload_fields"
    by (auto intro!: valid_utf8_ascii simp: in_range_def payload_fields_def)
  have f: "fits 2 (JObj ?ms)" using assms(1,2) names(1) by (auto simp: lease_members_def)
  have "decode_members payload_fields payload_update ?ms zero_payload = Some ?p"
    using names(2) unfolding lease_members_def decode_members_append
    by (cases "rd = []"; cases "sts = []"; cases "wr = []")
      (simp_all add: match_here payload_update_def dec_string_def dec_strings_def dec_i64_def u dec_elems_strings zero_payload_def)
  then have "decode_struct payload_fields payload_update (JObj ?ms) zero_payload = Some ?p" by (simp add: decode_struct_def)
  moreover have "?ms \<noteq> []" by (simp add: lease_members_def)
  ultimately show ?thesis using ParseAuthority_text [OF f _ _ _, of ?p sg] u by (simp add: lease_body_def lease_auth_def del: json_text.simps)
qed

lemma lease_credential:
  "TrimSpace (''hl1.'' @ RawURLEncoding_Encode x @ ''.'' @ RawURLEncoding_Encode y) = ''hl1.'' @ RawURLEncoding_Encode x @ ''.'' @ RawURLEncoding_Encode y"
  "split_dots (''hl1.'' @ RawURLEncoding_Encode x @ ''.'' @ RawURLEncoding_Encode y) = [''hl1'', RawURLEncoding_Encode x, RawURLEncoding_Encode y]"
proof -
  have dot: "CHR ''.'' \<notin> set (RawURLEncoding_Encode z)" for z using b64_encode_chars [of True False z] by (auto simp: b64_alphabet_def)
  show "split_dots (''hl1.'' @ RawURLEncoding_Encode x @ ''.'' @ RawURLEncoding_Encode y) = [''hl1'', RawURLEncoding_Encode x, RawURLEncoding_Encode y]"
    using split_on_app [OF dot] split_on_last [OF dot] by (simp add: split_dots_def)
  have "\<forall>c \<in> set (''hl1.'' @ b64_alphabet True @ ''=''). c \<notin> set (concat space_runes)" by code_simp
  then show "TrimSpace (''hl1.'' @ RawURLEncoding_Encode x @ ''.'' @ RawURLEncoding_Encode y) = ''hl1.'' @ RawURLEncoding_Encode x @ ''.'' @ RawURLEncoding_Encode y"
    using b64_encode_chars [of True False x] b64_encode_chars [of True False y] by (intro TrimSpace_id) auto
qed

lemma short_life: "t - u \<le> 15 * Minute \<Longrightarrow> \<not> MaxAuthorityLife < time_sub t u"
  by (simp add: time_sub_def MaxAuthorityLife_def duration_defs)

text \<open>
  A relay that trusts the harness's signing key. The signature scheme enters by what it makes of the leases the suite presents
  for the station \<open>probe\<close>: the signer's own are accepted, one with the payload as its signature and one widened after signing are not.
  The last assumption excludes that the hash of such a lease is the hash of a configured token.
\<close>

abbreviation leased_for :: "string \<Rightarrow> string \<Rightarrow> time \<Rightarrow> string" where
  "leased_for e st now \<equiv> lease_body e [st] [c2s] [s2c] (now - Minute) (now + 10 * Minute)"

abbreviation widened :: "string \<Rightarrow> time \<Rightarrow> string" where
  "widened e now \<equiv> lease_body e [] [c2s, s2c] [c2s, s2c] (now - Minute) (now + 10 * Minute)"

locale signed_bench = relay_bench +
  fixes sign :: "string \<Rightarrow> bytes" and v :: "string \<Rightarrow> bytes \<Rightarrow> bool" and probe :: string
  assumes harness_signs: "tg_SignLease t = Some sign" and key: "aa_Verify a = Some v"
    and genuine: "v p (sign p)"
    and other_key: "Hour \<le> T \<Longrightarrow> T \<le> horizon \<Longrightarrow> \<not> v (leased_for (tg_Estate t) probe T) (no_signature (leased_for (tg_Estate t) probe T))"
    and binding: "Hour \<le> T \<Longrightarrow> T \<le> horizon \<Longrightarrow> \<not> v (widened (tg_Estate t) T) (sign (leased_for (tg_Estate t) probe T))"
    and any_relay: "aa_Audience a = ''''" and not_revoked: "Epoch a (tg_Estate t) \<le> 0"
    and no_token: "Hour \<le> T \<Longrightarrow> T \<le> horizon \<Longrightarrow> be_sha b (suite_Lease sign (tg_Estate t) [probe] [c2s] [s2c] (T - Minute) (T + 10 * Minute) 0) \<notin>
      ran (map_of (sa_control sa)) \<union> ran (map_of (sa_station sa))"
begin

lemma lease_grant:
  assumes "state n w now nm H" "list_all path_name sts" "rd = [c2s] \<and> wr = [s2c] \<or> rd = [c2s, s2c] \<and> wr = [c2s, s2c]"
    "now - 20 * Minute \<le> nb" "nb \<le> now" "now - 20 * Minute \<le> ex" "ex \<le> now + 10 * Minute"
    and c: "c = ''hl1.'' @ lease_body E sts rd wr nb ex @ ''.'' @ RawURLEncoding_Encode sg"
    and g: "g = check T a (lease_auth E sts rd wr nb ex) \<lparr>sg_payload = lease_body E sts rd wr nb ex, sg_signature = sg\<rparr> (asked '''' E st dr op 0 T)"
  shows "the_verdict T c E st dr op = (if g_Allow g \<or> g_Reason g \<noteq> ReasonOutOfScope then verdict_of g
     else verdict_of (authAdapter_Admit (AllowRead (be_sha b) sa) (AllowWrite (be_sha b) sa) (asked c E st dr op 0 T)))"
    and "TrimSpace c = c"
proof -
  note f = state_facts [OF assms(1)]
  have p: "ParseAuthority c = Inr (lease_auth E sts rd wr nb ex, \<lparr>sg_payload = lease_body E sts rd wr nb ex, sg_signature = sg\<rparr>)"
    unfolding c by (rule suite_lease_parse) (use path_valid [OF estate] path_valid a_dir_path assms f in \<open>auto simp: list_all_iff a_dir_def duration_defs\<close>)
  show t: "TrimSpace c = c" unfolding c lease_body_def by (rule lease_credential)
  have "check T a au s (asked c E st dr op 0 T) = check T a au s (asked '''' E st dr op 0 T)" for au s by (simp add: check_def)
  then show "the_verdict T c E st dr op = (if g_Allow g \<or> g_Reason g \<noteq> ReasonOutOfScope then verdict_of g
     else verdict_of (authAdapter_Admit (AllowRead (be_sha b) sa) (AllowWrite (be_sha b) sa) (asked c E st dr op 0 T)))"
    by (simp add: g the_verdict_def the_grant_def static_grant_def t p Let_def)
qed

lemmas lease_rules = check_def lease_auth_def verdict_of_def

lemma law_live_lease:
  assumes "state n w now nm H" "path_name probe" "now \<le> T" "T \<le> now + Minute" "lv = suite_Lease sign E [probe] [c2s] [s2c] (now - Minute) (now + 10 * Minute) 0"
  shows "the_verdict T lv E probe s2c OpWrite = '''' \<and> the_verdict T lv E probe c2s OpRead = '''' \<and>
    the_verdict T lv E probe c2s OpWrite \<noteq> '''' \<and> (st' \<noteq> probe \<longrightarrow> the_verdict T lv E st' s2c OpWrite \<noteq> '''')"
proof -
  let ?nb = "now - Minute" and ?ex = "now + 10 * Minute"
  note f = state_facts [OF assms(1)] and lg = lease_grant(1) [OF assms(1) _ _ _ _ _ _ assms(5) [unfolded suite_Lease_text] refl, of T]
    and trim = lease_grant(2) [OF assms(1) _ _ _ _ _ _ assms(5) [unfolded suite_Lease_text] refl]
  have lv: "lv \<noteq> ''''" "TrimSpace lv = lv" using trim assms(2) by (simp_all add: assms(5) suite_Lease_text duration_defs)
  have "\<not> match (lookup_or zero_digest (sa_control sa) e) (be_sha b lv)" "\<not> match (lookup_or zero_digest (sa_station sa) e) (be_sha b lv)" for e
    using no_token [of now, folded assms(5)] f by (auto simp: match_iff lookup_or_def ran_def split: option.splits)
  then have "\<not> AllowRead (be_sha b) sa lv e s d" "\<not> AllowWrite (be_sha b) sa lv e s d" for e s d
    by (simp_all add: AllowRead_def AllowWrite_def)
  then have plain: "verdict_of (authAdapter_Admit (AllowRead (be_sha b) sa) (AllowWrite (be_sha b) sa) (asked lv E st dr op 0 T)) = ReasonBadCredential" for st dr op
    unfolding authAdapter_Admit_def asked_sel lv using lv(1) by (simp add: verdict_of_def Let_def)
  have "probe \<noteq> ''''" "E \<noteq> ''''" using assms(2) estate_nonempty by simp_all
  moreover have "\<not> T < whole ?nb" "T < whole ?ex" "\<not> MaxAuthorityLife < time_sub (whole ?ex) (whole ?nb)"
    using whole_bounds [of ?nb] whole_bounds [of ?ex] assms(3,4) by (simp_all add: duration_defs short_life)
  ultimately show ?thesis
    using lg plain assms(2) key genuine any_relay not_revoked by (simp add: lease_rules permits_def validDir_def duration_defs)
qed

lemma law_expired_lease:
  assumes "state n w now nm H" "path_name probe" "now \<le> T"
  shows "the_verdict T (suite_Lease sign E [probe] [c2s] [s2c] (now - 20 * Minute) (now - 10 * Minute) 0) E probe s2c OpWrite = ReasonAuthorityExpired"
proof -
  let ?nb = "now - 20 * Minute" and ?ex = "now - 10 * Minute"
  have "\<not> T < whole ?nb" "\<not> T < whole ?ex" "\<not> MaxAuthorityLife < time_sub (whole ?ex) (whole ?nb)"
    using whole_bounds [of ?nb] whole_bounds [of ?ex] assms(3) by (simp_all add: duration_defs short_life)
  moreover note lease_grant(1) [OF assms(1) _ _ _ _ _ _ suite_Lease_text refl, of "[probe]" "[c2s]" "[s2c]" ?nb ?ex T sign]
  ultimately show ?thesis
    using assms(2) key genuine any_relay by (simp add: lease_rules duration_defs)
qed

lemma law_forged:
  assumes "state n w now nm H" "path_name probe"
  shows "the_verdict T (suite_Lease no_signature E [probe] [c2s] [s2c] (now - Minute) (now + 10 * Minute) 0) E probe s2c OpWrite = ReasonAuthorityUnverifiable"
proof -
  note f = state_facts [OF assms(1)]
  have "\<not> v (leased_for E probe now) (no_signature (leased_for E probe now))" by (rule other_key) (use f in simp_all)
  then show ?thesis
    using lease_grant(1) [OF assms(1) _ _ _ _ _ _ suite_Lease_text refl, of "[probe]" "[c2s]" "[s2c]" "now - Minute" "now + 10 * Minute" T no_signature] assms(2) key
    by (simp add: check_def verdict_of_def duration_defs)
qed

lemma law_widened:
  assumes "state n w now nm H" "path_name probe"
    "wide = suite_Lease sign E [] [c2s, s2c] [c2s, s2c] (now - Minute) (now + 10 * Minute) 0"
    "lv = suite_Lease sign E [probe] [c2s] [s2c] (now - Minute) (now + 10 * Minute) 0"
  shows "length (split_dots lv) = 3 \<and> the_verdict T (tampered_lease wide (split_dots lv)) E probe c2s OpWrite \<noteq> ''''"
proof -
  let ?wide = "widened E now" and ?live = "leased_for E probe now"
  note f = state_facts [OF assms(1)]
  have "\<not> v ?wide (sign ?live)" by (rule binding) (use f in simp_all)
  moreover have parts: "split_dots lv = [''hl1'', ?live, RawURLEncoding_Encode (sign ?live)]" "split_dots wide = [''hl1'', ?wide, RawURLEncoding_Encode (sign ?wide)]"
    unfolding assms(3,4) suite_Lease_text lease_body_def by (rule lease_credential)+
  then have "tampered_lease wide (split_dots lv) = ''hl1.'' @ ?wide @ ''.'' @ RawURLEncoding_Encode (sign ?live)" by (simp add: tampered_lease_def)
  note lease_grant(1) [OF assms(1) _ _ _ _ _ _ this refl, of T]
  ultimately show ?thesis using parts(1) key by (simp add: check_def verdict_of_def duration_defs)
qed

end

sublocale signed_bench \<subseteq> signed_contract the_lab t state the_verdict sign probe
  apply unfold_locales
  subgoal by (rule harness_signs)
  subgoal by (rule law_live_lease)
  subgoal by (rule law_expired_lease)
  subgoal by (rule law_forged)
  subgoal by (rule law_widened)
  done

section \<open>The run\<close>

lemma Report_passed: "snd (Report name rs) \<longleftrightarrow> passed rs"
  by (auto simp: Report_def Let_def passed_def list_all_iff filter_empty_conv)

lemma digit_path: "d < 36 \<Longrightarrow> path_char (digit_char d)"
proof -
  have "list_all (\<lambda>d. path_char (digit_char d)) [0..<36]" by code_simp
  then show "d < 36 \<Longrightarrow> path_char (digit_char d)" by (simp add: list_all_iff)
qed

lemma show_base_path: "2 \<le> b \<Longrightarrow> b \<le> 36 \<Longrightarrow> list_all path_char (show_base b n)"
proof (induction b n rule: show_base.induct)
  case (1 b n)
  have "n mod b < 36" using 1(2,3) by (metis less_le_trans mod_less_divisor not_numeral_le_zero zero_less_iff_neq_zero)
  then show ?case using 1 by (subst show_base.simps) (auto intro!: digit_path)
qed

lemma show_base_length: "2 \<le> b \<Longrightarrow> n < 2 ^ k \<Longrightarrow> length (show_base b n) \<le> Suc k"
proof (induction k arbitrary: n)
  case (Suc k)
  have "n div b \<le> n div 2" using Suc.prems(1) by (rule div_le_mono2 [rotated]) simp
  also have "\<dots> < 2 ^ k" using Suc.prems(2) by (simp add: less_mult_imp_div_less)
  finally have "length (show_base b (n div b)) \<le> Suc k" using Suc by simp
  then show ?case by (subst show_base.simps) simp
qed (simp add: show_base.simps)

lemma FormatInt_path: "2 \<le> b \<Longrightarrow> b \<le> 36 \<Longrightarrow> list_all path_char (FormatInt b i)"
  using show_base_path by (simp add: FormatInt_def path_char_def Let_def)

lemma epoch_length: "length (FormatInt 36 (wrap64 t)) < 900"
proof -
  have "- (2 ^ 63) \<le> wrap64 t" "wrap64 t < 2 ^ 63" by (simp_all add: wrap64_def)
  then have "nat (wrap64 t) < 2 ^ 64" "nat (- wrap64 t) < 2 ^ 64" by simp_all
  from show_base_length [OF _ this(1), of 36] show_base_length [OF _ this(2), of 36] show ?thesis by (simp add: FormatInt_def)
qed

lemma Run_report:
  assumes "lab_Now l w = (T, w)" "uniq = tg_Station t @ ''-'' @ FormatInt 10 (wrap64 T)"
  shows "snd (Report name (fst (Run l t w))) \<longleftrightarrow> passed (snd (snd (run_state (run_section l t uniq) (w, []))))"
  using assms by (simp add: Report_passed Run_def Let_def split_beta)

text \<open>
  What the report of a run without a failure holds, whatever relay was asked: the checks it has made and what it has skipped.
\<close>

lemma Run_contents:
  assumes "snd (Report name (fst (Run l t w)))"
    and "tg_ControlPlane t = None" "tg_AuthoriserSaw t = None" "\<not> tg_Tenancy t" "tg_SignLease t = Some sign" "tg_OtherEstate t \<noteq> []" "tg_Disrupt t = None"
  shows "set contract_checks \<union> set unattempted \<subseteq> recorded (fst (Run l t w))" "map re_Name (filter re_Skipped (fst (Run l t w))) = unasked"
proof -
  let ?u = "tg_Station t @ ''-'' @ FormatInt 10 (wrap64 (fst (lab_Now l w)))"
  have run: "fst (Run l t w) = snd (snd (run_state (run_section l t ?u) (snd (lab_Now l w), [])))" by (simp add: Run_def Let_def split_beta)
  have "length (split_dots (suite_Lease sign (tg_Estate t) st rd wr nb ex 0)) = 3" for st rd wr nb ex
    unfolding suite_Lease_text lease_body_def lease_credential by simp
  from records_run [OF assms(2-6) this] have "\<exists>more. snd (snd (run_state (run_section l t ?u) (snd (lab_Now l w), []))) = [] @ more \<and>
      (passed more \<longrightarrow> True \<and> set contract_checks \<union> set unattempted \<subseteq> recorded more)"
    unfolding records_def by blast
  with assms(1) show "set contract_checks \<union> set unattempted \<subseteq> recorded (fst (Run l t w))" unfolding run Report_passed by auto
  have "\<exists>more. snd (snd (run_state (run_section l t ?u) (snd (lab_Now l w), []))) = [] @ more \<and> map re_Name (filter re_Skipped more) = unasked"
    using run_skips [OF assms(7)] unfolding skips_def by blast
  then show "map re_Name (filter re_Skipped (fst (Run l t w))) = unasked" unfolding run by auto
qed

lemma uniq_path: "path_name st \<Longrightarrow> uniq = st @ ''-'' @ FormatInt 10 i \<Longrightarrow> path_name uniq"
  using FormatInt_path [of 10 i] by (simp add: path_name_def path_char_def Let_def)

lemma fresh_store:
  obtains nm where "portrays E T (NewStore t0) nm (\<lambda>_. [])"
proof (rule that)
  show "portrays E T (NewStore t0) (\<lambda>i. lease_name (s_epoch (NewStore t0)) (unat (s_leases (NewStore t0) + 1 + of_nat i))) (\<lambda>_. [])"
    using FormatInt_path [of 36] epoch_length by (simp add: portrays_def NewStore_def queue_def)
qed

context relay_bench
begin

lemma fresh_state:
  assumes "sv_store (wo_server w) = NewStore t0" "sv_auth (wo_server w) = a" "valid_utf8 (sv_Version (wo_server w))" "valid_utf8 (sv_Hash (wo_server w))"
    "Hour \<le> wo_now w" "wo_now w + 240 * Minute \<le> horizon"
  obtains nm where "state 120 w (wo_now w) nm (\<lambda>_. [])"
proof -
  obtain nm where k: "portrays E (wo_now w) (NewStore t0) nm (\<lambda>_. [])" by (rule fresh_store)
  show thesis by (rule that [of nm]) (use assms k in \<open>simp add: bench_state_def\<close>)
qed

lemma suite_reports:
  assumes "path_name (tg_Station t)" "uniq = tg_Station t @ ''-'' @ FormatInt 10 (wrap64 (wo_now w))" "sv_store (wo_server w) = NewStore t0"
    and "sv_auth (wo_server w) = a" "valid_utf8 (sv_Version (wo_server w))" "valid_utf8 (sv_Hash (wo_server w))"
    and "Hour \<le> wo_now w" "wo_now w + 240 * Minute \<le> horizon" "tg_ControlPlane t = None" "tg_AuthoriserSaw t = None" "\<not> tg_Tenancy t"
    and signed: "passes state 12 {uniq @ ''-leased''} {uniq @ ''-leased''} (signed_section the_lab t uniq)"
  shows "snd (Report name (fst (Run the_lab t w)))"
proof -
  obtain nm where s: "state 120 w (wo_now w) nm (\<lambda>_. [])" by (rule fresh_state [OF assms(3-8)])
  show ?thesis
    unfolding Run_report [OF law_clock [OF s] assms(2)]
    by (rule conformant [OF uniq_path [OF assms(1,2)] s _ _ assms(9-11) signed]) simp_all
qed

end

context signed_bench
begin

lemma signed_passes:
  assumes "path_name (uniq @ ''-leased'')" "path_name (uniq @ ''-elsewhere'')" "probe = uniq @ ''-leased''"
  shows "passes state 12 {uniq @ ''-leased''} {uniq @ ''-leased''} (signed_section the_lab t uniq)"
  using passes_more [OF signed_section_passes [OF assms] bench_fewer, of 4] by simp

end

section \<open>The command and the configuration it documents\<close>

definition envOr :: "(string \<Rightarrow> string) \<Rightarrow> string \<Rightarrow> string \<Rightarrow> string" where
  "envOr getenv k def = (if getenv k \<noteq> '''' then getenv k else def)"

text \<open>
  The target of the command's \<^verbatim>\<open>main\<close>, when it is given neither a control plane to run nor a command that restarts the relay. With these levers
  the command runs four sections more; that part of \<^verbatim>\<open>main\<close> is not modelled.
\<close>

definition conformance_target :: "(string \<Rightarrow> string) \<Rightarrow> string \<Rightarrow> (string \<Rightarrow> bytes) \<Rightarrow> world target" where
  "conformance_target getenv base sign =
     \<lparr>tg_BaseURL = base, tg_Estate = ''e1'', tg_Station = ''st1'', tg_Control = envOr getenv ''HELIOGRAPH_CONF_CONTROL'' ''ctl'',
      tg_StationTok = envOr getenv ''HELIOGRAPH_CONF_STATION'' ''stn'', tg_OtherEstate = ''e2'',
      tg_OtherControl = envOr getenv ''HELIOGRAPH_CONF_CONTROL2'' ''other-ctl'', tg_ControlPlane = None, tg_Tenancy = False, tg_SignLease = Some sign,
      tg_AuthoriserSaw = None, tg_Disrupt = None\<rparr>"

text \<open>The relay under test as the command's usage asks for it: two estates, and the published key of the harness.\<close>

definition published_key :: string where
  "published_key = ''79b5562e8fe654f94078b112e8a98ba7901f853ae695bed7e0e3910bad049664''"

definition contract_key :: bytes where
  "contract_key = (case hex_decode published_key of Some k \<Rightarrow> k | None \<Rightarrow> '''')"

definition contract_environ :: environ where
  "contract_environ = \<lparr>ev_ESTATES = ''e1:ctl:stn,e2:other-ctl:other-stn'', ev_AUTHORISER = '''', ev_STATIONS = '''', ev_HOSTED = '''',
     ev_LEASE_KEY = published_key, ev_SPOOL = ''''\<rparr>"

definition contract_tokens :: "sha \<Rightarrow> static_auth" where
  "contract_tokens sha = \<lparr>sa_control = [(''e1'', sha ''ctl''), (''e2'', sha ''other-ctl'')], sa_station = [(''e1'', sha ''stn''), (''e2'', sha ''other-stn'')]\<rparr>"

definition contract_auth :: "sha \<Rightarrow> verifier option \<Rightarrow> inner_auth authority_auth" where
  "contract_auth sha v = \<lparr>aa_Inner = InnerStatic (contract_tokens sha), aa_Verify = v, aa_Audience = '''', aa_epoch = [], aa_watchers = [], aa_chans = 0\<rparr>"

lemma contract_estates: "parse_estates sha ''e1:ctl:stn,e2:other-ctl:other-stn'' = Inr (contract_tokens sha)"
  by code_simp

lemma contract_key_parses: "ParseEd25519PublicKey published_key = Inr contract_key" "length contract_key = PublicKeySize" "TrimSpace published_key = published_key"
  by code_simp+

lemma contract_configured:
  "configure ed sha contract_environ = Inr (\<lparr>wr_hosted = False, wr_leases = contract_auth sha (Some (Ed25519Verifier ed contract_key))\<rparr>, 2)"
  "configure ed sha (contract_environ\<lparr>ev_LEASE_KEY := ''''\<rparr>) = Inr (\<lparr>wr_hosted = False, wr_leases = contract_auth sha None\<rparr>, 2)"
proof -
  have t: "TrimSpace '''' = ''''" "\<not> truthy ''''" "length (split_on (CHR '','') ''e1:ctl:stn,e2:other-ctl:other-stn'') = 2"
    "TrimSpace ''e1:ctl:stn,e2:other-ctl:other-stn'' \<noteq> ''''" "published_key \<noteq> ''''"
    by code_simp+
  show "configure ed sha contract_environ = Inr (\<lparr>wr_hosted = False, wr_leases = contract_auth sha (Some (Ed25519Verifier ed contract_key))\<rparr>, 2)"
    "configure ed sha (contract_environ\<lparr>ev_LEASE_KEY := ''''\<rparr>) = Inr (\<lparr>wr_hosted = False, wr_leases = contract_auth sha None\<rparr>, 2)"
    unfolding configure_def wrap_def contract_environ_def Let_def environ.simps contract_estates
    by (simp_all only: t contract_key_parses contract_auth_def) (simp_all add: t contract_key_parses contract_auth_def)
qed

lemma contract_served:
  "serve ver hash io t0 (contract_environ\<lparr>ev_LEASE_KEY := k\<rparr>) d a = Inr (newServer ver hash (NewStore t0) d a)"
proof -
  have "TrimSpace '''' = ''''" by code_simp
  then show ?thesis by (simp add: serve_def open_store_def contract_environ_def)
qed

lemma newServer_sel:
  "sv_store (newServer ver hash st d a) = st" "sv_auth (newServer ver hash st d a) = a" "sv_Version (newServer ver hash st d a) = ver" "sv_Hash (newServer ver hash st d a) = hash"
  by (simp_all add: newServer_def NewAuthorisingServer_def)

text \<open>What is asked of the hash: it tells the tokens of the configuration and the suite's wrong one apart.\<close>

definition tokens_apart :: "sha \<Rightarrow> bool" where
  "tokens_apart sha \<longleftrightarrow> distinct (zero_digest # map sha [''ctl'', ''stn'', ''other-ctl'', ''other-stn'', wrong_token])"

lemma contract_bench:
  assumes "t = conformance_target (\<lambda>_. '''') base sign" "tokens_apart (be_sha b)" "\<not> be_hosted b"
    "\<forall>T. \<bar>zone (be_wire b) T\<bar> < 86400" "\<forall>q T. 0 \<le> be_lag b q T \<and> be_lag b q T \<le> slack" "v = None \<or> v = Some (Ed25519Verifier ed pub)"
  shows "relay_bench b t (contract_auth (be_sha b) v) (contract_tokens (be_sha b))"
proof
  have tg: "tg_Estate t = ''e1''" "tg_Control t = ''ctl''" "tg_StationTok t = ''stn''" "tg_OtherEstate t = ''e2''" "tg_Disrupt t = None"
    by (simp_all add: assms(1) conformance_target_def envOr_def)
  show "path_name (tg_Estate t)" unfolding tg by code_simp
  show "plain_token (tg_Control t)" "plain_token (tg_StationTok t)" unfolding tg plain_token_def by code_simp+
  show "\<not> be_hosted b" by (rule assms)
  show "\<bar>zone (be_wire b) T\<bar> < 86400" for T using assms(4) by blast
  show "0 \<le> be_lag b q T \<and> be_lag b q T \<le> slack" for q T using assms(5) by blast
  show "tg_Disrupt t = None" by (rule tg)
  show "aa_Inner (contract_auth (be_sha b) v) = InnerStatic (contract_tokens (be_sha b))" by (simp add: contract_auth_def)
  have "path_name ''e2''" by code_simp
  then show "path_name (tg_OtherEstate t) \<and> {be_sha b (tg_Control t), be_sha b (tg_StationTok t)} \<inter>
      set (map (\<lambda>m. lookup_or zero_digest m (tg_OtherEstate t)) [sa_control (contract_tokens (be_sha b)), sa_station (contract_tokens (be_sha b))]) = {}"
    using assms(2) by (auto simp: tg tokens_apart_def contract_tokens_def lookup_or_def)
  show "\<not> w forged_payload ''not-a-signature''" if "aa_Verify (contract_auth (be_sha b) v) = Some w" for w
    using that assms(6) by (auto simp: contract_auth_def Ed25519Verifier_def SignatureSize_def)
qed (use assms(2) in \<open>auto simp: assms(1) conformance_target_def envOr_def tokens_apart_def contract_tokens_def\<close>)

text \<open>What is asked of the signature scheme and the hash on the leases the suite presents.\<close>

definition scheme_holds :: "ed25519 \<Rightarrow> sha \<Rightarrow> (string \<Rightarrow> bytes) \<Rightarrow> string \<Rightarrow> bool" where
  "scheme_holds ed sha sign probe \<longleftrightarrow>
     (\<forall>p. ed contract_key p (sign p) \<and> length (sign p) = 64) \<and>
     (\<forall>T. Hour \<le> T \<and> T \<le> horizon \<longrightarrow>
        \<not> ed contract_key (leased_for ''e1'' probe T) (no_signature (leased_for ''e1'' probe T)) \<and>
        \<not> ed contract_key (widened ''e1'' T) (sign (leased_for ''e1'' probe T)) \<and>
        sha (suite_Lease sign ''e1'' [probe] [c2s] [s2c] (T - Minute) (T + 10 * Minute) 0) \<notin> sha ` {''ctl'', ''stn'', ''other-ctl'', ''other-stn''})"

lemma contract_signed_bench:
  assumes "t = conformance_target (\<lambda>_. '''') base sign" "tokens_apart (be_sha b)" "\<not> be_hosted b"
    "\<forall>T. \<bar>zone (be_wire b) T\<bar> < 86400" "\<forall>q T. 0 \<le> be_lag b q T \<and> be_lag b q T \<le> slack" "scheme_holds ed (be_sha b) sign probe"
  shows "signed_bench b t (contract_auth (be_sha b) (Some (Ed25519Verifier ed contract_key))) (contract_tokens (be_sha b)) sign (Ed25519Verifier ed contract_key) probe"
proof -
  let ?v = "Ed25519Verifier ed contract_key"
  have rb: "relay_bench b t (contract_auth (be_sha b) (Some ?v)) (contract_tokens (be_sha b))" by (rule contract_bench [OF assms(1-5)]) simp
  have v: "?v = (\<lambda>p s. length s = 64 \<and> ed contract_key p s)" using contract_key_parses(2) by (simp add: Ed25519Verifier_def SignatureSize_def fun_eq_iff)
  have known: "ran (map_of (sa_control (contract_tokens sha))) \<union> ran (map_of (sa_station (contract_tokens sha))) = sha ` {''ctl'', ''stn'', ''other-ctl'', ''other-stn''}" for sha
    by (simp add: contract_tokens_def ran_distinct del: map_of.simps) blast
  have tg: "tg_Estate t = ''e1''" "tg_SignLease t = Some sign" by (simp_all add: assms(1) conformance_target_def)
  have sc: "ed contract_key p (sign p)" "length (sign p) = 64" for p using assms(6) by (simp_all add: scheme_holds_def)
  have probed: "\<not> ed contract_key (leased_for ''e1'' probe T) (no_signature (leased_for ''e1'' probe T))"
    "\<not> ed contract_key (widened ''e1'' T) (sign (leased_for ''e1'' probe T))"
    "be_sha b (suite_Lease sign ''e1'' [probe] [c2s] [s2c] (T - Minute) (T + 10 * Minute) 0) \<notin> be_sha b ` {''ctl'', ''stn'', ''other-ctl'', ''other-stn''}"
    if "Hour \<le> T" "T \<le> horizon" for T using assms(6) that unfolding scheme_holds_def by blast+
  have ax: "signed_bench_axioms b t (contract_auth (be_sha b) (Some ?v)) (contract_tokens (be_sha b)) sign ?v probe"
  proof (rule signed_bench_axioms.intro)
    show "tg_SignLease t = Some sign" by (rule tg)
    show "aa_Verify (contract_auth (be_sha b) (Some ?v)) = Some ?v" "aa_Audience (contract_auth (be_sha b) (Some ?v)) = ''''"
      "Epoch (contract_auth (be_sha b) (Some ?v)) (tg_Estate t) \<le> 0" by (simp_all add: contract_auth_def Epoch_def)
    show "?v p (sign p)" for p unfolding v using sc by simp
    fix T
    assume T: "Hour \<le> T" "T \<le> horizon"
    show "\<not> ?v (leased_for (tg_Estate t) probe T) (no_signature (leased_for (tg_Estate t) probe T))" "\<not> ?v (widened (tg_Estate t) T) (sign (leased_for (tg_Estate t) probe T))"
      unfolding v tg using probed(1,2) [OF T] by blast+
    show "be_sha b (suite_Lease sign (tg_Estate t) [probe] [c2s] [s2c] (T - Minute) (T + 10 * Minute) 0) \<notin>
        ran (map_of (sa_control (contract_tokens (be_sha b)))) \<union> ran (map_of (sa_station (contract_tokens (be_sha b))))"
      unfolding known tg by (rule probed(3) [OF T])
  qed
  show ?thesis by (rule signed_bench.intro [OF rb ax])
qed

section \<open>Properties\<close>

text \<open>
  Property C3. The Go relay passes every check of its conformance suite that needs no lever of the harness. Take the binary configured
  as the command's usage asks (the estates \<^verbatim>\<open>e1\<close> and \<^verbatim>\<open>e2\<close> with their tokens, the harness's published key, no spool), started on an empty
  store, any bench whose answers take at most a tenth of a second each, and the command run with neither a control plane, nor tenancy, nor a restart command. Then

  \<^item> no check fails, and each of the checks named in \<open>contract_checks\<close> has been made and has passed: health and identity, delivery, the direction split,
    credentials and reasons, forged and signed leases, routes, bodies, order, long polls and leased collection;
  \<^item> the sections that ask for the authoriser's outage, for what it is sent of a body and for the isolation of tenants are not run: in the place of each the suite
    records a pass whose name begins with SKIPPED;
  \<^item> exactly the two assertions of durability are recorded as skipped.

  Assumed of SHA-256: that it tells the tokens apart, and no lease the suite mints from a token. Assumed of Ed25519, on those leases: that it verifies
  the signer's signatures, and neither the payload used as its own signature nor the signature of another payload.
\<close>

theorem relay_conforms:
  assumes "configure ed (be_sha b) contract_environ = Inr (wi, n)" "serve ver hash io t0 contract_environ d (wr_leases wi) = Inr s"
    and "be_hosted b = wr_hosted wi" "valid_utf8 ver" "valid_utf8 hash"
    and "\<forall>T. \<bar>zone (be_wire b) T\<bar> < 86400" "\<forall>q T. 0 \<le> be_lag b q T \<and> be_lag b q T \<le> slack"
    and "Hour \<le> now" "now + 240 * Minute \<le> horizon" "t = conformance_target (\<lambda>_. '''') base sign"
    and "tokens_apart (be_sha b)" "scheme_holds ed (be_sha b) sign (''st1-'' @ FormatInt 10 (wrap64 now) @ ''-leased'')"
  shows "let rs = fst (Run (bench_lab b (base_url t)) t \<lparr>wo_server = s, wo_now = now\<rparr>)
    in snd (Report name rs) \<and> set contract_checks \<subseteq> recorded rs \<and> set unattempted \<subseteq> recorded rs \<and>
       map re_Name (filter re_Skipped rs) = unasked"
proof -
  let ?rs = "fst (Run (bench_lab b (base_url t)) t \<lparr>wo_server = s, wo_now = now\<rparr>)"
  let ?v = "Ed25519Verifier ed contract_key" and ?u = "''st1-'' @ FormatInt 10 (wrap64 now)"
  let ?a = "contract_auth (be_sha b) (Some ?v)" and ?probe = "''st1-'' @ FormatInt 10 (wrap64 now) @ ''-leased''"
  have wi: "wr_leases wi = ?a" "\<not> be_hosted b" using assms(1,3) by (auto simp: contract_configured)
  have s: "s = newServer ver hash (NewStore t0) d ?a"
    using assms(2) contract_served [of ver hash io t0 published_key d ?a] by (simp add: wi contract_environ_def)
  note sb = contract_signed_bench [OF assms(10,11) wi(2) assms(6,7,12)]
  have tg: "tg_Station t = ''st1''" "tg_ControlPlane t = None" "tg_AuthoriserSaw t = None" "\<not> tg_Tenancy t" "tg_SignLease t = Some sign"
    "tg_OtherEstate t \<noteq> []" "tg_Disrupt t = None"
    by (simp_all add: assms(10) conformance_target_def)
  have "path_name ''st1''" "list_all (list_all path_char) [''st1-'', ''-leased'', ''-elsewhere'']" by code_simp+
  then have n: "path_name (tg_Station t)" "path_name (?u @ ''-leased'')" "path_name (?u @ ''-elsewhere'')"
    using FormatInt_path [of 10] by (simp_all add: tg path_name_def)
  have "passes (bench_state ?a (tg_Estate t)) 12 {?u @ ''-leased''} {?u @ ''-leased''} (signed_section (bench_lab b (base_url t)) t ?u)"
    by (rule signed_bench.signed_passes [OF sb n(2,3)]) simp
  then have rep: "snd (Report name ?rs)"
    by (intro relay_bench.suite_reports [OF signed_bench.axioms(1) [OF sb] n(1), of ?u _ t0]) (use assms(4,5,8,9) tg in \<open>simp_all add: s newServer_sel\<close>)
  show ?thesis using rep Run_contents [OF rep tg(2-7)] by (simp add: Let_def)
qed

text \<open>A scheme, a hash and a bench that meet the assumptions.\<close>

definition sample_sign :: "string \<Rightarrow> bytes" where
  "sample_sign p = replicate 63 (CHR ''!'') @
     [case ParseAuthority (''hl1.'' @ p @ ''.'') of Inl _ \<Rightarrow> CHR ''x'' | Inr (au, _) \<Rightarrow> if sc_Stations (a_Scope au) = [] then CHR ''w'' else CHR ''l'']"

definition sample_ed :: ed25519 where "sample_ed pub p sg \<longleftrightarrow> sg = sample_sign p"

definition sample_bench :: bench where
  "sample_bench = \<lparr>be_sha = sample_sha, be_post = (\<lambda>_. None), be_hosted = False, be_wire = \<lparr>zone = (\<lambda>_. 3600), nil_body = (\<lambda>_. False)\<rparr>,
     be_oor = (\<lambda>_. 0), be_io = io_fine, be_lag = (\<lambda>_ _. 20 * Millisecond)\<rparr>"

definition sample_target :: "world target" where "sample_target = conformance_target (\<lambda>_. '''') ''http://127.0.0.1:8080'' sample_sign"

definition sample_now :: time where "sample_now = 1700000000 * Second"

lemma not_its_own_signature: "no_signature (RawURLEncoding_Encode x) \<noteq> sample_sign p"
proof
  assume "no_signature (RawURLEncoding_Encode x) = sample_sign p"
  then have "hd (no_signature (RawURLEncoding_Encode x)) = CHR ''!''" by (simp add: sample_sign_def numeral_eq_Suc)
  moreover have "CHR ''!'' \<notin> set (RawURLEncoding_Encode x)" using b64_encode_chars [of True False x] by (auto simp: b64_alphabet_def)
  ultimately show False by (cases "RawURLEncoding_Encode x") (simp_all add: no_signature_def numeral_eq_Suc)
qed

lemma sample_signs_stations:
  assumes "path_name e" "list_all path_name sts" "rd = [c2s] \<and> wr = [s2c] \<or> rd = [c2s, s2c] \<and> wr = [c2s, s2c]" "Hour \<le> T" "T \<le> horizon"
  shows "last (sample_sign (lease_body e sts rd wr (T - Minute) (T + 10 * Minute))) = (if sts = [] then CHR ''w'' else CHR ''l'')"
proof -
  have "RawURLEncoding_Encode '''' = ''''" by code_simp
  then show ?thesis
    using suite_lease_parse [of e sts rd wr "T - Minute" "T + 10 * Minute" "''''"] assms path_valid a_dir_path
    by (auto simp: sample_sign_def lease_auth_def list_all_iff a_dir_def duration_defs)
qed

lemma sample_scheme:
  assumes "path_name probe"
  shows "scheme_holds sample_ed sample_sha sample_sign probe"
  unfolding scheme_holds_def sample_ed_def
proof (intro conjI allI impI)
  show "length (sample_sign p) = 64" for p by (simp add: sample_sign_def)
  fix T
  assume T: "Hour \<le> T \<and> T \<le> horizon"
  show "no_signature (leased_for ''e1'' probe T) \<noteq> sample_sign (leased_for ''e1'' probe T)" unfolding lease_body_def by (rule not_its_own_signature)
  have "path_name ''e1''" by code_simp
  then have "last (sample_sign (leased_for ''e1'' probe T)) = CHR ''l''" "last (sample_sign (widened ''e1'' T)) = CHR ''w''"
    using sample_signs_stations [of "''e1''" "[probe]" "[c2s]" "[s2c]" T] sample_signs_stations [of "''e1''" "[]" "[c2s, s2c]" "[c2s, s2c]" T] assms T by simp_all
  then show "sample_sign (leased_for ''e1'' probe T) \<noteq> sample_sign (widened ''e1'' T)" by auto
  show "sample_sha (suite_Lease sample_sign ''e1'' [probe] [c2s] [s2c] (T - Minute) (T + 10 * Minute) 0) \<notin> sample_sha ` {''ctl'', ''stn'', ''other-ctl'', ''other-stn''}"
    unfolding suite_Lease_text by (auto simp: sample_sha_def numeral_eq_Suc)
qed simp

lemma sample_conditions:
  "tokens_apart sample_sha" "\<bar>zone (be_wire sample_bench) T\<bar> < 86400" "0 \<le> be_lag sample_bench q T \<and> be_lag sample_bench q T \<le> slack"
  "be_sha sample_bench = sample_sha" "\<not> be_hosted sample_bench" "path_name (''st1-'' @ FormatInt 10 (wrap64 sample_now) @ ''-leased'')"
proof -
  show "tokens_apart sample_sha" by code_simp
  have "list_all path_char ''st1-''" "list_all path_char ''-leased''" by code_simp+
  then show "path_name (''st1-'' @ FormatInt 10 (wrap64 sample_now) @ ''-leased'')" using FormatInt_path [of 10] by (simp add: path_name_def)
qed (simp_all add: sample_bench_def slack_def duration_defs)

interpretation contract_relay: signed_bench sample_bench sample_target "contract_auth (be_sha sample_bench) (Some (Ed25519Verifier sample_ed contract_key))"
  "contract_tokens (be_sha sample_bench)" sample_sign "Ed25519Verifier sample_ed contract_key" "''st1-'' @ FormatInt 10 (wrap64 sample_now) @ ''-leased''"
  by (rule contract_signed_bench [OF sample_target_def])
    (use sample_conditions sample_scheme [OF sample_conditions(6)] in \<open>simp_all only: simp_thms\<close>)

theorem relay_conforms_witness:
  "let rs = fst (Run (bench_lab sample_bench (base_url sample_target)) sample_target
     \<lparr>wo_server = newServer ''v1'' ''f00d'' (NewStore 0) \<lparr>vol = [], dur = []\<rparr> (contract_auth sample_sha (Some (Ed25519Verifier sample_ed contract_key))), wo_now = sample_now\<rparr>)
   in snd (Report ''go'' rs) \<and> set contract_checks \<subseteq> recorded rs \<and> set unattempted \<subseteq> recorded rs \<and> map re_Name (filter re_Skipped rs) = unasked"
proof (rule relay_conforms [OF _ _ _ _ _ _ _ _ _ sample_target_def])
  let ?wi = "\<lparr>wr_hosted = False, wr_leases = contract_auth sample_sha (Some (Ed25519Verifier sample_ed contract_key))\<rparr>"
  show "configure sample_ed (be_sha sample_bench) contract_environ = Inr (?wi, 2)" by (simp only: sample_conditions(4) contract_configured(1))
  show "serve ''v1'' ''f00d'' io_fine 0 contract_environ \<lparr>vol = [], dur = []\<rparr> (wr_leases ?wi) =
      Inr (newServer ''v1'' ''f00d'' (NewStore 0) \<lparr>vol = [], dur = []\<rparr> (contract_auth sample_sha (Some (Ed25519Verifier sample_ed contract_key))))"
    using contract_served [of "''v1''" "''f00d''" io_fine 0 published_key "\<lparr>vol = [], dur = []\<rparr>" "wr_leases ?wi"] by (simp add: contract_environ_def)
  show "be_hosted sample_bench = wr_hosted ?wi" using sample_conditions(5) by simp
  show "valid_utf8 ''v1''" "valid_utf8 ''f00d''" by (rule valid_utf8_ascii; simp add: in_range_def)+
  show "\<forall>T. \<bar>zone (be_wire sample_bench) T\<bar> < 86400" "\<forall>q T. 0 \<le> be_lag sample_bench q T \<and> be_lag sample_bench q T \<le> slack"
    using sample_conditions(2,3) by blast+
  show "Hour \<le> sample_now" "sample_now + 240 * Minute \<le> horizon" by (simp_all add: sample_now_def horizon_def duration_defs)
  show "tokens_apart (be_sha sample_bench)" "scheme_holds sample_ed (be_sha sample_bench) sample_sign (''st1-'' @ FormatInt 10 (wrap64 sample_now) @ ''-leased'')"
    unfolding sample_conditions(4) by (rule sample_conditions(1), rule sample_scheme [OF sample_conditions(6)])
qed

end
