(* ===== verification/Relay_Reported.thy ===== *)
theory Relay_Reported
  imports Relay_Certified
begin

text \<open>
  A failed check is reported, since no part of the suite takes back what an earlier part recorded (\<open>grows\<close>): the same relay without the lease key
  configured fails its run.
\<close>

section \<open>A part that fails\<close>

text \<open>A part that fails in every state it may be started in, what runs after it, and what runs before it.\<close>

definition fails ::
  "(nat \<Rightarrow> 'w \<Rightarrow> time \<Rightarrow> (nat \<Rightarrow> string) \<Rightarrow> queues \<Rightarrow> bool) \<Rightarrow> nat \<Rightarrow> string set \<Rightarrow> ('w, 'a) act \<Rightarrow> bool" where
  "fails state n R m \<longleftrightarrow> (\<forall>b w T nm H out. state (n + b) w T nm H \<and> (\<forall>s \<in> R. \<forall>d. H (s, d) = []) \<and> passed out \<longrightarrow>
     \<not> passed (snd (snd (run_state m (w, out)))))"

lemma failsD:
  "fails state n R m \<Longrightarrow> state (n + b) w T nm H \<Longrightarrow> (\<And>s d. s \<in> R \<Longrightarrow> H (s, d) = []) \<Longrightarrow> passed out \<Longrightarrow> \<not> passed (snd (snd (run_state m (w, out))))"
  unfolding fails_def by blast

lemma fails_then:
  assumes "fails state n R m" "\<And>x. grows UNIV (f x)"
  shows "fails state n R (m \<bind> f)"
  unfolding fails_def
proof (intro allI impI)
  fix b w T nm H and out :: "check_result list"
  assume s: "state (n + b) w T nm H \<and> (\<forall>s \<in> R. \<forall>d. H (s, d) = []) \<and> passed out"
  obtain x w1 out1 where 1: "run_state m (w, out) = (x, (w1, out1))" by (metis prod.exhaust)
  have "\<not> passed out1" using assms(1) s 1 unfolding fails_def by (metis snd_conv)
  then show "\<not> passed (snd (snd (run_state (m \<bind> f) (w, out))))" using grows_failed [OF assms(2)] 1 by simp
qed

lemma passes_then_fails:
  assumes "passes state n R S m" "fails state n' R' m'" "S \<inter> R' = {}"
  shows "fails state (n + n') (R \<union> R') (m \<bind> (\<lambda>_. m'))"
  unfolding fails_def
proof (intro allI impI)
  fix b w T nm H and out :: "check_result list"
  assume s: "state (n + n' + b) w T nm H \<and> (\<forall>s \<in> R \<union> R'. \<forall>d. H (s, d) = []) \<and> passed out"
  obtain w1 out1 x where 1: "run_state m (w, out) = (x, (w1, out1))" by (metis prod.exhaust)
  have "finishes (state (n' + b)) S H (run_state m (w, out))" by (rule passesD [OF assms(1)]) (use s in \<open>auto simp: add.assoc\<close>)
  then obtain T1 nm1 H1 where 2: "state (n' + b) w1 T1 nm1 H1" "\<And>s d. s \<notin> S \<Longrightarrow> H1 (s, d) = H (s, d)" "passed out1"
    by (auto simp: 1 finishes_def)
  then have "H1 (s, d) = []" if "s \<in> R'" for s d using s assms(3) that by (metis IntI UnCI empty_iff)
  then have "\<not> passed (snd (snd (run_state m' (w1, out1))))" using assms(2) 2(1,3) unfolding fails_def by blast
  then show "\<not> passed (snd (snd (run_state (m \<bind> (\<lambda>_. m')) (w, out))))" using 1 by simp
qed

lemma failed_check:
  assumes "does m w (c, y) w'" "\<not> P c" "grows UNIV (g c y)"
  shows "\<not> passed (snd (snd (run_state (m \<bind> (\<lambda>(c, y). ok n (P c) \<bind> (\<lambda>_. g c y))) (w, out))))"
proof -
  have "\<not> passed (out @ [\<lparr>re_Name = n, re_OK = P c, re_Skipped = False\<rparr>])" using assms(2) by simp
  from grows_failed [OF assms(3) this, of w'] show ?thesis using does_run [OF assms(1)] by simp
qed

section \<open>A relay without the lease key\<close>

context relay_bench
begin

lemma unsigned_section_fails:
  assumes "aa_Verify a = None" "tg_SignLease t = Some sign" "path_name (uniq @ ''-leased'')"
  shows "fails state 1 {} (signed_section the_lab t uniq)"
  unfolding fails_def
proof (intro allI impI)
  fix n w T nm H and out :: "check_result list"
  assume "state (1 + n) w T nm H \<and> (\<forall>s \<in> {}. \<forall>d. H (s, d) = []) \<and> passed out"
  then have s: "state (Suc n) w T nm H" by simp
  note f = state_facts [OF s]
  let ?lease = "suite_Lease sign E [uniq @ ''-leased''] [c2s] [s2c] (T - Minute) (T + 10 * Minute) 0"
  let ?body = "leased_for E (uniq @ ''-leased'') T"
  have p: "ParseAuthority ?lease = Inr (lease_auth E [uniq @ ''-leased''] [c2s] [s2c] (T - Minute) (T + 10 * Minute), \<lparr>sg_payload = ?body, sg_signature = sign ?body\<rparr>)"
    unfolding suite_Lease_text by (rule suite_lease_parse) (use path_valid [OF estate] path_valid a_dir_path assms(3) f in \<open>auto simp: a_dir_def duration_defs\<close>)
  have t: "TrimSpace ?lease = ?lease" unfolding suite_Lease_text lease_body_def by (rule lease_credential)
  have v: "the_verdict T ?lease E (uniq @ ''-leased'') s2c OpWrite = ReasonAuthorityUnverifiable"
    by (simp add: the_verdict_def the_grant_def static_grant_def t p Let_def check_def assms(1) verdict_of_def)
  have d: "a_dir s2c" by (simp add: a_dir_def)
  obtain w' T' x where D: "does (putR the_lab t E (uniq @ ''-leased'') s2c ?lease 1 ''status'') w x w'" "refused ReasonAuthorityUnverifiable x"
    using law_put_refused [OF s estate assms(3) d v, of 1 "''status''"] by auto
  then have c: "fst x \<noteq> 202" by (simp add: refused_def reason_status_def)
  have D': "does (putR the_lab t E (uniq @ ''-leased'') s2c ?lease 1 ''status'') w (fst x, snd x) w'" using D(1) by simp
  show "\<not> passed (snd (snd (run_state (signed_section the_lab t uniq) (w, out))))"
    unfolding signed_section_def assms(2) option.case Let_def
    by (subst run_state_bind, simp only: run_act law_clock [OF s] fst_conv snd_conv prod.case,
        rule failed_check [OF D', where P = "\<lambda>c. c = 202"], rule c, intro growing)
qed

lemma unsigned_run_fails:
  assumes "path_name uniq" "tg_ControlPlane t = None" "tg_AuthoriserSaw t = None" "\<not> tg_Tenancy t" "aa_Verify a = None" "tg_SignLease t = Some sign"
  shows "fails state 21 {uniq, uniq @ ''-dotted''} (run_section the_lab t uniq)"
proof -
  note u = assms(1)
  have "list_all (list_all path_char) [''-lease'', ''-dotted'', ''-leased'']" by code_simp
  then have n: "path_name (uniq @ ''-lease'')" "path_name (uniq @ ''-dotted'')" "path_name (uniq @ ''-leased'')" using path_suffix [OF u] by simp_all
  have rest: "grows UNIV (route_section the_lab t uniq \<bind> (\<lambda>_. body_section the_lab t uniq \<bind> (\<lambda>_. order_section the_lab t uniq \<bind> (\<lambda>_. poll_section the_lab t uniq \<bind>
      (\<lambda>_. wait_section the_lab t uniq \<bind> (\<lambda>_. leasing the_lab t uniq \<bind> (\<lambda>_. durability the_lab t uniq)))))))"
    by (intro growing subset_UNIV)
  note tail = passes_then_fails [OF unverifiable_section_passes [OF n(1,2)] fails_then [OF unsigned_section_fails [OF assms(5,6) n(3)] rest] Int_empty_right]
  note tail = passes_then_fails [OF levers_passes(1) [OF assms(2), of uniq] passes_then_fails [OF levers_passes(2) [OF assms(3), of uniq]
      passes_then_fails [OF levers_passes(3) [OF assms(4)] tail Int_empty_left] Int_empty_left] Int_empty_left]
  note tail = passes_then_fails [OF credential_section_passes [OF u] passes_then_fails [OF reason_section_passes [OF u] tail Int_empty_left] Int_empty_left]
  note tail = passes_then_fails [OF message_section_passes [OF u] passes_then_fails [OF split_section_passes [OF u] tail Int_empty_left] Int_empty_left]
  note all = passes_then_fails [OF health_section_passes passes_then_fails [OF identity_section_passes tail Int_empty_left] Int_empty_left,
      folded run_section_def]
  then show ?thesis by (simp add: insert_commute Un_commute)
qed

lemma unsigned_suite_reports:
  assumes "path_name (tg_Station t)" "sv_store (wo_server w) = NewStore t0"
    and "sv_auth (wo_server w) = a" "valid_utf8 (sv_Version (wo_server w))" "valid_utf8 (sv_Hash (wo_server w))"
    and "Hour \<le> wo_now w" "wo_now w + 240 * Minute \<le> horizon" "tg_ControlPlane t = None" "tg_AuthoriserSaw t = None" "\<not> tg_Tenancy t"
    and "aa_Verify a = None" "tg_SignLease t = Some sign"
  shows "\<not> snd (Report name (fst (Run the_lab t w)))"
proof -
  obtain nm where s: "state 120 w (wo_now w) nm (\<lambda>_. [])" by (rule fresh_state [OF assms(2-7)])
  then have s': "state (21 + 99) w (wo_now w) nm (\<lambda>_. [])" by simp
  show ?thesis
    unfolding Run_report [OF law_clock [OF s] refl]
    by (rule failsD [OF unsigned_run_fails [OF uniq_path [OF assms(1) refl] assms(8-12)] s']) simp_all
qed

end

section \<open>Properties\<close>

text \<open>
  Property C32. A relay without the lease key is not spared the signed-lease section. The same relay as in \<open>relay_conforms\<close>, started
  without its lease verification key, fails the run of the command: the harness always signs, the first lease it presents is refused, and nothing a later section
  records takes that back. The usage text says that the section is skipped.
\<close>

theorem unsigned_relay_fails:
  assumes "configure ed (be_sha b) (contract_environ\<lparr>ev_LEASE_KEY := ''''\<rparr>) = Inr (wi, n)"
    and "serve ver hash io t0 (contract_environ\<lparr>ev_LEASE_KEY := ''''\<rparr>) d (wr_leases wi) = Inr s"
    and "be_hosted b = wr_hosted wi" "valid_utf8 ver" "valid_utf8 hash"
    and "\<forall>T. \<bar>zone (be_wire b) T\<bar> < 86400" "\<forall>q T. 0 \<le> be_lag b q T \<and> be_lag b q T \<le> slack"
    and "Hour \<le> now" "now + 240 * Minute \<le> horizon" "t = conformance_target (\<lambda>_. '''') base sign" "tokens_apart (be_sha b)"
  shows "\<not> snd (Report name (fst (Run (bench_lab b (base_url t)) t \<lparr>wo_server = s, wo_now = now\<rparr>)))"
proof -
  have wi: "wr_leases wi = contract_auth (be_sha b) None" "\<not> be_hosted b" using assms(1,3) by (auto simp: contract_configured)
  have s: "s = newServer ver hash (NewStore t0) d (contract_auth (be_sha b) None)"
    using assms(2) contract_served [of ver hash io t0 "''''" d "contract_auth (be_sha b) None"] by (simp add: wi)
  have rb: "relay_bench b t (contract_auth (be_sha b) None) (contract_tokens (be_sha b))"
    by (rule contract_bench [OF assms(10,11) wi(2) assms(6,7)]) simp
  have tg: "tg_Station t = ''st1''" "tg_ControlPlane t = None" "tg_AuthoriserSaw t = None" "\<not> tg_Tenancy t" "tg_SignLease t = Some sign"
    by (simp_all add: assms(10) conformance_target_def)
  have "path_name ''st1''" by code_simp
  then show ?thesis
    by (intro relay_bench.unsigned_suite_reports [OF rb]) (use assms(4,5,8,9) tg in \<open>simp_all add: s newServer_sel contract_auth_def\<close>)
qed

theorem unsigned_relay_fails_witness:
  "\<not> snd (Report ''go'' (fst (Run (bench_lab sample_bench (base_url sample_target)) sample_target
     \<lparr>wo_server = newServer ''v1'' ''f00d'' (NewStore 0) \<lparr>vol = [], dur = []\<rparr> (contract_auth sample_sha None), wo_now = sample_now\<rparr>)))"
proof (rule unsigned_relay_fails [OF _ _ _ _ _ _ _ _ _ sample_target_def])
  let ?wi = "\<lparr>wr_hosted = False, wr_leases = contract_auth sample_sha None\<rparr>"
  show "configure sample_ed (be_sha sample_bench) (contract_environ\<lparr>ev_LEASE_KEY := ''''\<rparr>) = Inr (?wi, 2)" by (simp only: sample_conditions(4) contract_configured(2))
  show "serve ''v1'' ''f00d'' io_fine 0 (contract_environ\<lparr>ev_LEASE_KEY := ''''\<rparr>) \<lparr>vol = [], dur = []\<rparr> (wr_leases ?wi) =
      Inr (newServer ''v1'' ''f00d'' (NewStore 0) \<lparr>vol = [], dur = []\<rparr> (contract_auth sample_sha None))"
    by (simp add: contract_served)
  show "be_hosted sample_bench = wr_hosted ?wi" using sample_conditions(5) by simp
  show "valid_utf8 ''v1''" "valid_utf8 ''f00d''" by (rule valid_utf8_ascii; simp add: in_range_def)+
  show "\<forall>T. \<bar>zone (be_wire sample_bench) T\<bar> < 86400" "\<forall>q T. 0 \<le> be_lag sample_bench q T \<and> be_lag sample_bench q T \<le> slack"
    using sample_conditions(2,3) by blast+
  show "Hour \<le> sample_now" "sample_now + 240 * Minute \<le> horizon" by (simp_all add: sample_now_def horizon_def duration_defs)
  show "tokens_apart (be_sha sample_bench)" unfolding sample_conditions(4) by (rule sample_conditions(1))
qed

end
