(* ===== verification/Spec2Isabelle.thy ===== *)
theory Spec2Isabelle
  imports Relay_Life Relay_Reported
begin

text \<open>
  A verification of heliograph-relay, the Go server in \<^verbatim>\<open>src/\<close> that stores messages it cannot read for a control and its
  stations and hands them out when they poll.

  \<^bold>\<open>The program.\<close> A client writes a message to a route (an estate, a station and one of two directions) with
  \<^verbatim>\<open>POST\<close>, collects with \<^verbatim>\<open>GET\<close> and acknowledges a leased collection with \<^verbatim>\<open>POST .../ack\<close>. The handlers of
  \<^verbatim>\<open>server.go\<close> first ask an authoriser, then call the store of \<^verbatim>\<open>relay.go\<close> and \<^verbatim>\<open>lease.go\<close>, then tell the authoriser what moved.
  The store keeps one queue per route in memory and, when a spool directory is configured, one file per message
  (\<^verbatim>\<open>spool.go\<close>). A collection that finds nothing waits on a channel until a write wakes it, its time is up, its client hangs
  up or its authority is withdrawn. The authoriser is chosen from the environment by \<^verbatim>\<open>cmd/heliograph-relay/main.go\<close>: a static
  table of tokens (\<^verbatim>\<open>server.go\<close>), per-station scopes (\<^verbatim>\<open>scope.go\<close>) or a service asked over HTTP (\<^verbatim>\<open>remote.go\<close>); a hosted relay
  wraps it in a check for named stations (\<^verbatim>\<open>scope.go\<close>), and every relay wraps it in a check for signed leases
  (\<^verbatim>\<open>authlease.go\<close>, \<^verbatim>\<open>verify.go\<close>).

  \<^bold>\<open>The theories.\<close> Definitions have the names of the source where Isabelle allows it; a method \<^verbatim>\<open>T.f\<close> is \<open>T_f\<close> where
  the bare name is taken, and the fields of a struct carry a short prefix.

  \<^item> \<open>Relay_Prelude\<close>: byte strings, splitting, trimming, Go maps as association lists, decimal and hexadecimal
    text, UTF-8, durations and times. \<open>Relay_Types\<close>: routes, keys, errors, reasons with their status codes, requests,
    grants, scopes, settlements (\<^verbatim>\<open>relay.go\<close>, \<^verbatim>\<open>auth.go\<close>, \<^verbatim>\<open>scope.go\<close>).
  \<^item> \<open>Go_Json\<close>, \<open>Go_Base64\<close>, \<open>Go_Stream\<close>, \<open>Go_Float\<close>: the parts of the Go library the code's behaviour depends on.
    The JSON writer and reader with a round trip, base64 in its spellings, a decoder that reads one value from a
    stream and stops there, also when the stream is cut or over its limit, and float64 parsing with correct rounding.
  \<^item> \<open>Relay_Auth\<close>: the authorisation seam of \<^verbatim>\<open>auth.go\<close> with its contract as the locale \<open>admission\<close>, and the static
    tokens. \<open>Relay_Scope\<close>: scopes, the scoped authoriser, \<^verbatim>\<open>Hosted\<close> and the configuration parser. \<open>Relay_Remote\<close>: the
    authoriser over HTTP with its cache. \<open>Relay_Verify\<close> and \<open>Relay_Authority\<close>: keys, lease tokens, the checks on them,
    revocation and the polls held under a lease. Each interprets the contract on its own decision function.
  \<^item> \<open>Relay_Store\<close> and \<open>Relay_Lease\<close>: the store's record and operations, their exact effect on the queues, and
    the invariant of every run. \<open>Relay_Spool\<close>: the file format, writing, removing and loading on a model of a
    directory. \<open>Relay_Durable\<close>: the store and its directory together, through a power cut. \<open>Relay_Life\<close>: the same
    through any number of power cuts between operations and of restarts; an acknowledgement excuses the loss of a message only when it was
    accepted, under a lease in force.
  \<^item> \<open>Relay_Query\<close>: the query parameters. \<open>Relay_Server\<close>: the handlers, over any authoriser and over the store
    through the locale \<open>mailbox\<close>. \<open>Relay_System\<close>: handlers that run at the same time. \<open>Relay_Main\<close>: the binary.
  \<^item> \<open>Go_Encode\<close>: writing any JSON value and the text of an instant. \<open>Relay_Wire\<close>: the routes of \<^verbatim>\<open>Server.Routes\<close> and the
    texts of the answers. \<open>Relay_Suite\<close>: the conformance suite (\<^verbatim>\<open>conformance/conformance.go\<close>), a client with its assertions, over a
    world it cannot look into.
  \<^item> \<open>Relay_Answers\<close>: what a client reads from the texts, and the shape of every answer.
  \<^item> \<open>Relay_Contract\<close>: an abstract relay (queues of messages, each free or leased, and a verdict on every request) as the locale
    \<open>relay_contract\<close>, \<open>signed_contract\<close> with a signing key, and the suite run against its laws. \<open>Relay_Checks\<close>: what a run records whatever the relay answers, by name. \<open>Relay_Bench\<close>: the server with a clock and a network as the world
    of the suite, and the abstraction from a store to the queues. \<open>Relay_Transport\<close>, \<open>Relay_Conformance\<close>, \<open>Relay_Polls\<close>: the laws, from the
    handlers. \<open>Relay_Certified\<close>: the bench as a contract, the configuration the conformance command documents, and the run.
    \<open>Relay_Reported\<close>: a run that has to fail.
  \<^item> This theory: what a client sees of the whole.

  \<^bold>\<open>State and effects.\<close> A struct is a record; a method takes and returns it. Errors are the left values of a sum.
  What comes from outside is a parameter: the readings of the clock (\<open>clk i\<close> is the i-th of a call), the answers of
  the disk (\<open>io\<close>, every call may fail), the names of temporary files, SHA-256, Ed25519 verification, the remote service, and what the
  machine makes of a float64 outside the range of an integer. Mutexes make the methods of the store and the table of
  waiters atomic; \<open>sys_step\<close> interleaves exactly these critical sections. A directory holds, for
  each name, what has been written and what has been flushed; a power cut keeps the flushed entries, and of the others
  any subset, with any bytes in files that were not flushed. It falls between two operations. Names in what is spooled are
  valid UTF-8 in the properties on durability, since the spool changes others, which is a property of its own.

  \<^bold>\<open>What is shown.\<close>

  \<^item> Durability: through any life of operations, disk failures, power cuts and restarts every queue keeps its messages in
    order, except what was handed out, acknowledged or past its time; so a 202 is a promise, at the store and over
    HTTP; and collected files are gone.
  \<^item> The store: the invariant of every run; the exact effect of each operation; a lease that is acknowledged in time is a
    destructive collection, one that runs out leaves no trace, and one in force hides its messages.
  \<^item> Handlers: what is refused at the door changes nothing; an admitted call is settled exactly once, with what
    really moved; the largest body that can arrive.
  \<^item> Concurrency: the table of waiters is exactly the held polls, and a registered poll misses no message; before it is
    registered it can.
  \<^item> Authorisation: which tokens and scopes admit what, how long a lease or a cached answer outlives its withdrawal,
    that in an outage exactly the leases in force are admitted, and that the binary's wiring keeps a hosted relay's tenants and the two sides of an estate apart.
  \<^item> Conformance: the contract of the suite refined to the Go server, so that the binary in the documented configuration, without a spool, makes and passes each of
    the checks that need no lever of the harness; the sections on an outage of the authoriser, on what it is sent and on tenants are not run, the two assertions of
    durability are skipped, and of these nothing is shown by way of the suite. The run fails without the lease key.
  \<^item> Texts: every answer has one of three shapes, and a collection is read back as stored; spool files, lease tokens and keys are read back as written; lease durations are exact.
  \<^item> Where the code does not do what it says: reused message ids, routes and questions that share a key, scopes that merge,
    names changed by the spool, a lost wake-up, a lease parameter that is silently ignored, an estate-wide lease that
    passes a hosted relay, a revocation that misses a poll, a size limit that cannot be reached, a HEAD request that collects, a section of the suite that is
    not skipped, and sections that were not run but are counted as passed.

  \<^bold>\<open>Bounds and fuel.\<close> The JSON reader recurses on fuel: \<open>json_fuel\<close>, twice the length of its input plus one, is enough, since
  \<open>json_fuel_enough\<close> shows that more gives the same answer. The nesting limit of \<^verbatim>\<open>encoding/json\<close>, 10000, is in the model.
  The runs of the suite are counted: \<open>state n\<close> has room for \<open>n\<close> more requests before \<open>horizon\<close>, and 120 are enough for all of them.
  Counters are 64-bit words and wrap; where a property needs room in a counter it says so. Times are integers of
  nanoseconds, and the 64-bit saturation of \<^verbatim>\<open>time.Sub\<close> is written out.

  \<^bold>\<open>Not modelled.\<close> The flags of the conformance command, the control plane it can serve and the processes it starts, so the suite with levers; a
  power cut in the middle of an operation; URLs with escapes, in the bench of the suite;
  the lines of detail in the suite's report; the Edge Worker, a second implementation in TypeScript; log lines; HTTP parsing and
  the cleaning of paths, which \<^verbatim>\<open>net/http\<close> does; the
  listener, the signals and the hash of the executable; \<^verbatim>\<open>authCtx\<close>, which only forwards cancellation.
\<close>

section \<open>Properties that span the components\<close>

lemma durable_put_run:
  defines "s \<equiv> NewAuthorisingServer (fst sample_open) (snd sample_open) ([] :: settlement list)"
  shows "\<exists>r s'. Server_put recording (sample_env\<lparr>e_clk := (\<lambda>_. 5)\<rparr>) sample_http s = (r, s') \<and> rs_status r = 202"
proof -
  let ?e = "sample_env\<lparr>e_clk := (\<lambda>_. 5)\<rparr>" and ?i = "\<lparr>in_Seq = 7, in_Body = ''hi''\<rparr>"
  let ?m = "put_message sample_http ?i" and ?sp = "\<lparr>sp_dir = ''spool'', sp_next = 1\<rparr>"
  have v: "validRoute (m_Estate ?m) (m_Station ?m) (m_Dir ?m)" "int (length (m_Body ?m)) \<le> MaxBodyBytes"
    "key ''e1'' ''st'' c2s = key (m_Estate ?m) (m_Station ?m) (m_Dir ?m)"
    by (simp_all add: put_message_def sample_http_def MaxBodyBytes_def)
  have "fst (Put io_fine (\<lambda>_. 5) ?m (fst sample_open) (snd sample_open)) = Inr ()"
  proof -
    let ?m1 = "?m\<lparr>m_At := 5, m_ID := fst (nextIDLocked (fst sample_open))\<rparr>"
    obtain fl d' where "spool_write io_fine ?m1 ?sp empty_disk = (Some fl, ?sp\<lparr>sp_next := sp_next ?sp + 1\<rparr>, d')"
      using spool_write_fine [of empty_disk ?m1 ?sp] by (auto simp: empty_disk_def)
    then show ?thesis unfolding Put_eq [OF v]
      by (simp add: sample_open_eq(1) NewStore_def DefaultMaxQueue_def expireLocked_def queue_def live_def)
  qed
  then have put: "fst (Put (e_io ?e) (e_clk ?e) ?m (sv_store s) (sv_disk s)) = Inr ()"
    by (simp add: s_def NewAuthorisingServer_def sample_env_def)
  have "put_limit (allowing sc) = MaxBodyBytes" for sc by (simp add: put_limit_def)
  then have lim: "\<not> put_limit (allowing sc) < 2" for sc by (simp add: MaxBodyBytes_def)
  obtain r k s' where run: "Server_put_store recording ?e sample_http s = (r, k, s')" by (metis prod_cases3)
  have "r = \<lparr>rs_status = 202, rs_payload = NoPayload\<rparr>"
    using run put lim sample_dir
    by (auto simp: Server_put_store_def Let_def admit_eq sample_admit sample_decode on_store_eq split: sum.splits)
  with run show ?thesis by (simp add: Server_put_def)
qed

text \<open>
  Property C2. A 202 survives the power cut. When a relay with a spool, in good order, answers a write over HTTP with 202, whoever
  authorised it, the names of its estate and station being valid UTF-8 (others are read back changed, into another queue), the clock within 64 bits of nanoseconds
  and the file counter not at its end, then a power cut in the next moment, in its worst form, followed by a start of the binary on the same
  spool directory that can read its files, finds the message in the queue of its route, with the body and the sequence
  number that were in the request.
\<close>

theorem accepted_over_http_survives:
  fixes au :: "('st, 'w) authoriser" and hr :: http_request and e :: env and s :: "'st server"
  defines "g \<equiv> fst (au_Admit au (sv_auth s) (request_of hr OpWrite (hr_ContentLength hr) (e_started e)))"
  assumes inv: "spooled_inv (sv_store s) (sv_disk s)" and names: "valid_utf8 (hr_estate hr)" "valid_utf8 (hr_station hr)"
    and clock: "- (2 ^ 63) \<le> e_clk e 1" "e_clk e 1 < 2 ^ 63"
    and room: "s_spool (sv_store s) = Some sp" "unat (sp_next sp) < 2 ^ 64 - 1"
    and run: "Server_put au e hr s = (r, s')" and ok: "rs_status r = 202"
    and restart: "\<And>n. io_read w n" "TrimSpace (ev_SPOOL ev) \<noteq> ''''"
      "open_store w t ev (power_cut keep junk (sv_disk s')) = Inr (st2, d2)"
  shows "\<exists>i. put_decode g hr = Inr i \<and>
    (\<exists>m \<in> set (queue st2 (key (hr_estate hr) (hr_station hr) (hr_dir hr))). m_Body m = in_Body i \<and> m_Seq m = in_Seq i)"
proof -
  obtain i where i: "put_decode g hr = Inr i"
    "Put (e_io e) (e_clk e) (put_message hr i) (sv_store s) (sv_disk s) = (Inr (), sv_store s', sv_disk s')"
    using put_202 [OF run ok] unfolding g_def by metis
  obtain rep where o: "OpenSpool w (TrimSpace (ev_SPOOL ev)) (NewStore t) (power_cut keep junk (sv_disk s')) = (Inr rep, st2, d2)"
    using restart(2,3) by (auto simp: open_store_def Let_def split: prod.splits sum.splits)
  let ?m = "put_message hr i"
  have m: "valid_utf8 (m_Estate ?m)" "valid_utf8 (m_Station ?m)" "free ?m" "m_leaseUntil ?m = zero_time"
    "msg_key ?m = key (hr_estate hr) (hr_station hr) (hr_dir hr)" "m_Body ?m = in_Body i" "m_Seq ?m = in_Seq i"
    using names by (simp_all add: put_message_def free_def msg_key_def)
  from put_survives [OF inv m(1,2) clock m(3,4) room i(2) restart(1) o] i(1) m(5-7) show ?thesis by auto
qed

theorem accepted_over_http_survives_witness:
  "\<exists>r s' st2 d2. Server_put recording (sample_env\<lparr>e_clk := (\<lambda>_. 5)\<rparr>) sample_http
       (NewAuthorisingServer (fst sample_open) (snd sample_open) []) = (r, s') \<and> rs_status r = 202 \<and>
     open_store io_fine 8 (sample_environ\<lparr>ev_SPOOL := ''spool''\<rparr>) (power_cut (\<lambda>_. False) (\<lambda>_. ''junk'') (sv_disk s')) = Inr (st2, d2) \<and>
     ''hi'' \<in> m_Body ` set (queue st2 (key ''e1'' ''st'' c2s))"
proof -
  let ?e = "sample_env\<lparr>e_clk := (\<lambda>_. 5)\<rparr>" and ?s = "NewAuthorisingServer (fst sample_open) (snd sample_open) ([] :: settlement list)"
  let ?ev = "sample_environ\<lparr>ev_SPOOL := ''spool''\<rparr>"
  obtain r s' where run: "Server_put recording ?e sample_http ?s = (r, s')" "rs_status r = 202" using durable_put_run by blast
  have t: "TrimSpace ''spool'' = ''spool''" by code_simp
  obtain rep st2 d2 where o: "OpenSpool io_fine ''spool'' (NewStore 8) (power_cut (\<lambda>_. False) (\<lambda>_. ''junk'') (sv_disk s')) = (Inr rep, st2, d2)"
    using OpenSpool_fine [of "''spool''"] t by fastforce
  then have op: "open_store io_fine 8 ?ev (power_cut (\<lambda>_. False) (\<lambda>_. ''junk'') (sv_disk s')) = Inr (st2, d2)"
    by (simp add: open_store_def t)
  have inv: "spooled_inv (sv_store ?s) (sv_disk ?s)" using sample_open_inv by (simp add: NewAuthorisingServer_def)
  have u: "valid_utf8 (hr_estate sample_http)" "valid_utf8 (hr_station sample_http)" "s_spool (sv_store ?s) = Some \<lparr>sp_dir = ''spool'', sp_next = 1\<rparr>"
    by (auto simp: sample_http_def NewAuthorisingServer_def sample_open_eq(1) in_range_def intro!: valid_utf8_ascii)
  have k: "- (2 ^ 63) \<le> e_clk ?e 1" "e_clk ?e 1 < 2 ^ 63" "unat (sp_next \<lparr>sp_dir = ''spool'', sp_next = 1\<rparr>) < 2 ^ 64 - 1"
    "\<And>n. io_read io_fine n" "TrimSpace (ev_SPOOL ?ev) \<noteq> ''''"
    by (simp_all add: io_fine_def t)
  from accepted_over_http_survives [OF inv u(1,2) k(1,2) u(3) k(3) run k(4,5) op]
  obtain i m where "put_decode (fst (au_Admit recording (sv_auth ?s) (request_of sample_http OpWrite (hr_ContentLength sample_http) (e_started ?e)))) sample_http = Inr i"
    "m \<in> set (queue st2 (key (hr_estate sample_http) (hr_station sample_http) (hr_dir sample_http)))" "m_Body m = in_Body i"
    by blast
  then have m: "m \<in> set (queue st2 (key (hr_estate sample_http) (hr_station sample_http) (hr_dir sample_http)))" "m_Body m = ''hi''"
    by (auto simp: sample_decode)
  then have "''hi'' \<in> m_Body ` set (queue st2 (key ''e1'' ''st'' c2s))"
    by (intro image_eqI [of _ _ m]) (simp_all add: sample_http_def)
  with run op show ?thesis by blast
qed

text \<open>
  Property C6. A station's token cannot queue a request. In a relay configured from a list of estates whose tokens the hash
  tells apart, a write to the control's direction of an estate with the token that publishes for its stations is
  answered 401 and moves nothing, hosted or not, whatever lease key is configured and however long the relay has run, as
  long as the token does not have the form of an authorisation lease.
\<close>

theorem station_cannot_queue_over_http:
  assumes conf: "configure verify sha ev = Inr (wr, n)" "aa_Inner (wr_leases wr) = InnerStatic a"
    and hash: "inj_on sha (set (spec_tokens (ev_ESTATES ev)))"
    and station: "AllowWrite sha a (token hr) (hr_estate hr) st s2c" and dir: "hr_dir hr = c2s"
    and plain_token: "ParseAuthority (token hr) = Inl x" and state: "wired_run sha wr (sv_auth s)"
    and run: "Server_put (wired_authoriser sha post clk (wr_hosted wr)) e hr s = (r, s')"
  shows "rs_status r = 401 \<and> sv_store s' = sv_store s \<and> sv_disk s' = sv_disk s \<and> sv_waiters s' = sv_waiters s"
proof -
  let ?req = "request_of hr OpWrite (hr_ContentLength hr) (e_started e)"
  let ?g = "authAdapter_Admit (AllowRead sha a) (AllowWrite sha a) ?req"
  have "parse_estates sha (ev_ESTATES ev) = Inr a"
    using conf by (cases rule: configure_cases) (auto dest: wrap_fields(1))
  then have no: "\<not> AllowWrite sha a (token hr) (hr_estate hr) (hr_station hr) c2s"
    using no_token_for_both [OF _ hash] station by blast
  have refused: "\<not> g_Allow ?g" "reason_status (g_Reason ?g) = 401" "g_Reason ?g \<noteq> ReasonAllowed"
    using no dir by (auto simp: authAdapter_Admit_def Let_def request_of_def reason_status_def)
  have adm: "fst (au_Admit (wired_authoriser sha post clk (wr_hosted wr)) (sv_auth s) ?req) = ?g"
  proof -
    have "ParseAuthority (r_Credential ?req) = Inl x" using plain_token by (simp add: request_of_def)
    moreover have "aa_Inner (sv_auth s) = InnerStatic a" using wired_run_same [OF state] conf(2) by simp
    moreover have "wired_inner sha post (\<lambda>i. clk (Suc i)) (wr_hosted wr) (InnerStatic a) ?req = (?g, InnerStatic a)"
      using refused(1) by (simp add: wired_inner_def Hosted_Admit_def)
    ultimately show ?thesis
      by (simp add: wired_authoriser_def wired_Admit_def AuthorityAuth_Admit_def ask_inner_def)
  qed
  have "validDir (hr_dir hr)" using dir by (simp add: validDir_def)
  with run adm refused show ?thesis by (auto simp: Server_put_def Server_put_store_def Let_def admit_eq)
qed

theorem station_cannot_queue_over_http_witness:
  "\<exists>wr n r s'. configure (\<lambda>_ _ _. False) sample_sha (sample_environ\<lparr>ev_STATIONS := '''', ev_ESTATES := ''e1:c:s''\<rparr>) = Inr (wr, n) \<and>
     Server_put (wired_authoriser sample_sha (\<lambda>_. None) (\<lambda>_. 0) (wr_hosted wr)) sample_env (sample_http\<lparr>hr_Authorization := ''Bearer s''\<rparr>)
       (NewAuthorisingServer (NewStore 0) empty_disk (wr_leases wr)) = (r, s') \<and> rs_status r = 401"
proof -
  let ?ev = "sample_environ\<lparr>ev_STATIONS := '''', ev_ESTATES := ''e1:c:s''\<rparr>" and ?hr = "sample_http\<lparr>hr_Authorization := ''Bearer s''\<rparr>"
  have "(case configure (\<lambda>_ _ _. False) sample_sha ?ev of Inl _ \<Rightarrow> False
    | Inr (wr, n) \<Rightarrow> (case aa_Inner (wr_leases wr) of InnerStatic a \<Rightarrow> AllowWrite sample_sha a ''s'' ''e1'' ''st'' s2c | _ \<Rightarrow> False))"
    by code_simp
  then obtain wr n a where c: "configure (\<lambda>_ _ _. False) sample_sha ?ev = Inr (wr, n)" "aa_Inner (wr_leases wr) = InnerStatic a"
    and w: "AllowWrite sample_sha a ''s'' ''e1'' ''st'' s2c"
    by (auto split: sum.splits inner_auth.splits)
  have h: "inj_on sample_sha (set (spec_tokens (ev_ESTATES ?ev)))"
  proof -
    have "set (spec_tokens (ev_ESTATES ?ev)) = {''c'', ''s''}" by code_simp
    moreover have "sample_sha ''c'' \<noteq> sample_sha ''s''" by code_simp
    ultimately show ?thesis by simp
  qed
  have t: "token ?hr = ''s''" by code_simp
  have d: "hr_dir ?hr = c2s" "hr_estate ?hr = ''e1''" by (simp_all add: sample_http_def)
  have p: "ParseAuthority (token ?hr) = Inl ErrNotAnAuthority" unfolding t by code_simp
  have a: "wired_run sample_sha wr (sv_auth (NewAuthorisingServer (NewStore 0) empty_disk (wr_leases wr)))"
    by (simp add: NewAuthorisingServer_def wired_run.start)
  have w': "AllowWrite sample_sha a (token ?hr) (hr_estate ?hr) ''st'' s2c" unfolding t d(2) by (rule w)
  obtain r s' where run: "Server_put (wired_authoriser sample_sha (\<lambda>_. None) (\<lambda>_. 0) (wr_hosted wr)) sample_env ?hr
      (NewAuthorisingServer (NewStore 0) empty_disk (wr_leases wr)) = (r, s')" by force
  from station_cannot_queue_over_http [OF c h w' d(1) p a run] c(1) run show ?thesis by blast
qed

end
